(* ===== verification/Prelude.thy ===== *)
theory Prelude
  imports Main "HOL-Library.Sublist" "HOL-Library.AList"
begin

text \<open>
  The prelude of the development: the collections of simplification and introduction rules the
  component theories fill, the sum-type error plumbing they share, generic facts on lists and
  maps, and the two interfaces every stateful component and every wire encoding is an instance
  of: a transition system with an invariant (\<open>invariant_system\<close>) and a prefix codec (\<open>codec\<close>).
\<close>

named_theorems scan_simps \<open>equations of the byte scanners\<close>
named_theorems scan_bounds \<open>bounds on the index a scanner returns\<close>
named_theorems inv_intros \<open>preservation of the components' invariants\<close>

section \<open>Errors as sums\<close>

text \<open>
  A Go function that returns \<open>(value, error)\<close> is a value of \<open>'e + 'a\<close>: \<open>Inl\<close> for the error
  return, \<open>Inr\<close> for the normal one. \<open>bind_r\<close> is the early return on error.
\<close>

definition bind_r :: "('err + 'val) \<Rightarrow> ('val \<Rightarrow> ('err + 'res)) \<Rightarrow> ('err + 'res)" where
  "bind_r m f = (case m of Inr v \<Rightarrow> f v | Inl e \<Rightarrow> Inl e)"

lemma bind_r_simps [simp]:
  "bind_r (Inl e) f = Inl e"
  "bind_r (Inr a) f = f a"
  by (simp_all add: bind_r_def)

lemma bind_r_Inr: "bind_r m f = Inr b \<longleftrightarrow> (\<exists>a. m = Inr a \<and> f a = Inr b)"
  by (auto simp: bind_r_def split: sum.splits)

section \<open>Lists\<close>

lemma nth_append_mid [simp]: "(xs @ y # ys) ! length xs = y"
  by simp

lemma take_append_len [simp]: "take (length xs) (xs @ ys) = xs"
  by simp

lemma drop_append_len [simp]: "drop (length xs) (xs @ ys) = ys"
  by simp

lemma takeWhile_append_stop:
  "(\<And>x. x \<in> set xs \<Longrightarrow> P x) \<Longrightarrow> ys = [] \<or> \<not> P (hd ys) \<Longrightarrow> takeWhile P (xs @ ys) = xs"
  by (cases ys) auto

lemma dropWhile_append_stop:
  "(\<And>x. x \<in> set xs \<Longrightarrow> P x) \<Longrightarrow> ys = [] \<or> \<not> P (hd ys) \<Longrightarrow> dropWhile P (xs @ ys) = ys"
  by (cases ys) auto

lemma length_dropWhile_less:
  "xs \<noteq> [] \<Longrightarrow> P (hd xs) \<Longrightarrow> length (dropWhile P xs) < length xs"
  by (cases xs) (auto simp: length_dropWhile_le le_imp_less_Suc)

section \<open>Association lists\<close>

text \<open>Go's maps are association lists with distinct keys.\<close>

lemma set_AList_update:
  "distinct (map fst xs) \<Longrightarrow>
     p \<in> set (AList.update s n xs) \<longleftrightarrow> p = (s, n) \<or> (p \<in> set xs \<and> fst p \<noteq> s)"
  by (induction xs) force+

lemma set_AList_delete: "p \<in> set (AList.delete s xs) \<longleftrightarrow> p \<in> set xs \<and> fst p \<noteq> s"
  by (cases p) (auto simp: AList.delete_eq)

lemma AList_update_ne [simp]: "AList.update k v xs \<noteq> []"
  by (induction xs) auto

section \<open>Transition systems and invariants\<close>

text \<open>
  The interface between a component's step relation and its invariant: the invariant holds of the
  starting states and every step keeps it. What a client gets is that it holds after any number
  of steps. Each stateful component interprets it on its own steps.
\<close>

locale invariant_system =
  fixes init :: "'s \<Rightarrow> bool"
    and step :: "'s \<Rightarrow> 's \<Rightarrow> bool"
    and inv :: "'s \<Rightarrow> bool"
  assumes inv_init: "init s \<Longrightarrow> inv s"
    and inv_step: "inv s \<Longrightarrow> step s t \<Longrightarrow> inv t"
begin

lemma inv_steps: "step\<^sup>*\<^sup>* s t \<Longrightarrow> inv s \<Longrightarrow> inv t"
  by (induction rule: rtranclp_induct) (auto intro: inv_step)

lemma inv_reachable: "init s \<Longrightarrow> step\<^sup>*\<^sup>* s t \<Longrightarrow> inv t"
  by (rule inv_steps) (auto intro: inv_init)

end

section \<open>Prefix codecs\<close>

text \<open>
  A prefix codec reads one encoded value off the front of a buffer and returns it with what
  follows. The law is the round trip on any continuation; from it a counted sequence of values
  round-trips too, which is how the protocol's messages carry their fields.
\<close>

fun decode_n :: "('b list \<Rightarrow> ('a \<times> 'b list) option) \<Rightarrow> nat \<Rightarrow> 'b list \<Rightarrow> ('a list \<times> 'b list) option" where
  "decode_n dec 0 bs = Some ([], bs)"
| "decode_n dec (Suc n) bs =
     (case dec bs of None \<Rightarrow> None
      | Some (x, bs') \<Rightarrow>
          (case decode_n dec n bs' of None \<Rightarrow> None | Some (xs, bs'') \<Rightarrow> Some (x # xs, bs'')))"

locale codec =
  fixes enc :: "'a \<Rightarrow> 'b list"
    and dec :: "'b list \<Rightarrow> ('a \<times> 'b list) option"
    and valid :: "'a \<Rightarrow> bool"
  assumes dec_enc: "valid x \<Longrightarrow> dec (enc x @ rest) = Some (x, rest)"
begin

lemma dec_enc_end: "valid x \<Longrightarrow> dec (enc x) = Some (x, [])"
  using dec_enc [of x "[]"] by simp

lemma enc_inj: "valid x \<Longrightarrow> valid y \<Longrightarrow> enc x = enc y \<Longrightarrow> x = y"
  by (metis dec_enc_end option.inject prod.inject)

lemma decode_n_enc:
  "list_all valid xs \<Longrightarrow> decode_n dec (length xs) (concat (map enc xs) @ rest) = Some (xs, rest)"
  by (induction xs) (auto simp: dec_enc)

lemma enc_prefix_free:
  "valid x \<Longrightarrow> valid y \<Longrightarrow> enc x @ r = enc y @ r' \<Longrightarrow> x = y \<and> r = r'"
  by (metis dec_enc option.inject prod.inject)

end

end
