(* ===== verification/GoStrings.thy ===== *)
theory GoStrings
  imports Prelude
begin

text \<open>
  The functions of Go's \<open>strings\<close> and \<open>strconv\<close> packages the program calls, on strings as
  lists of bytes. A Go string is a byte sequence and \<open>char\<close> is a byte, so \<open>len\<close>, indexing and
  slicing are those of lists. Case mapping and white space are those of ASCII: a byte of a
  multi-byte UTF-8 sequence is never a letter, a digit or a space here.
  An index that Go returns as -1 is \<open>None\<close>.
\<close>

abbreviation code :: "char \<Rightarrow> nat" where
  "code c \<equiv> of_char c"

section \<open>Character classes\<close>

definition is_upper :: "char \<Rightarrow> bool" where
  "is_upper c \<longleftrightarrow> 65 \<le> code c \<and> code c \<le> 90"

definition is_lower :: "char \<Rightarrow> bool" where
  "is_lower c \<longleftrightarrow> 97 \<le> code c \<and> code c \<le> 122"

definition is_digit :: "char \<Rightarrow> bool" where
  "is_digit c \<longleftrightarrow> 48 \<le> code c \<and> code c \<le> 57"

definition is_space :: "char \<Rightarrow> bool" where
  "is_space c \<longleftrightarrow> code c = 32 \<or> (9 \<le> code c \<and> code c \<le> 13)"

definition to_lower :: "char \<Rightarrow> char" where
  "to_lower c = (if is_upper c then char_of (code c + 32) else c)"

definition to_upper :: "char \<Rightarrow> char" where
  "to_upper c = (if is_lower c then char_of (code c - 32) else c)"

definition ToLower :: "string \<Rightarrow> string" where
  "ToLower s = map to_lower s"

definition ToUpper :: "string \<Rightarrow> string" where
  "ToUpper s = map to_upper s"

definition EqualFold :: "string \<Rightarrow> string \<Rightarrow> bool" where
  "EqualFold s t \<longleftrightarrow> ToLower s = ToLower t"

section \<open>Prefixes, suffixes and searching\<close>

definition HasPrefix :: "string \<Rightarrow> string \<Rightarrow> bool" where
  "HasPrefix s p \<longleftrightarrow> take (length p) s = p"

definition HasSuffix :: "string \<Rightarrow> string \<Rightarrow> bool" where
  "HasSuffix s p \<longleftrightarrow> length p \<le> length s \<and> drop (length s - length p) s = p"

definition TrimPrefix :: "string \<Rightarrow> string \<Rightarrow> string" where
  "TrimPrefix s p = (if HasPrefix s p then drop (length p) s else s)"

definition TrimSuffix :: "string \<Rightarrow> string \<Rightarrow> string" where
  "TrimSuffix s p = (if HasSuffix s p then take (length s - length p) s else s)"

fun Index :: "string \<Rightarrow> string \<Rightarrow> nat option" where
  "Index [] p = (if p = [] then Some 0 else None)"
| "Index (c # s) p = (if HasPrefix (c # s) p then Some 0 else map_option Suc (Index s p))"

fun index_where :: "(char \<Rightarrow> bool) \<Rightarrow> string \<Rightarrow> nat option" where
  "index_where P [] = None"
| "index_where P (c # s) = (if P c then Some 0 else map_option Suc (index_where P s))"

definition IndexByte :: "string \<Rightarrow> char \<Rightarrow> nat option" where
  "IndexByte s c = index_where (\<lambda>x. x = c) s"

definition IndexAny :: "string \<Rightarrow> string \<Rightarrow> nat option" where
  "IndexAny s cs = index_where (\<lambda>x. x \<in> set cs) s"

definition LastIndexByte :: "string \<Rightarrow> char \<Rightarrow> nat option" where
  "LastIndexByte s c = map_option (\<lambda>i. length s - 1 - i) (IndexByte (rev s) c)"

definition Contains :: "string \<Rightarrow> string \<Rightarrow> bool" where
  "Contains s p \<longleftrightarrow> Index s p \<noteq> None"

section \<open>Trimming, splitting, joining\<close>

definition TrimLeft :: "string \<Rightarrow> string \<Rightarrow> string" where
  "TrimLeft s cs = dropWhile (\<lambda>c. c \<in> set cs) s"

definition TrimRight :: "string \<Rightarrow> string \<Rightarrow> string" where
  "TrimRight s cs = rev (dropWhile (\<lambda>c. c \<in> set cs) (rev s))"

definition Trim :: "string \<Rightarrow> string \<Rightarrow> string" where
  "Trim s cs = TrimRight (TrimLeft s cs) cs"

definition TrimSpace :: "string \<Rightarrow> string" where
  "TrimSpace s = rev (dropWhile is_space (rev (dropWhile is_space s)))"

function Fields :: "string \<Rightarrow> string list" where
  "Fields s =
     (let r = dropWhile is_space s in
      if r = [] then []
      else takeWhile (\<lambda>c. \<not> is_space c) r # Fields (dropWhile (\<lambda>c. \<not> is_space c) r))"
  by pat_completeness auto
termination
proof (relation "measure length")
  fix s r :: string
  assume r: "r = dropWhile is_space s" and ne: "r \<noteq> []"
  then have "\<not> is_space (hd r)" by (metis hd_dropWhile)
  then have "length (dropWhile (\<lambda>c. \<not> is_space c) r) < length r"
    using ne by (intro length_dropWhile_less) auto
  also have "\<dots> \<le> length s" using r by (simp add: length_dropWhile_le)
  finally show "(dropWhile (\<lambda>c. \<not> is_space c) r, s) \<in> measure length" by simp
qed simp

declare Fields.simps [simp del]

text \<open>\<open>Split\<close> on a separator of one byte, as the program uses it.\<close>

fun SplitByte :: "string \<Rightarrow> char \<Rightarrow> string list" where
  "SplitByte [] d = [[]]"
| "SplitByte (c # s) d =
     (if c = d then [] # SplitByte s d
      else (case SplitByte s d of [] \<Rightarrow> [[c]] | w # ws \<Rightarrow> (c # w) # ws))"

fun Join :: "string list \<Rightarrow> string \<Rightarrow> string" where
  "Join [] sep = []"
| "Join [s] sep = s"
| "Join (s # t # ts) sep = s @ sep @ Join (t # ts) sep"

text \<open>\<open>Cut\<close> at the first occurrence of a one-byte separator.\<close>

definition CutByte :: "string \<Rightarrow> char \<Rightarrow> (string \<times> string) option" where
  "CutByte s d = map_option (\<lambda>i. (take i s, drop (Suc i) s)) (IndexByte s d)"

text \<open>\<open>ReplaceAll\<close> of a one-byte pattern.\<close>

definition ReplaceByte :: "string \<Rightarrow> char \<Rightarrow> string \<Rightarrow> string" where
  "ReplaceByte s c r = concat (map (\<lambda>x. if x = c then r else [x]) s)"

text \<open>\<open>ReplaceAll (s, "xx", "x")\<close>: collapsing a doubled byte, left to right.\<close>

fun undouble :: "char \<Rightarrow> string \<Rightarrow> string" where
  "undouble q [] = []"
| "undouble q [c] = [c]"
| "undouble q (c # d # s) = (if c = q \<and> d = q then q # undouble q s else c # undouble q (d # s))"

section \<open>Decimal integers\<close>

definition digit_char :: "nat \<Rightarrow> char" where
  "digit_char d = char_of (48 + d)"

fun nat_str :: "nat \<Rightarrow> string" where
  "nat_str n = (if n < 10 then [digit_char n] else nat_str (n div 10) @ [digit_char (n mod 10)])"

declare nat_str.simps [simp del]

definition FormatInt :: "int \<Rightarrow> string" where
  "FormatInt i = (if i < 0 then CHR ''-'' # nat_str (nat (- i)) else nat_str (nat i))"

fun digits_val :: "nat \<Rightarrow> string \<Rightarrow> nat option" where
  "digits_val acc [] = Some acc"
| "digits_val acc (c # s) = (if is_digit c then digits_val (10 * acc + (code c - 48)) s else None)"

definition in_int64 :: "int \<Rightarrow> bool" where
  "in_int64 i \<longleftrightarrow> - (2 ^ 63) \<le> i \<and> i < 2 ^ 63"

text \<open>\<open>strconv.ParseInt (s, 10, 64)\<close>: an optional sign, then digits only, within 64 bits.\<close>

definition ParseInt :: "string \<Rightarrow> int option" where
  "ParseInt s =
     (let neg = (s \<noteq> [] \<and> hd s = CHR ''-'');
          ds = (if s \<noteq> [] \<and> (hd s = CHR ''-'' \<or> hd s = CHR ''+'') then tl s else s) in
      if ds = [] then None
      else (case digits_val 0 ds of None \<Rightarrow> None
            | Some n \<Rightarrow> (let v = (if neg then - int n else int n) in
                         if in_int64 v then Some v else None)))"

text \<open>The \<open>%q\<close> verb on ASCII text: double quotes with the usual escapes.\<close>

definition goQuote :: "string \<Rightarrow> string" where
  "goQuote s =
     CHR 0x22 # concat (map (\<lambda>c.
        if c = CHR 0x22 \<or> c = CHR 0x5C then [CHR 0x5C, c]
        else if c = CHR 0x0A then [CHR 0x5C, CHR ''n'']
        else if c = CHR 0x09 then [CHR 0x5C, CHR ''t'']
        else if c = CHR 0x0D then [CHR 0x5C, CHR ''r'']
        else [c]) s) @ [CHR 0x22]"

section \<open>Facts\<close>

lemma length_ToLower [simp]: "length (ToLower s) = length s"
  by (simp add: ToLower_def)

lemma HasPrefix_append [simp]: "HasPrefix (p @ s) p"
  by (simp add: HasPrefix_def)

lemma HasPrefix_iff: "HasPrefix s p \<longleftrightarrow> (\<exists>r. s = p @ r)"
  by (metis HasPrefix_def append_eq_conv_conj append_take_drop_id)

lemma HasPrefix_Nil [simp]: "HasPrefix s []"
  by (simp add: HasPrefix_def)

lemma HasPrefix_Cons [simp]:
  "HasPrefix [] (c # p) = False"
  "HasPrefix (d # s) (c # p) = (d = c \<and> HasPrefix s p)"
  by (auto simp: HasPrefix_def)

lemma index_where_None: "index_where P s = None \<longleftrightarrow> (\<forall>c \<in> set s. \<not> P c)"
  by (induction s) auto

lemma index_where_append:
  "(\<forall>c \<in> set s. \<not> P c) \<Longrightarrow> index_where P (s @ t) = map_option (\<lambda>i. length s + i) (index_where P t)"
  by (induction s) (auto simp: option.map_comp comp_def map_option_case split: option.splits)

lemma IndexByte_mid: "d \<notin> set s \<Longrightarrow> IndexByte (s @ d # t) d = Some (length s)"
  unfolding IndexByte_def by (subst index_where_append) auto

lemma index_where_bound: "index_where P s = Some i \<Longrightarrow> i < length s \<and> P (s ! i)"
  by (induction s arbitrary: i) (auto split: if_splits)

lemma CutByte_mid: "d \<notin> set s \<Longrightarrow> CutByte (s @ d # t) d = Some (s, t)"
  by (simp add: CutByte_def IndexByte_mid)

lemma TrimSpace_id: "s = [] \<or> (\<not> is_space (hd s) \<and> \<not> is_space (last s)) \<Longrightarrow> TrimSpace s = s"
  by (cases "s = []") (auto simp: TrimSpace_def dropWhile_eq_self_iff [THEN iffD2] hd_rev)

lemma TrimRight_id: "s = [] \<or> last s \<notin> set cs \<Longrightarrow> TrimRight s cs = s"
  by (cases s rule: rev_cases) (auto simp: TrimRight_def)

lemma TrimLeft_id: "s = [] \<or> hd s \<notin> set cs \<Longrightarrow> TrimLeft s cs = s"
  by (cases s) (auto simp: TrimLeft_def)

lemma Trim_id: "s = [] \<or> (hd s \<notin> set cs \<and> last s \<notin> set cs) \<Longrightarrow> Trim s cs = s"
  by (auto simp: Trim_def TrimLeft_id TrimRight_id)

lemma SplitByte_ne [simp]: "SplitByte s d \<noteq> []"
  by (induction s) (auto split: list.splits)

lemma SplitByte_join:
  "ws \<noteq> [] \<Longrightarrow> \<forall>w \<in> set ws. d \<notin> set w \<Longrightarrow> SplitByte (Join ws [d]) d = ws"
proof (induction ws "[d]" rule: Join.induct)
  case (2 s)
  then show ?case
  proof (simp, induction s)
    case (Cons c s) then show ?case by auto
  qed simp
next
  case (3 s t ts)
  have "SplitByte (s @ d # r) d = s # SplitByte r d" if "d \<notin> set s" for r
    using that by (induction s) auto
  with 3 show ?case by simp
qed simp

lemma Join_SplitByte: "Join (SplitByte s d) [d] = s"
proof (induction s)
  case (Cons c s)
  then show ?case by (cases "SplitByte s d" rule: list.exhaust; cases "tl (SplitByte s d)")
      (auto split: list.splits)
qed simp

lemma SplitByte_no_sep: "w \<in> set (SplitByte s d) \<Longrightarrow> d \<notin> set w"
  by (induction s arbitrary: w) (auto split: list.splits if_splits)

lemma code_digit_char: "d < 10 \<Longrightarrow> code (digit_char d) = 48 + d"
  by (simp add: digit_char_def)

lemma is_digit_digit_char: "d < 10 \<Longrightarrow> is_digit (digit_char d)"
  by (simp add: is_digit_def code_digit_char)

lemma nat_str_ne [simp]: "nat_str n \<noteq> []"
  by (subst nat_str.simps) simp

lemma nat_str_digits: "list_all is_digit (nat_str n)"
proof (induction n rule: nat_str.induct)
  case (1 n)
  then show ?case by (subst nat_str.simps) (auto simp: is_digit_digit_char)
qed

lemma digits_val_append:
  "digits_val a (s @ t) = (case digits_val a s of None \<Rightarrow> None | Some b \<Rightarrow> digits_val b t)"
  by (induction s arbitrary: a) auto

lemma digits_val_nat_str: "digits_val 0 (nat_str n) = Some n"
proof (induction n rule: nat_str.induct)
  case (1 n)
  then show ?case
    by (subst nat_str.simps)
       (auto simp: digits_val_append code_digit_char is_digit_digit_char)
qed

lemma hd_nat_str_digit: "is_digit (hd (nat_str n))"
  using nat_str_digits [of n] by (cases "nat_str n") (simp_all add: list_all_iff)

lemma hd_nat_str_sign: "hd (nat_str n) \<noteq> CHR ''-''" "hd (nat_str n) \<noteq> CHR ''+''"
  using hd_nat_str_digit [of n] by (auto simp: is_digit_def)

lemma ParseInt_FormatInt: "in_int64 i \<Longrightarrow> ParseInt (FormatInt i) = Some i"
  by (auto simp: ParseInt_def FormatInt_def digits_val_nat_str hd_nat_str_sign Let_def)

lemma ParseInt_range: "ParseInt s = Some i \<Longrightarrow> in_int64 i"
  by (auto simp: ParseInt_def Let_def split: if_splits option.splits)

lemma FormatInt_chars: "c \<in> set (FormatInt i) \<Longrightarrow> is_digit c \<or> c = CHR ''-''"
  using nat_str_digits by (auto simp: FormatInt_def list_all_iff split: if_splits)

lemma FormatInt_ne [simp]: "FormatInt i \<noteq> []"
  by (simp add: FormatInt_def)


section \<open>Substrings\<close>

lemma Index_None_iff: "Index s p = None \<longleftrightarrow> (\<forall>a b. s \<noteq> a @ p @ b)"
proof (induction s)
  case Nil then show ?case by simp
next
  case (Cons c s)
  show ?case
  proof
    assume none: "Index (c # s) p = None"
    then have np: "\<not> HasPrefix (c # s) p" and "Index s p = None" by (simp_all split: if_splits)
    then have ih: "\<forall>a b. s \<noteq> a @ p @ b" using Cons.IH by simp
    show "\<forall>a b. c # s \<noteq> a @ p @ b"
    proof (intro allI notI)
      fix a b assume e: "c # s = a @ p @ b"
      show False
      proof (cases a)
        case Nil with e np show False by (simp add: HasPrefix_def)
      next
        case (Cons x a') with e ih show False by auto
      qed
    qed
  next
    assume all: "\<forall>a b. c # s \<noteq> a @ p @ b"
    have "\<not> HasPrefix (c # s) p"
    proof
      assume "HasPrefix (c # s) p"
      then have "c # s = [] @ p @ drop (length p) (c # s)"
        by (metis HasPrefix_def append_Nil append_take_drop_id)
      with all show False by blast
    qed
    moreover have "\<forall>a b. s \<noteq> a @ p @ b" using all by (metis append_Cons)
    ultimately show "Index (c # s) p = None" using Cons.IH by simp
  qed
qed

lemma Contains_iff: "Contains s p \<longleftrightarrow> (\<exists>a b. s = a @ p @ b)"
  using Index_None_iff [of s p] by (auto simp: Contains_def)

lemma Contains_trans: "Contains s t \<Longrightarrow> Contains t p \<Longrightarrow> Contains s p"
  unfolding Contains_iff by (metis append.assoc)

end
