(* ===== verification/Scanner.thy ===== *)
theory Scanner
  imports GoStrings
begin

text \<open>
  The byte scanners every part of the PostgreSQL front end is built on
  (\<open>blank.go\<close>, and the scanning helpers of \<open>multistatement.go\<close>, \<open>sequences.go\<close>, \<open>prepare.go\<close>,
  \<open>defaultexpr.go\<close>, \<open>grants.go\<close>, \<open>dialect.go\<close>, \<open>utility.go\<close>, \<open>extended.go\<close>).
  A scanner takes the statement and an index and returns an index, as in the source; each Go loop
  is a recursive function on the index whose distance to the end decreases. The bounds proved
  here (every skip makes progress and stays within the string) are what the termination proofs of
  the functions built on them use.
\<close>

section \<open>Bytes and slices\<close>

definition slice :: "string \<Rightarrow> nat \<Rightarrow> nat \<Rightarrow> string" where
  "slice s i j = take (j - i) (drop i s)"

definition isIdentStart :: "char \<Rightarrow> bool" where
  "isIdentStart c \<longleftrightarrow> c = CHR ''_'' \<or> is_lower c \<or> is_upper c"

definition isIdentPart :: "char \<Rightarrow> bool" where
  "isIdentPart c \<longleftrightarrow> isIdentStart c \<or> is_digit c"

definition isWordByte :: "char \<Rightarrow> bool" where
  "isWordByte b \<longleftrightarrow> b = CHR ''_'' \<or> is_lower b \<or> is_upper b \<or> is_digit b"

text \<open>The loop \<open>for j < len(s) && P(s[j]) { j++ }\<close>.\<close>

function scan_while :: "(char \<Rightarrow> bool) \<Rightarrow> string \<Rightarrow> nat \<Rightarrow> nat" where
  "scan_while P s j = (if j < length s \<and> P (s ! j) then scan_while P s (Suc j) else j)"
  by pat_completeness auto
termination by (relation "measure (\<lambda>(P, s, j). length s - j)") auto

declare scan_while.simps [simp del]

definition skipSpaces :: "string \<Rightarrow> nat \<Rightarrow> nat" where
  "skipSpaces sql p =
     scan_while (\<lambda>c. c = CHR '' '' \<or> c = CHR 0x09 \<or> c = CHR 0x0A \<or> c = CHR 0x0D) sql p"

section \<open>Quoted runs\<close>

text \<open>\<open>skipQuoted\<close> of \<open>defaultexpr.go\<close>: past the run quoted by \<open>q\<close> that starts at \<open>i\<close>, a doubled
  quote staying inside.\<close>

function skipQuoted_from :: "string \<Rightarrow> nat \<Rightarrow> char \<Rightarrow> nat" where
  "skipQuoted_from s i q =
     (if i < length s then
        if s ! i = q then
          if i + 1 < length s \<and> s ! (i + 1) = q then skipQuoted_from s (i + 2) q else i + 1
        else skipQuoted_from s (i + 1) q
      else length s)"
  by pat_completeness auto
termination by (relation "measure (\<lambda>(s, i, q). length s - i)") auto

declare skipQuoted_from.simps [simp del]

definition skipQuoted :: "string \<Rightarrow> nat \<Rightarrow> char \<Rightarrow> nat" where
  "skipQuoted s i q = skipQuoted_from s (i + 1) q"

text \<open>\<open>endOfStringLiteral\<close> of \<open>dialect.go\<close> and \<open>skipString\<close> of \<open>sequences.go\<close>: two independently
  written routines for single-quoted literals, which end with the index they stopped at.\<close>

function endOfStringLiteral_from :: "string \<Rightarrow> nat \<Rightarrow> nat" where
  "endOfStringLiteral_from sql j =
     (if j < length sql then
        if sql ! j = CHR 0x27 then
          if j + 1 < length sql \<and> sql ! (j + 1) = CHR 0x27 then endOfStringLiteral_from sql (j + 2)
          else j + 1
        else endOfStringLiteral_from sql (j + 1)
      else j)"
  by pat_completeness auto
termination by (relation "measure (\<lambda>(s, j). length s - j)") auto

declare endOfStringLiteral_from.simps [simp del]

definition endOfStringLiteral :: "string \<Rightarrow> nat \<Rightarrow> nat" where
  "endOfStringLiteral sql i = endOfStringLiteral_from sql (i + 1)"

function skipString_from :: "string \<Rightarrow> nat \<Rightarrow> nat" where
  "skipString_from sql j =
     (if j < length sql then
        if sql ! j = CHR 0x27 then
          if j + 1 < length sql \<and> sql ! (j + 1) = CHR 0x27 then skipString_from sql (j + 2)
          else j + 1
        else skipString_from sql (j + 1)
      else j)"
  by pat_completeness auto
termination by (relation "measure (\<lambda>(s, j). length s - j)") auto

declare skipString_from.simps [simp del]

definition skipString :: "string \<Rightarrow> nat \<Rightarrow> nat" where
  "skipString sql i = skipString_from sql (i + 1)"

text \<open>\<open>skipEscapeString\<close> of \<open>multistatement.go\<close>: an \<open>E'...'\<close> string, where a backslash escapes the
  byte after it.\<close>

function skipEscapeString_from :: "string \<Rightarrow> nat \<Rightarrow> nat" where
  "skipEscapeString_from sql j =
     (if j < length sql then
        if sql ! j = CHR 0x5C then skipEscapeString_from sql (j + 2)
        else if sql ! j = CHR 0x27 then
          if j + 1 < length sql \<and> sql ! (j + 1) = CHR 0x27 then skipEscapeString_from sql (j + 2)
          else j + 1
        else skipEscapeString_from sql (j + 1)
      else length sql)"
  by pat_completeness auto
termination by (relation "measure (\<lambda>(s, j). length s - j)") auto

declare skipEscapeString_from.simps [simp del]

definition skipEscapeString :: "string \<Rightarrow> nat \<Rightarrow> nat" where
  "skipEscapeString sql i = skipEscapeString_from sql (i + 1)"

section \<open>Comments and leading blanks\<close>

definition skipLineComment :: "string \<Rightarrow> nat \<Rightarrow> nat" where
  "skipLineComment sql i =
     (case IndexByte (drop i sql) (CHR 0x0A) of Some j \<Rightarrow> i + j + 1 | None \<Rightarrow> length sql)"

function skipBlockComment_from :: "string \<Rightarrow> nat \<Rightarrow> int \<Rightarrow> nat \<times> bool" where
  "skipBlockComment_from sql i depth =
     (if i < length sql then
        if HasPrefix (drop i sql) ''/*'' then skipBlockComment_from sql (i + 2) (depth + 1)
        else if HasPrefix (drop i sql) ''*/'' then
          if depth - 1 = 0 then (i + 2, True) else skipBlockComment_from sql (i + 2) (depth - 1)
        else skipBlockComment_from sql (i + 1) depth
      else (length sql, False))"
  by pat_completeness auto
termination by (relation "measure (\<lambda>(s, i, d). length s - i)") auto

declare skipBlockComment_from.simps [simp del]

definition skipBlockComment :: "string \<Rightarrow> nat \<Rightarrow> nat \<times> bool" where
  "skipBlockComment sql i = skipBlockComment_from sql i 0"

text \<open>The bytes \<open>executableStart\<close> steps over: white space and semicolons.\<close>

definition is_blank_byte :: "char \<Rightarrow> bool" where
  "is_blank_byte c \<longleftrightarrow> c = CHR '' '' \<or> c = CHR 0x09 \<or> c = CHR 0x0A \<or> c = CHR 0x0D \<or>
     c = CHR 0x0B \<or> c = CHR 0x0C \<or> c = CHR '';''"

definition at_line_comment :: "string \<Rightarrow> nat \<Rightarrow> bool" where
  "at_line_comment sql i \<longleftrightarrow>
     i + 1 < length sql \<and> sql ! i = CHR ''-'' \<and> sql ! (i + 1) = CHR ''-''"

definition at_block_comment :: "string \<Rightarrow> nat \<Rightarrow> bool" where
  "at_block_comment sql i \<longleftrightarrow>
     i + 1 < length sql \<and> sql ! i = CHR ''/'' \<and> sql ! (i + 1) = CHR ''*''"

section \<open>Progress and bounds\<close>

lemma scan_while_ge [scan_bounds]: "j \<le> scan_while P s j"
proof (induction P s j rule: scan_while.induct)
  case (1 P s j) then show ?case by (subst scan_while.simps) auto
qed

lemma scan_while_le [scan_bounds]: "j \<le> length s \<Longrightarrow> scan_while P s j \<le> length s"
proof (induction P s j rule: scan_while.induct)
  case (1 P s j) then show ?case by (subst scan_while.simps) auto
qed

lemma scan_while_stop: "scan_while P s j < length s \<Longrightarrow> \<not> P (s ! scan_while P s j)"
proof (induction P s j rule: scan_while.induct)
  case (1 P s j) then show ?case by (subst scan_while.simps, subst (asm) (1) scan_while.simps) (auto split: if_splits)
qed

lemma scan_while_inside: "j \<le> k \<Longrightarrow> k < scan_while P s j \<Longrightarrow> k < length s \<and> P (s ! k)"
proof (induction P s j rule: scan_while.induct)
  case (1 P s j)
  note unf = scan_while.simps [of P s j]
  show ?case
  proof (cases "j < length s \<and> P (s ! j)")
    case True
    with 1 unf show ?thesis by (cases "j = k") auto
  next
    case False
    with 1 unf show ?thesis by auto
  qed
qed

lemma scan_while_gt: "j < length s \<Longrightarrow> P (s ! j) \<Longrightarrow> j < scan_while P s j"
  by (subst scan_while.simps) (simp add: scan_while_ge Suc_le_lessD)

lemma skipQuoted_from_bounds:
  "i \<le> length s \<Longrightarrow> i \<le> skipQuoted_from s i q \<and> skipQuoted_from s i q \<le> length s"
proof (induction s i q rule: skipQuoted_from.induct)
  case (1 s i q) then show ?case by (subst (1 2) skipQuoted_from.simps) auto
qed

lemma skipQuoted_bounds [scan_bounds]:
  "i < length s \<Longrightarrow> i < skipQuoted s i q" "i < length s \<Longrightarrow> skipQuoted s i q \<le> length s"
  using skipQuoted_from_bounds [of "i + 1" s q] by (auto simp: skipQuoted_def)

lemma endOfStringLiteral_from_bounds:
  "i \<le> length s \<Longrightarrow> i \<le> endOfStringLiteral_from s i \<and> endOfStringLiteral_from s i \<le> length s"
proof (induction s i rule: endOfStringLiteral_from.induct)
  case (1 s i) then show ?case by (subst (1 2) endOfStringLiteral_from.simps) auto
qed

lemma endOfStringLiteral_bounds [scan_bounds]:
  "i < length s \<Longrightarrow> i < endOfStringLiteral s i"
  "i < length s \<Longrightarrow> endOfStringLiteral s i \<le> length s"
  using endOfStringLiteral_from_bounds [of "i + 1" s] by (auto simp: endOfStringLiteral_def)

lemma skipString_from_eq: "skipString_from s i = endOfStringLiteral_from s i"
proof (induction s i rule: skipString_from.induct)
  case (1 s i)
  then show ?case by (subst skipString_from.simps, subst endOfStringLiteral_from.simps) auto
qed

lemma skipString_eq: "skipString s i = endOfStringLiteral s i"
  by (simp add: skipString_def endOfStringLiteral_def skipString_from_eq)

lemma skipString_bounds [scan_bounds]:
  "i < length s \<Longrightarrow> i < skipString s i" "i < length s \<Longrightarrow> skipString s i \<le> length s"
  by (simp_all add: skipString_eq endOfStringLiteral_bounds)

lemma skipQuoted_from_eq:
  "i \<le> length s \<Longrightarrow> skipQuoted_from s i (CHR 0x27) = endOfStringLiteral_from s i"
proof (induction s i "CHR 0x27" rule: skipQuoted_from.induct)
  case (1 s i)
  then show ?case by (subst skipQuoted_from.simps, subst endOfStringLiteral_from.simps) auto
qed

lemma skipEscapeString_from_le: "skipEscapeString_from s i \<le> length s"
proof (induction s i rule: skipEscapeString_from.induct)
  case (1 s i) then show ?case by (subst skipEscapeString_from.simps) simp
qed

lemma skipEscapeString_from_ge: "i \<le> length s \<Longrightarrow> i \<le> skipEscapeString_from s i"
proof (induction s i rule: skipEscapeString_from.induct)
  case (1 s i)
  have over: "skipEscapeString_from s (i + 2) = length s" if "length s < i + 2"
    using that by (subst skipEscapeString_from.simps) simp
  show ?case
    using 1 over by (subst skipEscapeString_from.simps) (cases "i + 2 \<le> length s"; auto)
qed

lemma skipEscapeString_bounds [scan_bounds]:
  "i < length s \<Longrightarrow> i < skipEscapeString s i" "skipEscapeString s i \<le> length s"
  using skipEscapeString_from_ge [of "i + 1" s] skipEscapeString_from_le [of s "i + 1"]
  by (auto simp: skipEscapeString_def)

lemma skipLineComment_bounds [scan_bounds]:
  "i < length s \<Longrightarrow> i < skipLineComment s i" "skipLineComment s i \<le> length s"
  by (auto simp: skipLineComment_def IndexByte_def dest!: index_where_bound split: option.splits)

lemma skipBlockComment_from_bounds:
  "i \<le> length s \<Longrightarrow> i \<le> fst (skipBlockComment_from s i d) \<and> fst (skipBlockComment_from s i d) \<le> length s"
proof (induction s i d rule: skipBlockComment_from.induct)
  case (1 s i d)
  have two: "i + 2 \<le> length s" if "HasPrefix (drop i s) [a, b]" for a b
    using that by (auto simp: HasPrefix_iff dest: arg_cong [where f = length])
  show ?case
    using 1 two by (subst (1 2) skipBlockComment_from.simps) (force split: if_splits)
qed

lemma skipBlockComment_bounds [scan_bounds]:
  "at_block_comment s i \<Longrightarrow> i < fst (skipBlockComment s i)"
  "i \<le> length s \<Longrightarrow> fst (skipBlockComment s i) \<le> length s"
proof -
  show "fst (skipBlockComment s i) \<le> length s" if "i \<le> length s"
    using that skipBlockComment_from_bounds [of i s 0] by (simp add: skipBlockComment_def)
  assume a: "at_block_comment s i"
  then have "HasPrefix (drop i s) ''/*''"
    by (auto simp: at_block_comment_def Cons_nth_drop_Suc [symmetric])
  moreover have "i + 2 \<le> length s" using a by (simp add: at_block_comment_def)
  ultimately show "i < fst (skipBlockComment s i)"
    using skipBlockComment_from_bounds [of "i + 2" s 1]
    unfolding skipBlockComment_def by (subst skipBlockComment_from.simps) auto
qed

section \<open>Where the executable text of a statement starts\<close>

function executableStart_from :: "string \<Rightarrow> nat \<Rightarrow> nat" where
  "executableStart_from sql i =
     (if i < length sql then
        if is_blank_byte (sql ! i) then executableStart_from sql (i + 1)
        else if at_line_comment sql i then executableStart_from sql (skipLineComment sql i)
        else if at_block_comment sql i then
          (if snd (skipBlockComment sql i) then executableStart_from sql (fst (skipBlockComment sql i))
           else i)
        else i
      else i)"
  by pat_completeness auto
termination
  by (relation "measure (\<lambda>(s, i). length s - i)")
     (auto simp: diff_less_mono2 scan_bounds)

declare executableStart_from.simps [simp del]

definition executableStart :: "string \<Rightarrow> nat" where
  "executableStart sql = executableStart_from sql 0"

definition isBlankStatement :: "string \<Rightarrow> bool" where
  "isBlankStatement sql \<longleftrightarrow> executableStart sql = length sql"

definition stripLeadingComments :: "string \<Rightarrow> string" where
  "stripLeadingComments sql = drop (executableStart sql) sql"

lemma executableStart_from_bounds:
  "i \<le> length s \<Longrightarrow> i \<le> executableStart_from s i \<and> executableStart_from s i \<le> length s"
proof (induction s i rule: executableStart_from.induct)
  case (1 s i)
  have lc: "i \<le> skipLineComment s i \<and> skipLineComment s i \<le> length s" if "i < length s"
    using that by (simp add: skipLineComment_bounds less_imp_le)
  have bc: "i \<le> fst (skipBlockComment s i) \<and> fst (skipBlockComment s i) \<le> length s"
    if "at_block_comment s i" "i < length s"
    using that by (simp add: skipBlockComment_bounds less_imp_le)
  show ?case
    using 1 lc bc by (subst (1 2) executableStart_from.simps) (force split: if_splits)
qed

lemma executableStart_le: "executableStart s \<le> length s"
  by (simp add: executableStart_def executableStart_from_bounds)

text \<open>Where the scan stops short of the end: not at a blank, not at a line comment, and at a block
  comment only when it is not closed.\<close>

lemma executableStart_from_stop:
  "executableStart_from s i < length s \<Longrightarrow>
     \<not> is_blank_byte (s ! executableStart_from s i) \<and>
     \<not> at_line_comment s (executableStart_from s i) \<and>
     (at_block_comment s (executableStart_from s i) \<longrightarrow>
       \<not> snd (skipBlockComment s (executableStart_from s i)))"
proof (induction s i rule: executableStart_from.induct)
  case (1 s i)
  show ?case
  proof (cases "i < length s")
    case True
    then show ?thesis
      using 1 by (subst (1 2 3 4) executableStart_from.simps,
                  subst (asm) (5) executableStart_from.simps) (auto split: if_splits)
  next
    case False
    with "1.prems" show ?thesis by (subst (asm) executableStart_from.simps) simp
  qed
qed

end
