(* ===== verification/Statements.thy ===== *)
theory Statements
  imports Scanner
begin

text \<open>
  The string helpers the handlers cut statements with: literals (\<open>sqlStr\<close>), names and keywords
  (\<open>utility.go\<close>, \<open>grants.go\<close>, \<open>dialect.go\<close>), the argument scanners of \<open>sequences.go\<close>
  (\<open>readParenArgs\<close>, \<open>splitTopLevel\<close>) and of \<open>paramtypes.go\<close> (\<open>splitTop\<close>), and \<open>scanFuncCalls\<close>, which
  replaces function calls in a statement and threads the state its callback changes.
\<close>

section \<open>SQL literals\<close>

definition sqlStr :: "string \<Rightarrow> string" where
  "sqlStr s = CHR 0x27 # ReplaceByte s (CHR 0x27) [CHR 0x27, CHR 0x27] @ [CHR 0x27]"

definition quoteName :: "string \<Rightarrow> string" where
  "quoteName s = (if s = [] then [CHR 0x22, CHR 0x22] else CHR 0x22 # s @ [CHR 0x22])"

definition i64 :: "int \<Rightarrow> string" where
  "i64 v = FormatInt v"

definition b2i :: "bool \<Rightarrow> string" where
  "b2i b = (if b then ''1'' else ''0'')"

section \<open>Words and keywords\<close>

definition unquoteIdent :: "string \<Rightarrow> string" where
  "unquoteIdent s =
     (let s = TrimRight s '';'' in TrimSuffix (TrimPrefix s [CHR 0x22]) [CHR 0x22])"

definition trimStatement :: "string \<Rightarrow> string" where
  "trimStatement sql = TrimSpace (TrimRight (TrimSpace sql) '';'')"

definition firstWordUpper :: "string \<Rightarrow> string" where
  "firstWordUpper sql =
     (let sql = TrimLeft sql [CHR '' '', CHR 0x09, CHR 0x0D, CHR 0x0A, CHR ''('']
      in case IndexAny sql [CHR '' '', CHR 0x09, CHR 0x0D, CHR 0x0A, CHR ''('', CHR '';''] of
           Some i \<Rightarrow> ToUpper (take i sql)
         | None \<Rightarrow> ToUpper sql)"

definition secondWordUpper :: "string \<Rightarrow> string" where
  "secondWordUpper sql =
     (let fields = Fields sql in
      if length fields < 2 then [] else ToUpper (TrimRight (fields ! 1) '';''))"

definition secondWord :: "string \<Rightarrow> string" where
  "secondWord sql = (let f = Fields sql in if length f < 2 then [] else f ! 1)"

definition stripSemi :: "string \<Rightarrow> string" where
  "stripSemi s = TrimRight s '';''"

definition readIdent :: "string \<Rightarrow> string" where
  "readIdent s0 =
     (let s = TrimLeft s0 [CHR '' '', CHR 0x09, CHR 0x0D, CHR 0x0A] in
      if s = [] then []
      else if hd s = CHR 0x22 then
        (case IndexByte (tl s) (CHR 0x22) of Some j \<Rightarrow> take j (tl s) | None \<Rightarrow> [])
      else take (scan_while isIdentPart s 0) s)"

definition is_blank3 :: "char \<Rightarrow> bool" where
  "is_blank3 c \<longleftrightarrow> c = CHR '' '' \<or> c = CHR 0x09 \<or> c = CHR 0x0A"

definition firstWordEnd :: "string \<Rightarrow> nat" where
  "firstWordEnd sql = scan_while (\<lambda>c. \<not> is_blank3 c) sql (scan_while is_blank3 sql 0)"

text \<open>\<open>indexWord\<close> of \<open>grants.go\<close>: the first whole-word occurrence in a lower-cased string. The
  source's loop would not end on an empty keyword, which no caller passes; that case is \<open>None\<close>.\<close>

function indexWord_from :: "string \<Rightarrow> string \<Rightarrow> nat \<Rightarrow> nat option" where
  "indexWord_from low kw i =
     (if kw \<noteq> [] \<and> i + length kw \<le> length low then
        (case Index (drop i low) kw of
           None \<Rightarrow> None
         | Some j \<Rightarrow>
             (let p = i + j in
              if (p = 0 \<or> \<not> isIdentPart (low ! (p - 1))) \<and>
                 (p + length kw = length low \<or> \<not> isIdentPart (low ! (p + length kw)))
              then Some p
              else indexWord_from low kw (p + length kw)))
      else None)"
  by pat_completeness auto
termination by (relation "measure (\<lambda>(low, kw, i). length low - i)") (auto simp: neq_Nil_conv)

declare indexWord_from.simps [simp del]

definition indexWord :: "string \<Rightarrow> string \<Rightarrow> nat option" where
  "indexWord low kw = indexWord_from low kw 0"

definition hasWordAt :: "string \<Rightarrow> nat \<Rightarrow> string \<Rightarrow> bool" where
  "hasWordAt low p word \<longleftrightarrow>
     p + length word \<le> length low \<and> slice low p (p + length word) = word \<and>
     (let n = p + length word in
      length low \<le> n \<or> low ! n = CHR '' '' \<or> low ! n = CHR 0x09 \<or> low ! n = CHR 0x0A \<or>
      low ! n = CHR ''('' \<or> low ! n = CHR 0x27)"

function indexTopLevelWord_from :: "string \<Rightarrow> string \<Rightarrow> nat \<Rightarrow> nat \<Rightarrow> nat option" where
  "indexTopLevelWord_from sql word depth i =
     (if i < length sql then
        if sql ! i = CHR 0x27 then
          indexTopLevelWord_from sql word depth (endOfStringLiteral sql i)
        else if sql ! i = CHR ''('' then indexTopLevelWord_from sql word (depth + 1) (i + 1)
        else if sql ! i = CHR '')'' then indexTopLevelWord_from sql word (depth - 1) (i + 1)
        else if depth = 0 \<and> (i = 0 \<or> \<not> isWordByte (ToLower sql ! (i - 1))) \<and>
                hasWordAt (ToLower sql) i word
        then Some i
        else indexTopLevelWord_from sql word depth (i + 1)
      else None)"
  by pat_completeness auto
termination
  by (relation "measure (\<lambda>(sql, word, d, i). length sql - i)")
     (auto simp: diff_less_mono2 endOfStringLiteral_bounds)

declare indexTopLevelWord_from.simps [simp del]

definition indexTopLevelWord :: "string \<Rightarrow> nat \<Rightarrow> string \<Rightarrow> nat option" where
  "indexTopLevelWord sql from word = indexTopLevelWord_from sql word 0 from"

section \<open>Parenthesised arguments\<close>

function readParenArgs_from :: "string \<Rightarrow> nat \<Rightarrow> int \<Rightarrow> nat \<Rightarrow> (string \<times> nat) option" where
  "readParenArgs_from sql start depth i =
     (if i < length sql then
        if sql ! i = CHR 0x27 then readParenArgs_from sql start depth (skipString sql i)
        else if sql ! i = CHR ''('' then readParenArgs_from sql start (depth + 1) (i + 1)
        else if sql ! i = CHR '')'' then
          if depth - 1 = 0 then Some (slice sql start i, i + 1)
          else readParenArgs_from sql start (depth - 1) (i + 1)
        else readParenArgs_from sql start depth (i + 1)
      else None)"
  by pat_completeness auto
termination
  by (relation "measure (\<lambda>(sql, st, d, i). length sql - i)")
     (auto simp: diff_less_mono2 skipString_bounds)

declare readParenArgs_from.simps [simp del]

definition readParenArgs :: "string \<Rightarrow> nat \<Rightarrow> (string \<times> nat) option" where
  "readParenArgs sql lpar = readParenArgs_from sql (lpar + 1) 0 lpar"

lemma readParenArgs_from_bounds:
  "readParenArgs_from sql st d i = Some (a, e) \<Longrightarrow> i < e \<and> e \<le> length sql"
proof (induction sql st d i rule: readParenArgs_from.induct)
  case (1 sql st d i)
  from "1.prems" have lt: "i < length sql"
    by (subst (asm) readParenArgs_from.simps) (simp split: if_splits)
  note unf = readParenArgs_from.simps [of sql st d i] and sk = skipString_bounds(1) [OF lt]
  consider "sql ! i = CHR 0x27" | "sql ! i = CHR ''(''" | "sql ! i = CHR '')''" "d - 1 = 0"
    | "sql ! i = CHR '')''" "d - 1 \<noteq> 0"
    | "sql ! i \<noteq> CHR 0x27" "sql ! i \<noteq> CHR ''(''" "sql ! i \<noteq> CHR '')''" by blast
  then show ?case
  proof cases
    case 1 then show ?thesis using "1.IH"(1) "1.prems" unf lt sk by simp
  next
    case 2 then show ?thesis using "1.IH"(2) "1.prems" unf lt by simp
  next
    case 3 then show ?thesis using "1.prems" unf lt by simp
  next
    case 4 then show ?thesis using "1.IH"(3) "1.prems" unf lt by simp
  next
    case 5 then show ?thesis using "1.IH"(4) "1.prems" unf lt by simp
  qed
qed

lemma readParenArgs_bounds [scan_bounds]:
  assumes "readParenArgs sql k = Some (a, e)"
  shows "k < e" "e \<le> length sql"
  using assms readParenArgs_from_bounds [of sql "k + 1" 0 k] by (auto simp: readParenArgs_def)

text \<open>\<open>splitTopLevel\<close>: commas outside quotes and parentheses.\<close>

function splitTopLevel_from :: "string \<Rightarrow> int \<Rightarrow> nat \<Rightarrow> nat \<Rightarrow> string list" where
  "splitTopLevel_from s depth start i =
     (if i < length s then
        if s ! i = CHR 0x27 then splitTopLevel_from s depth start (skipString s i)
        else if s ! i = CHR ''('' then splitTopLevel_from s (depth + 1) start (i + 1)
        else if s ! i = CHR '')'' then splitTopLevel_from s (depth - 1) start (i + 1)
        else if s ! i = CHR '','' \<and> depth = 0 then
          slice s start i # splitTopLevel_from s depth (i + 1) (i + 1)
        else splitTopLevel_from s depth start (i + 1)
      else [drop start s])"
  by pat_completeness auto
termination
  by (relation "measure (\<lambda>(s, d, st, i). length s - i)")
     (auto simp: diff_less_mono2 skipString_bounds)

declare splitTopLevel_from.simps [simp del]

definition splitTopLevel :: "string \<Rightarrow> string list" where
  "splitTopLevel s = splitTopLevel_from s 0 0 0"

text \<open>\<open>splitTop\<close> of \<open>paramtypes.go\<close>: the same job with a quote toggle instead of a literal scan.\<close>

function splitTop_from :: "string \<Rightarrow> int \<Rightarrow> bool \<Rightarrow> nat \<Rightarrow> nat \<Rightarrow> string list" where
  "splitTop_from s depth quoted start i =
     (if i < length s then
        if s ! i = CHR 0x27 then splitTop_from s depth (\<not> quoted) start (i + 1)
        else if quoted then splitTop_from s depth quoted start (i + 1)
        else if s ! i = CHR ''('' then splitTop_from s (depth + 1) quoted start (i + 1)
        else if s ! i = CHR '')'' then splitTop_from s (depth - 1) quoted start (i + 1)
        else if s ! i = CHR '','' \<and> depth = 0 then
          slice s start i # splitTop_from s depth quoted (i + 1) (i + 1)
        else splitTop_from s depth quoted start (i + 1)
      else [drop start s])"
  by pat_completeness auto
termination by (relation "measure (\<lambda>(s, d, q, st, i). length s - i)") auto

declare splitTop_from.simps [simp del]

definition splitTop :: "string \<Rightarrow> string list" where
  "splitTop s = splitTop_from s 0 False 0 0"

section \<open>Replacing function calls\<close>

text \<open>
  \<open>scanFuncCalls\<close> replaces each call of a function \<open>accept\<close> accepts by what \<open>replace\<close> makes of it.
  The Go closure may change the session, so \<open>replace\<close> passes a state \<open>'st\<close> along, and its error
  ends the scan with the state reached.
\<close>

lemma call_end_gt:
  "readParenArgs sql (skipSpaces sql (scan_while P sql i)) = Some (a, e) \<Longrightarrow> i < e"
  using readParenArgs_bounds(1) [of sql "skipSpaces sql (scan_while P sql i)" a e]
    scan_while_ge [of i P sql] scan_while_ge [of "scan_while P sql i" _ sql]
  unfolding skipSpaces_def by (meson le_less_trans)

function scanFuncCalls_from ::
  "(string \<Rightarrow> bool) \<Rightarrow> (string \<Rightarrow> string \<Rightarrow> 'st \<Rightarrow> ('e + string) \<times> 'st) \<Rightarrow> string \<Rightarrow> string \<Rightarrow> nat \<Rightarrow> 'st
     \<Rightarrow> ('e + string) \<times> 'st" where
  "scanFuncCalls_from accept replace sql b i st =
     (if i < length sql then
        if sql ! i = CHR 0x27 then
          scanFuncCalls_from accept replace sql (b @ slice sql i (skipString sql i)) (skipString sql i) st
        else if isIdentStart (sql ! i) then
          (let j = scan_while isIdentPart sql i;
               word = slice sql i j;
               fn = ToLower word;
               k = skipSpaces sql j in
           if accept fn \<and> k < length sql \<and> sql ! k = CHR ''('' then
             (case readParenArgs sql k of
                Some (args, stop) \<Rightarrow>
                  (case replace fn args st of
                     (Inl e, st') \<Rightarrow> (Inl e, st')
                   | (Inr lit, st') \<Rightarrow> scanFuncCalls_from accept replace sql (b @ lit) stop st')
              | None \<Rightarrow> scanFuncCalls_from accept replace sql (b @ word) j st)
           else scanFuncCalls_from accept replace sql (b @ word) j st)
        else scanFuncCalls_from accept replace sql (b @ [sql ! i]) (i + 1) st
      else (Inr b, st))"
  by pat_completeness auto
termination
  by (relation "measure (\<lambda>(m, r, sql, b, i, st). length sql - i)")
     (auto simp: diff_less_mono2 skipString_bounds scan_while_gt isIdentPart_def call_end_gt)

declare scanFuncCalls_from.simps [simp del]

definition scanFuncCalls ::
  "string \<Rightarrow> (string \<Rightarrow> bool) \<Rightarrow> (string \<Rightarrow> string \<Rightarrow> 'st \<Rightarrow> ('e + string) \<times> 'st) \<Rightarrow> 'st
     \<Rightarrow> ('e + string) \<times> 'st" where
  "scanFuncCalls sql accept replace st = scanFuncCalls_from accept replace sql [] 0 st"

text \<open>Where no word of the statement is accepted, the scan copies the statement.\<close>

lemma slice_step: "i \<le> j \<Longrightarrow> j \<le> length s \<Longrightarrow> take i s @ slice s i j = take j s"
  by (metis append_take_drop_id le_add_diff_inverse slice_def take_add)

lemma Contains_slice: "Contains (ToLower s) (ToLower (slice s i j))"
proof -
  have "s = take i s @ slice s i j @ drop (j - i) (drop i s)"
    unfolding slice_def by (simp only: append_take_drop_id)
  then have "ToLower s = ToLower (take i s) @ ToLower (slice s i j) @ ToLower (drop (j - i) (drop i s))"
    by (metis ToLower_def map_append)
  then show ?thesis by (auto simp: Contains_iff)
qed

lemma scanFuncCalls_from_id:
  assumes "\<And>i j. \<not> accept (ToLower (slice sql i j))" "i \<le> length sql"
  shows "scanFuncCalls_from accept replace sql (take i sql) i st = (Inr sql, st)"
  using assms
proof (induction "length sql - i" arbitrary: i rule: less_induct)
  case less
  note unf = scanFuncCalls_from.simps [of accept replace sql "take i sql" i st]
  have ih: "scanFuncCalls_from accept replace sql (take j sql) j st = (Inr sql, st)"
    if "i < j" "j \<le> length sql" for j
    using that by (intro less.hyps less.prems(1)) auto
  consider "i = length sql" | "i < length sql" "sql ! i = CHR 0x27"
    | "i < length sql" "sql ! i \<noteq> CHR 0x27" "isIdentStart (sql ! i)"
    | "i < length sql" "sql ! i \<noteq> CHR 0x27" "\<not> isIdentStart (sql ! i)"
    using less.prems(2) by fastforce
  then show ?case
  proof cases
    case 1 then show ?thesis using unf by simp
  next
    case 2
    then have "i < skipString sql i \<and> skipString sql i \<le> length sql"
      using skipString_bounds [of i sql] by simp
    with 2 ih [of "skipString sql i"] show ?thesis using unf by (simp add: slice_step)
  next
    case 3
    let ?j = "scan_while isIdentPart sql i"
    have "i < ?j \<and> ?j \<le> length sql"
      using 3 scan_while_gt [of i sql isIdentPart] scan_while_le [of i sql isIdentPart]
      by (simp add: isIdentPart_def)
    with 3 ih [of ?j] less.prems(1) show ?thesis using unf by (simp add: slice_step Let_def)
  next
    case 4
    then have "take i sql @ [sql ! i] = take (i + 1) sql" by (simp add: take_Suc_conv_app_nth)
    with 4 ih [of "i + 1"] show ?thesis using unf by simp
  qed
qed

lemma scanFuncCalls_id:
  assumes "\<And>fn. accept fn \<Longrightarrow> \<not> Contains (ToLower sql) fn"
  shows "scanFuncCalls sql accept replace st = (Inr sql, st)"
  using scanFuncCalls_from_id [of accept sql 0 replace st] assms Contains_slice
  by (auto simp: scanFuncCalls_def)

end
