(* ===== verification/Values.thy ===== *)
theory Values
  imports Statements "HOL-Library.Word"
begin

text \<open>
  The neutral cell value that crosses from the storage engine to the protocol (\<open>core.Value\<close> of
  \<open>core/core.go\<close>) and the small readers of such values: \<open>core.ParseBool\<close> (\<open>core/bool.go\<close>), and
  \<open>asString\<close> (\<open>rls.go\<close>), \<open>truthy\<close> (\<open>privileges.go\<close>), \<open>parseInt\<close>, \<open>parseBool\<close>, \<open>seqRef\<close>
  (\<open>types.go\<close>, \<open>sequences.go\<close>). \<open>core.Value\<close> is Go's \<open>any\<close>; the cases are the Go types the SQLite
  driver and \<open>decodeParam\<close> produce. A \<open>float64\<close> is its IEEE bit pattern, a \<open>time.Time\<close> the
  nanoseconds since the Unix epoch, in UTC.
\<close>

datatype core_value =
    VNull
  | VInt int
  | VFloat "64 word"
  | VBool bool
  | VString string
  | VBytes string
  | VTime int

definition asString :: "core_value \<Rightarrow> string" where
  "asString v = (case v of VString x \<Rightarrow> x | VBytes x \<Rightarrow> x | _ \<Rightarrow> [])"

definition parseInt :: "string \<Rightarrow> int option" where
  "parseInt s = ParseInt (TrimSpace (TrimRight s '';''))"

definition parseBool :: "string \<Rightarrow> bool" where
  "parseBool s =
     (ToLower (TrimSpace s) \<notin>
        {''false'', ''f'', ''0'', CHR 0x27 # ''false'' @ [CHR 0x27], CHR 0x27 # ''f'' @ [CHR 0x27]})"

text \<open>The IEEE zero test on a bit pattern: plus and minus zero.\<close>

definition float_is_zero :: "64 word \<Rightarrow> bool" where
  "float_is_zero w \<longleftrightarrow> w = 0 \<or> w = 0x8000000000000000"

definition truthy :: "core_value \<Rightarrow> bool" where
  "truthy v =
     (case v of
        VInt x \<Rightarrow> x \<noteq> 0
      | VBool x \<Rightarrow> x
      | VFloat x \<Rightarrow> \<not> float_is_zero x
      | VString x \<Rightarrow> x \<noteq> [] \<and> x \<noteq> ''0'' \<and> \<not> EqualFold x ''false''
      | _ \<Rightarrow> False)"

section \<open>Booleans\<close>

text \<open>\<open>core.ParseBool\<close>: the two results \<open>(value, ok)\<close>. The loop over the four words is a search for
  the first of which the input is a prefix.\<close>

definition bool_words :: "(string \<times> bool) list" where
  "bool_words = [(''true'', True), (''yes'', True), (''false'', False), (''no'', False)]"

definition ParseBool :: "string \<Rightarrow> bool \<times> bool" where
  "ParseBool s0 =
     (let s = ToLower (TrimSpace s0) in
      if s = [] then (False, False)
      else if s = ''1'' \<or> s = ''on'' then (True, True)
      else if s = ''0'' \<or> s = ''of'' \<or> s = ''off'' then (False, True)
      else (case find (\<lambda>(w, _). HasPrefix w s) bool_words of
              Some (_, b) \<Rightarrow> (b, True)
            | None \<Rightarrow> (False, False)))"

text \<open>The boolean reader accepts exactly what it documents: after trimming and lower-casing, a
  non-empty prefix of true, yes, false or no, or one of on, off, of, 1, 0; and the value is true
  exactly for the words that mean true. No spelling is read both ways.\<close>
theorem ParseBool_spec:
  "ParseBool s = (v, ok) \<Longrightarrow>
   (let t = ToLower (TrimSpace s);
        yes = (t \<noteq> [] \<and> (HasPrefix ''true'' t \<or> HasPrefix ''yes'' t)) \<or> t = ''on'' \<or> t = ''1'';
        no = (t \<noteq> [] \<and> (HasPrefix ''false'' t \<or> HasPrefix ''no'' t)) \<or> t = ''off'' \<or> t = ''of'' \<or> t = ''0''
    in ok = (yes \<or> no) \<and> (ok \<longrightarrow> v = yes) \<and> \<not> (yes \<and> no))"
proof -
  assume a: "ParseBool s = (v, ok)"
  define t where "t = ToLower (TrimSpace s)"
  show ?thesis
  proof (cases t)
    case Nil
    with a show ?thesis by (simp add: ParseBool_def t_def [symmetric] Let_def)
  next
    case (Cons c r)
    with a show ?thesis
      unfolding Let_def t_def [symmetric]
      by (simp add: ParseBool_def t_def [symmetric] Let_def bool_words_def split: if_splits)
         (auto simp: HasPrefix_iff)
  qed
qed

theorem ParseBool_spec_witness: "snd (ParseBool '' Tr '') \<and> fst (ParseBool '' Tr '')"
proof -
  have h: "ParseBool '' Tr '' = (True, True)" by code_simp
  show ?thesis using ParseBool_spec [OF h] h by simp
qed

text \<open>\<open>seqRef\<close>: the sequence name in an argument of \<open>nextval\<close>, without quotes, cast or schema.\<close>

definition seqRef :: "string \<Rightarrow> string" where
  "seqRef arg =
     (let a = TrimSpace arg;
          a = (case Index a ''::'' of Some i \<Rightarrow> TrimSpace (take i a) | None \<Rightarrow> a);
          a = TrimSpace (Trim a [CHR 0x27]);
          a = Trim a [CHR 0x22]
      in case LastIndexByte a (CHR ''.'') of Some i \<Rightarrow> drop (i + 1) a | None \<Rightarrow> a)"

end
