(* ===== verification/LockService.thy ===== *)
theory LockService
  imports Prelude
begin

text \<open>
  The contract of a re-entrant shared/exclusive lock manager, as the session relies on it for the
  advisory locks. The client sees only how often each owner holds each lock in each mode; the laws
  say what taking, giving up one hold and giving up all of an owner's holds do to those counts, and
  when a lock can be taken. The client's lemmas, mutual exclusion and the balance of takes and
  releases, are proved here once and reach the program through the interpretation in
  AdvisoryLocks.
\<close>

datatype ('o, 'k) lock_op = TryLock 'o 'k bool | UnlockOne 'o 'k bool | ReleaseAll 'o

locale lock_service =
  fixes ok :: "'st \<Rightarrow> bool"
    and count :: "'st \<Rightarrow> 'o \<Rightarrow> 'k \<Rightarrow> bool \<Rightarrow> nat"
    and try_lock :: "'st \<Rightarrow> 'o \<Rightarrow> 'k \<Rightarrow> bool \<Rightarrow> bool \<times> 'st"
    and unlock :: "'st \<Rightarrow> 'o \<Rightarrow> 'k \<Rightarrow> bool \<Rightarrow> bool \<times> 'st"
    and release :: "'st \<Rightarrow> 'o \<Rightarrow> 'st"
  assumes try_iff: "ok st \<Longrightarrow> fst (try_lock st s k sh) \<longleftrightarrow>
      (\<forall>t. t \<noteq> s \<longrightarrow> count st t k False = 0 \<and> (\<not> sh \<longrightarrow> count st t k True = 0))"
    and try_count: "ok st \<Longrightarrow> count (snd (try_lock st s k sh)) t k' b =
      count st t k' b + (if fst (try_lock st s k sh) \<and> t = s \<and> k' = k \<and> b = sh then 1 else 0)"
    and unlock_iff: "ok st \<Longrightarrow> fst (unlock st s k sh) \<longleftrightarrow> 0 < count st s k sh"
    and unlock_count: "ok st \<Longrightarrow> count (snd (unlock st s k sh)) t k' b =
      count st t k' b - (if t = s \<and> k' = k \<and> b = sh then 1 else 0)"
    and release_count: "ok st \<Longrightarrow> count (release st s) t k b = (if t = s then 0 else count st t k b)"
    and ok_try: "ok st \<Longrightarrow> ok (snd (try_lock st s k sh))"
    and ok_unlock: "ok st \<Longrightarrow> ok (snd (unlock st s k sh))"
    and ok_release: "ok st \<Longrightarrow> ok (release st s)"
begin

fun perform :: "'st \<Rightarrow> ('o, 'k) lock_op \<Rightarrow> 'st" where
  "perform st (TryLock s k sh) = snd (try_lock st s k sh)"
| "perform st (UnlockOne s k sh) = snd (unlock st s k sh)"
| "perform st (ReleaseAll s) = release st s"

lemma ok_perform: "ok st \<Longrightarrow> ok (perform st p)"
  by (cases p) (auto intro: ok_try ok_unlock ok_release)

text \<open>Mutual exclusion follows from the laws: a lock held exclusively by one owner is held by no
  other in any mode, and every operation keeps that.\<close>

definition exclusion :: "'st \<Rightarrow> bool" where
  "exclusion st \<longleftrightarrow> (\<forall>s t k b. s \<noteq> t \<longrightarrow> 0 < count st s k False \<longrightarrow> count st t k b = 0)"

lemma exclusion_try:
  assumes "ok st" "exclusion st"
  shows "exclusion (snd (try_lock st s k sh))"
  unfolding exclusion_def
proof (intro allI impI)
  fix u t k' b
  assume ne: "u \<noteq> t" and pos: "0 < count (snd (try_lock st s k sh)) u k' False"
  have old: "0 < count st u k' False \<Longrightarrow> count st t k' b = 0"
    using assms(2) ne by (auto simp: exclusion_def)
  show "count (snd (try_lock st s k sh)) t k' b = 0"
  proof (cases "fst (try_lock st s k sh) \<and> k' = k")
    case False
    with pos old assms(1) show ?thesis by (auto simp: try_count split: if_splits)
  next
    case True
    then have none: "\<And>x. x \<noteq> s \<Longrightarrow> count st x k False = 0"
      "\<And>x. x \<noteq> s \<Longrightarrow> \<not> sh \<Longrightarrow> count st x k True = 0"
      using try_iff [OF assms(1), of s k sh] by auto
    show ?thesis
    proof (cases "u = s")
      case True
      then show ?thesis
        using pos none ne old \<open>fst (try_lock st s k sh) \<and> k' = k\<close> assms(1)
        by (cases b; cases sh) (auto simp: try_count split: if_splits)
    next
      case False
      then show ?thesis using pos none \<open>fst (try_lock st s k sh) \<and> k' = k\<close> assms(1)
        by (auto simp: try_count split: if_splits)
    qed
  qed
qed

lemma exclusion_less:
  assumes "exclusion st" "\<And>t k b. count st' t k b \<le> count st t k b"
  shows "exclusion st'"
  unfolding exclusion_def
proof (intro allI impI)
  fix s t k b
  assume "s \<noteq> t" "0 < count st' s k False"
  then have "count st t k b = 0"
    using assms(1) assms(2) [of s k False] unfolding exclusion_def
    by (metis order_less_le_trans)
  then show "count st' t k b = 0" using assms(2) [of t k b] by simp
qed

lemma exclusion_perform:
  assumes "ok st" "exclusion st"
  shows "exclusion (perform st p)"
proof (cases p)
  case (TryLock s k sh)
  then show ?thesis using exclusion_try [OF assms] by simp
next
  case (UnlockOne s k sh)
  show ?thesis
    by (rule exclusion_less [OF assms(2)]) (simp add: UnlockOne unlock_count [OF assms(1)])
next
  case (ReleaseAll s)
  show ?thesis
    by (rule exclusion_less [OF assms(2)]) (simp add: ReleaseAll release_count [OF assms(1)])
qed

lemma exclusion_run:
  "ok st \<Longrightarrow> exclusion st \<Longrightarrow> ok (foldl perform st ps) \<and> exclusion (foldl perform st ps)"
  by (induction ps arbitrary: st) (auto intro: ok_perform exclusion_perform)

text \<open>A take that succeeded and one unlock cancel out.\<close>

lemma try_unlock_count:
  assumes "ok st" "fst (try_lock st s k sh)"
  shows "fst (unlock (snd (try_lock st s k sh)) s k sh)"
    and "count (snd (unlock (snd (try_lock st s k sh)) s k sh)) t k' b = count st t k' b"
  using assms by (auto simp: unlock_iff unlock_count try_count ok_try)

text \<open>Giving up a list of holds takes each off as often as it is listed.\<close>

lemma unlock_list_count:
  assumes "ok st"
  shows "count (foldl (\<lambda>st (k, sh). snd (unlock st s k sh)) st ks) t k' b =
     count st t k' b - (if t = s then count_list ks (k', b) else 0)"
  using assms
proof (induction ks arbitrary: st)
  case (Cons p ks)
  obtain k sh where p: "p = (k, sh)" by (cases p)
  have e: "count (foldl (\<lambda>st (k, sh). snd (unlock st s k sh)) (snd (unlock st s k sh)) ks) t k' b =
      count (snd (unlock st s k sh)) t k' b - (if t = s then count_list ks (k', b) else 0)"
    by (rule Cons.IH [OF ok_unlock [OF Cons.prems]])
  show ?case unfolding p foldl_Cons prod.case e unlock_count [OF Cons.prems]
    by (cases "t = s"; cases "k' = k"; cases "b = sh") simp_all
qed simp

lemma ok_unlock_list: "ok st \<Longrightarrow> ok (foldl (\<lambda>st (k, sh). snd (unlock st s k sh)) st ks)"
proof (induction ks arbitrary: st)
  case (Cons p ks)
  obtain k sh where p: "p = (k, sh)" by (cases p)
  show ?case unfolding p foldl_Cons prod.case by (rule Cons.IH [OF ok_unlock [OF Cons.prems]])
qed simp

end

end
