(* ===== verification/AdvisoryLocks.thy ===== *)
theory AdvisoryLocks
  imports Values LockService
begin

text \<open>
  Advisory locks (\<open>advisory.go\<close>): the process-wide registry \<open>advisoryLocks\<close>, its take, try, wait,
  unlock and release operations, the per-transaction list a session keeps, and the evaluation of a
  call. A session is named by a number, standing for the \<open>*session\<close> pointer. Go maps are
  association lists with distinct keys; nothing here depends on their order. The channel
  \<open>released\<close>, closed and replaced at every release, is a generation counter: a waiter that read
  generation \<open>g\<close> is woken when the counter differs from \<open>g\<close>. Every operation takes the registry's
  mutex for its whole body, so each is one atomic step.
\<close>

type_synonym sid = nat

record advisoryKey =
  ak_database :: string
  ak_pair :: bool
  ak_a :: int
  ak_b :: int

record advisoryHold =
  exclusive :: "sid option"
  exclCount :: nat
  shared_by :: "(sid \<times> nat) list"

text \<open>The registry, with the fields of each session the operations touch: \<open>txAdvisory\<close>, and whether
  \<open>s.tx\<close> is not nil.\<close>

record advisory_state =
  holds :: "(advisoryKey \<times> advisoryHold) list"
  released :: nat
  txAdvisory :: "sid \<Rightarrow> (advisoryKey \<times> bool) list"
  in_tx :: "sid \<Rightarrow> bool"

definition new_hold :: advisoryHold where
  "new_hold = \<lparr>exclusive = None, exclCount = 0, shared_by = []\<rparr>"

section \<open>One lock\<close>

definition canTake :: "advisoryHold option \<Rightarrow> sid \<Rightarrow> bool \<Rightarrow> bool" where
  "canTake h s shared =
     (case h of
        None \<Rightarrow> True
      | Some h \<Rightarrow>
          if exclusive h \<noteq> None \<and> exclusive h \<noteq> Some s then False
          else if shared then True
          else list_all (\<lambda>(holder, _). holder = s) (shared_by h))"

definition shared_count :: "advisoryHold \<Rightarrow> sid \<Rightarrow> nat" where
  "shared_count h s = (case map_of (shared_by h) s of Some n \<Rightarrow> n | None \<Rightarrow> 0)"

definition take_hold :: "advisoryHold \<Rightarrow> sid \<Rightarrow> bool \<Rightarrow> advisoryHold" where
  "take_hold h s shared =
     (if shared then h\<lparr>shared_by := AList.update s (shared_count h s + 1) (shared_by h)\<rparr>
      else h\<lparr>exclusive := Some s, exclCount := exclCount h + 1\<rparr>)"

text \<open>The \<open>switch\<close> of \<open>unlockAdvisory\<close>: the hold with one taken off, or \<open>None\<close> when \<open>s\<close> has none.\<close>

definition drop_hold :: "advisoryHold \<Rightarrow> sid \<Rightarrow> bool \<Rightarrow> advisoryHold option" where
  "drop_hold h s shared =
     (if shared \<and> 0 < shared_count h s then
        let n = shared_count h s - 1 in
        Some (h\<lparr>shared_by := (if n = 0 then AList.delete s (shared_by h)
                              else AList.update s n (shared_by h))\<rparr>)
      else if \<not> shared \<and> exclusive h = Some s then
        let n = exclCount h - 1 in
        Some (if n = 0 then h\<lparr>exclusive := None, exclCount := n\<rparr> else h\<lparr>exclCount := n\<rparr>)
      else None)"

definition hold_free :: "advisoryHold \<Rightarrow> bool" where
  "hold_free h \<longleftrightarrow> exclusive h = None \<and> shared_by h = []"

section \<open>The registry\<close>

definition wakeAdvisoryWaiters :: "advisory_state \<Rightarrow> advisory_state" where
  "wakeAdvisoryWaiters st = st\<lparr>released := released st + 1\<rparr>"

definition tryAdvisory :: "advisory_state \<Rightarrow> sid \<Rightarrow> advisoryKey \<Rightarrow> bool \<Rightarrow> bool \<times> advisory_state" where
  "tryAdvisory st s key shared =
     (let h = map_of (holds st) key in
      if \<not> canTake h s shared then (False, st)
      else (let h' = (case h of None \<Rightarrow> new_hold | Some h \<Rightarrow> h) in
            (True, st\<lparr>holds := AList.update key (take_hold h' s shared) (holds st)\<rparr>)))"

definition unlockAdvisory :: "advisory_state \<Rightarrow> sid \<Rightarrow> advisoryKey \<Rightarrow> bool \<Rightarrow> bool \<times> advisory_state" where
  "unlockAdvisory st s key shared =
     (case map_of (holds st) key of
        None \<Rightarrow> (False, st)
      | Some h \<Rightarrow>
          (case drop_hold h s shared of
             None \<Rightarrow> (False, st)
           | Some h' \<Rightarrow>
               (True, wakeAdvisoryWaiters
                  (st\<lparr>holds := (if hold_free h' then AList.delete key (holds st)
                                else AList.update key h' (holds st))\<rparr>))))"

definition clear_session :: "sid \<Rightarrow> advisoryHold \<Rightarrow> advisoryHold" where
  "clear_session s h =
     (let h = (if exclusive h = Some s then h\<lparr>exclusive := None, exclCount := 0\<rparr> else h) in
      h\<lparr>shared_by := AList.delete s (shared_by h)\<rparr>)"

definition releaseAdvisoryLocks :: "advisory_state \<Rightarrow> sid \<Rightarrow> advisory_state" where
  "releaseAdvisoryLocks st s =
     wakeAdvisoryWaiters
       (st\<lparr>holds := filter (\<lambda>(_, h). \<not> hold_free h)
                     (map (\<lambda>(k, h). (k, clear_session s h)) (holds st)),
           txAdvisory := (txAdvisory st)(s := [])\<rparr>)"

definition holdForTx :: "advisory_state \<Rightarrow> sid \<Rightarrow> advisoryKey \<Rightarrow> bool \<Rightarrow> advisory_state" where
  "holdForTx st s key shared =
     (if \<not> in_tx st s then snd (unlockAdvisory st s key shared)
      else st\<lparr>txAdvisory := (txAdvisory st)(s := txAdvisory st s @ [(key, shared)])\<rparr>)"

definition releaseTxAdvisoryLocks :: "advisory_state \<Rightarrow> sid \<Rightarrow> advisory_state" where
  "releaseTxAdvisoryLocks st s =
     (foldl (\<lambda>st (key, shared). snd (unlockAdvisory st s key shared)) st (txAdvisory st s))
       \<lparr>txAdvisory := (txAdvisory st)(s := [])\<rparr>"

text \<open>One turn of \<open>waitAdvisory\<close>'s loop: it got the lock, or it waits for the generation it read
  before trying to pass.\<close>

definition wait_turn ::
  "advisory_state \<Rightarrow> sid \<Rightarrow> advisoryKey \<Rightarrow> bool \<Rightarrow> nat option \<times> advisory_state" where
  "wait_turn st s key shared =
     (let g = released st; (ok, st') = tryAdvisory st s key shared in
      (if ok then None else Some g, st'))"

section \<open>Keys and calls\<close>

text \<open>One key argument: a literal, a cast of one, or a parameter.\<close>

definition key_num :: "core_value list \<Rightarrow> string \<Rightarrow> string + int" where
  "key_num params p0 =
     (let p = TrimSpace p0;
          p = (case Index p ''::'' of Some j \<Rightarrow> TrimSpace (take j p) | None \<Rightarrow> p);
          p = TrimSpace (Trim p ''()'')
      in if HasPrefix p ''$'' then
           (case parseInt (drop 1 p) of
              Some n \<Rightarrow>
                if n < 1 \<or> int (length params) < n then Inl (''no value for parameter '' @ p)
                else (case parseInt (Trim (TrimSpace (asString (params ! (nat n - 1)))) [CHR 0x27]) of
                        Some v \<Rightarrow> Inr v
                      | None \<Rightarrow> Inl (''key '' @ goQuote p0 @ '' is not an integer''))
            | None \<Rightarrow> Inl (''no value for parameter '' @ p))
         else (case parseInt (Trim p [CHR 0x27]) of
                 Some v \<Rightarrow> Inr v
               | None \<Rightarrow> Inl (''key '' @ goQuote p0 @ '' is not an integer'')))"

definition parseAdvisoryKey :: "string \<Rightarrow> string \<Rightarrow> core_value list \<Rightarrow> string + advisoryKey" where
  "parseAdvisoryKey db args params =
     (case splitTop args of
        [p] \<Rightarrow> bind_r (key_num params p)
                 (\<lambda>x. Inr \<lparr>ak_database = db, ak_pair = False, ak_a = x, ak_b = 0\<rparr>)
      | [p, q] \<Rightarrow> bind_r (key_num params p) (\<lambda>x. bind_r (key_num params q)
                 (\<lambda>y. Inr \<lparr>ak_database = db, ak_pair = True, ak_a = x, ak_b = y\<rparr>))
      | _ \<Rightarrow> Inl ''expects one bigint or two integer keys'')"

definition advisoryFuncs :: "string list" where
  "advisoryFuncs =
     [''pg_advisory_lock'', ''pg_advisory_lock_shared'',
      ''pg_try_advisory_lock'', ''pg_try_advisory_lock_shared'',
      ''pg_advisory_xact_lock'', ''pg_advisory_xact_lock_shared'',
      ''pg_try_advisory_xact_lock'', ''pg_try_advisory_xact_lock_shared'',
      ''pg_advisory_unlock'', ''pg_advisory_unlock_shared'', ''pg_advisory_unlock_all'']"

definition isAdvisoryFunc :: "string \<Rightarrow> bool" where
  "isAdvisoryFunc fn \<longleftrightarrow> fn \<in> set advisoryFuncs"

definition hasAdvisoryFunc :: "string \<Rightarrow> bool" where
  "hasAdvisoryFunc sql \<longleftrightarrow> Contains (ToLower sql) ''advisory_''"

definition advisoryResult :: "string \<Rightarrow> bool \<Rightarrow> string" where
  "advisoryResult fn ok =
     (if fn \<in> {''pg_advisory_lock'', ''pg_advisory_lock_shared'',
               ''pg_advisory_xact_lock'', ''pg_advisory_xact_lock_shared''}
      then [CHR 0x27, CHR 0x27]
      else if ok then ''1'' else ''0'')"

text \<open>What evaluating a call comes to at one moment: a literal, an error, or blocking in
  \<open>waitAdvisory\<close> until the generation it read passes.\<close>

datatype call_result = Literal string | CallError string | Blocked nat

definition evalAdvisoryFunc ::
  "advisory_state \<Rightarrow> sid \<Rightarrow> string \<Rightarrow> string \<Rightarrow> string \<Rightarrow> core_value list \<Rightarrow> call_result \<times> advisory_state" where
  "evalAdvisoryFunc st s db fn args params =
     (if fn = ''pg_advisory_unlock_all'' then
        (Literal [CHR 0x27, CHR 0x27], releaseAdvisoryLocks st s)
      else (case parseAdvisoryKey db args params of
              Inl e \<Rightarrow> (CallError (fn @ '': '' @ e), st)
            | Inr key \<Rightarrow>
                (let shared = HasSuffix fn ''_shared'' in
                 if HasPrefix fn ''pg_advisory_unlock'' then
                   (let (ok, st') = unlockAdvisory st s key shared in
                    (Literal (advisoryResult fn ok), st'))
                 else if HasPrefix fn ''pg_try_'' then
                   (let (ok, st') = tryAdvisory st s key shared in
                    (Literal (advisoryResult fn ok),
                     if ok \<and> Contains fn ''_xact_'' then holdForTx st' s key shared else st'))
                 else
                   (case wait_turn st s key shared of
                      (Some g, st') \<Rightarrow> (Blocked g, st')
                    | (None, st') \<Rightarrow>
                        (Literal (advisoryResult fn True),
                         if Contains fn ''_xact_'' then holdForTx st' s key shared else st')))))"

section \<open>The invariant\<close>

text \<open>What holds of every lock in the registry: somebody holds it; the exclusive count is positive
  exactly while there is an exclusive holder, shared counts are positive; and while one session
  holds it exclusively no other session shares it.\<close>

definition hold_ok :: "advisoryHold \<Rightarrow> bool" where
  "hold_ok h \<longleftrightarrow>
     \<not> hold_free h \<and> (exclusive h = None \<longleftrightarrow> exclCount h = 0) \<and>
     distinct (map fst (shared_by h)) \<and> (\<forall>p \<in> set (shared_by h). 0 < snd p) \<and>
     (\<forall>s. exclusive h = Some s \<longrightarrow> (\<forall>p \<in> set (shared_by h). fst p = s))"

definition adv_inv :: "advisory_state \<Rightarrow> bool" where
  "adv_inv st \<longleftrightarrow> distinct (map fst (holds st)) \<and>
     (\<forall>(k, h) \<in> set (holds st). hold_ok h)"

definition adv_init :: "advisory_state \<Rightarrow> bool" where
  "adv_init st \<longleftrightarrow> holds st = [] \<and> (\<forall>s. txAdvisory st s = [])"

text \<open>How often \<open>s\<close> holds the lock \<open>k\<close>, shared or exclusively: the abstract state.\<close>

definition hold_count :: "advisoryHold \<Rightarrow> sid \<Rightarrow> bool \<Rightarrow> nat" where
  "hold_count h s shared =
     (if shared then shared_count h s else if exclusive h = Some s then exclCount h else 0)"

definition held :: "advisory_state \<Rightarrow> sid \<Rightarrow> advisoryKey \<Rightarrow> bool \<Rightarrow> nat" where
  "held st s k shared =
     (case map_of (holds st) k of None \<Rightarrow> 0 | Some h \<Rightarrow> hold_count h s shared)"

lemma shared_count_mem: "0 < shared_count h s \<Longrightarrow> (s, shared_count h s) \<in> set (shared_by h)"
  by (auto simp: shared_count_def dest: map_of_SomeD split: option.splits)

lemma take_hold_ok:
  assumes "h = new_hold \<or> hold_ok h" "canTake (Some h) s shared"
  shows "hold_ok (take_hold h s shared)"
proof (cases shared)
  case True
  with assms show ?thesis
    by (fastforce simp: hold_ok_def take_hold_def canTake_def hold_free_def new_hold_def
        set_AList_update AList.distinct_update split: if_splits)
next
  case False
  with assms show ?thesis
    by (auto simp: hold_ok_def take_hold_def canTake_def hold_free_def new_hold_def list_all_iff
        split: if_splits)
qed

lemma drop_hold_ok:
  assumes ok: "hold_ok h" and d: "drop_hold h s shared = Some h'" and f: "\<not> hold_free h'"
  shows "hold_ok h'"
proof (cases "shared \<and> 0 < shared_count h s")
  case True
  then have mem: "(s, shared_count h s) \<in> set (shared_by h)" by (simp add: shared_count_mem)
  let ?n = "shared_count h s - 1"
  let ?sh = "if ?n = 0 then AList.delete s (shared_by h) else AList.update s ?n (shared_by h)"
  have h': "h' = h\<lparr>shared_by := ?sh\<rparr>" using d True by (simp add: drop_hold_def Let_def split: if_splits)
  have keys: "\<forall>p \<in> set ?sh. 0 < snd p \<and> fst p \<in> fst ` set (shared_by h)"
    using ok mem by (auto simp: hold_ok_def set_AList_update set_AList_delete split: if_splits) force+
  have "distinct (map fst ?sh)"
    using ok by (simp add: hold_ok_def AList.distinct_update AList.distinct_delete)
  with ok h' keys f show ?thesis by (fastforce simp: hold_ok_def)
next
  case False
  with d have "\<not> shared" "exclusive h = Some s" by (auto simp: drop_hold_def split: if_splits)
  with ok d f show ?thesis
    by (fastforce simp: hold_ok_def drop_hold_def hold_free_def Let_def split: if_splits)
qed

lemma clear_session_ok:
  "hold_ok h \<Longrightarrow> \<not> hold_free (clear_session s h) \<Longrightarrow> hold_ok (clear_session s h)"
  by (auto simp: hold_ok_def clear_session_def hold_free_def set_AList_delete AList.distinct_delete
      Let_def split: if_splits)

lemma map_of_filter_map:
  assumes "distinct (map fst xs)"
  shows "map_of (filter (\<lambda>(_, h). P h) (map (\<lambda>(k, h). (k, f h)) xs)) k =
    (case map_of xs k of None \<Rightarrow> None | Some h \<Rightarrow> if P (f h) then Some (f h) else None)"
  using assms
proof (induction xs)
  case (Cons x xs)
  obtain k' h' where x: "x = (k', h')" by (cases x)
  have "map_of xs k' = None" using Cons.prems x by (simp add: map_of_eq_None_iff)
  with Cons x show ?case by (cases "k = k'") simp_all
qed simp

lemma distinct_filter_map:
  "distinct (map fst xs) \<Longrightarrow>
   distinct (map fst (filter (\<lambda>(_, h). P h) (map (\<lambda>(k, h). (k, f h)) xs)))"
  by (induction xs) (force simp: image_iff)+

lemma tryAdvisory_inv: "adv_inv st \<Longrightarrow> adv_inv (snd (tryAdvisory st s k shared))"
proof -
  assume inv: "adv_inv st"
  define h where "h = (case map_of (holds st) k of None \<Rightarrow> new_hold | Some h \<Rightarrow> h)"
  have "h = new_hold \<or> hold_ok h"
    using inv by (auto simp: h_def adv_inv_def dest: map_of_SomeD split: option.splits)
  moreover have "canTake (Some h) s shared" if "canTake (map_of (holds st) k) s shared"
    using that by (cases "map_of (holds st) k") (simp_all add: h_def canTake_def new_hold_def)
  ultimately have "hold_ok (take_hold h s shared)" if "canTake (map_of (holds st) k) s shared"
    using that by (blast intro: take_hold_ok)
  with inv show ?thesis
    by (auto simp: adv_inv_def tryAdvisory_def Let_def AList.distinct_update set_AList_update
        h_def [symmetric])
qed

lemma unlockAdvisory_inv: "adv_inv st \<Longrightarrow> adv_inv (snd (unlockAdvisory st s k shared))"
  by (fastforce simp: adv_inv_def unlockAdvisory_def wakeAdvisoryWaiters_def set_AList_update
      set_AList_delete AList.distinct_update AList.distinct_delete
      dest: map_of_SomeD intro: drop_hold_ok split: option.splits)

lemma releaseAdvisoryLocks_inv: "adv_inv st \<Longrightarrow> adv_inv (releaseAdvisoryLocks st s)"
  by (force simp: adv_inv_def releaseAdvisoryLocks_def wakeAdvisoryWaiters_def
      distinct_filter_map intro: clear_session_ok)

lemma adv_inv_cong: "holds st' = holds st \<Longrightarrow> adv_inv st' = adv_inv st"
  by (simp add: adv_inv_def)

lemma releaseTxAdvisoryLocks_inv: "adv_inv st \<Longrightarrow> adv_inv (releaseTxAdvisoryLocks st s)"
proof -
  have "adv_inv (foldl (\<lambda>st (key, shared). snd (unlockAdvisory st s key shared)) st ks)"
    if "adv_inv st" for ks
    using that by (induction ks arbitrary: st) (auto intro: unlockAdvisory_inv)
  then show "adv_inv st \<Longrightarrow> ?thesis"
    by (simp add: releaseTxAdvisoryLocks_def adv_inv_def)
qed

section \<open>The operations on the abstract state\<close>

lemma shared_count_excl [simp]:
  "shared_count (h\<lparr>exclusive := x\<rparr>) t = shared_count h t"
  "shared_count (h\<lparr>exclCount := n\<rparr>) t = shared_count h t"
  "shared_count (h\<lparr>exclusive := x, exclCount := n\<rparr>) t = shared_count h t"
  by (simp_all add: shared_count_def)

lemma shared_count_update:
  "shared_count (h\<lparr>shared_by := AList.update s n (shared_by h)\<rparr>) t =
     (if t = s then n else shared_count h t)"
  by (simp add: shared_count_def AList.update_conv')

lemma shared_count_delete:
  "shared_count (h\<lparr>shared_by := AList.delete s (shared_by h)\<rparr>) t =
     (if t = s then 0 else shared_count h t)"
  by (simp add: shared_count_def AList.delete_conv')

lemma shared_count_others:
  assumes "hold_ok h"
  shows "(\<forall>p \<in> set (shared_by h). fst p = s) \<longleftrightarrow> (\<forall>t. t \<noteq> s \<longrightarrow> shared_count h t = 0)"
proof
  assume a: "\<forall>t. t \<noteq> s \<longrightarrow> shared_count h t = 0"
  show "\<forall>p \<in> set (shared_by h). fst p = s"
  proof
    fix p assume p: "p \<in> set (shared_by h)"
    have "map_of (shared_by h) (fst p) = Some (snd p)" "0 < snd p"
      using assms p by (simp_all add: hold_ok_def)
    with a show "fst p = s" by (fastforce simp: shared_count_def)
  qed
next
  assume "\<forall>p \<in> set (shared_by h). fst p = s"
  then show "\<forall>t. t \<noteq> s \<longrightarrow> shared_count h t = 0"
    by (force simp: shared_count_def dest: map_of_SomeD split: option.splits)
qed

lemma adv_inv_hold: "adv_inv st \<Longrightarrow> map_of (holds st) k = Some h \<Longrightarrow> hold_ok h"
  by (fastforce simp: adv_inv_def dest: map_of_SomeD)

lemma canTake_held:
  assumes "adv_inv st"
  shows "canTake (map_of (holds st) k) s shared \<longleftrightarrow>
    (\<forall>t. t \<noteq> s \<longrightarrow> held st t k False = 0 \<and> (\<not> shared \<longrightarrow> held st t k True = 0))"
proof (cases "map_of (holds st) k")
  case None then show ?thesis by (simp add: canTake_def held_def)
next
  case (Some h)
  then have ok: "hold_ok h" using assms by (rule adv_inv_hold [rotated])
  then have pos: "0 < exclCount h" if "exclusive h = Some t" for t
    using that by (auto simp: hold_ok_def)
  have all: "list_all (\<lambda>(holder, _). holder = s) (shared_by h) \<longleftrightarrow>
      (\<forall>t. t \<noteq> s \<longrightarrow> shared_count h t = 0)"
    using shared_count_others [OF ok, of s] by (fastforce simp: list_all_iff)
  show ?thesis
    using Some pos by (cases "exclusive h") (auto simp: canTake_def held_def hold_count_def all)
qed

lemma tryAdvisory_fst: "fst (tryAdvisory st s k shared) = canTake (map_of (holds st) k) s shared"
  by (simp add: tryAdvisory_def Let_def)

lemma hold_count_take:
  assumes "exclusive h = None \<longrightarrow> exclCount h = 0" "canTake (Some h) s shared"
  shows "hold_count (take_hold h s shared) t b =
    hold_count h t b + (if t = s \<and> b = shared then 1 else 0)"
  using assms by (auto simp: hold_count_def take_hold_def shared_count_update canTake_def split: if_splits)

lemma hold_count_drop:
  assumes "hold_ok h" "drop_hold h s shared = Some h'"
  shows "hold_count h' t b = hold_count h t b - (if t = s \<and> b = shared then 1 else 0)"
  using assms
  by (auto simp: hold_count_def drop_hold_def hold_ok_def Let_def shared_count_update
      shared_count_delete split: if_splits)

lemma drop_hold_None: "hold_ok h \<Longrightarrow> drop_hold h s shared = None \<longleftrightarrow> hold_count h s shared = 0"
  by (auto simp: drop_hold_def hold_count_def hold_ok_def Let_def split: if_splits)

lemma hold_count_free: "hold_free h \<Longrightarrow> hold_count h t b = 0"
  by (simp add: hold_free_def hold_count_def shared_count_def)

lemma hold_count_clear: "hold_count (clear_session s h) t b = (if t = s then 0 else hold_count h t b)"
  by (auto simp: hold_count_def clear_session_def Let_def shared_count_delete)

lemma held_try:
  assumes "adv_inv st"
  shows "held (snd (tryAdvisory st s k shared)) t k' b =
    held st t k' b + (if fst (tryAdvisory st s k shared) \<and> t = s \<and> k' = k \<and> b = shared then 1 else 0)"
proof (cases "canTake (map_of (holds st) k) s shared")
  case False then show ?thesis by (simp add: tryAdvisory_def Let_def)
next
  case True
  define h where "h = (case map_of (holds st) k of None \<Rightarrow> new_hold | Some h \<Rightarrow> h)"
  have old: "held st t k b = hold_count h t b"
    by (auto simp: held_def h_def new_hold_def hold_count_def shared_count_def split: option.splits)
  have ex: "exclusive h = None \<longrightarrow> exclCount h = 0"
    using adv_inv_hold [OF assms, of k]
    by (cases "map_of (holds st) k") (auto simp: h_def new_hold_def hold_ok_def)
  have can: "canTake (Some h) s shared"
    using True by (cases "map_of (holds st) k") (auto simp: h_def new_hold_def canTake_def)
  have "map_of (holds (snd (tryAdvisory st s k shared))) =
      (map_of (holds st))(k \<mapsto> take_hold h s shared)"
    using True by (simp add: tryAdvisory_def Let_def h_def AList.update_conv')
  then show ?thesis
    using True old hold_count_take [OF ex can, of t b]
    by (cases "k' = k"; cases "t = s \<and> b = shared") (auto simp: tryAdvisory_fst held_def)
qed

lemma unlockAdvisory_fst:
  assumes "adv_inv st"
  shows "fst (unlockAdvisory st s k shared) \<longleftrightarrow> 0 < held st s k shared"
proof (cases "map_of (holds st) k")
  case None then show ?thesis by (simp add: unlockAdvisory_def held_def)
next
  case (Some h)
  then show ?thesis using drop_hold_None [OF adv_inv_hold [OF assms Some], of s shared]
    by (cases "drop_hold h s shared") (simp_all add: unlockAdvisory_def held_def)
qed

lemma held_unlock:
  assumes "adv_inv st"
  shows "held (snd (unlockAdvisory st s k shared)) t k' b =
    held st t k' b - (if t = s \<and> k' = k \<and> b = shared then 1 else 0)"
proof (cases "map_of (holds st) k")
  case None then show ?thesis by (simp add: unlockAdvisory_def held_def)
next
  case (Some h)
  note ok = adv_inv_hold [OF assms Some]
  show ?thesis
  proof (cases "drop_hold h s shared")
    case None
    with Some ok show ?thesis
      using drop_hold_None [OF ok, of s shared] by (auto simp: unlockAdvisory_def held_def)
  next
    case d: (Some h')
    then have "map_of (holds (snd (unlockAdvisory st s k shared))) k' =
        (if k' = k then (if hold_free h' then None else Some h') else map_of (holds st) k')"
      using Some by (simp add: unlockAdvisory_def wakeAdvisoryWaiters_def AList.delete_conv' AList.update_conv')
    then show ?thesis
      using hold_count_drop [OF ok d, of t b] hold_count_free [of h' t b] Some
      by (cases "k' = k"; cases "t = s \<and> b = shared") (auto simp: held_def)
  qed
qed

lemma held_release:
  assumes "adv_inv st"
  shows "held (releaseAdvisoryLocks st s) t k b = (if t = s then 0 else held st t k b)"
proof (cases "map_of (holds st) k")
  case None
  with assms show ?thesis
    by (simp add: held_def releaseAdvisoryLocks_def wakeAdvisoryWaiters_def map_of_filter_map adv_inv_def)
next
  case (Some h)
  then have "map_of (holds (releaseAdvisoryLocks st s)) k =
      (if hold_free (clear_session s h) then None else Some (clear_session s h))"
    using assms
    by (simp add: releaseAdvisoryLocks_def wakeAdvisoryWaiters_def map_of_filter_map adv_inv_def)
  then show ?thesis
    using Some hold_count_clear [of s h t b] hold_count_free [of "clear_session s h" t b]
    by (auto simp: held_def)
qed

interpretation adv: lock_service adv_inv held tryAdvisory unlockAdvisory releaseAdvisoryLocks
  by unfold_locales
     (simp_all add: tryAdvisory_fst canTake_held held_try unlockAdvisory_fst held_unlock held_release
        tryAdvisory_inv unlockAdvisory_inv releaseAdvisoryLocks_inv)

lemma adv_init_ok: "adv_init st \<Longrightarrow> adv_inv st \<and> adv.exclusion st"
  by (simp add: adv_init_def adv_inv_def adv.exclusion_def held_def)

section \<open>The system of sessions\<close>

text \<open>One atomic step of any session: a try (of a call or of a waiter's loop), an unlock, the
  recording of a transaction-level lock, \<open>pg_advisory_unlock_all\<close> or a closing connection, the start
  of a transaction, and its end (\<open>endTx\<close> clears \<open>s.tx\<close> and then releases).\<close>

inductive adv_step :: "advisory_state \<Rightarrow> advisory_state \<Rightarrow> bool" where
  step_try: "adv_step st (snd (tryAdvisory st s k sh))"
| step_unlock: "adv_step st (snd (unlockAdvisory st s k sh))"
| step_hold: "adv_step st (holdForTx st s k sh)"
| step_release: "adv_step st (releaseAdvisoryLocks st s)"
| step_begin: "adv_step st (st\<lparr>in_tx := (in_tx st)(s := True)\<rparr>)"
| step_end: "adv_step st (releaseTxAdvisoryLocks (st\<lparr>in_tx := (in_tx st)(s := False)\<rparr>) s)"

inductive_cases adv_stepE: "adv_step st st'"

lemma held_cong: "holds st' = holds st \<Longrightarrow> held st' = held st"
  by (simp add: held_def fun_eq_iff)

lemma exclusion_cong: "holds st' = holds st \<Longrightarrow> adv.exclusion st' = adv.exclusion st"
  by (simp add: adv.exclusion_def held_cong [of st' st])

lemma releaseTx_exclusion:
  assumes "adv_inv st" "adv.exclusion st"
  shows "adv.exclusion (releaseTxAdvisoryLocks st s)"
proof -
  let ?f = "foldl (\<lambda>st (key, shared). snd (unlockAdvisory st s key shared))"
  have fold: "?f st ks = foldl adv.perform st (map (\<lambda>(key, shared). UnlockOne s key shared) ks)" for st ks
  proof (induction ks arbitrary: st)
    case (Cons p ks)
    obtain k sh where p: "p = (k, sh)" by (cases p)
    show ?case unfolding p foldl_Cons prod.case list.map adv.perform.simps by (rule Cons.IH)
  qed simp
  have "adv.exclusion (?f st (txAdvisory st s))"
    unfolding fold using adv.exclusion_run [OF assms] by simp
  moreover have "holds (releaseTxAdvisoryLocks st s) = holds (?f st (txAdvisory st s))"
    by (simp add: releaseTxAdvisoryLocks_def)
  ultimately show ?thesis using exclusion_cong by metis
qed

definition adv_good :: "advisory_state \<Rightarrow> bool" where
  "adv_good st \<longleftrightarrow> adv_inv st \<and> adv.exclusion st"

lemma adv_good_cong: "holds st' = holds st \<Longrightarrow> adv_good st' = adv_good st"
  unfolding adv_good_def using adv_inv_cong exclusion_cong by metis

lemma adv_good_perform: "adv_good st \<Longrightarrow> adv_good (adv.perform st p)"
  by (simp add: adv_good_def adv.ok_perform adv.exclusion_perform)

lemma adv_good_unlock: "adv_good st \<Longrightarrow> adv_good (snd (unlockAdvisory st s k sh))"
  using adv_good_perform [of st "UnlockOne s k sh"] by simp

lemma adv_step_inv: "adv_step st st' \<Longrightarrow> adv_good st \<Longrightarrow> adv_good st'"
proof (induction rule: adv_step.induct)
  case (step_try st s k sh)
  then show ?case using adv_good_perform [of st "TryLock s k sh"] by simp
next
  case (step_unlock st s k sh)
  then show ?case by (rule adv_good_unlock)
next
  case (step_hold st s k sh)
  then show ?case
    by (cases "in_tx st s")
       (simp_all add: holdForTx_def adv_good_unlock
          adv_good_cong [of "st\<lparr>txAdvisory := _\<rparr>" st])
next
  case (step_release st s)
  then show ?case using adv_good_perform [of st "ReleaseAll s"] by simp
next
  case (step_begin st s)
  then show ?case by (simp add: adv_good_cong [of "st\<lparr>in_tx := _\<rparr>" st])
next
  case (step_end st s)
  let ?st = "st\<lparr>in_tx := (in_tx st)(s := False)\<rparr>"
  have "adv_good ?st" using step_end by (simp add: adv_good_cong [of ?st st])
  then show ?case
    unfolding adv_good_def by (simp add: releaseTxAdvisoryLocks_inv releaseTx_exclusion)
qed

interpretation adv_sys: invariant_system adv_init adv_step adv_good
  by unfold_locales (simp_all add: adv_init_ok adv_good_def [of "_ :: advisory_state"] adv_step_inv [unfolded adv_good_def])

section \<open>Properties\<close>

text \<open>C1: Mutual exclusion in every reachable state of the registry: whatever calls, transaction ends
  and disconnections have happened, in any order and interleaving, a lock one session holds
  exclusively is held by no other session, neither exclusively nor shared.\<close>
theorem advisory_mutual_exclusion:
  assumes "adv_init st" "adv_step\<^sup>*\<^sup>* st st'"
    and "0 < held st' s k False" "t \<noteq> s"
  shows "held st' t k b = 0"
  using adv_sys.inv_reachable [OF assms(1,2)] assms(3,4) unfolding adv_good_def adv.exclusion_def
  by metis

definition idle_registry :: advisory_state where
  "idle_registry = \<lparr>holds = [], released = 0, txAdvisory = (\<lambda>_. []), in_tx = (\<lambda>_. False)\<rparr>"

definition demo_key :: advisoryKey where
  "demo_key = \<lparr>ak_database = ''postgres'', ak_pair = False, ak_a = 42, ak_b = 0\<rparr>"

lemma idle_registry_init: "adv_init idle_registry"
  by (simp add: adv_init_def idle_registry_def)

lemma idle_try: "adv_step\<^sup>*\<^sup>* idle_registry (snd (tryAdvisory idle_registry 1 demo_key False))"
  by (intro r_into_rtranclp step_try)

theorem advisory_mutual_exclusion_witness:
  "held (snd (tryAdvisory idle_registry 1 demo_key False)) 2 demo_key True = 0"
proof (rule advisory_mutual_exclusion [OF idle_registry_init idle_try])
  show "0 < held (snd (tryAdvisory idle_registry 1 demo_key False)) 1 demo_key False"
    by (simp add: tryAdvisory_def idle_registry_def canTake_def take_hold_def new_hold_def held_def
        hold_count_def Let_def)
qed simp

text \<open>The registry refines the specification by counts: in a well-formed state a try succeeds
  exactly when no other session holds the lock in a conflicting mode, an unlock exactly when the
  caller holds it in that mode, and each changes only the caller's own count for that key and mode,
  by one; releasing all clears the caller's counts and nobody else's.\<close>
theorem advisory_refines_counts:
  assumes "adv_inv st"
  shows "(fst (tryAdvisory st s k sh) \<longleftrightarrow>
            (\<forall>t. t \<noteq> s \<longrightarrow> held st t k False = 0 \<and> (\<not> sh \<longrightarrow> held st t k True = 0))) \<and>
         held (snd (tryAdvisory st s k sh)) t k' b =
           held st t k' b + (if fst (tryAdvisory st s k sh) \<and> t = s \<and> k' = k \<and> b = sh then 1 else 0) \<and>
         (fst (unlockAdvisory st s k sh) \<longleftrightarrow> 0 < held st s k sh) \<and>
         held (snd (unlockAdvisory st s k sh)) t k' b =
           held st t k' b - (if t = s \<and> k' = k \<and> b = sh then 1 else 0) \<and>
         held (releaseAdvisoryLocks st s) t k' b = (if t = s then 0 else held st t k' b)"
  using adv.try_iff [OF assms] adv.try_count [OF assms] adv.unlock_iff [OF assms]
    adv.unlock_count [OF assms] adv.release_count [OF assms]
  by (intro conjI) (assumption | simp)+

theorem advisory_refines_counts_witness:
  "fst (tryAdvisory idle_registry 1 demo_key False)"
  using advisory_refines_counts [of idle_registry 1 demo_key False]
  by (simp add: adv_inv_def idle_registry_def held_def)

section \<open>Waiting\<close>

lemma canTake_take_hold: "canTake (Some h) t sh' \<Longrightarrow> canTake (Some (take_hold h t sh')) s sh \<Longrightarrow> canTake (Some h) s sh"
proof -
  have keys: "fst ` set (shared_by h) \<subseteq> fst ` set (AList.update t n (shared_by h))" for n
    by (simp add: AList.dom_update subset_insertI)
  assume a: "canTake (Some h) t sh'" "canTake (Some (take_hold h t sh')) s sh"
  show ?thesis
  proof (cases sh')
    case True
    then have "\<forall>p \<in> set (shared_by h). fst p = s" if "\<not> sh"
      using a(2) keys [of "shared_count h t + 1"] that
      by (fastforce simp: canTake_def take_hold_def list_all_iff split: if_splits)
    with a True show ?thesis
      by (auto simp: canTake_def take_hold_def list_all_iff split: if_splits)
  next
    case False
    with a show ?thesis by (auto simp: canTake_def take_hold_def split: if_splits)
  qed
qed

lemma tryAdvisory_fail: "\<not> fst (tryAdvisory st s k sh) \<Longrightarrow> snd (tryAdvisory st s k sh) = st"
  by (simp add: tryAdvisory_def Let_def split: if_splits)

definition can_take :: "advisory_state \<Rightarrow> sid \<Rightarrow> advisoryKey \<Rightarrow> bool \<Rightarrow> bool" where
  "can_take st s k sh \<longleftrightarrow> canTake (map_of (holds st) k) s sh"

lemma can_take_try: "can_take (snd (tryAdvisory st t k' sh')) s k sh \<Longrightarrow> can_take st s k sh"
proof (cases "canTake (map_of (holds st) k') t sh' \<and> k' = k")
  case True
  assume "can_take (snd (tryAdvisory st t k' sh')) s k sh"
  with True show ?thesis
    using canTake_take_hold [of _ t sh' s sh]
    by (cases "map_of (holds st) k")
       (auto simp: can_take_def tryAdvisory_def Let_def AList.update_conv' canTake_def [of None])
next
  case False
  assume "can_take (snd (tryAdvisory st t k' sh')) s k sh"
  with False show ?thesis
    by (auto simp: can_take_def tryAdvisory_def Let_def AList.update_conv' split: if_splits)
qed

lemma unlock_wakes:
  "snd (unlockAdvisory st s k sh) = st \<or> released (snd (unlockAdvisory st s k sh)) = released st + 1"
  by (simp add: unlockAdvisory_def wakeAdvisoryWaiters_def split: option.split)

lemma unlock_list_wakes:
  "foldl (\<lambda>st (key, shared). snd (unlockAdvisory st s key shared)) st ks = st \<or>
   released st < released (foldl (\<lambda>st (key, shared). snd (unlockAdvisory st s key shared)) st ks)"
proof (induction ks arbitrary: st)
  case (Cons p ks)
  obtain k sh where p: "p = (k, sh)" by (cases p)
  let ?st = "snd (unlockAdvisory st s k sh)"
  have u: "?st = st \<or> released st < released ?st" using unlock_wakes [of st s k sh] by linarith
  define F where "F = foldl (\<lambda>st (key, shared). snd (unlockAdvisory st s key shared)) ?st ks"
  have "F = ?st \<or> released ?st < released F" unfolding F_def by (rule Cons.IH)
  with u have "F = st \<or> released st < released F" by (elim disjE) simp_all
  then show ?case unfolding p foldl_Cons prod.case F_def .
qed simp

definition wakes :: "advisory_state \<Rightarrow> advisory_state \<Rightarrow> bool" where
  "wakes st st' \<longleftrightarrow> released st < released st' \<or>
     (released st = released st' \<and> (\<forall>s k sh. can_take st' s k sh \<longrightarrow> can_take st s k sh))"

lemma wakes_same: "released st' = released st \<Longrightarrow> holds st' = holds st \<Longrightarrow> wakes st st'"
  by (simp add: wakes_def can_take_def)

lemma wakes_trans: "wakes a b \<Longrightarrow> wakes b c \<Longrightarrow> wakes a c"
  by (auto simp: wakes_def)

lemma unlock_wakes_holds: "wakes st (snd (unlockAdvisory st s k sh))"
  using unlock_wakes [of st s k sh] by (auto simp: wakes_def)

lemma adv_step_wakes: "adv_step st st' \<Longrightarrow> wakes st st'"
proof (induction rule: adv_step.induct)
  case (step_try st s k sh)
  have "released (snd (tryAdvisory st s k sh)) = released st"
    by (simp add: tryAdvisory_def Let_def)
  then show ?case using can_take_try [of st s k sh] by (auto simp: wakes_def)
next
  case (step_unlock st s k sh)
  show ?case by (rule unlock_wakes_holds)
next
  case (step_hold st s k sh)
  then show ?case by (simp add: holdForTx_def unlock_wakes_holds wakes_same)
next
  case (step_release st s)
  then show ?case by (simp add: wakes_def releaseAdvisoryLocks_def wakeAdvisoryWaiters_def)
next
  case (step_begin st s)
  then show ?case by (simp add: wakes_same)
next
  case (step_end st s)
  let ?st = "st\<lparr>in_tx := (in_tx st)(s := False)\<rparr>"
  let ?fin = "foldl (\<lambda>st (key, shared). snd (unlockAdvisory st s key shared)) ?st (txAdvisory ?st s)"
  have "wakes ?st ?fin"
    using unlock_list_wakes [of s ?st "txAdvisory ?st s"] by (auto simp: wakes_def)
  moreover have "wakes st ?st" by (simp add: wakes_same)
  moreover have "wakes ?fin (releaseTxAdvisoryLocks ?st s)"
    unfolding releaseTxAdvisoryLocks_def by (rule wakes_same) simp_all
  ultimately show ?case by (blast intro: wakes_trans)
qed

lemma adv_steps_wakes: "adv_step\<^sup>*\<^sup>* st st' \<Longrightarrow> wakes st st'"
  by (induction rule: rtranclp_induct) (auto intro: wakes_trans adv_step_wakes wakes_same)

text \<open>C28: No lost wakeup: a waiter reads the generation, tries the lock and fails; if in any later
  state, after any steps of any sessions in between, the lock could be taken by it, then the
  generation it read has passed by then, so the channel it selects on is closed and it tries again.
  The read and the try are separate critical sections, so other steps may also come between them.\<close>
theorem advisory_no_lost_wakeup:
  assumes "adv_step\<^sup>*\<^sup>* st0 st" "adv_step\<^sup>*\<^sup>* (snd (tryAdvisory st s k sh)) st'"
    and "\<not> fst (tryAdvisory st s k sh)" "fst (tryAdvisory st' s k sh)"
  shows "released st0 < released st'"
proof -
  have "wakes st0 st" by (rule adv_steps_wakes [OF assms(1)])
  moreover have "snd (tryAdvisory st s k sh) = st"
    using assms(3) by (rule tryAdvisory_fail)
  then have "wakes st st'" using adv_steps_wakes [OF assms(2)] by simp
  moreover have "\<not> can_take st s k sh" "can_take st' s k sh"
    using assms(3,4) by (simp_all add: can_take_def tryAdvisory_fst)
  ultimately show ?thesis by (auto simp: wakes_def)
qed

theorem advisory_no_lost_wakeup_witness:
  "let st = snd (tryAdvisory idle_registry 1 demo_key False);
       st' = releaseAdvisoryLocks st 1
   in released st < released st'"
proof -
  let ?st = "snd (tryAdvisory idle_registry 1 demo_key False)"
  have busy: "\<not> fst (tryAdvisory ?st 2 demo_key True)" by code_simp
  have free: "fst (tryAdvisory (releaseAdvisoryLocks ?st 1) 2 demo_key True)" by code_simp
  have same: "snd (tryAdvisory ?st 2 demo_key True) = ?st"
    using busy by (rule tryAdvisory_fail)
  have step: "adv_step\<^sup>*\<^sup>* (snd (tryAdvisory ?st 2 demo_key True)) (releaseAdvisoryLocks ?st 1)"
    unfolding same by (intro r_into_rtranclp step_release)
  show ?thesis using advisory_no_lost_wakeup [OF rtranclp.rtrancl_refl step busy free] by (simp add: Let_def)
qed

section \<open>Transaction-level locks\<close>

text \<open>The end of a transaction takes back exactly the holds the transaction recorded: each lock as
  often, in the mode, it was recorded; session-level holds of the same session on other locks, and
  everything other sessions hold, stay; and the record is empty afterwards.\<close>
theorem releaseTxAdvisoryLocks_exact:
  assumes "adv_inv st"
  shows "held (releaseTxAdvisoryLocks st s) t k b =
           held st t k b - (if t = s then count_list (txAdvisory st s) (k, b) else 0) \<and>
         txAdvisory (releaseTxAdvisoryLocks st s) t = (if t = s then [] else txAdvisory st t)"
proof -
  let ?fin = "foldl (\<lambda>st (key, shared). snd (unlockAdvisory st s key shared)) st (txAdvisory st s)"
  have "held (releaseTxAdvisoryLocks st s) = held ?fin"
    by (rule held_cong) (simp add: releaseTxAdvisoryLocks_def)
  then show ?thesis
    using adv.unlock_list_count [OF assms, of s "txAdvisory st s" t k b]
    by (simp add: releaseTxAdvisoryLocks_def)
qed

theorem releaseTxAdvisoryLocks_exact_witness:
  "held (releaseTxAdvisoryLocks (idle_registry\<lparr>in_tx := (\<lambda>_. True)\<rparr>) 1) 1 demo_key True = 0"
  using releaseTxAdvisoryLocks_exact [of "idle_registry\<lparr>in_tx := (\<lambda>_. True)\<rparr>" 1 1 demo_key True]
  by (simp add: adv_inv_def idle_registry_def held_def)

section \<open>Calls inside a statement\<close>

text \<open>\<open>nameSoleCall\<close>: the alias PostgreSQL gives the column of a statement that is one call.\<close>

definition nameSoleCall :: "string \<Rightarrow> string \<Rightarrow> nat \<Rightarrow> string" where
  "nameSoleCall orig expanded calls =
     (if calls \<noteq> 1 then expanded
      else (let f = Fields (TrimRight (TrimSpace orig) '';'') in
        if length f < 2 \<or> \<not> EqualFold (f ! 0) ''SELECT'' then expanded
        else (let rest = TrimSpace (drop (length (f ! 0)) (TrimSpace (TrimRight (TrimSpace orig) '';''))) in
          case IndexByte rest (CHR ''('') of
            None \<Rightarrow> expanded
          | Some open \<Rightarrow>
              (let fn = ToLower (TrimSpace (take open rest)) in
               if fn \<notin> set advisoryFuncs then expanded
               else (case readParenArgs rest open of
                       None \<Rightarrow> expanded
                     | Some (_, stop) \<Rightarrow>
                         if TrimSpace (drop stop rest) \<noteq> [] then expanded
                         else TrimRight (TrimSpace expanded) '';'' @ '' AS '' @ fn)))))"

text \<open>The callback of \<open>expandAdvisoryLocks\<close>: it counts the calls, and stops the scan at an error or at
  a lock that has to be waited for.\<close>

definition advisory_call ::
  "sid \<Rightarrow> string \<Rightarrow> core_value list \<Rightarrow> string \<Rightarrow> string \<Rightarrow> nat \<times> advisory_state
     \<Rightarrow> (call_result + string) \<times> nat \<times> advisory_state" where
  "advisory_call s db params fn args cst =
     (case evalAdvisoryFunc (snd cst) s db fn args params of
        (Literal l, st') \<Rightarrow> (Inr l, fst cst + 1, st')
      | (r, st') \<Rightarrow> (Inl r, fst cst + 1, st'))"

definition expandAdvisoryLocks ::
  "advisory_state \<Rightarrow> sid \<Rightarrow> string \<Rightarrow> string \<Rightarrow> core_value list \<Rightarrow> (call_result + string) \<times> advisory_state" where
  "expandAdvisoryLocks st s db sql params =
     (if \<not> hasAdvisoryFunc sql then (Inr sql, st)
      else (case scanFuncCalls sql isAdvisoryFunc (advisory_call s db params) (0, st) of
              (Inl r, _, st') \<Rightarrow> (Inl r, st')
            | (Inr out, calls, st') \<Rightarrow> (Inr (nameSoleCall sql out calls), st')))"

definition neutralizeAdvisoryLocks :: "string \<Rightarrow> string" where
  "neutralizeAdvisoryLocks sql =
     (if \<not> hasAdvisoryFunc sql then sql
      else (case scanFuncCalls sql isAdvisoryFunc
                   (\<lambda>fn _ calls. (Inr (advisoryResult fn True) :: unit + string, calls + 1)) 0 of
              (Inr out, calls) \<Rightarrow> nameSoleCall sql out calls
            | (Inl _, calls) \<Rightarrow> nameSoleCall sql [] calls))"

lemma advisoryFuncs_named: "fn \<in> set advisoryFuncs \<Longrightarrow> Contains fn ''advisory_''"
proof -
  have "list_all (\<lambda>fn. Contains fn ''advisory_'') advisoryFuncs" by code_simp
  then show "fn \<in> set advisoryFuncs \<Longrightarrow> ?thesis" by (simp add: list_all_iff)
qed

lemma advisory_scan_id:
  assumes "\<not> hasAdvisoryFunc sql"
  shows "scanFuncCalls sql isAdvisoryFunc replace c = (Inr sql, c)"
proof (rule scanFuncCalls_id)
  fix fn assume "isAdvisoryFunc fn"
  then have "Contains fn ''advisory_''" by (simp add: isAdvisoryFunc_def advisoryFuncs_named)
  then show "\<not> Contains (ToLower sql) fn"
    using assms Contains_trans [of "ToLower sql" fn] by (auto simp: hasAdvisoryFunc_def)
qed

text \<open>The quick test in front of the expansion turns away no statement with a call of one of the
  functions: the expansion, and the one for Describe, are what the scan alone would give on every
  statement, locks included.\<close>
theorem expandAdvisoryLocks_quick_test:
  "expandAdvisoryLocks st s db sql params =
     (case scanFuncCalls sql isAdvisoryFunc (advisory_call s db params) (0, st) of
        (Inl r, _, st') \<Rightarrow> (Inl r, st')
      | (Inr out, calls, st') \<Rightarrow> (Inr (nameSoleCall sql out calls), st')) \<and>
   neutralizeAdvisoryLocks sql =
     (case scanFuncCalls sql isAdvisoryFunc
             (\<lambda>fn _ calls. (Inr (advisoryResult fn True) :: unit + string, calls + 1)) 0 of
        (Inr out, calls) \<Rightarrow> nameSoleCall sql out calls
      | (Inl _, calls) \<Rightarrow> nameSoleCall sql [] calls)"
  by (cases "hasAdvisoryFunc sql")
     (simp_all add: expandAdvisoryLocks_def neutralizeAdvisoryLocks_def advisory_scan_id nameSoleCall_def)

section \<open>Where the code departs from what it means to do\<close>

text \<open>A key given as a parameter works only when the parameter arrived as text: a binary integer
  parameter, whatever its value, makes every lock function fail, because \<open>asString\<close> reads an integer
  value as the empty string.\<close>
theorem advisory_binary_parameter_fails:
  "evalAdvisoryFunc st s db ''pg_try_advisory_lock'' ''$1'' (VInt n # ps) =
     (CallError (''pg_try_advisory_lock: key '' @ goQuote ''$1'' @ '' is not an integer''), st)"
proof -
  have "splitTop ''$1'' = [''$1'']" by code_simp
  moreover have "key_num (VInt n # ps) ''$1'' = Inl (''key '' @ goQuote ''$1'' @ '' is not an integer'')"
  proof -
    have a: "TrimSpace ''$1'' = ''$1''" "Index ''$1'' ''::'' = None" "Trim ''$1'' ''()'' = ''$1''"
      "HasPrefix ''$1'' ''$''" "parseInt ''1'' = Some 1" by code_simp+
    have b: "parseInt (Trim (TrimSpace []) [CHR 0x27]) = None" by code_simp
    show ?thesis by (simp add: key_num_def Let_def a b asString_def)
  qed
  ultimately have "parseAdvisoryKey db ''$1'' (VInt n # ps) =
      Inl (''key '' @ goQuote ''$1'' @ '' is not an integer'')"
    by (simp add: parseAdvisoryKey_def)
  then show ?thesis by (simp add: evalAdvisoryFunc_def)
qed

text \<open>A transaction-level lock does not last until the transaction ends if the session calls
  \<open>pg_advisory_unlock\<close> on it: the unlock succeeds, and another session can take the lock exclusively
  while the transaction is still open and its record still names the lock.\<close>
theorem advisory_unlock_frees_transaction_lock:
  assumes "adv_inv st" "in_tx st s" "\<And>t b. held st t k b = 0"
  shows "let st1 = holdForTx (snd (tryAdvisory st s k sh)) s k sh;
             (ok, st2) = unlockAdvisory st1 s k sh
         in held st1 s k sh = 1 \<and> ok \<and> in_tx st2 s \<and> (k, sh) \<in> set (txAdvisory st2 s) \<and>
            fst (tryAdvisory st2 t k False)"
proof -
  let ?st0 = "snd (tryAdvisory st s k sh)"
  let ?st1 = "holdForTx ?st0 s k sh"
  have took: "fst (tryAdvisory st s k sh)" using adv.try_iff [OF assms(1)] assms(3) by simp
  have in_tx: "in_tx ?st0 s" using assms(2) by (simp add: tryAdvisory_def Let_def)
  have st1: "holds ?st1 = holds ?st0" using in_tx by (simp add: holdForTx_def)
  have inv1: "adv_inv ?st1" using tryAdvisory_inv [OF assms(1)] adv_inv_cong [OF st1] by simp
  have held1: "held ?st1 u k b = (if u = s \<and> b = sh then 1 else 0)" for u b
    using held_cong [OF st1] adv.try_count [OF assms(1), of s k sh u k b] took assms(3) by simp
  obtain ok st2 where u: "unlockAdvisory ?st1 s k sh = (ok, st2)" by (cases "unlockAdvisory ?st1 s k sh")
  have ok: "ok" using adv.unlock_iff [OF inv1, of s k sh] held1 [of s sh] u by simp
  have st2: "in_tx st2 s = in_tx ?st1 s" "txAdvisory st2 = txAdvisory ?st1"
    using u by (auto simp: unlockAdvisory_def wakeAdvisoryWaiters_def split: option.splits)
  have "held st2 u k b = 0" for u b
    using adv.unlock_count [OF inv1, of s k sh u k b] held1 [of u b] u by simp
  moreover have "adv_inv st2" using unlockAdvisory_inv [OF inv1, of s k sh] u by simp
  ultimately have "fst (tryAdvisory st2 t k False)" using adv.try_iff by simp
  with u ok st2 held1 [of s sh] in_tx show ?thesis by (simp add: holdForTx_def Let_def)
qed

theorem advisory_unlock_frees_transaction_lock_witness:
  "let st = idle_registry\<lparr>in_tx := (\<lambda>_. True)\<rparr>;
       st1 = holdForTx (snd (tryAdvisory st 1 demo_key False)) 1 demo_key False;
       st2 = snd (unlockAdvisory st1 1 demo_key False)
   in in_tx st2 1 \<and> fst (tryAdvisory st2 2 demo_key False)"
  using advisory_unlock_frees_transaction_lock [of "idle_registry\<lparr>in_tx := (\<lambda>_. True)\<rparr>" 1 demo_key False 2]
  by (simp add: adv_inv_def idle_registry_def held_def Let_def case_prod_beta)

end
