(* ===== verification/Splitter.thy ===== *)
theory Splitter
  imports Statements
begin

text \<open>
  Splitting a Query message at the semicolons that end statements (\<open>multistatement.go\<close>), the
  parameter scanners (\<open>countParams\<close> of \<open>extended.go\<close>, \<open>substituteParams\<close> of \<open>prepare.go\<close>) and the
  statement classifiers the session routes by (\<open>utility.go\<close>, \<open>database.go\<close>, \<open>sequences.go\<close>,
  \<open>session_user.go\<close>, \<open>searchpath.go\<close>, \<open>notify.go\<close>, \<open>grants.go\<close>).
\<close>

section \<open>Dollar quotes\<close>

text \<open>\<open>dollarTag\<close> returns the empty string when the dollar at \<open>i\<close> opens no quote.\<close>

function dollarTag_from :: "string \<Rightarrow> nat \<Rightarrow> nat \<Rightarrow> string" where
  "dollarTag_from sql i j =
     (if j < length sql \<and> sql ! j \<noteq> CHR ''$'' then
        if \<not> isWordByte (sql ! j) \<or> (j = i + 1 \<and> is_digit (sql ! j)) then []
        else dollarTag_from sql i (j + 1)
      else if length sql \<le> j then []
      else slice sql i (j + 1))"
  by pat_completeness auto
termination by (relation "measure (\<lambda>(sql, i, j). length sql - j)") auto

declare dollarTag_from.simps [simp del]

definition dollarTag :: "string \<Rightarrow> nat \<Rightarrow> string" where
  "dollarTag sql i =
     (if 0 < i \<and> isWordByte (sql ! (i - 1)) then [] else dollarTag_from sql i (i + 1))"

section \<open>Open routine bodies\<close>

definition createsRoutine :: "string list \<Rightarrow> bool" where
  "createsRoutine f =
     (if length f < 2 \<or> f ! 0 \<noteq> ''CREATE'' then False
      else (let f = tl f;
                f = (if 2 < length f \<and> f ! 0 = ''OR'' \<and> f ! 1 = ''REPLACE'' then drop 2 f else f);
                f = (if 1 < length f \<and> (f ! 0 = ''TEMP'' \<or> f ! 0 = ''TEMPORARY'') then drop 1 f else f)
            in f \<noteq> [] \<and> (f ! 0 = ''TRIGGER'' \<or> f ! 0 = ''FUNCTION'' \<or> f ! 0 = ''PROCEDURE'')))"

function openBody_from :: "string \<Rightarrow> int \<Rightarrow> nat \<Rightarrow> bool" where
  "openBody_from stmt depth i =
     (if i < length stmt then
        (let c = stmt ! i in
         if c = CHR 0x27 \<or> c = CHR 0x22 then openBody_from stmt depth (skipQuoted stmt i c)
         else if at_line_comment stmt i then openBody_from stmt depth (skipLineComment stmt i)
         else if at_block_comment stmt i then
           openBody_from stmt depth (fst (skipBlockComment stmt i))
         else if c = CHR ''$'' then
           (let tag = dollarTag stmt i in
            if tag \<noteq> [] then
              (case Index (drop (i + length tag) stmt) tag of
                 Some j \<Rightarrow> openBody_from stmt depth (i + length tag + j + length tag)
               | None \<Rightarrow> False)
            else openBody_from stmt depth (i + 1))
         else if isWordByte c \<and> (i = 0 \<or> \<not> isWordByte (stmt ! (i - 1))) then
           (let j = scan_while isWordByte stmt i; w = slice (ToLower stmt) i j in
            openBody_from stmt
              (if w = ''begin'' \<or> w = ''case'' then depth + 1
               else if w = ''end'' then depth - 1 else depth) j)
         else openBody_from stmt depth (i + 1))
      else 0 < depth)"
  by pat_completeness auto
termination
  by (relation "measure (\<lambda>(stmt, d, i). length stmt - i)")
     (auto simp: diff_less_mono2 skipQuoted_bounds skipLineComment_bounds skipBlockComment_bounds
        scan_while_gt)

declare openBody_from.simps [simp del]

definition openBody :: "string \<Rightarrow> bool" where
  "openBody stmt =
     (if createsRoutine (Fields (ToUpper (stripLeadingComments stmt)))
      then openBody_from stmt 0 0 else False)"

section \<open>Splitting\<close>

text \<open>The closure \<open>add\<close>: pieces with nothing executable in them are dropped, the rest is trimmed.\<close>

definition add_piece :: "string \<Rightarrow> string list \<Rightarrow> string list" where
  "add_piece st out = (if isBlankStatement st then out else TrimSpace st # out)"

text \<open>\<open>split_next\<close> is one turn of the loop's \<open>switch\<close>: where the scan goes on from, for every byte but
  a semicolon. \<open>splitStatements_from sql start i\<close> is the list the loop still has to append.\<close>

definition split_next :: "string \<Rightarrow> nat \<Rightarrow> nat" where
  "split_next sql i =
     (let c = sql ! i in
      if c = CHR 0x27 then
        if 0 < i \<and> (sql ! (i - 1) = CHR ''e'' \<or> sql ! (i - 1) = CHR ''E'') \<and>
           (i < 2 \<or> \<not> isWordByte (sql ! (i - 2)))
        then skipEscapeString sql i else skipQuoted sql i (CHR 0x27)
      else if c = CHR 0x22 then skipQuoted sql i (CHR 0x22)
      else if at_line_comment sql i then skipLineComment sql i
      else if at_block_comment sql i then fst (skipBlockComment sql i)
      else if c = CHR ''$'' then
        (let tag = dollarTag sql i in
         if tag \<noteq> [] then
           (case Index (drop (i + length tag) sql) tag of
              Some j \<Rightarrow> i + length tag + j + length tag
            | None \<Rightarrow> length sql)
         else i + 1)
      else i + 1)"

lemma split_next_gt: "i < length sql \<Longrightarrow> i < split_next sql i"
  by (auto simp: split_next_def Let_def skipEscapeString_bounds skipQuoted_bounds
        skipLineComment_bounds skipBlockComment_bounds split: option.splits)

function splitStatements_from :: "string \<Rightarrow> nat \<Rightarrow> nat \<Rightarrow> string list" where
  "splitStatements_from sql start i =
     (if i < length sql then
        if sql ! i = CHR '';'' then
          if openBody (slice sql start i) then splitStatements_from sql start (i + 1)
          else add_piece (slice sql start i) (splitStatements_from sql (i + 1) (i + 1))
        else splitStatements_from sql start (split_next sql i)
      else add_piece (drop start sql) [])"
  by pat_completeness auto
termination
  by (relation "measure (\<lambda>(sql, start, i). length sql - i)")
     (auto simp: diff_less_mono2 split_next_gt)

declare splitStatements_from.simps [simp del]

definition splitStatements :: "string \<Rightarrow> string list" where
  "splitStatements sql = splitStatements_from sql 0 0"

section \<open>Parameters\<close>

text \<open>\<open>countParams\<close>: the placeholders outside strings and quoted identifiers. The inner loop over a
  quoted run ends on the closing quote (or the end), the outer \<open>i++\<close> steps past it.\<close>

text \<open>The digits of \<open>$N\<close>; as Go's \<open>int\<close> does, the value wraps at 64 bits.\<close>

definition wrap64 :: "int \<Rightarrow> int" where
  "wrap64 x = signed_take_bit 63 x"

function scan_number :: "string \<Rightarrow> nat \<Rightarrow> int \<Rightarrow> nat \<times> int" where
  "scan_number sql j n =
     (if j < length sql \<and> is_digit (sql ! j) then
        scan_number sql (j + 1) (wrap64 (n * 10 + int (code (sql ! j) - 48)))
      else (j, n))"
  by pat_completeness auto
termination by (relation "measure (\<lambda>(sql, j, n). length sql - j)") auto

declare scan_number.simps [simp del]

lemma scan_number_ge: "j \<le> fst (scan_number sql j n)"
proof (induction sql j n rule: scan_number.induct)
  case (1 sql j n) then show ?case by (subst scan_number.simps) auto
qed

lemma scan_number_gt: "(k, m) = scan_number sql (Suc j) n \<Longrightarrow> j < k"
  by (metis Suc_le_lessD fst_conv scan_number_ge)

function countParams_from :: "string \<Rightarrow> int \<Rightarrow> int \<Rightarrow> nat \<Rightarrow> int" where
  "countParams_from sql mx bare i =
     (if i < length sql then
        if sql ! i = CHR 0x27 \<or> sql ! i = CHR 0x22 then
          countParams_from sql mx bare (skipQuoted sql i (sql ! i))
        else if sql ! i = CHR ''?'' then countParams_from sql mx (bare + 1) (i + 1)
        else if sql ! i = CHR ''$'' then
          (let (j, n) = scan_number sql (i + 1) 0 in
           countParams_from sql (if i + 1 < j \<and> mx < n then n else mx) bare j)
        else countParams_from sql mx bare (i + 1)
      else if mx < bare then bare else mx)"
  by pat_completeness auto
termination
  by (relation "measure (\<lambda>(sql, m, b, i). length sql - i)")
     (auto simp: diff_less_mono2 skipQuoted_bounds scan_number_gt)

declare countParams_from.simps [simp del]

definition countParams :: "string \<Rightarrow> int" where
  "countParams sql = countParams_from sql 0 0 0"

text \<open>\<open>substituteParams\<close>: the arguments of \<open>EXECUTE\<close> put in for \<open>$1\<close>, \<open>$2\<close>, \<dots> outside literals.\<close>

function substituteParams_from :: "string \<Rightarrow> string list \<Rightarrow> nat \<Rightarrow> string" where
  "substituteParams_from query args i =
     (if i < length query then
        if query ! i = CHR 0x27 then
          slice query i (endOfStringLiteral query i) @
          substituteParams_from query args (endOfStringLiteral query i)
        else if query ! i = CHR ''$'' \<and> i + 1 < length query \<and>
                is_digit (query ! (i + 1)) \<and> query ! (i + 1) \<noteq> CHR ''0'' then
          (let (j, n) = scan_number query (i + 1) 0 in
           if 1 \<le> n \<and> n \<le> int (length args) then
             args ! (nat n - 1) @ substituteParams_from query args j
           else query ! i # substituteParams_from query args (i + 1))
        else query ! i # substituteParams_from query args (i + 1)
      else [])"
  by pat_completeness auto
termination
  by (relation "measure (\<lambda>(q, args, i). length q - i)")
     (auto simp: diff_less_mono2 endOfStringLiteral_bounds scan_number_gt)

declare substituteParams_from.simps [simp del]

definition substituteParams :: "string \<Rightarrow> string list \<Rightarrow> string" where
  "substituteParams query args = substituteParams_from query args 0"

section \<open>Classifying statements\<close>

definition savepointKind :: "string \<Rightarrow> string" where
  "savepointKind sql =
     (let fields = Fields sql in
      if fields = [] then []
      else (let w = ToUpper (hd fields) in
            if w = ''SAVEPOINT'' then ''SAVEPOINT''
            else if w = ''RELEASE'' then ''RELEASE''
            else if (w = ''ROLLBACK'' \<or> w = ''ABORT'') \<and>
                    list_ex (\<lambda>f. EqualFold f ''to'') (tl fields) then ''ROLLBACK TO''
            else []))"

definition txControlKind :: "string \<Rightarrow> string" where
  "txControlKind sql =
     (if savepointKind sql \<noteq> [] then []
      else (let w = firstWordUpper sql in
            if w = ''BEGIN'' \<or> w = ''START'' then ''BEGIN''
            else if w = ''COMMIT'' \<or> w = ''END'' then ''COMMIT''
            else if w = ''ROLLBACK'' \<or> w = ''ABORT'' then ''ROLLBACK''
            else []))"

definition isDatabaseDDL :: "string \<Rightarrow> bool" where
  "isDatabaseDDL sql \<longleftrightarrow>
     (firstWordUpper sql = ''CREATE'' \<or> firstWordUpper sql = ''DROP'') \<and>
     secondWordUpper sql = ''DATABASE''"

definition isSequenceDDL :: "string \<Rightarrow> bool" where
  "isSequenceDDL sql =
     (let fields = Fields sql in
      if length fields < 2 \<or> \<not> EqualFold (fields ! 1) ''sequence'' then False
      else ToUpper (fields ! 0) \<in> {''CREATE'', ''ALTER'', ''DROP''})"

definition isSetRole :: "string \<Rightarrow> bool" where
  "isSetRole sql =
     (let f = Fields sql in
      if length f < 2 then False
      else if ToUpper (f ! 0) = ''SET'' \<or> ToUpper (f ! 0) = ''RESET'' then
        EqualFold (f ! 1) ''role'' \<or>
        (3 \<le> length f \<and> EqualFold (f ! 1) ''session'' \<and> EqualFold (f ! 2) ''authorization'')
      else False)"

definition isGrant :: "string \<Rightarrow> bool" where
  "isGrant sql \<longleftrightarrow> firstWordUpper sql = ''GRANT'' \<or> firstWordUpper sql = ''REVOKE''"

definition isListenNotify :: "string \<Rightarrow> bool" where
  "isListenNotify sql \<longleftrightarrow> firstWordUpper sql \<in> {''LISTEN'', ''UNLISTEN'', ''NOTIFY''}"

definition dropSessionLocal :: "string list \<Rightarrow> string list" where
  "dropSessionLocal rest =
     (if 1 \<le> length rest \<and> (EqualFold (rest ! 0) ''session'' \<or> EqualFold (rest ! 0) ''local'')
      then drop 1 rest else rest)"

definition isSearchPathStmt :: "string \<Rightarrow> bool" where
  "isSearchPathStmt raw =
     (let f = Fields raw in
      if length f < 2 then False
      else (let w = ToUpper (f ! 0) in
            if w = ''RESET'' \<or> w = ''SHOW'' then EqualFold (stripSemi (f ! 1)) ''search_path''
            else if w = ''SET'' then
              (let rest = dropSessionLocal (tl f) in
               1 \<le> length rest \<and> EqualFold (rest ! 0) ''search_path'')
            else False))"

section \<open>Quoting\<close>

text \<open>
  Scanning a literal that \<open>sqlStr\<close> built, inside any text: the scan stops exactly at its end. The
  induction goes over the quoted value with the text before it generalised.
\<close>

lemma endOfStringLiteral_from_quoted:
  assumes "rest = [] \<or> hd rest \<noteq> CHR 0x27"
  shows "endOfStringLiteral_from
           (pre @ ReplaceByte s (CHR 0x27) [CHR 0x27, CHR 0x27] @ CHR 0x27 # rest) (length pre) =
         length pre + length (ReplaceByte s (CHR 0x27) [CHR 0x27, CHR 0x27]) + 1"
proof (induction s arbitrary: pre)
  case Nil
  show ?case using assms
    by (subst endOfStringLiteral_from.simps) (cases rest; simp add: ReplaceByte_def nth_append)
next
  case (Cons c s)
  show ?case
  proof (cases "c = CHR 0x27")
    case True
    show ?thesis using Cons.IH [of "pre @ [c, c]"] True
      by (subst endOfStringLiteral_from.simps) (simp add: ReplaceByte_def nth_append)
  next
    case False
    show ?thesis using Cons.IH [of "pre @ [c]"] False
      by (subst endOfStringLiteral_from.simps) (simp add: ReplaceByte_def nth_append)
  qed
qed

lemma endOfStringLiteral_sqlStr:
  assumes "rest = [] \<or> hd rest \<noteq> CHR 0x27"
  shows "endOfStringLiteral (pre @ sqlStr s @ rest) (length pre) = length pre + length (sqlStr s)"
  using endOfStringLiteral_from_quoted [OF assms, of "pre @ [CHR 0x27]" s]
  by (simp add: endOfStringLiteral_def sqlStr_def)

lemma skipQuoted_sqlStr:
  assumes "rest = [] \<or> hd rest \<noteq> CHR 0x27"
  shows "skipQuoted (pre @ sqlStr s @ rest) (length pre) (CHR 0x27) = length pre + length (sqlStr s)"
proof -
  have "length pre + 1 \<le> length (pre @ sqlStr s @ rest)" by (simp add: sqlStr_def)
  then show ?thesis
    using endOfStringLiteral_sqlStr [OF assms, of pre s]
    by (simp add: skipQuoted_def endOfStringLiteral_def skipQuoted_from_eq)
qed

lemma undouble_ReplaceByte: "undouble q (ReplaceByte s q [q, q]) = s"
proof (induction s)
  case (Cons c s)
  have other: "undouble q (c # t) = c # undouble q t" if "c \<noteq> q" for t
    using that by (cases t) auto
  show ?case using Cons other by (simp add: ReplaceByte_def)
qed (simp add: ReplaceByte_def)

text \<open>A value quoted by sqlStr is read back by the literal scanner as exactly that literal, whatever
  bytes the value holds and wherever it stands in a statement (unless a quote follows it), and
  collapsing the doubled quotes between its delimiters gives the value back: no value can end its
  literal early and inject SQL.\<close>
theorem sqlStr_scans_back:
  assumes "rest = [] \<or> hd rest \<noteq> CHR 0x27"
  shows "skipString (pre @ sqlStr s @ rest) (length pre) = length pre + length (sqlStr s) \<and>
         endOfStringLiteral (pre @ sqlStr s @ rest) (length pre) = length pre + length (sqlStr s) \<and>
         undouble (CHR 0x27) (slice (sqlStr s) 1 (length (sqlStr s) - 1)) = s"
proof -
  have "slice (sqlStr s) 1 (length (sqlStr s) - 1) = ReplaceByte s (CHR 0x27) [CHR 0x27, CHR 0x27]"
    by (simp add: sqlStr_def slice_def)
  then show ?thesis
    using endOfStringLiteral_sqlStr [OF assms] by (simp add: skipString_eq undouble_ReplaceByte)
qed

theorem sqlStr_scans_back_witness:
  "skipString (''= '' @ sqlStr [CHR ''a'', CHR 0x27, CHR '';''] @ '' OR 1'') 2 = 8"
  using sqlStr_scans_back [of "'' OR 1''" "''= ''" "[CHR ''a'', CHR 0x27, CHR '';'']"]
  by (simp add: sqlStr_def ReplaceByte_def eval_nat_numeral)

section \<open>What splitting does to a message\<close>

text \<open>The raw pieces the loop cuts, before blank ones are dropped and the rest trimmed.\<close>

definition kept :: "string list \<Rightarrow> string list" where
  "kept ps = map TrimSpace (filter (\<lambda>p. \<not> isBlankStatement p) ps)"

lemma kept_Cons: "kept (p # ps) = add_piece p (kept ps)"
  by (simp add: kept_def add_piece_def)

lemma Join_Cons: "ps \<noteq> [] \<Longrightarrow> Join (p # ps) sep = p @ sep @ Join ps sep"
  by (cases ps) auto

lemma slice_drop_cons:
  "start \<le> i \<Longrightarrow> i < length s \<Longrightarrow> slice s start i @ s ! i # drop (Suc i) s = drop start s"
  by (metis Cons_nth_drop_Suc append_take_drop_id drop_drop le_add_diff_inverse2 slice_def)

lemma splitStatements_from_partition:
  "start \<le> i \<Longrightarrow> start \<le> length sql \<Longrightarrow>
   \<exists>ps. ps \<noteq> [] \<and> Join ps '';'' = drop start sql \<and> splitStatements_from sql start i = kept ps \<and>
        (\<forall>p \<in> set (butlast ps). \<not> openBody p)"
proof (induction sql start i rule: splitStatements_from.induct)
  case (1 sql start i)
  note unf = splitStatements_from.simps [of sql start i]
  consider (stop) "length sql \<le> i" | (body) "i < length sql" "sql ! i = CHR '';''" "openBody (slice sql start i)"
    | (cut) "i < length sql" "sql ! i = CHR '';''" "\<not> openBody (slice sql start i)"
    | (onward) "i < length sql" "sql ! i \<noteq> CHR '';''" by linarith
  then show ?case
  proof cases
    case stop
    then show ?thesis using unf
      by (intro exI [of _ "[drop start sql]"]) (simp add: kept_def add_piece_def)
  next
    case body
    then show ?thesis using 1 unf by simp
  next
    case cut
    then obtain ps where ps: "ps \<noteq> []" "Join ps '';'' = drop (i + 1) sql"
      "splitStatements_from sql (i + 1) (i + 1) = kept ps" "\<forall>p \<in> set (butlast ps). \<not> openBody p"
      using "1.IH"(2) by auto
    show ?thesis
      using ps cut unf "1.prems" slice_drop_cons [of start i sql]
      by (intro exI [of _ "slice sql start i # ps"]) (simp add: kept_Cons Join_Cons)
  next
    case onward
    moreover have "start \<le> split_next sql i"
      using split_next_gt [OF onward(1)] "1.prems" by simp
    ultimately show ?thesis using "1.IH"(3) "1.prems" unf by simp
  qed
qed

text \<open>Splitting a message loses nothing and invents nothing: the message is the concatenation, with
  semicolons between, of raw pieces; the statements returned are exactly those pieces that have
  something executable in them, trimmed and in order; and no cut is made inside the open body of a
  trigger or function.\<close>
theorem splitStatements_partition:
  "\<exists>ps. Join ps '';'' = sql \<and>
        splitStatements sql = map TrimSpace (filter (\<lambda>p. \<not> isBlankStatement p) ps) \<and>
        (\<forall>p \<in> set (butlast ps). \<not> openBody p)"
  using splitStatements_from_partition [of 0 0 sql] by (auto simp: splitStatements_def kept_def)

theorem splitStatements_partition_witness:
  "\<exists>ps. Join ps '';'' = ''BEGIN;;COMMIT'' \<and>
        splitStatements ''BEGIN;;COMMIT'' = map TrimSpace (filter (\<lambda>p. \<not> isBlankStatement p) ps)"
  using splitStatements_partition [of "''BEGIN;;COMMIT''"] by (elim exE conjE) (rule exI, rule conjI)

text \<open>Bytes that open neither a literal, a quoted identifier, a comment nor a dollar quote.\<close>

definition plain :: "char \<Rightarrow> bool" where
  "plain c \<longleftrightarrow> c \<noteq> CHR 0x27 \<and> c \<noteq> CHR 0x22 \<and> c \<noteq> CHR ''-'' \<and> c \<noteq> CHR ''/'' \<and> c \<noteq> CHR ''$''"

lemma split_next_plain: "plain (sql ! i) \<Longrightarrow> split_next sql i = i + 1"
  by (simp add: split_next_def plain_def at_line_comment_def at_block_comment_def)

lemma splitStatements_from_run:
  assumes "i \<le> j" "j \<le> length sql" "\<And>k. i \<le> k \<Longrightarrow> k < j \<Longrightarrow> plain (sql ! k) \<and> sql ! k \<noteq> CHR '';''"
  shows "splitStatements_from sql start i = splitStatements_from sql start j"
  using assms
proof (induction "j - i" arbitrary: i)
  case (Suc n)
  have c: "plain (sql ! i)" "sql ! i \<noteq> CHR '';''" "i < length sql"
    using Suc.prems(3) [of i] Suc.hyps(2) Suc.prems(2) by auto
  have "splitStatements_from sql start i = splitStatements_from sql start (i + 1)"
    using c by (subst splitStatements_from.simps) (simp only: split_next_plain if_True if_False)
  also have "\<dots> = splitStatements_from sql start j"
    using Suc.prems Suc.hyps(2) by (intro Suc.hyps(1)) auto
  finally show ?case .
qed simp



lemma splitStatements_from_plain:
  assumes "\<forall>c \<in> set sql. plain c" "start \<le> i" "i \<le> length sql"
    and "\<forall>p \<in> set ((slice sql start i @ hd (SplitByte (drop i sql) (CHR '';''))) #
               tl (SplitByte (drop i sql) (CHR '';''))). \<not> openBody p"
  shows "splitStatements_from sql start i =
    kept ((slice sql start i @ hd (SplitByte (drop i sql) (CHR '';''))) #
          tl (SplitByte (drop i sql) (CHR '';'')))"
  using assms
proof (induction "length sql - i" arbitrary: start i)
  case 0
  then have "i = length sql" by simp
  then show ?case
    by (subst splitStatements_from.simps) (simp add: kept_def add_piece_def slice_def)
next
  case (Suc n)
  then have lt: "i < length sql" by simp
  then have d: "drop i sql = sql ! i # drop (i + 1) sql" by (simp add: Cons_nth_drop_Suc)
  have pl: "plain (sql ! i)" using Suc.prems(1) lt by simp
  have sl: "slice sql start (i + 1) = slice sql start i @ [sql ! i]"
    using lt Suc.prems(2) by (simp add: slice_def Suc_diff_le take_Suc_conv_app_nth)
  obtain w ws where w: "SplitByte (drop (i + 1) sql) (CHR '';'') = w # ws"
    by (cases "SplitByte (drop (i + 1) sql) (CHR '';'')") auto
  have n: "n = length sql - (i + 1)" using Suc.hyps(2) by simp
  show ?case
  proof (cases "sql ! i = CHR '';''")
    case True
    have "splitStatements_from sql (i + 1) (i + 1) = kept (w # ws)"
      using Suc.hyps(1) [OF n, of "i + 1"] Suc.prems lt d w True by (simp add: slice_def)
    with True lt d w Suc.prems(4) show ?thesis
      by (subst splitStatements_from.simps) (simp add: kept_Cons)
  next
    case False
    have "splitStatements_from sql start (i + 1) = kept ((slice sql start i @ sql ! i # w) # ws)"
      using Suc.hyps(1) [OF n, of start] Suc.prems lt d w False sl by simp
    with False lt d w pl show ?thesis
      by (subst splitStatements_from.simps) (simp add: split_next_plain)
  qed
qed

text \<open>On plain text (no quotes, comments or dollar quotes, and no routine being created) splitting
  is the textbook split at every semicolon, with the blank pieces dropped and the rest trimmed.\<close>
theorem splitStatements_plain:
  assumes "\<forall>c \<in> set sql. plain c" and "\<forall>p \<in> set (SplitByte sql (CHR '';'')). \<not> openBody p"
  shows "splitStatements sql =
    map TrimSpace (filter (\<lambda>p. \<not> isBlankStatement p) (SplitByte sql (CHR '';'')))"
proof -
  obtain w ws where "SplitByte sql (CHR '';'') = w # ws" by (cases "SplitByte sql (CHR '';'')") auto
  then show ?thesis
    using splitStatements_from_plain [of sql 0 0] assms
    by (simp add: splitStatements_def kept_def slice_def)
qed

theorem splitStatements_plain_witness:
  "splitStatements ''BEGIN; ;COMMIT '' = [''BEGIN'', ''COMMIT'']"
proof -
  have h: "\<forall>p \<in> set (SplitByte ''BEGIN; ;COMMIT '' (CHR '';'')). \<not> openBody p" by code_simp
  have k: "map TrimSpace (filter (\<lambda>p. \<not> isBlankStatement p) (SplitByte ''BEGIN; ;COMMIT '' (CHR '';''))) =
    [''BEGIN'', ''COMMIT'']" by code_simp
  show ?thesis using splitStatements_plain [OF _ h] k by (simp add: plain_def)
qed

end
