(* ===== verification/NoCaseTable.thy ===== *)
theory NoCaseTable
  imports GoStrings
begin

text \<open>
  The tables the server keeps its own records in (\<open>_overlite_sequences\<close> and the like): rows under a
  text key declared \<open>PRIMARY KEY COLLATE NOCASE\<close>. The code reaches them through four statements,
  \<open>SELECT \<dots> WHERE key = k\<close>, \<open>INSERT\<close>, \<open>UPDATE \<dots> WHERE key = k\<close> and \<open>DELETE \<dots> WHERE key = k\<close>; this
  theory gives those statements' documented effect and the interface the handlers' proofs use. A key
  is stored lower-cased, which is what comparing under NOCASE comes to.
\<close>

type_synonym 'r nocase_table = "(string \<times> 'r) list"

definition t_select :: "'r nocase_table \<Rightarrow> string \<Rightarrow> 'r option" where
  "t_select t k = map_of t (ToLower k)"

text \<open>\<open>INSERT\<close>: \<open>None\<close> is the uniqueness violation.\<close>

definition t_insert :: "'r nocase_table \<Rightarrow> string \<Rightarrow> 'r \<Rightarrow> 'r nocase_table option" where
  "t_insert t k r = (if t_select t k = None then Some (t @ [(ToLower k, r)]) else None)"

text \<open>\<open>UPDATE\<close>: the rows affected, and the table.\<close>

definition t_update :: "'r nocase_table \<Rightarrow> string \<Rightarrow> ('r \<Rightarrow> 'r) \<Rightarrow> nat \<times> 'r nocase_table" where
  "t_update t k f =
     (case t_select t k of
        None \<Rightarrow> (0, t)
      | Some r \<Rightarrow> (1, AList.update (ToLower k) (f r) t))"

definition t_delete :: "'r nocase_table \<Rightarrow> string \<Rightarrow> 'r nocase_table" where
  "t_delete t k = AList.delete (ToLower k) t"

definition t_ok :: "'r nocase_table \<Rightarrow> bool" where
  "t_ok t \<longleftrightarrow> distinct (map fst t)"

definition same_key :: "string \<Rightarrow> string \<Rightarrow> bool" where
  "same_key a b \<longleftrightarrow> ToLower a = ToLower b"

text \<open>The interface: what a lookup returns after each statement, and that keys stay unique.\<close>

locale keyed_table =
  fixes ok :: "'t \<Rightarrow> bool"
    and same :: "'k \<Rightarrow> 'k \<Rightarrow> bool"
    and sel :: "'t \<Rightarrow> 'k \<Rightarrow> 'r option"
    and ins :: "'t \<Rightarrow> 'k \<Rightarrow> 'r \<Rightarrow> 't option"
    and upd :: "'t \<Rightarrow> 'k \<Rightarrow> ('r \<Rightarrow> 'r) \<Rightarrow> nat \<times> 't"
    and del :: "'t \<Rightarrow> 'k \<Rightarrow> 't"
  assumes sel_same: "same a b \<Longrightarrow> sel t a = sel t b"
    and ins_fail: "ins t k r = None \<longleftrightarrow> sel t k \<noteq> None"
    and sel_ins: "ins t k r = Some t' \<Longrightarrow> sel t' k' = (if same k' k then Some r else sel t k')"
    and upd_count: "fst (upd t k f) = (if sel t k = None then 0 else 1)"
    and sel_upd: "sel (snd (upd t k f)) k' = (if same k' k then map_option f (sel t k') else sel t k')"
    and sel_del: "sel (del t k) k' = (if same k' k then None else sel t k')"
    and ok_ins: "ok t \<Longrightarrow> ins t k r = Some t' \<Longrightarrow> ok t'"
    and ok_upd: "ok t \<Longrightarrow> ok (snd (upd t k f))"
    and ok_del: "ok t \<Longrightarrow> ok (del t k)"
    and same_refl: "same k k"
begin

lemma sel_upd_self: "sel (snd (upd t k f)) k = map_option f (sel t k)"
  by (simp add: sel_upd same_refl)

lemma sel_upd_other: "\<not> same k' k \<Longrightarrow> sel (snd (upd t k f)) k' = sel t k'"
  by (simp add: sel_upd)

lemma upd_upd: "sel (snd (upd (snd (upd t k f)) k g)) k' = sel (snd (upd t k (g \<circ> f))) k'"
  by (simp add: sel_upd option.map_comp)

lemma ins_after_del: "\<exists>t'. ins (del t k) k r = Some t' \<and> sel t' k = Some r"
proof -
  have "ins (del t k) k r \<noteq> None" by (simp add: ins_fail sel_del same_refl)
  then obtain t' where t': "ins (del t k) k r = Some t'" by blast
  then show ?thesis using sel_ins [OF t', of k] by (simp add: same_refl)
qed

lemma ins_twice: "ins t k r = Some t' \<Longrightarrow> same k' k \<Longrightarrow> ins t' k' r' = None"
  by (simp add: ins_fail sel_ins)

end

interpretation nct: keyed_table t_ok same_key t_select t_insert t_update t_delete
proof unfold_locales
  fix t :: "'a nocase_table" and k k' r t'
  show "t_select t' k' = (if same_key k' k then Some r else t_select t k')" if "t_insert t k r = Some t'"
  proof -
    have t': "map_of t (ToLower k) = None" "t' = t @ [(ToLower k, r)]"
      using that by (simp_all add: t_insert_def t_select_def split: if_splits)
    then show ?thesis
      by (cases "map_of t (ToLower k')")
         (auto simp: t_select_def same_key_def map_add_Some_iff map_add_def)
  qed
  show "t_ok t \<Longrightarrow> t_insert t k r = Some t' \<Longrightarrow> t_ok t'"
    by (auto simp: t_ok_def t_insert_def t_select_def map_of_eq_None_iff split: if_splits)
qed (auto simp: t_ok_def t_select_def t_insert_def t_update_def t_delete_def same_key_def
      AList.update_conv' AList.delete_conv' AList.distinct_update AList.distinct_delete
      split: option.splits)

end
