(* ===== verification/Sequences.thy ===== *)
theory Sequences
  imports Values Splitter NoCaseTable
begin

text \<open>
  Sequences (\<open>protocol/postgres/sequences.go\<close> over the table of \<open>engine/sequences.go\<close>): the DDL with
  its option parser, \<open>nextval\<close>, \<open>currval\<close>, \<open>lastval\<close>, \<open>setval\<close>, and the expansion of their calls in a
  statement. The state is the shared table \<open>_overlite_sequences\<close> and, per session, \<open>seqCurr\<close> and
  \<open>seqLast\<close>. Arithmetic is on \<open>int64\<close>: \<open>wrap64\<close> is written where Go's \<open>+\<close> can wrap. A failure of the
  database itself (a busy file, a full disk) is not modelled; the uniqueness violation of \<open>INSERT\<close> is.
\<close>

section \<open>State\<close>

record seq_row =
  last_value :: int
  increment :: int
  min_value :: int
  max_value :: int
  start_value :: int
  cache_size :: int
  is_cycled :: bool
  is_called :: bool

record seq_session =
  seqCurr :: "string \<rightharpoonup> int"
  seqLast :: string

record seq_state =
  seqs :: "seq_row nocase_table"
  sess :: "nat \<Rightarrow> seq_session"

record seqOptions =
  o_start :: int
  o_increment :: int
  o_minValue :: int
  o_maxValue :: int
  o_cache :: int
  o_cycle :: bool
  o_startSet :: bool
  o_minSet :: bool
  o_maxSet :: bool

definition max64 :: int where "max64 = 9223372036854775807"

definition min64 :: int where "min64 = - 9223372036854775808"

definition zeroSeqOptions :: seqOptions where
  "zeroSeqOptions = \<lparr>o_start = 0, o_increment = 0, o_minValue = 0, o_maxValue = 0, o_cache = 0,
     o_cycle = False, o_startSet = False, o_minSet = False, o_maxSet = False\<rparr>"

definition defaultSeqOptions :: seqOptions where
  "defaultSeqOptions = zeroSeqOptions\<lparr>o_start := 1, o_increment := 1, o_minValue := 1,
     o_maxValue := max64, o_cache := 1\<rparr>"

section \<open>Options\<close>

text \<open>The tokens after index \<open>*i\<close> are the list; the integer is consumed when there is one.\<close>

fun nextInt :: "string list \<Rightarrow> int option \<times> string list" where
  "nextInt [] = (None, [])"
| "nextInt (t # ts) = (case parseInt t of Some n \<Rightarrow> (Some n, ts) | None \<Rightarrow> (None, t # ts))"

definition skip_word :: "string \<Rightarrow> string list \<Rightarrow> string list" where
  "skip_word w ts = (case ts of [] \<Rightarrow> [] | t # ts' \<Rightarrow> if EqualFold t w then ts' else ts)"

lemma nextInt_length: "length (snd (nextInt ts)) \<le> length ts"
  by (cases ts) (auto split: option.splits)

lemma skip_word_length: "length (skip_word w ts) \<le> length ts"
  by (cases ts) (auto simp: skip_word_def)

lemma nextInt_skip_less: "length (snd (nextInt (skip_word w ts))) < Suc (length ts)"
  using nextInt_length [of "skip_word w ts"] skip_word_length [of w ts] by simp

lemma nextInt_less: "length (snd (nextInt ts)) < Suc (length ts)"
  using nextInt_length [of ts] by simp

function parseSeqOptions :: "string list \<Rightarrow> seqOptions \<Rightarrow> seqOptions" where
  "parseSeqOptions [] opts = opts"
| "parseSeqOptions (t # ts) opts =
     (let w = ToUpper (TrimRight t '';'') in
      if w = ''START'' then
        (case fst (nextInt (skip_word ''with'' ts)) of
           Some n \<Rightarrow> parseSeqOptions (snd (nextInt (skip_word ''with'' ts))) (opts\<lparr>o_start := n, o_startSet := True\<rparr>)
         | None \<Rightarrow> parseSeqOptions (snd (nextInt (skip_word ''with'' ts))) opts)
      else if w = ''INCREMENT'' then
        (case fst (nextInt (skip_word ''by'' ts)) of
           Some n \<Rightarrow> parseSeqOptions (snd (nextInt (skip_word ''by'' ts))) (opts\<lparr>o_increment := n\<rparr>)
         | None \<Rightarrow> parseSeqOptions (snd (nextInt (skip_word ''by'' ts))) opts)
      else if w = ''MINVALUE'' then
        (case fst (nextInt ts) of
           Some n \<Rightarrow> parseSeqOptions (snd (nextInt ts)) (opts\<lparr>o_minValue := n, o_minSet := True\<rparr>)
         | None \<Rightarrow> parseSeqOptions (snd (nextInt ts)) opts)
      else if w = ''MAXVALUE'' then
        (case fst (nextInt ts) of
           Some n \<Rightarrow> parseSeqOptions (snd (nextInt ts)) (opts\<lparr>o_maxValue := n, o_maxSet := True\<rparr>)
         | None \<Rightarrow> parseSeqOptions (snd (nextInt ts)) opts)
      else if w = ''CACHE'' then
        (case fst (nextInt ts) of
           Some n \<Rightarrow> parseSeqOptions (snd (nextInt ts)) (opts\<lparr>o_cache := n\<rparr>)
         | None \<Rightarrow> parseSeqOptions (snd (nextInt ts)) opts)
      else if w = ''CYCLE'' then parseSeqOptions ts (opts\<lparr>o_cycle := True\<rparr>)
      else if w = ''NO'' then
        parseSeqOptions (drop 1 ts)
          (if ts \<noteq> [] \<and> EqualFold (hd ts) ''cycle'' then opts\<lparr>o_cycle := False\<rparr> else opts)
      else if w = ''AS'' \<or> w = ''OWNED'' then parseSeqOptions (drop 1 ts) opts
      else parseSeqOptions ts opts)"
  by pat_completeness auto
termination
  by (relation "measure (\<lambda>(ts, _). length ts)") (auto simp: nextInt_skip_less nextInt_less)

declare parseSeqOptions.simps(2) [simp del]

section \<open>DDL\<close>

definition seq_exists_error :: string where
  "seq_exists_error = ''UNIQUE constraint failed: _overlite_sequences.seqname''"

text \<open>The defaults of a descending sequence, then the row the \<open>INSERT\<close> writes.\<close>

definition descending_defaults :: "seqOptions \<Rightarrow> seqOptions" where
  "descending_defaults opts0 =
     (let opts = (if o_increment opts0 < 0 \<and> \<not> o_minSet opts0 then opts0\<lparr>o_minValue := min64\<rparr> else opts0);
          opts = (if o_increment opts < 0 \<and> \<not> o_maxSet opts then opts\<lparr>o_maxValue := -1\<rparr> else opts)
      in if o_increment opts < 0 \<and> \<not> o_startSet opts then opts\<lparr>o_start := o_maxValue opts\<rparr> else opts)"

definition seq_row_of :: "seqOptions \<Rightarrow> seq_row" where
  "seq_row_of opts =
     \<lparr>last_value = o_start opts, increment = o_increment opts, min_value = o_minValue opts,
      max_value = o_maxValue opts, start_value = o_start opts, cache_size = o_cache opts,
      is_cycled = o_cycle opts, is_called = False\<rparr>"

definition createSequence :: "seq_state \<Rightarrow> string list \<Rightarrow> (string + unit) \<times> seq_state" where
  "createSequence st rest0 =
     (let ifNotExists = (3 \<le> length rest0 \<and> EqualFold (rest0 ! 0) ''if'' \<and>
                         EqualFold (rest0 ! 1) ''not'' \<and> EqualFold (rest0 ! 2) ''exists'');
          rest = (if ifNotExists then drop 3 rest0 else rest0)
      in if rest = [] then (Inl ''syntax error in CREATE SEQUENCE'', st)
         else (let name = seqRef (hd rest);
                   opts = descending_defaults (parseSeqOptions (tl rest) defaultSeqOptions)
               in case t_insert (seqs st) name (seq_row_of opts) of
                    Some t \<Rightarrow> (Inr (), st\<lparr>seqs := t\<rparr>)
                  | None \<Rightarrow> if ifNotExists then (Inr (), st) else (Inl seq_exists_error, st)))"

definition set_restart :: "int option \<Rightarrow> seq_row \<Rightarrow> seq_row" where
  "set_restart n r =
     (case n of Some n \<Rightarrow> r\<lparr>last_value := n, is_called := False\<rparr>
      | None \<Rightarrow> r\<lparr>last_value := start_value r, is_called := False\<rparr>)"

text \<open>The \<open>UPDATE\<close> of the options branch: \<open>is_cycled\<close> is always in its \<open>SET\<close> list.\<close>

definition set_options :: "seqOptions \<Rightarrow> seq_row \<Rightarrow> seq_row" where
  "set_options opts r0 =
     (let r = (if o_increment opts \<noteq> 0 then r0\<lparr>increment := o_increment opts\<rparr> else r0);
          r = (if o_minSet opts then r\<lparr>min_value := o_minValue opts\<rparr> else r);
          r = (if o_maxSet opts then r\<lparr>max_value := o_maxValue opts\<rparr> else r)
      in r\<lparr>is_cycled := o_cycle opts\<rparr>)"

definition alterSequence :: "seq_state \<Rightarrow> string list \<Rightarrow> (string + unit) \<times> seq_state" where
  "alterSequence st rest0 =
     (if rest0 = [] then (Inl ''syntax error in ALTER SEQUENCE'', st)
      else (let name = seqRef (hd rest0); rest = tl rest0 in
        if 1 \<le> length rest \<and> (EqualFold (rest ! 0) ''owned'' \<or> EqualFold (rest ! 0) ''owner'') then (Inr (), st)
        else if 1 \<le> length rest \<and> EqualFold (rest ! 0) ''restart'' then
          (let val = (if 2 \<le> length rest \<and> EqualFold (rest ! 1) ''with'' \<and> 3 \<le> length rest then rest ! 2
                      else if 2 \<le> length rest then rest ! 1 else [])
           in (Inr (), st\<lparr>seqs := snd (t_update (seqs st) name (set_restart (parseInt val)))\<rparr>))
        else (Inr (), st\<lparr>seqs := snd (t_update (seqs st) name
                (set_options (parseSeqOptions rest zeroSeqOptions)))\<rparr>)))"

definition forget_seq :: "seq_session \<Rightarrow> string \<Rightarrow> seq_session" where
  "forget_seq ss name = ss\<lparr>seqCurr := (seqCurr ss)(ToLower name := None)\<rparr>"

definition drop_one :: "nat \<Rightarrow> seq_state \<Rightarrow> string \<Rightarrow> seq_state" where
  "drop_one s st name0 =
     (let name = seqRef (TrimSpace (TrimRight name0 '';'')) in
      if name = [] \<or> EqualFold name ''cascade'' \<or> EqualFold name ''restrict'' then st
      else st\<lparr>seqs := t_delete (seqs st) name,
              sess := (sess st)(s := forget_seq (sess st s) name)\<rparr>)"

definition dropSequence :: "seq_state \<Rightarrow> nat \<Rightarrow> string list \<Rightarrow> (string + unit) \<times> seq_state" where
  "dropSequence st s rest0 =
     (let rest = (if 2 \<le> length rest0 \<and> EqualFold (rest0 ! 0) ''if'' \<and> EqualFold (rest0 ! 1) ''exists''
                  then drop 2 rest0 else rest0)
      in (Inr (), foldl (drop_one s) st (SplitByte (Join rest '' '') (CHR '',''))))"

definition trySequenceDDL ::
  "seq_state \<Rightarrow> nat \<Rightarrow> string \<Rightarrow> (string \<times> (string + unit)) option \<times> seq_state" where
  "trySequenceDDL st s sql =
     (let fields = Fields sql in
      if length fields < 2 \<or> \<not> EqualFold (fields ! 1) ''sequence'' then (None, st)
      else (let w = ToUpper (fields ! 0); rest = drop 2 fields in
        if w = ''CREATE'' then
          (let (r, st') = createSequence st rest in (Some (''CREATE SEQUENCE'', r), st'))
        else if w = ''ALTER'' then
          (let (r, st') = alterSequence st rest in (Some (''ALTER SEQUENCE'', r), st'))
        else if w = ''DROP'' then
          (let (r, st') = dropSequence st s rest in (Some (''DROP SEQUENCE'', r), st'))
        else (None, st)))"

section \<open>The functions\<close>

definition no_relation :: "string \<Rightarrow> string" where
  "no_relation name = ''relation '' @ goQuote name @ '' does not exist''"

text \<open>What \<open>nextval\<close> computes from the row it has read: the next value, or the error of a sequence
  that is used up.\<close>

definition seq_next :: "seq_row \<Rightarrow> string \<Rightarrow> string + int" where
  "seq_next r name =
     (if \<not> is_called r then Inr (last_value r)
      else (let next = wrap64 (last_value r + increment r) in
        if 0 < increment r \<and> max_value r < next then
          if \<not> is_cycled r then
            Inl (''nextval: reached maximum value of sequence '' @ goQuote name @ '' ('' @
                 FormatInt (max_value r) @ '')'')
          else Inr (min_value r)
        else if increment r < 0 \<and> next < min_value r then
          if \<not> is_cycled r then
            Inl (''nextval: reached minimum value of sequence '' @ goQuote name @ '' ('' @
                 FormatInt (min_value r) @ '')'')
          else Inr (max_value r)
        else Inr next))"

definition rememberSeq :: "seq_state \<Rightarrow> nat \<Rightarrow> string \<Rightarrow> int \<Rightarrow> seq_state" where
  "rememberSeq st s name v =
     st\<lparr>sess := (sess st)(s := \<lparr>seqCurr = (seqCurr (sess st s))(ToLower name \<mapsto> v), seqLast = ToLower name\<rparr>)\<rparr>"

definition set_called :: "int \<Rightarrow> bool \<Rightarrow> seq_row \<Rightarrow> seq_row" where
  "set_called v c r = r\<lparr>last_value := v, is_called := c\<rparr>"

text \<open>The second half of \<open>nextval\<close>: the \<open>UPDATE\<close>, and what the session remembers.\<close>

definition nextval_write :: "seq_state \<Rightarrow> nat \<Rightarrow> string \<Rightarrow> int \<Rightarrow> seq_state" where
  "nextval_write st s name next =
     rememberSeq (st\<lparr>seqs := snd (t_update (seqs st) name (set_called next True))\<rparr>) s name next"

definition nextval_int :: "seq_state \<Rightarrow> nat \<Rightarrow> string \<Rightarrow> (string + int) \<times> seq_state" where
  "nextval_int st s name =
     (case t_select (seqs st) name of
        None \<Rightarrow> (Inl (no_relation name), st)
      | Some r \<Rightarrow>
          (case seq_next r name of
             Inl e \<Rightarrow> (Inl e, st)
           | Inr next \<Rightarrow> (Inr next, nextval_write st s name next)))"

definition as_literal :: "(string + int) \<times> seq_state \<Rightarrow> (string + string) \<times> seq_state" where
  "as_literal r = (map_sum id i64 (fst r), snd r)"

definition nextval :: "seq_state \<Rightarrow> nat \<Rightarrow> string \<Rightarrow> (string + string) \<times> seq_state" where
  "nextval st s name = as_literal (nextval_int st s name)"

definition currval :: "seq_state \<Rightarrow> nat \<Rightarrow> string \<Rightarrow> string + string" where
  "currval st s name =
     (case seqCurr (sess st s) (ToLower name) of
        Some v \<Rightarrow> Inr (i64 v)
      | None \<Rightarrow> Inl (''currval of sequence '' @ goQuote name @ '' is not yet defined in this session''))"

text \<open>A missing key of a Go map reads as zero.\<close>

definition lastval :: "seq_state \<Rightarrow> nat \<Rightarrow> string + string" where
  "lastval st s =
     (if seqLast (sess st s) = [] then Inl ''lastval is not yet defined in this session''
      else Inr (i64 (case seqCurr (sess st s) (seqLast (sess st s)) of Some v \<Rightarrow> v | None \<Rightarrow> 0)))"

definition setval :: "seq_state \<Rightarrow> nat \<Rightarrow> string \<Rightarrow> (string + string) \<times> seq_state" where
  "setval st s args =
     (let parts = splitTopLevel args in
      if length parts < 2 then (Inl ''setval requires (sequence, value[, is_called])'', st)
      else (let name = seqRef (parts ! 0) in
        case parseInt (TrimSpace (parts ! 1)) of
          None \<Rightarrow> (Inl (''setval: invalid value '' @ goQuote (TrimSpace (parts ! 1))), st)
        | Some val \<Rightarrow>
            (let called = (if 3 \<le> length parts then parseBool (TrimSpace (parts ! 2)) else True);
                 (n, t) = t_update (seqs st) name (set_called val called);
                 st' = st\<lparr>seqs := t\<rparr>
             in if n = 0 then (Inl (no_relation name), st')
                else (Inr (i64 val), if called then rememberSeq st' s name val else st'))))"

definition evalSeqFunc :: "nat \<Rightarrow> string \<Rightarrow> string \<Rightarrow> seq_state \<Rightarrow> (string + string) \<times> seq_state" where
  "evalSeqFunc s fn args st =
     (if fn = ''nextval'' then nextval st s (seqRef args)
      else if fn = ''currval'' then (currval st s (seqRef args), st)
      else if fn = ''lastval'' then (lastval st s, st)
      else if fn = ''setval'' then setval st s args
      else (Inl (''unknown sequence function '' @ goQuote fn), st))"

definition hasSeqFunc :: "string \<Rightarrow> bool" where
  "hasSeqFunc sql =
     (let l = ToLower sql in
      Contains l ''nextval'' \<or> Contains l ''currval'' \<or> Contains l ''setval'' \<or> Contains l ''lastval'')"

definition isSeqFunc :: "string \<Rightarrow> bool" where
  "isSeqFunc fn \<longleftrightarrow> fn = ''nextval'' \<or> fn = ''currval'' \<or> fn = ''setval'' \<or> fn = ''lastval''"

definition expandSequences :: "nat \<Rightarrow> string \<Rightarrow> seq_state \<Rightarrow> (string + string) \<times> seq_state" where
  "expandSequences s sql st =
     (if \<not> hasSeqFunc sql then (Inr sql, st)
      else if firstWordUpper sql \<in> {''CREATE'', ''ALTER'', ''DROP'', ''TRUNCATE''} then (Inr sql, st)
      else scanFuncCalls sql isSeqFunc (evalSeqFunc s) st)"

text \<open>The callback of \<open>neutralizeSequences\<close> never fails, so the scan returns a statement.\<close>

definition neutralizeSequences :: "string \<Rightarrow> string" where
  "neutralizeSequences sql =
     (if \<not> hasSeqFunc sql then sql
      else (case fst (scanFuncCalls sql isSeqFunc (\<lambda>_ _ u. (Inr ''0'' :: unit + string, u)) ()) of
              Inr out \<Rightarrow> out | Inl _ \<Rightarrow> []))"

section \<open>One sequence over time\<close>

definition in64 :: "int \<Rightarrow> bool" where
  "in64 v \<longleftrightarrow> min64 \<le> v \<and> v \<le> max64"

lemma wrap64_id: "in64 v \<Longrightarrow> wrap64 v = v"
  by (simp add: wrap64_def in64_def min64_def max64_def signed_take_bit_int_eq_self_iff)

text \<open>A row within its bounds whose next step cannot wrap.\<close>

definition row_ok :: "seq_row \<Rightarrow> bool" where
  "row_ok r \<longleftrightarrow> min_value r \<le> last_value r \<and> last_value r \<le> max_value r \<and>
     in64 (min_value r + increment r) \<and> in64 (max_value r + increment r)"

lemma row_ok_step: "row_ok r \<Longrightarrow> wrap64 (last_value r + increment r) = last_value r + increment r"
  by (rule wrap64_id) (auto simp: row_ok_def in64_def)

lemma seq_next_bounds:
  "row_ok r \<Longrightarrow> seq_next r name = Inr v \<Longrightarrow> min_value r \<le> v \<and> v \<le> max_value r"
  using row_ok_step [of r] by (auto simp: seq_next_def row_ok_def Let_def split: if_splits)

lemma row_ok_called: "row_ok r \<Longrightarrow> seq_next r name = Inr v \<Longrightarrow> row_ok (set_called v True r)"
  using seq_next_bounds [of r name v] by (simp add: row_ok_def set_called_def)

lemma seqs_nextval_write:
  "t_select (seqs (nextval_write st s name v)) n =
     (if same_key n name then map_option (set_called v True) (t_select (seqs st) n)
      else t_select (seqs st) n)"
  by (simp add: nextval_write_def rememberSeq_def nct.sel_upd)

text \<open>A value \<open>nextval\<close> hands out lies between the sequence's MINVALUE and MAXVALUE, cycling or not,
  in either direction, as long as the last value does and one step past a bound stays within 64 bits;
  and the sequence is left in such a state again, so this goes on for any number of calls.\<close>
theorem nextval_in_bounds:
  assumes "t_select (seqs st) name = Some r" "row_ok r" "nextval_int st s name = (Inr v, st')"
  shows "min_value r \<le> v \<and> v \<le> max_value r \<and>
         (\<exists>r'. t_select (seqs st') name = Some r' \<and> row_ok r' \<and> last_value r' = v \<and> is_called r' \<and>
               min_value r' = min_value r \<and> max_value r' = max_value r)"
proof -
  have n: "seq_next r name = Inr v" and st': "st' = nextval_write st s name v"
    using assms(1,3) by (auto simp: nextval_int_def split: sum.splits)
  have "t_select (seqs st') name = Some (set_called v True r)"
    using assms(1) by (simp add: st' seqs_nextval_write nct.same_refl)
  then show ?thesis
    using seq_next_bounds [OF assms(2) n] row_ok_called [OF assms(2) n]
    by (simp add: set_called_def)
qed

definition demo_seq :: seq_row where
  "demo_seq = \<lparr>last_value = 3, increment = 2, min_value = 1, max_value = 4, start_value = 1,
     cache_size = 1, is_cycled = True, is_called = True\<rparr>"

definition demo_seqs :: "seq_row \<Rightarrow> seq_state" where
  "demo_seqs r = \<lparr>seqs = [(''s'', r)], sess = (\<lambda>_. \<lparr>seqCurr = (\<lambda>_. None), seqLast = []\<rparr>)\<rparr>"

lemma demo_select: "t_select (seqs (demo_seqs r)) ''s'' = Some r"
  by (simp add: demo_seqs_def t_select_def ToLower_def to_lower_def is_upper_def)

theorem nextval_in_bounds_witness:
  "min_value demo_seq \<le> (1::int) \<and> fst (nextval_int (demo_seqs demo_seq) 0 ''s'') = Inr 1"
proof -
  have n: "seq_next demo_seq ''s'' = Inr 1" by code_simp
  then have "nextval_int (demo_seqs demo_seq) 0 ''s'' = (Inr 1, nextval_write (demo_seqs demo_seq) 0 ''s'' 1)"
    by (simp add: nextval_int_def demo_select)
  moreover have "row_ok demo_seq" by code_simp
  ultimately show ?thesis using nextval_in_bounds [OF demo_select] by simp
qed

text \<open>The values of successive calls, made by the sessions listed.\<close>

fun nextvals :: "seq_state \<Rightarrow> string \<Rightarrow> nat list \<Rightarrow> (string + int) list" where
  "nextvals st name [] = []"
| "nextvals st name (s # ss) =
     (let (v, st') = nextval_int st s name in v # nextvals st' name ss)"

definition exhausted :: "seq_row \<Rightarrow> string \<Rightarrow> string" where
  "exhausted r name = ''nextval: reached maximum value of sequence '' @ goQuote name @ '' ('' @
     FormatInt (max_value r) @ '')''"

text \<open>\<open>upcoming r v\<close>: the next value is \<open>v\<close>, unless that exceeds the maximum.\<close>

definition upcoming :: "seq_row \<Rightarrow> int \<Rightarrow> bool" where
  "upcoming r v \<longleftrightarrow> 0 < increment r \<and> \<not> is_cycled r \<and> in64 (max_value r + increment r) \<and>
     (if is_called r then v = last_value r + increment r \<and> last_value r \<le> max_value r \<and> in64 v
      else v = last_value r \<and> v \<le> max_value r)"

lemma upcoming_next:
  assumes "upcoming r v"
  shows "seq_next r name = (if v \<le> max_value r then Inr v else Inl (exhausted r name))"
  using assms wrap64_id [of v] by (auto simp: upcoming_def seq_next_def exhausted_def Let_def)

lemma upcoming_step:
  assumes "upcoming r v" "v \<le> max_value r" "min64 \<le> v"
  shows "upcoming (set_called v True r) (v + increment r)"
  using assms by (auto simp: upcoming_def set_called_def in64_def)

lemma nextvals_upcoming:
  assumes "t_select (seqs st) name = Some r" "upcoming r v" "min64 \<le> v"
  shows "nextvals st name ss =
    map (\<lambda>k. if v + int k * increment r \<le> max_value r then Inr (v + int k * increment r)
             else Inl (exhausted r name)) [0..<length ss]"
  using assms
proof (induction ss arbitrary: st r v)
  case (Cons s ss)
  note nx = upcoming_next [OF Cons.prems(2), of name]
  have pos: "0 < increment r" using Cons.prems(2) by (simp add: upcoming_def)
  have upt: "[0..<length (s # ss)] = 0 # map Suc [0..<length ss]" by (simp add: map_Suc_upt upt_conv_Cons del: upt_Suc)
  show ?case
  proof (cases "v \<le> max_value r")
    case True
    let ?r = "set_called v True r"
    have step: "nextval_int st s name = (Inr v, nextval_write st s name v)"
      using Cons.prems(1) nx True by (simp add: nextval_int_def)
    have "t_select (seqs (nextval_write st s name v)) name = Some ?r"
      using Cons.prems(1) by (simp add: seqs_nextval_write nct.same_refl)
    moreover have "upcoming ?r (v + increment r)"
      using upcoming_step [OF Cons.prems(2) True Cons.prems(3)] .
    moreover have "min64 \<le> v + increment r" using Cons.prems(3) pos by simp
    ultimately have "nextvals (nextval_write st s name v) name ss =
        map (\<lambda>k. if v + increment r + int k * increment ?r \<le> max_value ?r
                 then Inr (v + increment r + int k * increment ?r) else Inl (exhausted ?r name)) [0..<length ss]"
      by (rule Cons.IH)
    then show ?thesis unfolding upt
      by (simp add: step True set_called_def exhausted_def algebra_simps)
  next
    case False
    have step: "nextval_int st s name = (Inl (exhausted r name), st)"
      using Cons.prems(1) nx False by (simp add: nextval_int_def)
    have "max_value r < v + int k * increment r" for k
      using False pos by (smt (verit) mult_nonneg_nonneg of_nat_0_le_iff)
    then have over: "\<not> v + int k * increment r \<le> max_value r" for k by (simp add: not_le)
    have "nextvals st name ss = map (\<lambda>k. Inl (exhausted r name)) [0..<length ss]"
      using Cons.IH [OF Cons.prems] by (simp add: over)
    then show ?thesis unfolding upt using False by (simp add: step over del: of_nat_Suc)
  qed
qed simp

text \<open>An ascending sequence without CYCLE hands out the arithmetic progression of its start value
  and increment, to whatever sessions call it in whatever order, one value per call and none twice;
  once a value would exceed MAXVALUE every further call fails, and none of the failures moves it.\<close>
theorem nextvals_progression:
  assumes "t_select (seqs st) name = Some r" "\<not> is_called r" "\<not> is_cycled r" "0 < increment r"
    and "min64 \<le> last_value r" "last_value r \<le> max_value r" "max_value r + increment r \<le> max64"
  shows "nextvals st name ss =
    map (\<lambda>k. if last_value r + int k * increment r \<le> max_value r
             then Inr (last_value r + int k * increment r) else Inl (exhausted r name)) [0..<length ss]"
  using assms by (intro nextvals_upcoming) (auto simp: upcoming_def in64_def)

theorem nextvals_progression_witness:
  "nextvals (demo_seqs (demo_seq\<lparr>is_called := False, is_cycled := False, max_value := 7\<rparr>)) ''s'' [0, 1, 0, 1] =
     [Inr 3, Inr 5, Inr 7,
      Inl (exhausted (demo_seq\<lparr>is_called := False, is_cycled := False, max_value := 7\<rparr>) ''s'')]"
proof -
  let ?r = "demo_seq\<lparr>is_called := False, is_cycled := False, max_value := 7\<rparr>"
  have "[0..<length [0::nat, 1, 0, 1]] = [0, 1, 2, 3]" by (simp add: upt_rec)
  then show ?thesis
    using nextvals_progression [OF demo_select [of ?r], of "[0, 1, 0, 1]"]
    by (simp add: demo_seq_def min64_def max64_def)
qed

section \<open>What a session remembers\<close>

text \<open>After \<open>nextval\<close> the session's \<open>currval\<close> of that sequence, however its name is cased, and its
  \<open>lastval\<close> are the value returned; its \<open>currval\<close> of other sequences and everything other sessions see
  are as before.\<close>
theorem nextval_currval:
  assumes "nextval st s name = (Inr lit, st')" "name \<noteq> []"
  shows "(same_key n name \<longrightarrow> currval st' s n = Inr lit) \<and> lastval st' s = Inr lit \<and>
         (\<not> same_key n name \<longrightarrow> currval st' s n = currval st s n) \<and>
         (t \<noteq> s \<longrightarrow> currval st' t n = currval st t n \<and> lastval st' t = lastval st t)"
proof -
  obtain v where v: "nextval_int st s name = (Inr v, st')" "lit = i64 v"
    using assms(1) by (cases "nextval_int st s name"; cases "fst (nextval_int st s name)")
      (auto simp: nextval_def as_literal_def)
  then have st': "st' = nextval_write st s name v"
    by (auto simp: nextval_int_def split: option.splits sum.splits)
  have "ToLower name \<noteq> []" using assms(2) by (simp add: ToLower_def)
  then show ?thesis
    by (simp add: st' v(2) nextval_write_def rememberSeq_def currval_def lastval_def same_key_def)
qed

theorem nextval_currval_witness:
  "currval (snd (nextval (demo_seqs demo_seq) 0 ''s'')) 0 ''S'' = Inr ''1''"
proof -
  have "seq_next demo_seq ''s'' = Inr 1" by code_simp
  then have "nextval_int (demo_seqs demo_seq) 0 ''s'' = (Inr 1, nextval_write (demo_seqs demo_seq) 0 ''s'' 1)"
    by (simp add: nextval_int_def demo_select)
  moreover have "i64 1 = ''1''" by code_simp
  ultimately have "nextval (demo_seqs demo_seq) 0 ''s'' = (Inr ''1'', nextval_write (demo_seqs demo_seq) 0 ''s'' 1)"
    by (simp add: nextval_def as_literal_def)
  moreover have "same_key ''S'' ''s''" by code_simp
  ultimately show ?thesis using nextval_currval by (metis list.distinct(1) snd_conv)
qed

section \<open>Expansion\<close>

lemma isSeqFunc_contained: "isSeqFunc fn \<Longrightarrow> \<not> hasSeqFunc sql \<Longrightarrow> \<not> Contains (ToLower sql) fn"
  by (auto simp: isSeqFunc_def hasSeqFunc_def Let_def)

text \<open>The quick test in front of the expansion loses no call: on a statement \<open>hasSeqFunc\<close> turns
  away, the scan would have replaced nothing and changed no sequence, so the expansion is the scan on
  every statement but DDL. The same holds of the expansion for Describe.\<close>
theorem expandSequences_quick_test:
  "expandSequences s sql st =
     (if firstWordUpper sql \<in> {''CREATE'', ''ALTER'', ''DROP'', ''TRUNCATE''} then (Inr sql, st)
      else scanFuncCalls sql isSeqFunc (evalSeqFunc s) st)"
  using scanFuncCalls_id [of isSeqFunc sql "evalSeqFunc s" st] isSeqFunc_contained [of _ sql]
  by (simp add: expandSequences_def)

section \<open>Where the code departs from what it means to do\<close>

text \<open>The step of a sequence that may count up to the largest 64-bit value wraps: past the point
  where the addition overflows, \<open>nextval\<close> neither reports that the maximum is reached nor cycles to
  MINVALUE but returns a large negative number.\<close>
theorem nextval_overflows:
  assumes "is_called r" "increment r \<le> max64" "last_value r \<le> max_value r" "max_value r \<le> max64"
    and "max64 < last_value r + increment r"
  shows "seq_next r name = Inr (last_value r + increment r - 2 ^ 64) \<and> last_value r + increment r - 2 ^ 64 < 0"
proof -
  have "signed_take_bit 63 (last_value r + increment r) =
      signed_take_bit 63 (last_value r + increment r - 2 ^ 64)"
    by (simp add: signed_take_bit_eq_iff_take_bit_eq take_bit_eq_mod)
  also have "\<dots> = last_value r + increment r - 2 ^ 64"
    using assms by (intro signed_take_bit_int_eq_self) (simp_all add: max64_def)
  finally have "wrap64 (last_value r + increment r) = last_value r + increment r - 2 ^ 64"
    by (simp add: wrap64_def)
  then show ?thesis using assms by (auto simp: seq_next_def Let_def max64_def)
qed

theorem nextval_overflows_witness:
  "seq_next (seq_row_of defaultSeqOptions\<lparr>last_value := max64, is_called := True\<rparr>) ''s'' = Inr min64"
  using nextval_overflows [of "seq_row_of defaultSeqOptions\<lparr>last_value := max64, is_called := True\<rparr>" "''s''"]
  by (simp add: seq_row_of_def defaultSeqOptions_def zeroSeqOptions_def max64_def min64_def)

text \<open>ALTER SEQUENCE with any options but CYCLE turns cycling off: the parsed options start from
  \<open>cycle = false\<close> and the update always writes them.\<close>
theorem alterSequence_drops_cycle:
  assumes "t_select (seqs st) ''s'' = Some r"
  shows "map_option is_cycled (t_select (seqs (snd (alterSequence st [''s'', ''MAXVALUE'', ''500'']))) ''s'') = Some False"
proof -
  have "parseSeqOptions [''MAXVALUE'', ''500''] zeroSeqOptions = zeroSeqOptions\<lparr>o_maxValue := 500, o_maxSet := True\<rparr>"
    by code_simp
  moreover have "seqRef ''s'' = ''s''" by code_simp
  moreover have "\<not> EqualFold ''MAXVALUE'' ''owned''" "\<not> EqualFold ''MAXVALUE'' ''owner''"
    "\<not> EqualFold ''MAXVALUE'' ''restart''" by code_simp+
  ultimately show ?thesis using assms
    by (simp add: alterSequence_def Let_def nct.sel_upd_self set_options_def zeroSeqOptions_def)
qed

theorem alterSequence_drops_cycle_witness:
  "map_option is_cycled (t_select (seqs (demo_seqs demo_seq)) ''s'') = Some True \<and>
   map_option is_cycled (t_select (seqs (snd (alterSequence (demo_seqs demo_seq) [''s'', ''MAXVALUE'', ''500'']))) ''s'') = Some False"
  using alterSequence_drops_cycle [OF demo_select] by (simp add: demo_select demo_seq_def)

text \<open>\<open>nextval\<close> outside a transaction is two statements, the \<open>SELECT\<close> and the \<open>UPDATE\<close>, each its own
  critical section of the database. A step of the system runs one of them for one session; \<open>pending\<close>
  is the row a session has read and not yet written over.\<close>

record race_state =
  shared :: seq_state
  pending :: "nat \<Rightarrow> seq_row option"
  handed :: "(nat \<times> int) list"

inductive nextval_step :: "string \<Rightarrow> race_state \<Rightarrow> race_state \<Rightarrow> bool" for name where
  read_row: "pending w s = None \<Longrightarrow> t_select (seqs (shared w)) name = Some r \<Longrightarrow>
    nextval_step name w (w\<lparr>pending := (pending w)(s \<mapsto> r)\<rparr>)"
| write_row: "pending w s = Some r \<Longrightarrow> seq_next r name = Inr v \<Longrightarrow>
    nextval_step name w (w\<lparr>shared := nextval_write (shared w) s name v,
      pending := (pending w)(s := None), handed := (s, v) # handed w\<rparr>)"

lemma nextval_step_read:
  "pending w s = None \<Longrightarrow> t_select (seqs (shared w)) name = Some r \<Longrightarrow>
     w' = w\<lparr>pending := (pending w)(s \<mapsto> r)\<rparr> \<Longrightarrow> nextval_step name w w'"
  by (auto intro: read_row)

lemma nextval_step_write:
  "pending w s = Some r \<Longrightarrow> seq_next r name = Inr v \<Longrightarrow>
     w' = w\<lparr>shared := nextval_write (shared w) s name v, pending := (pending w)(s := None),
            handed := (s, v) # handed w\<rparr> \<Longrightarrow> nextval_step name w w'"
  by (auto intro: write_row)

text \<open>Two sessions that call \<open>nextval\<close> on one sequence at the same time, outside a transaction, can
  both be handed the same value: both read the row before either writes it.\<close>
theorem nextval_duplicate:
  assumes "t_select (seqs st) name = Some r" "seq_next r name = Inr v" "s \<noteq> t"
  shows "\<exists>w. (nextval_step name)\<^sup>*\<^sup>* \<lparr>shared = st, pending = (\<lambda>_. None), handed = []\<rparr> w \<and>
             handed w = [(t, v), (s, v)]"
proof -
  let ?w0 = "\<lparr>shared = st, pending = (\<lambda>_. None), handed = []\<rparr>"
  let ?w1 = "?w0\<lparr>pending := [s \<mapsto> r]\<rparr>"
  let ?w2 = "?w0\<lparr>pending := [s \<mapsto> r, t \<mapsto> r]\<rparr>"
  let ?w3 = "\<lparr>shared = nextval_write st s name v, pending = [t \<mapsto> r], handed = [(s, v)]\<rparr>"
  let ?w4 = "\<lparr>shared = nextval_write (nextval_write st s name v) t name v, pending = (\<lambda>_. None),
              handed = [(t, v), (s, v)]\<rparr>"
  have "nextval_step name ?w0 ?w1" by (rule nextval_step_read [of _ s]) (simp_all add: assms)
  moreover have "nextval_step name ?w1 ?w2" by (rule nextval_step_read [of _ t]) (use assms in simp_all)
  moreover have "nextval_step name ?w2 ?w3"
    by (rule nextval_step_write [of _ s r _ v]) (use assms in \<open>auto simp: fun_eq_iff\<close>)
  moreover have "nextval_step name ?w3 ?w4"
    by (rule nextval_step_write [of _ t r _ v]) (use assms in \<open>auto simp: fun_eq_iff\<close>)
  ultimately have "(nextval_step name)\<^sup>*\<^sup>* ?w0 ?w4"
    by (meson converse_rtranclp_into_rtranclp rtranclp.rtrancl_refl)
  then show ?thesis by (rule exI [of _ ?w4, OF conjI]) simp
qed

theorem nextval_duplicate_witness:
  "\<exists>w. (nextval_step ''s'')\<^sup>*\<^sup>* \<lparr>shared = demo_seqs demo_seq, pending = (\<lambda>_. None), handed = []\<rparr> w \<and>
       handed w = [(1, 1), (0, 1)]"
proof -
  have "seq_next demo_seq ''s'' = Inr 1" by code_simp
  then show ?thesis using nextval_duplicate [OF demo_select, of demo_seq 1 0 1] by simp
qed

end
