(* ===== verification/WireFormat.thy ===== *)
theory WireFormat
  imports GoStrings "HOL-Library.Word"
begin

unbundle bit_operations_syntax

text \<open>
  The bytes of the protocol (\<open>wire.go\<close>, the builders of \<open>postgres.go\<close>, the \<open>bodyReader\<close> of
  \<open>extended.go\<close>): big-endian integers, NUL-terminated strings, framed messages, the startup packet and
  the cancel request. A buffer is a \<open>string\<close>, one character per byte. A connection's incoming bytes are
  the list of all bytes still to come; reading past its end is the error Go's \<open>io\<close> package returns.
\<close>

section \<open>Integers\<close>

definition byte_of :: "int \<Rightarrow> char" where
  "byte_of v = char_of (nat (v mod 256))"

definition appendInt16 :: "string \<Rightarrow> int \<Rightarrow> string" where
  "appendInt16 b v = b @ [byte_of (v div 256), byte_of v]"

definition appendUint16 :: "string \<Rightarrow> 16 word \<Rightarrow> string" where
  "appendUint16 b u = b @ [byte_of (uint u div 256), byte_of (uint u)]"

definition appendInt32 :: "string \<Rightarrow> int \<Rightarrow> string" where
  "appendInt32 b v = b @ [byte_of (v div 256 ^ 3), byte_of (v div 256 ^ 2), byte_of (v div 256), byte_of v]"

definition appendUint32 :: "string \<Rightarrow> 32 word \<Rightarrow> string" where
  "appendUint32 b u =
     b @ [byte_of (uint u div 256 ^ 3), byte_of (uint u div 256 ^ 2), byte_of (uint u div 256), byte_of (uint u)]"

definition appendUint64 :: "string \<Rightarrow> 64 word \<Rightarrow> string" where
  "appendUint64 b u =
     b @ [byte_of (uint u div 256 ^ 7), byte_of (uint u div 256 ^ 6), byte_of (uint u div 256 ^ 5),
          byte_of (uint u div 256 ^ 4), byte_of (uint u div 256 ^ 3), byte_of (uint u div 256 ^ 2),
          byte_of (uint u div 256), byte_of (uint u)]"

definition i32 :: "int \<Rightarrow> string" where
  "i32 v = appendInt32 [] v"

definition appendCString :: "string \<Rightarrow> string \<Rightarrow> string" where
  "appendCString b s = b @ s @ [CHR 0x00]"

text \<open>\<open>byteOrder.Uint16\<close> and its siblings, and the conversions to the signed types.\<close>

definition be_uint :: "string \<Rightarrow> int" where
  "be_uint bs = foldl (\<lambda>a c. a * 256 + int (code c)) 0 bs"

definition int16_of :: "string \<Rightarrow> int" where
  "int16_of bs = signed_take_bit 15 (be_uint bs)"

definition int32_of :: "string \<Rightarrow> int" where
  "int32_of bs = signed_take_bit 31 (be_uint bs)"

definition int64_of :: "string \<Rightarrow> int" where
  "int64_of bs = signed_take_bit 63 (be_uint bs)"

lemma code_byte_of [simp]: "int (code (byte_of v)) = v mod 256"
  by (simp add: byte_of_def)

lemma byte_of_code [simp]: "byte_of (int (code c)) = c"
  by (simp add: byte_of_def)

lemma byte_of_mod: "byte_of (v mod 256) = byte_of v"
  by (simp add: byte_of_def)

text \<open>The big-endian bytes of \<open>v\<close>, \<open>n\<close> of them: the shape all the builders share.\<close>

fun bytes_be :: "nat \<Rightarrow> int \<Rightarrow> string" where
  "bytes_be 0 v = []"
| "bytes_be (Suc n) v = bytes_be n (v div 256) @ [byte_of v]"

lemma be_uint_snoc: "be_uint (bs @ [c]) = be_uint bs * 256 + int (code c)"
  by (simp add: be_uint_def)

lemma length_bytes_be [simp]: "length (bytes_be n v) = n"
  by (induction n arbitrary: v) auto

lemma be_uint_bytes_be: "be_uint (bytes_be n v) = v mod 256 ^ n"
proof (induction n arbitrary: v)
  case 0 show ?case by (simp add: be_uint_def)
next
  case (Suc n)
  have "v mod (256 * 256 ^ n) = 256 * (v div 256 mod 256 ^ n) + v mod 256"
    by (rule zmod_zmult2_eq) simp
  then show ?case using Suc.IH [of "v div 256"] by (simp add: be_uint_snoc)
qed

lemma div_256s:
  "(v :: int) div 256 div 256 = v div 65536"
  "(v :: int) div 65536 div 256 = v div 16777216"
  "(v :: int) div 16777216 div 256 = v div 4294967296"
  "(v :: int) div 4294967296 div 256 = v div 1099511627776"
  "(v :: int) div 1099511627776 div 256 = v div 281474976710656"
  "(v :: int) div 281474976710656 div 256 = v div 72057594037927936"
  by (simp_all flip: zdiv_zmult2_eq)

lemma append_bytes_be:
  "appendInt16 b v = b @ bytes_be 2 v"
  "appendInt32 b v = b @ bytes_be 4 v"
  "appendUint16 b u = b @ bytes_be 2 (uint u)"
  "appendUint32 b w = b @ bytes_be 4 (uint w)"
  "appendUint64 b x = b @ bytes_be 8 (uint x)"
  by (simp_all add: appendInt16_def appendInt32_def appendUint16_def appendUint32_def appendUint64_def
      numeral_eq_Suc div_256s)

definition in_int16 :: "int \<Rightarrow> bool" where
  "in_int16 v \<longleftrightarrow> - (2 ^ 15) \<le> v \<and> v < 2 ^ 15"

definition in_int32 :: "int \<Rightarrow> bool" where
  "in_int32 v \<longleftrightarrow> - (2 ^ 31) \<le> v \<and> v < 2 ^ 31"

lemma signed_mod: "signed_take_bit n (v mod 2 ^ Suc n) = signed_take_bit n (v :: int)"
  by (metis signed_take_bit_take_bit lessI min.absorb3 signed_take_bit_eq_iff_take_bit_eq take_bit_eq_mod take_bit_take_bit min.idem)

lemma int16_of_bytes: "int16_of (bytes_be 2 v) = signed_take_bit 15 v"
  using signed_mod [of 15 v] by (simp add: int16_of_def be_uint_bytes_be)

lemma int32_of_bytes: "int32_of (bytes_be 4 v) = signed_take_bit 31 v"
  using signed_mod [of 31 v] by (simp add: int32_of_def be_uint_bytes_be)

lemma int64_of_bytes: "int64_of (bytes_be 8 v) = signed_take_bit 63 v"
  using signed_mod [of 63 v] by (simp add: int64_of_def be_uint_bytes_be)

lemma int16_id: "in_int16 v \<Longrightarrow> signed_take_bit 15 v = v"
  by (rule signed_take_bit_int_eq_self) (simp_all add: in_int16_def)

lemma int32_id: "in_int32 v \<Longrightarrow> signed_take_bit 31 v = v"
  by (rule signed_take_bit_int_eq_self) (simp_all add: in_int32_def)

text \<open>Reading a fixed-width value off the front of a buffer, and a NUL-terminated string.\<close>

definition read_fixed :: "nat \<Rightarrow> (string \<Rightarrow> 'a) \<Rightarrow> string \<Rightarrow> ('a \<times> string) option" where
  "read_fixed n f bs = (if length bs < n then None else Some (f (take n bs), drop n bs))"

definition read_cstring :: "string \<Rightarrow> (string \<times> string) option" where
  "read_cstring bs = (case IndexByte bs (CHR 0x00) of None \<Rightarrow> None | Some i \<Rightarrow> Some (take i bs, drop (i + 1) bs))"

interpretation int16_codec: codec "appendInt16 []" "read_fixed 2 int16_of" in_int16
  by unfold_locales (simp add: append_bytes_be read_fixed_def int16_of_bytes int16_id)

interpretation int32_codec: codec "appendInt32 []" "read_fixed 4 int32_of" in_int32
  by unfold_locales (simp add: append_bytes_be read_fixed_def int32_of_bytes int32_id)

interpretation cstring_codec: codec "appendCString []" read_cstring "\<lambda>s. CHR 0x00 \<notin> set s"
  by unfold_locales (simp add: appendCString_def read_cstring_def IndexByte_mid)

section \<open>Framed messages\<close>

definition send :: "char \<Rightarrow> string \<Rightarrow> string" where
  "send typ body = typ # appendInt32 [] (int (length body) + 4) @ body"

datatype io_error = EOF | UnexpectedEOF | Bogus int

text \<open>\<open>io.ReadFull\<close> of \<open>n\<close> bytes.\<close>

definition ReadFull :: "nat \<Rightarrow> string \<Rightarrow> (io_error + string) \<times> string" where
  "ReadFull n inp =
     (if length inp < n then (Inl (if inp = [] then EOF else UnexpectedEOF), [])
      else (Inr (take n inp), drop n inp))"

definition readInt32 :: "string \<Rightarrow> (io_error + int) \<times> string" where
  "readInt32 inp = (case ReadFull 4 inp of (Inl e, r) \<Rightarrow> (Inl e, r) | (Inr b, r) \<Rightarrow> (Inr (int32_of b), r))"

definition readMessage :: "string \<Rightarrow> (io_error + char \<times> string) \<times> string" where
  "readMessage inp =
     (case inp of
        [] \<Rightarrow> (Inl EOF, [])
      | typ # inp1 \<Rightarrow>
          (case readInt32 inp1 of
             (Inl e, r) \<Rightarrow> (Inl e, r)
           | (Inr len, r) \<Rightarrow>
               if len < 4 then (Inl (Bogus len), r)
               else (case ReadFull (nat (len - 4)) r of
                       (Inl e, r') \<Rightarrow> (Inl e, r')
                     | (Inr body, r') \<Rightarrow> (Inr (typ, body), r'))))"

definition sendable :: "char \<times> string \<Rightarrow> bool" where
  "sendable m \<longleftrightarrow> int (length (snd m)) + 4 < 2 ^ 31"

lemma readInt32_append: "in_int32 v \<Longrightarrow> readInt32 (appendInt32 [] v @ rest) = (Inr v, rest)"
  by (simp add: readInt32_def ReadFull_def append_bytes_be int32_of_bytes int32_id)

lemma readMessage_send:
  "sendable (typ, body) \<Longrightarrow> readMessage (send typ body @ rest) = (Inr (typ, body), rest)"
  by (simp add: readMessage_def send_def sendable_def readInt32_append in_int32_def ReadFull_def)

definition next_message :: "string \<Rightarrow> ((char \<times> string) \<times> string) option" where
  "next_message inp = (case readMessage inp of (Inr m, r) \<Rightarrow> Some (m, r) | (Inl _, _) \<Rightarrow> None)"

interpretation message_codec: codec "\<lambda>(typ, body). send typ body" next_message sendable
  by unfold_locales (auto simp: next_message_def readMessage_send)

text \<open>C27: Framing is exact: a run of messages written one after the other, whatever their bodies hold,
  is read back as those messages, none split, merged or lost, with what follows them left unread; and
  no two different runs of the same number of messages are the same bytes.\<close>
theorem messages_roundtrip:
  assumes "list_all sendable ms"
  shows "decode_n next_message (length ms) (concat (map (\<lambda>(typ, body). send typ body) ms) @ rest) = Some (ms, rest)"
  using message_codec.decode_n_enc [OF assms] by simp

theorem messages_roundtrip_witness:
  "decode_n next_message (Suc (Suc 0)) (send (CHR ''Q'') ''SELECT 1'' @ send (CHR ''S'') [] @ ''X'') =
     Some ([(CHR ''Q'', ''SELECT 1''), (CHR ''S'', [])], ''X'')"
  using messages_roundtrip [of "[(CHR ''Q'', ''SELECT 1''), (CHR ''S'', [])]" "''X''"]
  by (simp add: sendable_def)

section \<open>The cursor over a message body\<close>

record bodyReader =
  b :: string
  pos :: nat
  err :: bool

definition newReader :: "string \<Rightarrow> bodyReader" where
  "newReader bs = \<lparr>b = bs, pos = 0, err = False\<rparr>"

definition r_fail :: "bodyReader \<Rightarrow> bodyReader" where
  "r_fail r = r\<lparr>err := True\<rparr>"

definition r_byte :: "bodyReader \<Rightarrow> char \<times> bodyReader" where
  "r_byte r = (if length (b r) < pos r + 1 then (CHR 0x00, r_fail r)
               else (b r ! pos r, r\<lparr>pos := pos r + 1\<rparr>))"

definition r_int16 :: "bodyReader \<Rightarrow> int \<times> bodyReader" where
  "r_int16 r = (if length (b r) < pos r + 2 then (0, r_fail r)
                else (int16_of (take 2 (drop (pos r) (b r))), r\<lparr>pos := pos r + 2\<rparr>))"

definition r_int32 :: "bodyReader \<Rightarrow> int \<times> bodyReader" where
  "r_int32 r = (if length (b r) < pos r + 4 then (0, r_fail r)
                else (int32_of (take 4 (drop (pos r) (b r))), r\<lparr>pos := pos r + 4\<rparr>))"

definition r_cstring :: "bodyReader \<Rightarrow> string \<times> bodyReader" where
  "r_cstring r = (case IndexByte (drop (pos r) (b r)) (CHR 0x00) of
                    None \<Rightarrow> ([], r_fail r)
                  | Some i \<Rightarrow> (take i (drop (pos r) (b r)), r\<lparr>pos := pos r + i + 1\<rparr>))"

text \<open>A \<open>nil\<close> slice and an empty one have the same bytes.\<close>

definition r_bytes :: "int \<Rightarrow> bodyReader \<Rightarrow> string \<times> bodyReader" where
  "r_bytes n r = (if n < 0 \<or> int (length (b r)) < int (pos r) + n then ([], r_fail r)
                  else (take (nat n) (drop (pos r) (b r)), r\<lparr>pos := pos r + nat n\<rparr>))"

text \<open>The loop that reads \<open>n\<close> values one after the other.\<close>

fun read_n :: "nat \<Rightarrow> (bodyReader \<Rightarrow> 'a \<times> bodyReader) \<Rightarrow> bodyReader \<Rightarrow> 'a list \<times> bodyReader" where
  "read_n 0 f r = ([], r)"
| "read_n (Suc n) f r = (let (x, r1) = f r; (xs, r2) = read_n n f r1 in (x # xs, r2))"

text \<open>A read that keeps the cursor inside the body, never moves it back, never changes the body and
  never forgets an error.\<close>

definition steady :: "(bodyReader \<Rightarrow> 'a \<times> bodyReader) \<Rightarrow> bool" where
  "steady f \<longleftrightarrow> (\<forall>r. pos r \<le> length (b r) \<longrightarrow>
     (let r' = snd (f r) in b r' = b r \<and> pos r \<le> pos r' \<and> pos r' \<le> length (b r) \<and> (err r \<longrightarrow> err r')))"

lemma index_where_lt: "index_where P s = Some i \<Longrightarrow> i < length s"
  by (induction s arbitrary: i) (auto split: if_splits)

lemma steady_reads:
  "steady r_byte" "steady r_int16" "steady r_int32" "steady r_cstring" "steady (r_bytes n)"
  by (auto simp: steady_def r_byte_def r_int16_def r_int32_def r_cstring_def r_bytes_def r_fail_def
      IndexByte_def Let_def split: option.splits dest!: index_where_lt)

lemma steadyD:
  "steady f \<Longrightarrow> f r = (x, r') \<Longrightarrow> pos r \<le> length (b r) \<Longrightarrow>
     b r' = b r \<and> pos r \<le> pos r' \<and> pos r' \<le> length (b r) \<and> (err r \<longrightarrow> err r')"
  unfolding steady_def by (metis snd_conv)

lemma steady_read_n: "steady f \<Longrightarrow> steady (read_n n f)"
proof (induction n)
  case 0 show ?case by (simp add: steady_def)
next
  case (Suc n)
  show ?case unfolding steady_def
  proof (intro allI impI)
    fix r :: bodyReader assume p: "pos r \<le> length (b r)"
    obtain x r1 where 1: "f r = (x, r1)" by (cases "f r")
    obtain xs r2 where 2: "read_n n f r1 = (xs, r2)" by (cases "read_n n f r1")
    note a = steadyD [OF Suc.prems 1 p]
    note c = steadyD [OF Suc.IH [OF Suc.prems] 2]
    show "let r' = snd (read_n (Suc n) f r) in
        b r' = b r \<and> pos r \<le> pos r' \<and> pos r' \<le> length (b r) \<and> (err r \<longrightarrow> err r')"
      using a c by (auto simp: 1 2 Let_def)
  qed
qed

text \<open>Reading what an encoder appended.\<close>

definition at_reader :: "string \<Rightarrow> string \<Rightarrow> bodyReader" where
  "at_reader pre rest = \<lparr>b = pre @ rest, pos = length pre, err = False\<rparr>"

lemma newReader_at: "newReader bs = at_reader [] bs"
  by (simp add: newReader_def at_reader_def)

lemma at_reader_reads:
  "in_int16 v \<Longrightarrow> r_int16 (at_reader pre (bytes_be 2 v @ rest)) = (v, at_reader (pre @ bytes_be 2 v) rest)"
  "in_int32 v \<Longrightarrow> r_int32 (at_reader pre (bytes_be 4 v @ rest)) = (v, at_reader (pre @ bytes_be 4 v) rest)"
  "CHR 0x00 \<notin> set s \<Longrightarrow>
     r_cstring (at_reader pre (s @ CHR 0x00 # rest)) = (s, at_reader (pre @ s @ [CHR 0x00]) rest)"
  "r_byte (at_reader pre (c # rest)) = (c, at_reader (pre @ [c]) rest)"
  "r_bytes (int (length s)) (at_reader pre (s @ rest)) = (s, at_reader (pre @ s) rest)"
  by (simp_all add: at_reader_def r_int16_def r_int32_def r_cstring_def r_byte_def r_bytes_def
      int16_of_bytes int32_of_bytes int16_id int32_id IndexByte_mid)

lemma at_reader_read_n:
  assumes "\<And>x pre rest. valid x \<Longrightarrow> f (at_reader pre (enc x @ rest)) = (x, at_reader (pre @ enc x) rest)"
    and "list_all valid xs"
  shows "read_n (length xs) f (at_reader pre (concat (map enc xs) @ rest)) =
    (xs, at_reader (pre @ concat (map enc xs)) rest)"
  using assms(2)
proof (induction xs arbitrary: pre)
  case (Cons x xs)
  then show ?case using assms(1) [of x pre "concat (map enc xs) @ rest"] by simp
qed simp

section \<open>The frontend's extended-query messages\<close>

text \<open>What reading a body comes to: \<open>make([]T, n)\<close> with a negative \<open>n\<close> panics (the connection's
  \<open>recover\<close> then closes it), and a body that ends early is reported as malformed.\<close>

datatype 'a parsed = Panics | Malformed | Parsed 'a

definition read_counted :: "(bodyReader \<Rightarrow> 'a \<times> bodyReader) \<Rightarrow> bodyReader \<Rightarrow> ('a list \<times> bodyReader) option" where
  "read_counted f r = (let (n, r1) = r_int16 r in if n < 0 then None else Some (read_n (nat n) f r1))"

definition r_uint32 :: "bodyReader \<Rightarrow> 32 word \<times> bodyReader" where
  "r_uint32 r = (let (v, r') = r_int32 r in (word_of_int v, r'))"

text \<open>One bound parameter: \<open>None\<close> is NULL.\<close>

definition r_param :: "bodyReader \<Rightarrow> string option \<times> bodyReader" where
  "r_param r = (let (n, r1) = r_int32 r in
     if n = -1 then (None, r1) else (let (raw, r2) = r_bytes n r1 in (Some raw, r2)))"

definition read_Parse :: "string \<Rightarrow> (string \<times> string \<times> 32 word list) parsed" where
  "read_Parse body =
     (let (name, r) = r_cstring (newReader body); (query, r) = r_cstring r in
      case read_counted r_uint32 r of
        None \<Rightarrow> Panics
      | Some (oids, r) \<Rightarrow> if err r then Malformed else Parsed (name, query, oids))"

record bind_msg =
  bm_portal :: string
  bm_stmt :: string
  bm_formats :: "int list"
  bm_params :: "string option list"
  bm_resFormats :: "int list"

definition read_Bind :: "string \<Rightarrow> bind_msg parsed" where
  "read_Bind body =
     (let (portal, r) = r_cstring (newReader body); (stmt, r) = r_cstring r in
      case read_counted r_int16 r of
        None \<Rightarrow> Panics
      | Some (fmts, r) \<Rightarrow>
          (case read_counted r_param r of
             None \<Rightarrow> Panics
           | Some (params, r) \<Rightarrow>
               (case read_counted r_int16 r of
                  None \<Rightarrow> Panics
                | Some (res, r) \<Rightarrow>
                    if err r then Malformed
                    else Parsed \<lparr>bm_portal = portal, bm_stmt = stmt, bm_formats = fmts,
                                 bm_params = params, bm_resFormats = res\<rparr>)))"

text \<open>Describe and Close have the same body; Execute has a portal and a row limit.\<close>

definition read_target :: "string \<Rightarrow> (char \<times> string) parsed" where
  "read_target body =
     (let (kind, r) = r_byte (newReader body); (name, r) = r_cstring r in
      if err r then Malformed else Parsed (kind, name))"

definition read_Execute :: "string \<Rightarrow> (string \<times> int) parsed" where
  "read_Execute body =
     (let (portal, r) = r_cstring (newReader body); (maxRows, r) = r_int32 r in
      if err r then Malformed else Parsed (portal, maxRows))"

section \<open>The backend's messages\<close>

definition parameterStatus_body :: "string \<Rightarrow> string \<Rightarrow> string" where
  "parameterStatus_body key val = appendCString (appendCString [] key) val"

definition sendParameterStatus :: "string \<Rightarrow> string \<Rightarrow> string" where
  "sendParameterStatus key val = send (CHR ''S'') (parameterStatus_body key val)"

definition cell_bytes :: "string option \<Rightarrow> string" where
  "cell_bytes cell = (case cell of None \<Rightarrow> appendInt32 [] (-1)
                      | Some enc \<Rightarrow> appendInt32 [] (int (length enc)) @ enc)"

text \<open>A DataRow's body, from its cells as \<open>encodeValue\<close> gave them, \<open>None\<close> for \<open>nil\<close>.\<close>

definition dataRow_body :: "string option list \<Rightarrow> string" where
  "dataRow_body cells = foldl (\<lambda>d cell. d @ cell_bytes cell) (appendInt16 [] (int (length cells))) cells"

definition sendDataRow :: "string option list \<Rightarrow> string" where
  "sendDataRow cells = send (CHR ''D'') (dataRow_body cells)"

definition sendRowDescription :: "(string \<times> 32 word) list \<Rightarrow> string" where
  "sendRowDescription cols =
     send (CHR ''T'')
       (foldl (\<lambda>t (name, oid).
          appendInt16 (appendInt32 (appendInt16 (appendUint32 (appendInt16 (appendInt32
            (appendCString t name) 0) 0) oid) (-1)) (-1)) 0)
        (appendInt16 [] (int (length cols))) cols)"

definition sendParameterTypes :: "32 word list \<Rightarrow> string" where
  "sendParameterTypes oids =
     send (CHR ''t'') (foldl appendUint32 (appendInt16 [] (int (length oids))) oids)"

definition sendParameterDescription :: "nat \<Rightarrow> string" where
  "sendParameterDescription n =
     send (CHR ''t'') (foldl (\<lambda>t _. appendUint32 t 0) (appendInt16 [] (int n)) [0..<n])"

definition sendCommandComplete :: "string \<Rightarrow> string" where
  "sendCommandComplete tag = send (CHR ''C'') (appendCString [] tag)"

definition error_body :: "string \<Rightarrow> string \<Rightarrow> string \<Rightarrow> string" where
  "error_body severity state message =
     appendCString (appendCString (appendCString [CHR ''S''] severity @ [CHR ''C'']) state @ [CHR ''M'']) message
       @ [CHR 0x00]"

definition sendErrorSeverity :: "string \<Rightarrow> string \<Rightarrow> string \<Rightarrow> string" where
  "sendErrorSeverity severity state message = send (CHR ''E'') (error_body severity state message)"

definition sendError :: "string \<Rightarrow> string \<Rightarrow> string" where
  "sendError state message = sendErrorSeverity ''ERROR'' state message"

definition sendFatal :: "string \<Rightarrow> string \<Rightarrow> string" where
  "sendFatal state message = sendErrorSeverity ''FATAL'' state message"

definition commandTag :: "string \<Rightarrow> int \<Rightarrow> string" where
  "commandTag command n =
     (if command = ''SELECT'' then ''SELECT '' @ FormatInt n
      else if command = ''INSERT'' then ''INSERT 0 '' @ FormatInt n
      else if command = ''UPDATE'' \<or> command = ''DELETE'' then command @ '' '' @ FormatInt n
      else if command = [] then ''OK''
      else command)"

section \<open>Round trips\<close>

lemma r_uint32_at: "r_uint32 (at_reader pre (bytes_be 4 (uint w) @ rest)) = (w, at_reader (pre @ bytes_be 4 (uint w)) rest)"
proof -
  have "r_int32 (at_reader pre (bytes_be 4 (uint w) @ rest)) =
      (signed_take_bit 31 (uint w), at_reader (pre @ bytes_be 4 (uint w)) rest)"
    by (simp add: at_reader_def r_int32_def int32_of_bytes)
  moreover have "word_of_int (signed_take_bit 31 (uint w)) = w"
  proof -
    have "sint w = signed_take_bit 31 (uint w)" by (simp add: sint_uint)
    moreover have "word_of_int (sint w) = w" by (simp only: of_int_sint scast_id)
    ultimately show ?thesis by simp
  qed
  ultimately show ?thesis by (simp add: r_uint32_def)
qed

definition cell_ok :: "string option \<Rightarrow> bool" where
  "cell_ok cell \<longleftrightarrow> (case cell of None \<Rightarrow> True | Some s \<Rightarrow> int (length s) < 2 ^ 31)"

lemma r_param_at:
  "cell_ok cell \<Longrightarrow> r_param (at_reader pre (cell_bytes cell @ rest)) = (cell, at_reader (pre @ cell_bytes cell) rest)"
proof (cases cell)
  case None
  have "in_int32 (-1)" by (simp add: in_int32_def)
  then show ?thesis using None at_reader_reads(2) [of "-1" pre rest]
    by (simp add: r_param_def cell_bytes_def append_bytes_be)
next
  case (Some s)
  assume "cell_ok cell"
  then have "in_int32 (int (length s))" using Some by (simp add: cell_ok_def in_int32_def)
  then show ?thesis
    using Some at_reader_reads(2) [of "int (length s)" pre "s @ rest"]
      at_reader_reads(5) [of s "pre @ bytes_be 4 (int (length s))" rest]
    by (simp add: r_param_def cell_bytes_def append_bytes_be)
qed

lemma foldl_append_map: "foldl (\<lambda>d x. d @ f x) d xs = d @ concat (map f xs)"
  by (induction xs arbitrary: d) auto

lemma read_counted_at:
  assumes "\<And>x pre rest. valid x \<Longrightarrow> f (at_reader pre (enc x @ rest)) = (x, at_reader (pre @ enc x) rest)"
    and "list_all valid xs" "int (length xs) < 2 ^ 15"
  shows "read_counted f (at_reader pre (bytes_be 2 (int (length xs)) @ concat (map enc xs) @ rest)) =
    Some (xs, at_reader (pre @ bytes_be 2 (int (length xs)) @ concat (map enc xs)) rest)"
proof -
  have "in_int16 (int (length xs))" using assms(3) by (simp add: in_int16_def)
  note h = at_reader_reads(1) [OF this, of pre "concat (map enc xs) @ rest"]
  show ?thesis
    using at_reader_read_n [OF assms(1,2), of "pre @ bytes_be 2 (int (length xs))" rest]
    by (simp add: read_counted_def h)
qed

text \<open>The bodies a client sends.\<close>

definition Parse_body :: "string \<Rightarrow> string \<Rightarrow> 32 word list \<Rightarrow> string" where
  "Parse_body name query oids =
     foldl appendUint32 (appendInt16 (appendCString (appendCString [] name) query) (int (length oids))) oids"

definition Bind_body :: "bind_msg \<Rightarrow> string" where
  "Bind_body m =
     appendCString (appendCString [] (bm_portal m)) (bm_stmt m) @
     foldl appendInt16 (appendInt16 [] (int (length (bm_formats m)))) (bm_formats m) @
     dataRow_body (bm_params m) @
     foldl appendInt16 (appendInt16 [] (int (length (bm_resFormats m)))) (bm_resFormats m)"

lemma foldl_appends:
  "foldl appendUint32 d oids = d @ concat (map (\<lambda>w. bytes_be 4 (uint w)) oids)"
  "foldl appendInt16 d vs = d @ concat (map (bytes_be 2) vs)"
proof -
  have "foldl appendUint32 d oids = foldl (\<lambda>d w. d @ bytes_be 4 (uint w)) d oids"
    "foldl appendInt16 d vs = foldl (\<lambda>d v. d @ bytes_be 2 v) d vs"
    by (rule foldl_cong; simp add: append_bytes_be)+
  then show "foldl appendUint32 d oids = d @ concat (map (\<lambda>w. bytes_be 4 (uint w)) oids)"
    "foldl appendInt16 d vs = d @ concat (map (bytes_be 2) vs)"
    unfolding foldl_append_map .
qed

definition bind_ok :: "bind_msg \<Rightarrow> bool" where
  "bind_ok m \<longleftrightarrow> CHR 0x00 \<notin> set (bm_portal m) \<and> CHR 0x00 \<notin> set (bm_stmt m) \<and>
     list_all in_int16 (bm_formats m) \<and> list_all in_int16 (bm_resFormats m) \<and>
     list_all cell_ok (bm_params m) \<and> int (length (bm_formats m)) < 2 ^ 15 \<and>
     int (length (bm_params m)) < 2 ^ 15 \<and> int (length (bm_resFormats m)) < 2 ^ 15"

lemma r_int16_at:
  "in_int16 v \<Longrightarrow> r_int16 (at_reader pre (bytes_be 2 v @ rest)) = (v, at_reader (pre @ bytes_be 2 v) rest)"
  by (rule at_reader_reads(1))

lemma at_reader_end [simp]: "\<not> err (at_reader pre rest)"
  by (simp add: at_reader_def)

text \<open>What the server reads from a Bind or a Parse message is what the client put in: names, format
  codes, result formats, parameter types, and every parameter with its bytes, NULL and the empty value
  kept apart.\<close>
theorem Bind_Parse_roundtrip:
  assumes "bind_ok m" "CHR 0x00 \<notin> set name" "CHR 0x00 \<notin> set query" "int (length oids) < 2 ^ 15"
  shows "read_Bind (Bind_body m) = Parsed m \<and>
         read_Parse (Parse_body name query oids) = Parsed (name, query, oids)"
proof
  note ok = assms(1) [unfolded bind_ok_def]
  define P where "P = bm_portal m @ [CHR 0x00]"
  define S where "S = bm_stmt m @ [CHR 0x00]"
  define F where "F = bytes_be 2 (int (length (bm_formats m))) @ concat (map (bytes_be 2) (bm_formats m))"
  define A where "A = bytes_be 2 (int (length (bm_params m))) @ concat (map cell_bytes (bm_params m))"
  define R where "R = bytes_be 2 (int (length (bm_resFormats m))) @ concat (map (bytes_be 2) (bm_resFormats m))"
  have body: "Bind_body m = P @ S @ F @ A @ R"
    by (simp add: Bind_body_def P_def S_def F_def A_def R_def appendCString_def foldl_appends
        append_bytes_be dataRow_body_def foldl_append_map)
  have 1: "r_cstring (at_reader [] (P @ rest)) = (bm_portal m, at_reader P rest)" for rest
    using at_reader_reads(3) [of "bm_portal m" "[]" rest] ok by (simp add: P_def)
  have 2: "r_cstring (at_reader pre (S @ rest)) = (bm_stmt m, at_reader (pre @ S) rest)" for pre rest
    using at_reader_reads(3) [of "bm_stmt m" pre rest] ok by (simp add: S_def)
  have 3: "read_counted r_int16 (at_reader pre (F @ rest)) = Some (bm_formats m, at_reader (pre @ F) rest)" for pre rest
    using read_counted_at [of in_int16 r_int16 "bytes_be 2", OF r_int16_at] ok by (simp add: F_def)
  have 4: "read_counted r_param (at_reader pre (A @ rest)) = Some (bm_params m, at_reader (pre @ A) rest)" for pre rest
    using read_counted_at [of cell_ok r_param cell_bytes, OF r_param_at] ok by (simp add: A_def)
  have 5: "read_counted r_int16 (at_reader pre R) = Some (bm_resFormats m, at_reader (pre @ R) [])" for pre
    using read_counted_at [of in_int16 r_int16 "bytes_be 2" "bm_resFormats m" pre "[]", OF r_int16_at] ok
    by (simp add: R_def)
  show "read_Bind (Bind_body m) = Parsed m"
    unfolding read_Bind_def newReader_at body by (simp add: 1 2 3 4 5)
  show "read_Parse (Parse_body name query oids) = Parsed (name, query, oids)"
  proof -
    let ?O = "bytes_be 2 (int (length oids)) @ concat (map (\<lambda>w. bytes_be 4 (uint w)) oids)"
    have body: "Parse_body name query oids = (name @ [CHR 0x00]) @ (query @ [CHR 0x00]) @ ?O"
      by (simp add: Parse_body_def appendCString_def foldl_appends append_bytes_be)
    have 6: "r_cstring (at_reader pre ((s @ [CHR 0x00]) @ rest)) = (s, at_reader (pre @ s @ [CHR 0x00]) rest)"
      if "CHR 0x00 \<notin> set s" for s pre rest using at_reader_reads(3) [OF that] by simp
    have 7: "read_counted r_uint32 (at_reader pre ?O) = Some (oids, at_reader (pre @ ?O) [])" for pre
      using read_counted_at [of "\<lambda>_. True" r_uint32 "\<lambda>w. bytes_be 4 (uint w)" oids pre "[]"] r_uint32_at assms(4)
      by (simp add: list_all_iff)
    show ?thesis unfolding read_Parse_def newReader_at body
      using 6 [OF assms(2), of "[]"] 6 [OF assms(3)] 7 by simp
  qed
qed

theorem Bind_Parse_roundtrip_witness:
  "read_Bind (Bind_body \<lparr>bm_portal = [], bm_stmt = ''s1'', bm_formats = [1], bm_params = [None, Some [], Some ''7''],
                        bm_resFormats = []\<rparr>) =
     Parsed \<lparr>bm_portal = [], bm_stmt = ''s1'', bm_formats = [1], bm_params = [None, Some [], Some ''7''], bm_resFormats = []\<rparr>"
  using Bind_Parse_roundtrip [of "\<lparr>bm_portal = [], bm_stmt = ''s1'', bm_formats = [1],
      bm_params = [None, Some [], Some ''7''], bm_resFormats = []\<rparr>" "''s1''" "''SELECT $1''" "[]"]
  by (simp add: bind_ok_def in_int16_def cell_ok_def)

text \<open>A DataRow carries its cells exactly: a client reading the count and then each length and value
  gets back every cell, a NULL never confused with an empty value, and nothing is left over.\<close>
theorem dataRow_roundtrip:
  assumes "list_all cell_ok cells" "int (length cells) < 2 ^ 15"
  shows "read_counted r_param (newReader (dataRow_body cells)) = Some (cells, at_reader (dataRow_body cells) [])"
proof -
  have body: "dataRow_body cells = bytes_be 2 (int (length cells)) @ concat (map cell_bytes cells)"
    by (simp add: dataRow_body_def foldl_append_map append_bytes_be)
  show ?thesis
    using read_counted_at [OF r_param_at assms, of "[]" "[]"] unfolding newReader_at body by simp
qed

theorem dataRow_roundtrip_witness:
  "fst (the (read_counted r_param (newReader (dataRow_body [None, Some [], Some ''x''])))) = [None, Some [], Some ''x'']"
  using dataRow_roundtrip [of "[None, Some [], Some ''x'']"] by (simp add: cell_ok_def)

text \<open>Reading a message body never leaves it, whatever its bytes: each read, and any counted run of
  reads, keeps the cursor between where it was and the end of the body, leaves the body alone and never
  clears an error once one is recorded, so the check at the end of a handler sees every short read.\<close>
theorem reader_stays_inside:
  assumes "pos r \<le> length (b r)" "f \<in> {snd \<circ> r_byte, snd \<circ> r_int16, snd \<circ> r_int32, snd \<circ> r_cstring,
      snd \<circ> r_bytes n, snd \<circ> read_n k r_int16, snd \<circ> read_n k r_param, snd \<circ> read_n k r_uint32}"
  shows "b (f r) = b r \<and> pos r \<le> pos (f r) \<and> pos (f r) \<le> length (b r) \<and> (err r \<longrightarrow> err (f r))"
proof -
  have "steady r_uint32"
    using steady_reads(3) by (simp add: steady_def r_uint32_def case_prod_beta Let_def)
  moreover have "steady r_param"
    unfolding steady_def
  proof (intro allI impI)
    fix r :: bodyReader assume p: "pos r \<le> length (b r)"
    obtain n r1 where 1: "r_int32 r = (n, r1)" by (cases "r_int32 r")
    obtain raw r2 where 2: "r_bytes n r1 = (raw, r2)" by (cases "r_bytes n r1")
    note a = steadyD [OF steady_reads(3) 1 p]
    show "let r' = snd (r_param r) in b r' = b r \<and> pos r \<le> pos r' \<and> pos r' \<le> length (b r) \<and> (err r \<longrightarrow> err r')"
      using a steadyD [OF steady_reads(5) 2] by (auto simp: r_param_def 1 2 Let_def)
  qed
  ultimately have "steady (read_n k r_int16)" "steady (read_n k r_param)" "steady (read_n k r_uint32)"
    using steady_reads(2) by (simp_all add: steady_read_n)
  then show ?thesis using assms steady_reads(1-4) steady_reads(5) [of n] by (auto simp: steady_def Let_def)
qed

theorem reader_stays_inside_witness:
  "err (snd (r_int32 \<lparr>b = ''abc'', pos = 1, err = True\<rparr>)) \<and> pos (snd (r_int32 \<lparr>b = ''abc'', pos = 1, err = True\<rparr>)) \<le> 3"
  using reader_stays_inside [of "\<lparr>b = ''abc'', pos = 1, err = True\<rparr>" "snd \<circ> r_int32"] by simp

text \<open>A count field with its top bit set takes the connection down instead of being reported as a
  malformed message: the slice is made with the negative length before any error is looked at. In a
  Parse message, whatever its names, this is every negative parameter count.\<close>
theorem Parse_negative_count_panics:
  assumes "CHR 0x00 \<notin> set name" "CHR 0x00 \<notin> set query" "in_int16 n" "n < 0"
  shows "read_Parse (appendInt16 (appendCString (appendCString [] name) query) n @ rest) = Panics"
proof -
  have 1: "r_cstring (at_reader pre ((s @ [CHR 0x00]) @ rest)) = (s, at_reader (pre @ s @ [CHR 0x00]) rest)"
    if "CHR 0x00 \<notin> set s" for s pre rest using at_reader_reads(3) [OF that] by simp
  have body: "appendInt16 (appendCString (appendCString [] name) query) n @ rest =
      (name @ [CHR 0x00]) @ (query @ [CHR 0x00]) @ bytes_be 2 n @ rest"
    by (simp add: appendCString_def append_bytes_be)
  have "read_counted r_uint32 (at_reader pre (bytes_be 2 n @ rest)) = None" for pre
    using at_reader_reads(1) [OF assms(3)] assms(4) by (simp add: read_counted_def)
  then show ?thesis unfolding read_Parse_def newReader_at body
    using 1 [OF assms(1), of "[]"] 1 [OF assms(2)] by simp
qed

theorem Parse_negative_count_panics_witness:
  "read_Parse (''s'' @ [CHR 0x00] @ ''q'' @ [CHR 0x00, CHR 0xFF, CHR 0xFF]) = Panics"
proof -
  have "bytes_be 2 (-1) = [CHR 0xFF, CHR 0xFF]" by code_simp
  then show ?thesis
    using Parse_negative_count_panics [of "''s''" "''q''" "-1" "[]"]
    by (simp add: in_int16_def append_bytes_be appendCString_def)
qed

section \<open>Startup and cancel\<close>

fun splitCStrings_from :: "string \<Rightarrow> string \<Rightarrow> string list" where
  "splitCStrings_from cur [] = []"
| "splitCStrings_from cur (c # bs) =
     (if c = CHR 0x00 then cur # splitCStrings_from [] bs else splitCStrings_from (cur @ [c]) bs)"

definition splitCStrings :: "string \<Rightarrow> string list" where
  "splitCStrings bs = splitCStrings_from [] bs"

text \<open>The loop \<open>i, i+2, \<dots>\<close> over the parts, a later key overwriting an earlier one.\<close>

fun set_params :: "string list \<Rightarrow> (string \<rightharpoonup> string) \<Rightarrow> (string \<rightharpoonup> string)" where
  "set_params (k # v # parts) m = set_params parts (m(k \<mapsto> v))"
| "set_params parts m = m"

definition parseStartupParams :: "string \<Rightarrow> (string \<rightharpoonup> string)" where
  "parseStartupParams bs = set_params (splitCStrings bs) (\<lambda>_. None)"

text \<open>How \<open>readStartup\<close> ends, with what it wrote on the way. After \<open>UpgradeTLS\<close> the loop goes on over
  the decrypted connection, reading from its start again; what the client sent in the clear after its
  SSLRequest is dropped with the old buffer.\<close>

datatype startup_result =
    StartupParams "string \<rightharpoonup> string"
  | StartupCancel int int
  | UpgradeTLS
  | StartupIO io_error
  | StartupError string

definition sslRequestCode :: int where "sslRequestCode = 80877103"

definition gssRequestCode :: int where "gssRequestCode = 80877104"

definition cancelRequestCode :: int where "cancelRequestCode = 80877102"

definition protocolVersion3 :: int where "protocolVersion3 = 196608"

lemma ReadFull_length: "ReadFull n inp = (Inr x, r) \<Longrightarrow> length r = length inp - n \<and> n \<le> length inp \<and> length x = n"
  by (auto simp: ReadFull_def split: if_splits)

lemma readInt32_length: "readInt32 inp = (Inr v, r) \<Longrightarrow> length r + 4 = length inp"
  by (auto simp: readInt32_def dest!: ReadFull_length split: prod.splits sum.splits)

function readStartup :: "bool \<Rightarrow> string \<Rightarrow> startup_result \<times> string" where
  "readStartup tls inp =
     (case readInt32 inp of
        (Inl e, _) \<Rightarrow> (StartupIO e, [])
      | (Inr len, r) \<Rightarrow>
          if len < 8 then (StartupError (''startup: bogus length '' @ FormatInt len), [])
          else (case ReadFull (nat (len - 4)) r of
             (Inl e, _) \<Rightarrow> (StartupIO e, [])
           | (Inr body, r') \<Rightarrow>
               (let c = int32_of (take 4 body) in
                if c = sslRequestCode then
                  (if tls then (UpgradeTLS, ''S'')
                   else (let (res, out) = readStartup tls r' in (res, ''N'' @ out)))
                else if c = gssRequestCode then
                  (let (res, out) = readStartup tls r' in (res, ''N'' @ out))
                else if c = cancelRequestCode then
                  (if length body < 12 then (StartupError ''cancel request: short body'', [])
                   else (StartupCancel (int32_of (take 4 (drop 4 body))) (int32_of (take 4 (drop 8 body))), []))
                else if c = protocolVersion3 then (StartupParams (parseStartupParams (drop 4 body)), [])
                else (StartupError (''unsupported protocol/startup code '' @ FormatInt c), []))))"
  by pat_completeness auto
termination
  by (relation "measure (\<lambda>(tls, inp). length inp)")
     (auto dest!: readInt32_length [OF sym] ReadFull_length [OF sym])

declare readStartup.simps [simp del]

text \<open>The packets a client sends: a length that counts itself, a code, and a body.\<close>

definition startup_packet :: "int \<Rightarrow> string \<Rightarrow> string" where
  "startup_packet c body = appendInt32 [] (int (length body) + 8) @ appendInt32 [] c @ body"

definition params_body :: "(string \<times> string) list \<Rightarrow> string" where
  "params_body kvs = concat (map (\<lambda>(k, v). appendCString (appendCString [] k) v) kvs) @ [CHR 0x00]"

lemma splitCStrings_from_run: "CHR 0x00 \<notin> set s \<Longrightarrow> splitCStrings_from cur (s @ CHR 0x00 # bs) = (cur @ s) # splitCStrings_from [] bs"
  by (induction s arbitrary: cur) auto

lemma set_params_body:
  "\<forall>(k, v) \<in> set kvs. CHR 0x00 \<notin> set k \<and> CHR 0x00 \<notin> set v \<Longrightarrow>
   set_params (splitCStrings (params_body kvs)) m = m ++ map_of (rev kvs)"
proof (induction kvs arbitrary: m)
  case Nil show ?case by (simp add: splitCStrings_def params_body_def)
next
  case (Cons kv kvs)
  obtain k v where kv: "kv = (k, v)" by (cases kv)
  have nz: "CHR 0x00 \<notin> set k" "CHR 0x00 \<notin> set v" using Cons.prems kv by auto
  have "splitCStrings (params_body (kv # kvs)) = k # v # splitCStrings (params_body kvs)"
    using splitCStrings_from_run [OF nz(1), of "[]"] splitCStrings_from_run [OF nz(2), of "[]"]
    by (simp add: splitCStrings_def params_body_def kv appendCString_def)
  then show ?case using Cons by (simp add: kv)
qed

lemma readStartup_packet:
  assumes "in_int32 c" "int (length body) + 8 < 2 ^ 31"
  shows "readInt32 (startup_packet c body @ rest) = (Inr (int (length body) + 8), appendInt32 [] c @ body @ rest)"
    and "ReadFull (nat (int (length body) + 4)) (appendInt32 [] c @ body @ rest) = (Inr (appendInt32 [] c @ body), rest)"
    and "int32_of (take 4 (appendInt32 [] c @ body)) = c"
    and "drop 4 (appendInt32 [] c @ body) = body"
proof -
  have "in_int32 (int (length body) + 8)" using assms by (simp add: in_int32_def)
  then show "readInt32 (startup_packet c body @ rest) = (Inr (int (length body) + 8), appendInt32 [] c @ body @ rest)"
    by (simp add: startup_packet_def readInt32_append)
  have "nat (int (length body) + 4) = length body + 4" by simp
  then show "ReadFull (nat (int (length body) + 4)) (appendInt32 [] c @ body @ rest) = (Inr (appendInt32 [] c @ body), rest)"
    by (simp add: ReadFull_def append_bytes_be)
  show "int32_of (take 4 (appendInt32 [] c @ body)) = c" "drop 4 (appendInt32 [] c @ body) = body"
    using assms(1) by (simp_all add: append_bytes_be int32_of_bytes int32_id)
qed

text \<open>The startup of a client that first asks for GSS and then for TLS encryption, on a server with
  neither, is two refusals and then its parameters, each key with the value given for it last.\<close>
theorem readStartup_params:
  assumes "\<forall>(k, v) \<in> set kvs. CHR 0x00 \<notin> set k \<and> CHR 0x00 \<notin> set v"
    and "int (length (params_body kvs)) + 8 < 2 ^ 31"
  shows "readStartup False (startup_packet gssRequestCode [] @ startup_packet sslRequestCode [] @
           startup_packet protocolVersion3 (params_body kvs)) =
         (StartupParams (map_of (rev kvs)), ''NN'')"
proof -
  have codes: "in_int32 gssRequestCode" "in_int32 sslRequestCode" "in_int32 protocolVersion3"
    by (simp_all add: in_int32_def gssRequestCode_def sslRequestCode_def protocolVersion3_def)
  have p: "readStartup False (startup_packet protocolVersion3 (params_body kvs)) = (StartupParams (map_of (rev kvs)), [])"
    using readStartup_packet(1,2) [OF codes(3) assms(2), of "[]"] readStartup_packet(3,4) [OF codes(3) assms(2)] set_params_body [OF assms(1), of "\<lambda>_. None"]
    by (subst readStartup.simps)
       (simp add: Let_def protocolVersion3_def sslRequestCode_def gssRequestCode_def cancelRequestCode_def
          parseStartupParams_def algebra_simps)
  have ssl: "readStartup False (startup_packet sslRequestCode [] @ rest) =
      (fst (readStartup False rest), ''N'' @ snd (readStartup False rest))" for rest
    using readStartup_packet(1,2) [OF codes(2), of "[]" rest] readStartup_packet(3,4) [OF codes(2), of "[]"]
    by (subst readStartup.simps) (simp add: Let_def case_prod_beta)
  have gss: "readStartup False (startup_packet gssRequestCode [] @ rest) =
      (fst (readStartup False rest), ''N'' @ snd (readStartup False rest))" for rest
    using readStartup_packet(1,2) [OF codes(1), of "[]" rest] readStartup_packet(3,4) [OF codes(1), of "[]"]
    by (subst readStartup.simps)
       (simp add: Let_def case_prod_beta gssRequestCode_def sslRequestCode_def)
  show ?thesis by (simp add: gss ssl p)
qed

theorem readStartup_params_witness:
  "readStartup False (startup_packet gssRequestCode [] @ startup_packet sslRequestCode [] @
     startup_packet protocolVersion3 (params_body [(''user'', ''bob''), (''database'', ''app'')])) =
   (StartupParams (map_of [(''database'', ''app''), (''user'', ''bob'')]), ''NN'')"
  using readStartup_params [of "[(''user'', ''bob''), (''database'', ''app'')]"]
  by (simp add: params_body_def appendCString_def)

text \<open>Query cancellation: the key of the map of backends, and the packet that names one.\<close>

definition backendKey :: "32 word \<Rightarrow> 32 word \<Rightarrow> 64 word" where
  "backendKey pid secret = push_bit 32 (ucast pid) OR ucast secret"

definition backendKeyData :: "int \<Rightarrow> int \<Rightarrow> string" where
  "backendKeyData pid secret = send (CHR ''K'') (i32 pid @ i32 secret)"

text \<open>A cancel request reaches exactly the backend whose BackendKeyData it repeats: the packet is
  read back as that pair, and no other pair of process id and secret has the same key in the map.\<close>
theorem cancel_hits_its_backend:
  assumes "in_int32 pid" "in_int32 secret"
  shows "readStartup tls (startup_packet cancelRequestCode (i32 pid @ i32 secret)) = (StartupCancel pid secret, []) \<and>
         (backendKey p s = backendKey (word_of_int pid) (word_of_int secret) \<longleftrightarrow>
            p = word_of_int pid \<and> s = word_of_int secret)"
proof
  have c: "in_int32 cancelRequestCode" by (simp add: in_int32_def cancelRequestCode_def)
  show "readStartup tls (startup_packet cancelRequestCode (i32 pid @ i32 secret)) = (StartupCancel pid secret, [])"
    using readStartup_packet(1,2) [OF c, of "i32 pid @ i32 secret" "[]"]
      readStartup_packet(3,4) [OF c, of "i32 pid @ i32 secret"] assms
    by (subst readStartup.simps)
       (simp add: Let_def i32_def append_bytes_be int32_of_bytes int32_id
          cancelRequestCode_def sslRequestCode_def gssRequestCode_def)
  have low: "take_bit 32 (backendKey p s) = ucast s" for p s
    by (rule bit_word_eqI) (auto simp: backendKey_def bit_simps dest: bit_imp_le_length)
  have high: "drop_bit 32 (backendKey p s) = ucast p" for p s
    by (rule bit_word_eqI) (auto simp: backendKey_def bit_simps dest: bit_imp_le_length)
  have inj: "a = b" if h: "ucast (a :: 32 word) = (ucast b :: 64 word)" for a b
  proof (rule bit_word_eqI)
    fix n assume "n < LENGTH(32)"
    then show "bit a n = bit b n" using arg_cong [OF h, of "\<lambda>w. bit w n"] by (simp add: bit_simps)
  qed
  show "backendKey p s = backendKey (word_of_int pid) (word_of_int secret) \<longleftrightarrow>
      p = word_of_int pid \<and> s = word_of_int secret"
    using low high inj by metis
qed

theorem cancel_hits_its_backend_witness:
  "readStartup False (startup_packet cancelRequestCode (i32 7 @ i32 (-3))) = (StartupCancel 7 (-3), [])"
  using cancel_hits_its_backend [of 7 "-3"] by (simp add: in_int32_def)

end
