(* ===== verification/Notify.thy ===== *)
theory Notify
  imports Splitter WireFormat
begin

text \<open>
  LISTEN and NOTIFY (\<open>notify.go\<close>): the process-wide registry of listening sessions, the queue and
  the idle flag of each session, and the statements. A session is a number. A channel's set of
  sessions is a list without repetition; its order stands for Go's map order, on which nothing
  depends (\<open>publishNotify_exact\<close>). What a session's connection has been sent by \<open>deliverLocked\<close> is the
  string \<open>written\<close>.
\<close>

section \<open>State and session side\<close>

record pgNotify =
  n_pid :: int
  n_channel :: string
  n_payload :: string

record nsession =
  listens :: "string list"
  pending :: "pgNotify list"
  idle :: bool
  written :: string

record notify_state =
  channels :: "string \<Rightarrow> nat list"
  ns :: "nat \<Rightarrow> nsession"

definition new_nsession :: nsession where
  "new_nsession = \<lparr>listens = [], pending = [], idle = False, written = []\<rparr>"

definition notification_body :: "pgNotify \<Rightarrow> string" where
  "notification_body n = appendCString (appendCString (i32 (n_pid n)) (n_channel n)) (n_payload n)"

definition notification_bytes :: "pgNotify \<Rightarrow> string" where
  "notification_bytes n = send (CHR ''A'') (notification_body n)"

definition deliverLocked :: "nsession \<Rightarrow> nsession" where
  "deliverLocked s =
     (if pending s = [] then s
      else s\<lparr>written := foldl (\<lambda>w n. w @ notification_bytes n) (written s) (pending s), pending := []\<rparr>)"

definition goBusy :: "nsession \<Rightarrow> nsession" where
  "goBusy s = s\<lparr>idle := False\<rparr>"

definition goIdle :: "nsession \<Rightarrow> nsession" where
  "goIdle s = deliverLocked (s\<lparr>idle := True\<rparr>)"

definition enqueueNotify :: "pgNotify \<Rightarrow> nsession \<Rightarrow> nsession" where
  "enqueueNotify n s =
     (let s' = s\<lparr>pending := pending s @ [n]\<rparr> in if idle s' then deliverLocked s' else s')"

section \<open>The registry\<close>

definition add_once :: "'a \<Rightarrow> 'a list \<Rightarrow> 'a list" where
  "add_once x xs = (if x \<in> set xs then xs else xs @ [x])"

definition registerListen :: "string \<Rightarrow> nat \<Rightarrow> notify_state \<Rightarrow> notify_state" where
  "registerListen ch s st = st\<lparr>channels := (channels st)(ch := add_once s (channels st ch))\<rparr>"

definition unregisterListen :: "string \<Rightarrow> nat \<Rightarrow> notify_state \<Rightarrow> notify_state" where
  "unregisterListen ch s st = st\<lparr>channels := (channels st)(ch := removeAll s (channels st ch))\<rparr>"

definition unregisterAll :: "nat \<Rightarrow> notify_state \<Rightarrow> notify_state" where
  "unregisterAll s st = st\<lparr>channels := (\<lambda>ch. removeAll s (channels st ch))\<rparr>"

definition on_session :: "nat \<Rightarrow> (nsession \<Rightarrow> nsession) \<Rightarrow> notify_state \<Rightarrow> notify_state" where
  "on_session s f st = st\<lparr>ns := (ns st)(s := f (ns st s))\<rparr>"

definition publishNotify :: "string \<Rightarrow> string \<Rightarrow> int \<Rightarrow> notify_state \<Rightarrow> notify_state" where
  "publishNotify channel payload pid st =
     foldl (\<lambda>st s. on_session s (enqueueNotify \<lparr>n_pid = pid, n_channel = channel, n_payload = payload\<rparr>) st)
       st (channels st channel)"

section \<open>Statements\<close>

definition notifyChannel :: "string list \<Rightarrow> nat \<Rightarrow> string" where
  "notifyChannel f i = (if length f \<le> i then [] else unquoteIdent (TrimRight (f ! i) '',;''))"

text \<open>The loop that looks for the comma between channel and payload.\<close>

function notify_comma :: "string \<Rightarrow> int \<Rightarrow> nat \<Rightarrow> nat option" where
  "notify_comma rest depth i =
     (if i < length rest then
        if rest ! i = CHR 0x27 then notify_comma rest depth (endOfStringLiteral rest i)
        else if rest ! i = CHR ''('' then notify_comma rest (depth + 1) (i + 1)
        else if rest ! i = CHR '')'' then notify_comma rest (depth - 1) (i + 1)
        else if rest ! i = CHR '','' \<and> depth = 0 then Some i
        else notify_comma rest depth (i + 1)
      else None)"
  by pat_completeness auto
termination
  by (relation "measure (\<lambda>(rest, depth, i). length rest - i)")
     (auto simp: diff_less_mono2 endOfStringLiteral_bounds)

declare notify_comma.simps [simp del]

definition parseNotify :: "string \<Rightarrow> string \<times> string" where
  "parseNotify sql =
     (let start = (case indexWord (ToLower sql) ''notify'' of Some p \<Rightarrow> p + 6 | None \<Rightarrow> 5);
          rest = TrimSpace (drop start sql)
      in case notify_comma rest 0 0 of
           None \<Rightarrow> (unquoteIdent (TrimRight (TrimSpace rest) '';''), [])
         | Some comma \<Rightarrow>
             (let p = TrimSpace (TrimRight (drop (comma + 1) rest) '';'')
              in (unquoteIdent (TrimSpace (take comma rest)),
                  if 2 \<le> length p \<and> hd p = CHR 0x27 then undouble (CHR 0x27) (Scanner.slice p 1 (length p - 1)) else [])))"

definition tryListenNotify :: "notify_state \<Rightarrow> nat \<Rightarrow> int \<Rightarrow> string \<Rightarrow> string option \<times> notify_state" where
  "tryListenNotify st s pid sql =
     (let f = Fields sql in
      if f = [] then (None, st)
      else (let w = ToUpper (TrimRight (hd f) '';'') in
        if w = ''LISTEN'' then
          (let ch = notifyChannel f 1 in
           (Some ''LISTEN'',
            if ch \<noteq> [] then registerListen ch s (on_session s (\<lambda>x. x\<lparr>listens := add_once ch (listens x)\<rparr>) st)
            else st))
        else if w = ''UNLISTEN'' then
          (let arg = (if 1 < length f then TrimRight (f ! 1) '';'' else []) in
           (Some ''UNLISTEN'',
            if arg = ''*'' then
              on_session s (\<lambda>x. x\<lparr>listens := []\<rparr>)
                (foldl (\<lambda>st ch. unregisterListen ch s st) st (listens (ns st s)))
            else (let ch = notifyChannel f 1 in
                  if ch \<noteq> [] then
                    unregisterListen ch s (on_session s (\<lambda>x. x\<lparr>listens := removeAll ch (listens x)\<rparr>) st)
                  else st)))
        else if w = ''NOTIFY'' then
          (let (ch, payload) = parseNotify sql in
           (Some ''NOTIFY'', if ch \<noteq> [] then publishNotify ch payload pid st else st))
        else (None, st)))"

section \<open>One session's deliveries\<close>

datatype nevent = Busy | Idle | Enq pgNotify

fun nstep :: "nsession \<Rightarrow> nevent \<Rightarrow> nsession" where
  "nstep s Busy = goBusy s"
| "nstep s Idle = goIdle s"
| "nstep s (Enq n) = enqueueNotify n s"

fun enqueued :: "nevent list \<Rightarrow> pgNotify list" where
  "enqueued [] = []"
| "enqueued (Enq n # es) = n # enqueued es"
| "enqueued (_ # es) = enqueued es"

lemma deliverLocked_written:
  "written (deliverLocked s) @ concat (map notification_bytes (pending (deliverLocked s))) =
     written s @ concat (map notification_bytes (pending s))"
  by (simp add: deliverLocked_def foldl_append_map)

lemma pending_deliverLocked [simp]: "pending (deliverLocked s) = []" "idle (deliverLocked s) = idle s"
  by (simp_all add: deliverLocked_def)

lemma nstep_total:
  "written (nstep s e) @ concat (map notification_bytes (pending (nstep s e))) =
     written s @ concat (map notification_bytes (pending s @ enqueued [e]))"
  using deliverLocked_written [of "s\<lparr>idle := True\<rparr>"]
    deliverLocked_written [of "s\<lparr>pending := pending s @ [n]\<rparr>" for n]
  by (cases e) (simp_all add: goBusy_def goIdle_def enqueueNotify_def Let_def)

lemma enqueued_append: "enqueued (es @ es') = enqueued es @ enqueued es'"
  by (induction es rule: enqueued.induct) auto

lemma nsteps_total:
  "written (foldl nstep s es) @ concat (map notification_bytes (pending (foldl nstep s es))) =
     written s @ concat (map notification_bytes (pending s @ enqueued es))"
proof (induction es rule: rev_induct)
  case (snoc e es)
  then show ?case using nstep_total [of "foldl nstep s es" e] by (simp add: enqueued_append)
qed simp

definition nsession_ok :: "nsession \<Rightarrow> bool" where
  "nsession_ok s \<longleftrightarrow> (idle s \<longrightarrow> pending s = [])"

lemma nstep_ok: "nsession_ok s \<Longrightarrow> nsession_ok (nstep s e)"
  by (cases e) (auto simp: nsession_ok_def goBusy_def goIdle_def enqueueNotify_def Let_def)

lemma nsteps_ok: "nsession_ok s \<Longrightarrow> nsession_ok (foldl nstep s es)"
  by (induction es arbitrary: s) (auto intro: nstep_ok)

text \<open>C13: Notifications reach a session exactly once and in the order they were published to it: after
  any interleaving of commands starting, commands ending and notifications arriving, once the session
  is idle what its connection has been sent is what it had been sent and was owed before, then every
  notification that arrived, whole and in order; and while it is busy nothing is written.\<close>
theorem notifications_exactly_once:
  assumes "nsession_ok s"
  shows "(idle (foldl nstep s es) \<longrightarrow>
            written (foldl nstep s es) =
              written s @ concat (map notification_bytes (pending s @ enqueued es)) \<and>
            pending (foldl nstep s es) = []) \<and>
         (\<not> idle (foldl nstep s es) \<longrightarrow>
            written (nstep (foldl nstep s es) (Enq n)) = written (foldl nstep s es))"
proof -
  have "pending (foldl nstep s es) = []" if "idle (foldl nstep s es)"
    using nsteps_ok [OF assms, of es] that by (simp add: nsession_ok_def)
  then show ?thesis
    using nsteps_total [of s es] by (cases "idle (foldl nstep s es)") (simp_all add: enqueueNotify_def Let_def)
qed

theorem notifications_exactly_once_witness:
  "written (foldl nstep new_nsession [Enq \<lparr>n_pid = 7, n_channel = ''jobs'', n_payload = ''a''\<rparr>, Idle]) =
     notification_bytes \<lparr>n_pid = 7, n_channel = ''jobs'', n_payload = ''a''\<rparr>"
  using notifications_exactly_once [of new_nsession "[Enq \<lparr>n_pid = 7, n_channel = ''jobs'', n_payload = ''a''\<rparr>, Idle]"]
  by (simp add: nsession_ok_def new_nsession_def goIdle_def)

section \<open>Publishing\<close>

lemma publish_fold:
  "distinct ts \<Longrightarrow> ns (foldl (\<lambda>st s. on_session s f st) st ts) t = (if t \<in> set ts then f (ns st t) else ns st t)"
  by (induction ts arbitrary: st) (auto simp: on_session_def)

lemma publish_channels: "channels (foldl (\<lambda>st s. on_session s f st) st ts) = channels st"
  by (induction ts arbitrary: st) (auto simp: on_session_def)

text \<open>A NOTIFY reaches every session that listens on the channel, once each, and no other session,
  whatever order the registry lists them in; it changes no registration.\<close>
theorem publishNotify_exact:
  assumes "distinct (channels st ch)"
  shows "ns (publishNotify ch p pid st) t =
           (if t \<in> set (channels st ch)
            then enqueueNotify \<lparr>n_pid = pid, n_channel = ch, n_payload = p\<rparr> (ns st t) else ns st t) \<and>
         channels (publishNotify ch p pid st) = channels st"
  using publish_fold [OF assms] by (simp add: publishNotify_def publish_channels)

theorem publishNotify_exact_witness:
  "let st = \<lparr>channels = (\<lambda>ch. if ch = ''jobs'' then [1, 2] else []), ns = (\<lambda>_. new_nsession)\<rparr>
   in pending (ns (publishNotify ''jobs'' ''x'' 9 st) 2) = [\<lparr>n_pid = 9, n_channel = ''jobs'', n_payload = ''x''\<rparr>] \<and>
      pending (ns (publishNotify ''jobs'' ''x'' 9 st) 3) = []"
  using publishNotify_exact [of "\<lparr>channels = (\<lambda>ch. if ch = ''jobs'' then [1, 2] else []), ns = (\<lambda>_. new_nsession)\<rparr>" "''jobs''" "''x''" 9 2]
    publishNotify_exact [of "\<lparr>channels = (\<lambda>ch. if ch = ''jobs'' then [1, 2] else []), ns = (\<lambda>_. new_nsession)\<rparr>" "''jobs''" "''x''" 9 3]
  by (simp add: Let_def enqueueNotify_def new_nsession_def)

section \<open>The system of sessions\<close>

text \<open>What a NOTIFY has collected and not yet delivered is in flight: \<open>publishNotify\<close> lets go of the
  registry's lock before it walks the sessions it found, so registrations change in between.\<close>

record notify_system =
  reg :: notify_state
  inflight :: "(nat \<times> pgNotify) list"

definition notify_targets :: "notify_state \<Rightarrow> pgNotify \<Rightarrow> (nat \<times> pgNotify) list" where
  "notify_targets st n = map (\<lambda>s. (s, n)) (channels st (n_channel n))"

inductive notify_step :: "notify_system \<Rightarrow> notify_system \<Rightarrow> bool" where
  ns_statement: "ToUpper (TrimRight (hd (Fields sql)) '';'') \<noteq> ''NOTIFY'' \<Longrightarrow>
    notify_step w (w\<lparr>reg := snd (tryListenNotify (reg w) s pid sql)\<rparr>)"
| ns_collect: "notify_step w (w\<lparr>inflight := inflight w @ notify_targets (reg w) n\<rparr>)"
| ns_deliver: "inflight w = a @ (s, n) # c \<Longrightarrow>
    notify_step w (w\<lparr>inflight := a @ c, reg := on_session s (enqueueNotify n) (reg w)\<rparr>)"
| ns_busy: "notify_step w (w\<lparr>reg := on_session s goBusy (reg w)\<rparr>)"
| ns_idle: "notify_step w (w\<lparr>reg := on_session s goIdle (reg w)\<rparr>)"
| ns_close: "notify_step w (w\<lparr>reg := on_session s (\<lambda>_. new_nsession) (unregisterAll s (reg w))\<rparr>)"

inductive_cases notify_stepE: "notify_step w w'"

definition notify_inv :: "notify_state \<Rightarrow> bool" where
  "notify_inv st \<longleftrightarrow>
     (\<forall>ch. distinct (channels st ch)) \<and>
     (\<forall>s ch. s \<in> set (channels st ch) \<longleftrightarrow> ch \<in> set (listens (ns st s))) \<and>
     (\<forall>s. nsession_ok (ns st s))"

definition notify_init :: "notify_system \<Rightarrow> bool" where
  "notify_init w \<longleftrightarrow> reg w = \<lparr>channels = (\<lambda>_. []), ns = (\<lambda>_. new_nsession)\<rparr> \<and> inflight w = []"

lemma add_once_props: "set (add_once x xs) = insert x (set xs)" "distinct xs \<Longrightarrow> distinct (add_once x xs)"
  by (auto simp: add_once_def)

lemma on_session_inv:
  assumes "notify_inv st" "listens (f (ns st s)) = listens (ns st s)" "nsession_ok (f (ns st s))"
  shows "notify_inv (on_session s f st)"
  using assms by (simp add: notify_inv_def on_session_def)

lemma listens_session [simp]:
  "listens (deliverLocked x) = listens x" "listens (goBusy x) = listens x" "listens (goIdle x) = listens x"
  "listens (enqueueNotify n x) = listens x"
  by (simp_all add: deliverLocked_def goBusy_def goIdle_def enqueueNotify_def Let_def)

lemma listen_inv:
  "notify_inv st \<Longrightarrow>
     notify_inv (registerListen ch s (on_session s (\<lambda>x. x\<lparr>listens := add_once ch (listens x)\<rparr>) st))"
  by (auto simp: notify_inv_def registerListen_def on_session_def add_once_props nsession_ok_def)

lemma unlisten_inv:
  "notify_inv st \<Longrightarrow>
     notify_inv (unregisterListen ch s (on_session s (\<lambda>x. x\<lparr>listens := removeAll ch (listens x)\<rparr>) st))"
  by (auto simp: notify_inv_def unregisterListen_def on_session_def distinct_removeAll nsession_ok_def)

lemma unregister_fold:
  "channels (foldl (\<lambda>st ch. unregisterListen ch s st) st chs) ch =
     (if ch \<in> set chs then removeAll s (channels st ch) else channels st ch)"
  "ns (foldl (\<lambda>st ch. unregisterListen ch s st) st chs) = ns st"
  by (induction chs arbitrary: st) (auto simp: unregisterListen_def)

lemma unlisten_all_inv:
  assumes "notify_inv st"
  shows "notify_inv (on_session s (\<lambda>x. x\<lparr>listens := []\<rparr>)
           (foldl (\<lambda>st ch. unregisterListen ch s st) st (listens (ns st s))))"
proof -
  have reg: "s' \<in> set (channels st ch) \<longleftrightarrow> ch \<in> set (listens (ns st s'))" for s' ch
    using assms by (simp add: notify_inv_def)
  show ?thesis
    using assms
    by (auto simp: notify_inv_def on_session_def unregister_fold distinct_removeAll nsession_ok_def reg)
qed

lemma close_inv: "notify_inv st \<Longrightarrow> notify_inv (on_session s (\<lambda>_. new_nsession) (unregisterAll s st))"
  by (auto simp: notify_inv_def on_session_def unregisterAll_def distinct_removeAll nsession_ok_def new_nsession_def)

lemma statement_inv:
  assumes "notify_inv st" "ToUpper (TrimRight (hd (Fields sql)) '';'') \<noteq> ''NOTIFY''"
  shows "notify_inv (snd (tryListenNotify st s pid sql))"
proof -
  consider "Fields sql = []"
    | "Fields sql \<noteq> []" "ToUpper (TrimRight (hd (Fields sql)) '';'') = ''LISTEN''"
    | "Fields sql \<noteq> []" "ToUpper (TrimRight (hd (Fields sql)) '';'') = ''UNLISTEN''"
    | "Fields sql \<noteq> []" "ToUpper (TrimRight (hd (Fields sql)) '';'') \<notin> {''LISTEN'', ''UNLISTEN'', ''NOTIFY''}"
    using assms(2) by blast
  then show ?thesis
  proof cases
    case 1 then show ?thesis using assms(1) by (simp add: tryListenNotify_def)
  next
    case 2 then show ?thesis
      using assms(1) listen_inv [OF assms(1)] by (simp add: tryListenNotify_def Let_def)
  next
    case 3 then show ?thesis
      using assms(1) unlisten_inv [OF assms(1)] unlisten_all_inv [OF assms(1)]
      by (simp add: tryListenNotify_def Let_def)
  next
    case 4 then show ?thesis using assms(1) by (simp add: tryListenNotify_def Let_def)
  qed
qed

lemma notify_step_inv: "notify_step w w' \<Longrightarrow> notify_inv (reg w) \<Longrightarrow> notify_inv (reg w')"
proof (induction rule: notify_step.induct)
  case (ns_statement sql w s pid)
  then show ?case by (simp add: statement_inv)
next
  case (ns_deliver w a s n c)
  then have "nsession_ok (enqueueNotify n (ns (reg w) s))"
    using nstep_ok [of "ns (reg w) s" "Enq n"] by (simp add: notify_inv_def)
  with ns_deliver show ?case by (simp add: on_session_inv)
next
  case (ns_busy w s)
  then have "nsession_ok (goBusy (ns (reg w) s))" by (simp add: goBusy_def nsession_ok_def)
  with ns_busy show ?case by (simp add: on_session_inv)
next
  case (ns_idle w s)
  then have "nsession_ok (goIdle (ns (reg w) s))" by (simp add: goIdle_def nsession_ok_def)
  with ns_idle show ?case by (simp add: on_session_inv)
next
  case (ns_close w s)
  then show ?case by (simp add: close_inv)
qed simp

interpretation notify_sys: invariant_system notify_init notify_step "\<lambda>w. notify_inv (reg w)"
proof unfold_locales
  show "notify_init w \<Longrightarrow> notify_inv (reg w)" for w
    by (simp add: notify_init_def notify_inv_def new_nsession_def nsession_ok_def)
qed (rule notify_step_inv)

text \<open>The registry and the sessions agree in every reachable state, whatever the sessions run and
  however deliveries overlap with it: a session is registered on a channel exactly when its own set of
  channels has it, never twice, a closed connection is registered nowhere, and an idle session owes its
  client nothing.\<close>
theorem notify_registry_consistent:
  assumes "notify_init w0" "notify_step\<^sup>*\<^sup>* w0 w"
  shows "(s \<in> set (channels (reg w) ch) \<longleftrightarrow> ch \<in> set (listens (ns (reg w) s))) \<and>
         distinct (channels (reg w) ch) \<and>
         (idle (ns (reg w) s) \<longrightarrow> pending (ns (reg w) s) = [])"
  using notify_sys.inv_reachable [OF assms] by (simp add: notify_inv_def nsession_ok_def)

theorem notify_registry_consistent_witness:
  "let w = \<lparr>reg = \<lparr>channels = (\<lambda>_. []), ns = (\<lambda>_. new_nsession)\<rparr>, inflight = []\<rparr>;
       w' = w\<lparr>reg := snd (tryListenNotify (reg w) 1 7 ''LISTEN jobs'')\<rparr>
   in 1 \<in> set (channels (reg w') ''jobs'') \<longleftrightarrow> ''jobs'' \<in> set (listens (ns (reg w') 1))"
proof -
  let ?w = "\<lparr>reg = \<lparr>channels = (\<lambda>_. []), ns = (\<lambda>_. new_nsession)\<rparr>, inflight = []\<rparr>"
  have "ToUpper (TrimRight (hd (Fields ''LISTEN jobs'')) '';'') \<noteq> ''NOTIFY''" by code_simp
  then have "notify_step ?w (?w\<lparr>reg := snd (tryListenNotify (reg ?w) 1 7 ''LISTEN jobs'')\<rparr>)"
    by (rule ns_statement)
  then have step: "notify_step\<^sup>*\<^sup>* ?w (?w\<lparr>reg := snd (tryListenNotify (reg ?w) 1 7 ''LISTEN jobs'')\<rparr>)"
    by (rule r_into_rtranclp)
  have "notify_init ?w" by (simp add: notify_init_def)
  from notify_registry_consistent [OF this step, of 1 "''jobs''"] show ?thesis by (simp add: Let_def)
qed

section \<open>NOTIFY's arguments\<close>

lemma notify_comma_ident:
  assumes "\<forall>c \<in> set ch. isIdentPart c" "i \<le> length ch"
  shows "notify_comma (ch @ CHR '','' # t) 0 i = Some (length ch)"
  using assms(2)
proof (induction "length ch - i" arbitrary: i)
  case 0
  then have i: "i = length ch" by simp
  show ?case unfolding i by (subst notify_comma.simps) simp
next
  case (Suc k)
  then have i: "i < length ch" by simp
  then have "isIdentPart (ch ! i)" using assms(1) by simp
  then have "ch ! i \<noteq> CHR 0x27" "ch ! i \<noteq> CHR ''(''" "ch ! i \<noteq> CHR '')''" "ch ! i \<noteq> CHR '',''"
    by (auto simp: isIdentPart_def isIdentStart_def is_lower_def is_upper_def is_digit_def)
  then show ?case using i Suc.hyps(1) [of "i + 1"] Suc.hyps(2)
    by (subst notify_comma.simps) (simp add: nth_append)
qed

lemma ident_plain:
  assumes "\<forall>c \<in> set ch. isIdentPart c" "ch \<noteq> []"
  shows "unquoteIdent (TrimSpace ch) = ch"
proof -
  have c: "isIdentPart (hd ch)" "isIdentPart (last ch)" using assms by simp_all
  then have sp: "\<not> is_space (hd ch)" "\<not> is_space (last ch)" "last ch \<noteq> CHR '';''"
    "hd ch \<noteq> CHR 0x22" "last ch \<noteq> CHR 0x22"
    by (auto simp: isIdentPart_def isIdentStart_def is_lower_def is_upper_def is_digit_def is_space_def)
  have "\<not> HasPrefix ch [CHR 0x22]" "\<not> HasSuffix ch [CHR 0x22]"
  proof -
    obtain c cs where "ch = c # cs" using assms(2) by (cases ch) auto
    with sp(4) show "\<not> HasPrefix ch [CHR 0x22]" by simp
    obtain ds d where "ch = ds @ [d]" using assms(2) by (cases ch rule: rev_cases) auto
    with sp(5) show "\<not> HasSuffix ch [CHR 0x22]" by (simp add: HasSuffix_def)
  qed
  then show ?thesis
    using sp by (simp add: TrimSpace_id TrimRight_id unquoteIdent_def Let_def TrimPrefix_def TrimSuffix_def)
qed

text \<open>A NOTIFY written with its payload quoted as a literal is read back as that channel and that
  payload, whatever the payload holds: commas, quotes, parentheses or semicolons.\<close>
theorem parseNotify_roundtrip:
  assumes "\<forall>c \<in> set ch. isIdentPart c" "ch \<noteq> []"
  shows "parseNotify (''NOTIFY '' @ ch @ '', '' @ sqlStr p) = (ch, p)"
proof -
  let ?sql = "''NOTIFY '' @ ch @ '', '' @ sqlStr p" and ?rest = "ch @ CHR '','' # CHR '' '' # sqlStr p"
  have low: "ToLower ?sql = ''notify'' @ CHR '' '' # ToLower (ch @ '', '' @ sqlStr p)"
  proof -
    have "ToLower ''NOTIFY '' = ''notify ''" by code_simp
    then show ?thesis by (simp add: ToLower_def)
  qed
  have word: "indexWord (ToLower ?sql) ''notify'' = Some 0"
  proof -
    have "Index (''notify'' @ t) ''notify'' = Some 0" for t by simp
    then show ?thesis
      unfolding indexWord_def low
      by (subst indexWord_from.simps)
         (simp add: isIdentPart_def isIdentStart_def is_lower_def is_upper_def is_digit_def Let_def)
  qed
  have ends: "sqlStr p \<noteq> []" "hd (sqlStr p) = CHR 0x27" "last (sqlStr p) = CHR 0x27" "2 \<le> length (sqlStr p)"
    by (simp_all add: sqlStr_def)
  have "isIdentPart (hd ch)" using assms by simp
  then have "\<not> is_space (hd ch)"
    by (auto simp: isIdentPart_def isIdentStart_def is_lower_def is_upper_def is_digit_def is_space_def)
  then have rest: "TrimSpace (drop 6 ?sql) = ?rest"
    using assms(2) ends TrimSpace_id [of ?rest]
    by (simp add: TrimSpace_def is_space_def last_append)
  have comma: "notify_comma ?rest 0 0 = Some (length ch)" by (rule notify_comma_ident) (use assms in simp_all)
  have p: "TrimSpace (TrimRight (CHR '' '' # sqlStr p) '';'') = sqlStr p"
    using ends TrimSpace_id [of "sqlStr p"] TrimRight_id [of "CHR '' '' # sqlStr p" "'';''"]
    by (simp add: TrimSpace_def is_space_def)
  have "Scanner.slice (sqlStr p) 1 (length (sqlStr p) - 1) = ReplaceByte p (CHR 0x27) [CHR 0x27, CHR 0x27]"
    by (simp add: sqlStr_def Scanner.slice_def)
  then have payload: "undouble (CHR 0x27) (Scanner.slice (sqlStr p) 1 (length (sqlStr p) - 1)) = p"
    by (simp add: undouble_ReplaceByte)
  show ?thesis
    unfolding parseNotify_def word Let_def option.case add_0 rest comma
    using ident_plain [OF assms] p payload ends by simp
qed

theorem parseNotify_roundtrip_witness:
  "parseNotify (''NOTIFY '' @ ''jobs'' @ '', '' @ sqlStr ''it; (a, b'') = (''jobs'', ''it; (a, b'')"
  using parseNotify_roundtrip [of "''jobs''" "''it; (a, b''"]
  by (simp add: isIdentPart_def isIdentStart_def is_lower_def)

end
