(* ===== verification/SqlState.thy ===== *)
theory SqlState
  imports GoStrings
begin

text \<open>
  The SQLSTATE a client gets for an error's text: the table of \<open>sqlstate.go\<close>, \<open>databaseDDLState\<close> of
  \<open>database.go\<close>, and the cancellation test of \<open>cancel.go\<close>.
\<close>

definition sqlStates :: "(string \<times> string) list" where
  "sqlStates =
     [(''unique constraint failed'', ''23505''),
      (''foreign key constraint failed'', ''23503''),
      (''not null constraint failed'', ''23502''),
      (''check constraint failed'', ''23514''),
      (''database is locked'', ''55P03''),
      (''database table is locked'', ''55P03''),
      (''no such table'', ''42P01''),
      (''no such column'', ''42703''),
      (''no such function'', ''42883''),
      (''already exists'', ''42P07''),
      (''syntax error'', ''42601''),
      (''datatype mismatch'', ''42804''),
      (''division by zero'', ''22012'')]"

fun first_state :: "string \<Rightarrow> (string \<times> string) list \<Rightarrow> string" where
  "first_state msg [] = ''42000''"
| "first_state msg ((t, c) # rest) = (if Contains msg t then c else first_state msg rest)"

definition sqlState :: "string \<Rightarrow> string" where
  "sqlState e = first_state (ToLower e) sqlStates"

definition databaseDDLState :: "string \<Rightarrow> string" where
  "databaseDDLState msg =
     (if Contains msg ''already exists'' then ''42P04''
      else if Contains msg ''does not exist'' then ''3D000''
      else if Contains msg ''being accessed by other users'' \<or>
              Contains msg ''cannot drop the currently open database'' then ''55006''
      else if Contains msg ''invalid database name'' then ''42602''
      else sqlState msg)"

text \<open>The test on an error's text; an error that is the context's own cancellation is the other case
  of the source, which the callers below pass as \<open>canceled\<close>.\<close>

definition isCanceled :: "bool \<Rightarrow> string \<Rightarrow> bool" where
  "isCanceled canceled msg \<longleftrightarrow> canceled \<or> Contains (ToLower msg) ''interrupt''"

definition execErrorState :: "bool \<Rightarrow> string \<Rightarrow> string \<times> string" where
  "execErrorState canceled msg =
     (if isCanceled canceled msg then (''57014'', ''canceling statement due to user request'')
      else (sqlState msg, msg))"

lemma first_state_cases:
  "first_state msg tab = c \<Longrightarrow>
     (c = ''42000'' \<and> (\<forall>(t, s) \<in> set tab. \<not> Contains msg t)) \<or>
     (\<exists>as t bs. tab = as @ (t, c) # bs \<and> Contains msg t \<and> (\<forall>(t', s) \<in> set as. \<not> Contains msg t'))"
proof (induction tab)
  case (Cons p tab)
  obtain t s where p: "p = (t, s)" by (cases p)
  show ?case
  proof (cases "Contains msg t")
    case True
    then have "p # tab = [] @ (t, c) # tab" using Cons.prems p by simp
    then show ?thesis using True by (metis empty_iff empty_set)
  next
    case False
    then consider "c = ''42000''" "\<forall>(t, s) \<in> set tab. \<not> Contains msg t"
      | as u bs where "tab = as @ (u, c) # bs" "Contains msg u" "\<forall>(t', s) \<in> set as. \<not> Contains msg t'"
      using Cons p by auto
    then show ?thesis
    proof cases
      case 1 then show ?thesis using False p by simp
    next
      case 2
      then have "p # tab = (p # as) @ (u, c) # bs" by simp
      then show ?thesis using 2 False p by (metis (no_types, lifting) case_prodI2 old.prod.case set_ConsD)
    qed
  qed
qed simp

end
