(* ===== verification/Cluster.thy ===== *)
theory Cluster
  imports Splitter SqlState "HOL-Library.List_Lexorder" "HOL-Library.Char_ord"
begin

text \<open>
  The set of databases of a server (\<open>engine/cluster.go\<close>): a directory of \<open>.db\<close> files, the engines open
  on them with their reference counts and recency, eviction, CREATE and DROP DATABASE; the per-file
  state of \<open>engine/dbstate.go\<close>; and the statements of \<open>protocol/postgres/database.go\<close>. The directory is
  the list of the \<open>.db\<close> files' base names. Whether SQLite can open a file is the operating system's
  answer, the argument \<open>opens\<close>; removing a file that is there succeeds. \<open>Engine\<close>, \<open>CreateDatabase\<close> and
  \<open>DropDatabase\<close> look at the directory before they take the mutex, so each is a check and a locked
  part; their composition is the call undisturbed between the two.
\<close>

section \<open>State\<close>

record openDB =
  refs :: nat
  used :: nat

record Dir =
  files :: "string list"
  entry :: string
  maxOpen :: nat
  open_dbs :: "(string \<times> openDB) list"
  use_seq :: nat

definition DefaultMaxOpenDatabases :: nat where "DefaultMaxOpenDatabases = 64"

definition MaintenanceDatabase :: string where "MaintenanceDatabase = ''postgres''"

text \<open>The pattern \<open>^[A-Za-z_][A-Za-z0-9_-]*$\<close> and the length limit.\<close>

definition ValidDatabaseName :: "string \<Rightarrow> bool" where
  "ValidDatabaseName name \<longleftrightarrow>
     name \<noteq> [] \<and> isIdentStart (hd name) \<and>
     list_all (\<lambda>c. isIdentPart c \<or> c = CHR ''-'') (tl name) \<and> length name \<le> 63"

definition exists_db :: "Dir \<Rightarrow> string \<Rightarrow> bool" where
  "exists_db d name \<longleftrightarrow> name \<in> set (files d)"

definition Databases :: "Dir \<Rightarrow> string list" where
  "Databases d = sort (filter ValidDatabaseName (files d))"

text \<open>The names put in a message: at most five, then an ellipsis (the three bytes of U+2026).\<close>

definition availableForError :: "Dir \<Rightarrow> string list" where
  "availableForError d =
     (let names = Databases d in
      if 5 < length names then take 5 names @ [[CHR 0xE2, CHR 0x80, CHR 0xA6]] else names)"

section \<open>Eviction\<close>

text \<open>One pass of the loop over the open engines, looking for the idle one used longest ago.\<close>

definition better :: "string \<Rightarrow> openDB \<Rightarrow> (string \<times> nat) option \<Rightarrow> (string \<times> nat) option" where
  "better name e best =
     (if 0 < refs e then best
      else (case best of
              None \<Rightarrow> Some (name, used e)
            | Some (victim, oldest) \<Rightarrow> if used e < oldest then Some (name, used e) else best))"

fun find_victim :: "(string \<times> openDB) list \<Rightarrow> (string \<times> nat) option \<Rightarrow> (string \<times> nat) option" where
  "find_victim [] best = best"
| "find_victim ((name, e) # dbs) best = find_victim dbs (better name e best)"

lemma find_victim_None:
  "find_victim dbs best = None \<longleftrightarrow> best = None \<and> (\<forall>(n, e) \<in> set dbs. 0 < refs e)"
  by (induction dbs best rule: find_victim.induct) (auto simp: better_def split: option.splits)

lemma find_victim_Some:
  "find_victim dbs best = Some (v, k) \<Longrightarrow>
     (best = Some (v, k) \<or> (\<exists>e. (v, e) \<in> set dbs \<and> refs e = 0 \<and> used e = k)) \<and>
     (\<forall>(n, e) \<in> set dbs. refs e = 0 \<longrightarrow> k \<le> used e) \<and> (\<forall>v' k'. best = Some (v', k') \<longrightarrow> k \<le> k')"
proof (induction dbs arbitrary: best)
  case (Cons p dbs)
  obtain n e where p: "p = (n, e)" by (cases p)
  note ih = Cons.IH [of "better n e best"]
  show ?case
  proof (cases "0 < refs e")
    case True
    with ih Cons.prems show ?thesis by (auto simp: p better_def)
  next
    case False
    have run: "find_victim dbs (better n e best) = Some (v, k)" using Cons.prems by (simp add: p)
    consider "better n e best = Some (n, used e)" "\<forall>v' k'. best = Some (v', k') \<longrightarrow> used e < k'"
      | "better n e best = best" "\<exists>v' k'. best = Some (v', k') \<and> k' \<le> used e"
      using False by (cases best) (auto simp: better_def split: if_splits, meson not_le)
    then show ?thesis
    proof cases
      case 1
      have kv: "k \<le> used e" using ih [OF run] 1(1) by blast
      moreover have "k \<le> k'" if "best = Some (v', k')" for v' k' using kv 1(2) that by fastforce
      ultimately show ?thesis using ih [OF run] 1(1) False by (auto simp: p)
    next
      case 2
      have "k \<le> used e" using ih [OF run] 2 by fastforce
      then show ?thesis using ih [OF run] 2(1) by (auto simp: p)
    qed
  qed
qed simp

lemma find_victim_in: "find_victim dbs None = Some (v, k) \<Longrightarrow> \<exists>e. (v, e) \<in> set dbs \<and> refs e = 0 \<and> used e = k"
  using find_victim_Some [of dbs None v k] by simp

function evictLocked :: "nat \<Rightarrow> (string \<times> openDB) list \<Rightarrow> (string \<times> openDB) list" where
  "evictLocked limit dbs =
     (if limit < length dbs then
        (case find_victim dbs None of
           None \<Rightarrow> dbs
         | Some (victim, _) \<Rightarrow> evictLocked limit (AList.delete victim dbs))
      else dbs)"
  by pat_completeness auto
termination
proof (relation "measure (\<lambda>(limit, dbs). length dbs)")
  fix limit :: nat and dbs :: "(string \<times> openDB) list" and vo v n
  assume "find_victim dbs None = Some vo" "(v, n) = vo"
  then have "v \<in> fst ` set dbs" using find_victim_in [of dbs v n] by force
  then obtain p where "p \<in> set dbs" "fst p = v" by auto
  then have "length (filter (\<lambda>(k', _). v \<noteq> k') dbs) < length dbs" by (intro length_filter_less) auto
  then show "((limit, AList.delete v dbs), (limit, dbs)) \<in> measure (\<lambda>(limit, dbs). length dbs)"
    by (simp add: AList.delete_eq)
qed simp

declare evictLocked.simps [simp del]

section \<open>Operations\<close>

datatype cluster_error =
    NoSuchDatabase string "string list"
  | OpenFailed string
  | ClusterError string

definition engine_check :: "Dir \<Rightarrow> string \<Rightarrow> bool" where
  "engine_check d db \<longleftrightarrow> db \<noteq> [] \<and> ValidDatabaseName db \<and> exists_db d db"

text \<open>The locked part of \<open>Engine\<close>. Opening a file that is gone creates it.\<close>

definition engine_locked :: "(string \<Rightarrow> bool) \<Rightarrow> Dir \<Rightarrow> string \<Rightarrow> (cluster_error + unit) \<times> Dir" where
  "engine_locked opens d db =
     (case map_of (open_dbs d) db of
        Some e \<Rightarrow>
          (Inr (), d\<lparr>use_seq := use_seq d + 1,
                     open_dbs := AList.update db \<lparr>refs = refs e + 1, used = use_seq d + 1\<rparr> (open_dbs d)\<rparr>)
      | None \<Rightarrow>
          if \<not> opens db then (Inl (OpenFailed db), d)
          else (Inr (), d\<lparr>files := (if exists_db d db then files d else files d @ [db]),
                  use_seq := use_seq d + 1,
                  open_dbs := evictLocked (maxOpen d)
                    (AList.update db \<lparr>refs = 1, used = use_seq d + 1\<rparr> (open_dbs d))\<rparr>))"

definition Engine :: "(string \<Rightarrow> bool) \<Rightarrow> Dir \<Rightarrow> string \<Rightarrow> (cluster_error + unit) \<times> Dir" where
  "Engine opens d db =
     (if engine_check d db then engine_locked opens d db
      else (Inl (NoSuchDatabase db (availableForError d)), d))"

definition Release :: "Dir \<Rightarrow> string \<Rightarrow> Dir" where
  "Release d db =
     d\<lparr>open_dbs := evictLocked (maxOpen d)
         (case map_of (open_dbs d) db of
            Some e \<Rightarrow> if 0 < refs e then AList.update db (e\<lparr>refs := refs e - 1\<rparr>) (open_dbs d) else open_dbs d
          | None \<Rightarrow> open_dbs d)\<rparr>"

definition invalid_name_error :: "string \<Rightarrow> string" where
  "invalid_name_error db =
     ''invalid database name '' @ goQuote db @ '': a database name must start with a letter or underscore and contain only letters, digits, underscores and dashes, because it becomes the name of the file that stores it''"

definition create_check :: "Dir \<Rightarrow> string \<Rightarrow> string option" where
  "create_check d db =
     (if \<not> ValidDatabaseName db then Some (invalid_name_error db)
      else if exists_db d db then Some (''database '' @ goQuote db @ '' already exists'')
      else None)"

definition create_locked :: "(string \<Rightarrow> bool) \<Rightarrow> Dir \<Rightarrow> string \<Rightarrow> (cluster_error + unit) \<times> Dir" where
  "create_locked opens d db =
     (if \<not> opens db then (Inl (OpenFailed db), d)
      else (Inr (), d\<lparr>files := (if exists_db d db then files d else files d @ [db]),
              use_seq := use_seq d + 1,
              open_dbs := evictLocked (maxOpen d)
                (AList.update db \<lparr>refs = 0, used = use_seq d + 1\<rparr> (open_dbs d))\<rparr>))"

definition CreateDatabase :: "(string \<Rightarrow> bool) \<Rightarrow> Dir \<Rightarrow> string \<Rightarrow> (cluster_error + unit) \<times> Dir" where
  "CreateDatabase opens d db =
     (case create_check d db of
        Some e \<Rightarrow> (Inl (ClusterError e), d)
      | None \<Rightarrow> create_locked opens d db)"

definition drop_check :: "Dir \<Rightarrow> string \<Rightarrow> string option" where
  "drop_check d db =
     (if db = MaintenanceDatabase then
        Some (''cannot drop the maintenance database '' @ goQuote MaintenanceDatabase)
      else if db = entry d then
        Some (''cannot drop '' @ goQuote db @ '': it is the database this server was started with, and the one a client connects to before it can create another'')
      else if \<not> exists_db d db then Some (''database '' @ goQuote db @ '' does not exist'')
      else None)"

text \<open>\<open>lockIdle\<close> gets the lock when nobody holds the database; else, after its wait, it gives up. The
  model asks once: a later turn of its loop is a later step of the system.\<close>

definition idle_db :: "Dir \<Rightarrow> string \<Rightarrow> bool" where
  "idle_db d db = (case map_of (open_dbs d) db of None \<Rightarrow> True | Some e \<Rightarrow> refs e = 0)"

definition drop_locked :: "Dir \<Rightarrow> string \<Rightarrow> (cluster_error + unit) \<times> Dir" where
  "drop_locked d db =
     (if \<not> idle_db d db then
        (Inl (ClusterError (''database '' @ goQuote db @ '' is being accessed by other users'')), d)
      else (Inr (), d\<lparr>open_dbs := AList.delete db (open_dbs d), files := removeAll db (files d)\<rparr>))"

definition DropDatabase :: "Dir \<Rightarrow> string \<Rightarrow> (cluster_error + unit) \<times> Dir" where
  "DropDatabase d db =
     (case drop_check d db of
        Some e \<Rightarrow> (Inl (ClusterError e), d)
      | None \<Rightarrow> drop_locked d db)"

definition close_dir :: "Dir \<Rightarrow> Dir" where
  "close_dir d = d\<lparr>open_dbs := []\<rparr>"

text \<open>\<open>OpenCluster\<close>, once the directory is there: the entry and the maintenance database are created
  unless they exist.\<close>

definition OpenCluster :: "(string \<Rightarrow> bool) \<Rightarrow> string list \<Rightarrow> string \<Rightarrow> int \<Rightarrow> cluster_error + Dir" where
  "OpenCluster opens existing entry0 max0 =
     (let mx = (if max0 \<le> 0 then DefaultMaxOpenDatabases else nat max0);
          d = \<lparr>files = existing, entry = entry0, maxOpen = mx, open_dbs = [], use_seq = 0\<rparr>;
          ensure = (\<lambda>d name. if exists_db d name then Inr d
                             else (case CreateDatabase opens d name of
                                     (Inl e, _) \<Rightarrow> Inl e | (Inr _, d') \<Rightarrow> Inr d'))
      in if \<not> ValidDatabaseName entry0 then
           Inl (ClusterError (entry0 @ '' is not a usable database name: a database name must start with a letter or underscore and contain only letters, digits, underscores and dashes, because it is the name of the file that stores it''))
         else (case ensure d entry0 of
                 Inl e \<Rightarrow> Inl e
               | Inr d' \<Rightarrow> ensure d' MaintenanceDatabase))"

section \<open>What eviction does\<close>

lemma delete_dbs: "AList.delete v dbs = filter (\<lambda>p. fst p \<noteq> v) dbs"
  by (auto simp: AList.delete_eq intro: filter_cong)

lemma evict_subset: "set (evictLocked m dbs) \<subseteq> set dbs"
proof (induction m dbs rule: evictLocked.induct)
  case (1 m dbs)
  show ?case
  proof (cases "m < length dbs \<and> find_victim dbs None \<noteq> None")
    case True
    then obtain v k where v: "find_victim dbs None = Some (v, k)" by auto
    have "set (evictLocked m (AList.delete v dbs)) \<subseteq> set (AList.delete v dbs)"
      using 1 [OF _ v refl] True by simp
    then show ?thesis using True v by (subst evictLocked.simps) (auto simp: delete_dbs)
  next
    case False
    then show ?thesis by (subst evictLocked.simps) (auto split: option.splits)
  qed
qed

lemma evict_induct [consumes 1, case_names stop victim]:
  assumes "distinct (map fst dbs)"
    and stop: "\<And>dbs. distinct (map fst dbs) \<Longrightarrow> length dbs \<le> m \<or> (\<forall>(n, e) \<in> set dbs. 0 < refs e) \<Longrightarrow> P dbs dbs"
    and victim: "\<And>dbs v e. distinct (map fst dbs) \<Longrightarrow> m < length dbs \<Longrightarrow> (v, e) \<in> set dbs \<Longrightarrow> refs e = 0 \<Longrightarrow>
      (\<forall>(n, e') \<in> set dbs. refs e' = 0 \<longrightarrow> used e \<le> used e') \<Longrightarrow>
      P (AList.delete v dbs) (evictLocked m (AList.delete v dbs)) \<Longrightarrow>
      P dbs (evictLocked m (AList.delete v dbs))"
  shows "P dbs (evictLocked m dbs)"
  using assms(1)
proof (induction "length dbs" arbitrary: dbs rule: less_induct)
  case less
  show ?case
  proof (cases "m < length dbs")
    case False
    then show ?thesis using stop [OF less.prems] by (subst evictLocked.simps) simp
  next
    case True
    show ?thesis
    proof (cases "find_victim dbs None")
      case None
      then have "\<forall>(n, e) \<in> set dbs. 0 < refs e" by (simp add: find_victim_None)
      then show ?thesis using stop [OF less.prems] True None by (subst evictLocked.simps) simp
    next
      case (Some p)
      obtain v k where v: "find_victim dbs None = Some (v, k)" using Some by (cases p) auto
      obtain e where e: "(v, e) \<in> set dbs" "refs e = 0" "used e = k"
        using find_victim_in [OF v] by blast
      have lru: "\<forall>(n, e') \<in> set dbs. refs e' = 0 \<longrightarrow> used e \<le> used e'"
        using find_victim_Some [OF v] e(3) by simp
      have "length (AList.delete v dbs) < length dbs"
        unfolding delete_dbs using e(1) by (intro length_filter_less) auto
      moreover have "distinct (map fst (AList.delete v dbs))"
        using less.prems by (simp add: AList.distinct_delete)
      ultimately have "P (AList.delete v dbs) (evictLocked m (AList.delete v dbs))" by (rule less.hyps)
      from victim [OF less.prems True e(1,2) lru this] show ?thesis
        using True v by (subst evictLocked.simps) simp
    qed
  qed
qed

lemma distinct_fst_eq: "distinct (map fst dbs) \<Longrightarrow> (n, a) \<in> set dbs \<Longrightarrow> (n, b) \<in> set dbs \<Longrightarrow> a = b"
  by (metis map_of_is_SomeI option.inject)

text \<open>Eviction closes no engine with a connection on it, only as many as the cap asks for, always
  those used longest ago, and stops above the cap only when every engine left is in use.\<close>
theorem evictLocked_spec:
  assumes "distinct (map fst dbs)"
  shows "set (evictLocked m dbs) \<subseteq> set dbs \<and>
         (\<forall>(n, e) \<in> set dbs. 0 < refs e \<longrightarrow> (n, e) \<in> set (evictLocked m dbs)) \<and>
         (length (evictLocked m dbs) \<le> m \<or> (\<forall>(n, e) \<in> set (evictLocked m dbs). 0 < refs e)) \<and>
         min m (length dbs) \<le> length (evictLocked m dbs) \<and>
         (\<forall>(n, e) \<in> set dbs - set (evictLocked m dbs). \<forall>(n', e') \<in> set (evictLocked m dbs).
            refs e' = 0 \<longrightarrow> used e \<le> used e')"
  using assms
proof (induction rule: evict_induct [where m = m])
  case (victim dbs v e)
  let ?d = "AList.delete v dbs" and ?r = "evictLocked m (AList.delete v dbs)"
  have d: "set ?d = set dbs - {(v, e)}"
  proof -
    have only: "(v, x) \<in> set dbs \<longrightarrow> x = e" for x using distinct_fst_eq [OF victim(1) _ victim(3)] by blast
    have "(n, x) \<in> set ?d \<longleftrightarrow> (n, x) \<in> set dbs - {(v, e)}" for n x
    proof (cases "n = v")
      case True then show ?thesis using only [of x] unfolding delete_dbs set_filter by auto
    next
      case False then show ?thesis unfolding delete_dbs set_filter by simp
    qed
    then show ?thesis by auto
  qed
  have "length dbs = Suc (length ?d)"
  proof -
    have "distinct dbs" "distinct ?d" using victim(1) by (auto simp: delete_dbs distinct_map)
    then have "length dbs = card (set dbs)" "length ?d = card (set dbs - {(v, e)})"
      using d by (simp_all flip: distinct_card)
    then show ?thesis using victim(3) by (metis card_Suc_Diff1 finite_set)
  qed
  have "used e \<le> used e'" if "(n', e') \<in> set ?r" "refs e' = 0" for n' e'
    using that victim(5,6) d by auto
  note ih = victim(6) [THEN conjunct1] victim(6) [THEN conjunct2, THEN conjunct1]
    victim(6) [THEN conjunct2, THEN conjunct2, THEN conjunct1]
    victim(6) [THEN conjunct2, THEN conjunct2, THEN conjunct2]
  have len: "min m (length dbs) \<le> length ?r" using ih(4) \<open>length dbs = Suc (length ?d)\<close> victim(2) by simp
  have sub: "set ?r \<subseteq> set dbs" using ih(1) d by blast
  have keep: "\<forall>(n, e) \<in> set dbs. 0 < refs e \<longrightarrow> (n, e) \<in> set ?r"
  proof (intro ballI, clarify)
    fix n x assume x: "(n, x) \<in> set dbs" "0 < refs x"
    have "x \<noteq> e"
    proof
      assume "x = e" then show False using x(2) victim(4) by simp
    qed
    then have "(n, x) \<in> set ?d" by (simp add: d x(1))
    then show "(n, x) \<in> set ?r" using ih(2) x(2) by fastforce
  qed
  have lru: "\<forall>(n, a) \<in> set dbs - set ?r. \<forall>(n', e') \<in> set ?r. refs e' = 0 \<longrightarrow> used a \<le> used e'"
  proof (intro ballI, clarify)
    fix n a n' e' assume x: "(n, a) \<in> set dbs" "(n, a) \<notin> set ?r" "(n', e') \<in> set ?r" "refs e' = 0"
    show "used a \<le> used e'"
    proof (cases "(n, a) = (v, e)")
      case True
      then show ?thesis using \<open>\<And>n' e'. (n', e') \<in> set ?r \<Longrightarrow> refs e' = 0 \<Longrightarrow> used e \<le> used e'\<close> x(3,4) by simp
    next
      case False
      then have "(n, a) \<in> set ?d - set ?r" using x(1,2) d by blast
      then show ?thesis using ih(4) x(3,4) by fastforce
    qed
  qed
  show ?case using sub keep ih(3) len lru by (intro conjI)
qed auto

theorem evictLocked_spec_witness:
  "(''a'', \<lparr>refs = 1, used = 1\<rparr>) \<in>
       set (evictLocked 1 [(''a'', \<lparr>refs = 1, used = 1\<rparr>), (''b'', \<lparr>refs = 0, used = 2\<rparr>)])"
  using evictLocked_spec [of "[(''a'', \<lparr>refs = 1, used = 1\<rparr>), (''b'', \<lparr>refs = 0, used = 2\<rparr>)]" 1]
  by simp

section \<open>The system\<close>

text \<open>\<open>held\<close> counts the connections a server has on each database: one more for an \<open>Engine\<close> that
  answered, one less for its \<open>Release\<close>.\<close>

record cluster =
  dir :: Dir
  held :: "string \<Rightarrow> nat"

inductive cluster_step :: "cluster \<Rightarrow> cluster \<Rightarrow> bool" where
  cl_connect: "Engine opens (dir c) db = (Inr (), d') \<Longrightarrow>
    cluster_step c (c\<lparr>dir := d', held := (held c)(db := held c db + 1)\<rparr>)"
| cl_disconnect: "0 < held c db \<Longrightarrow>
    cluster_step c (c\<lparr>dir := Release (dir c) db, held := (held c)(db := held c db - 1)\<rparr>)"
| cl_create: "cluster_step c (c\<lparr>dir := snd (CreateDatabase opens (dir c) db)\<rparr>)"
| cl_drop: "cluster_step c (c\<lparr>dir := snd (DropDatabase (dir c) db)\<rparr>)"

inductive_cases cluster_stepE: "cluster_step c c'"

definition ref_count :: "(string \<times> openDB) list \<Rightarrow> string \<Rightarrow> nat" where
  "ref_count dbs db = (case map_of dbs db of None \<Rightarrow> 0 | Some e \<Rightarrow> refs e)"

definition within_cap :: "Dir \<Rightarrow> bool" where
  "within_cap d \<longleftrightarrow> length (open_dbs d) \<le> maxOpen d \<or> (\<forall>(n, e) \<in> set (open_dbs d). 0 < refs e)"

definition cluster_inv :: "cluster \<Rightarrow> bool" where
  "cluster_inv c \<longleftrightarrow>
     distinct (map fst (open_dbs (dir c))) \<and>
     fst ` set (open_dbs (dir c)) \<subseteq> set (files (dir c)) \<and>
     (\<forall>db. held c db = ref_count (open_dbs (dir c)) db) \<and>
     entry (dir c) \<in> set (files (dir c)) \<and> MaintenanceDatabase \<in> set (files (dir c)) \<and>
     within_cap (dir c)"

lemma evict_within_cap:
  "distinct (map fst dbs) \<Longrightarrow> within_cap (d\<lparr>open_dbs := evictLocked (maxOpen d) dbs\<rparr>)"
  using evictLocked_spec [of dbs "maxOpen d"] by (auto simp: within_cap_def)

lemma evict_distinct: "distinct (map fst dbs) \<Longrightarrow> distinct (map fst (evictLocked m dbs))"
  by (induction rule: evict_induct [where m = m]; assumption?)

lemma ref_count_update:
  "ref_count (AList.update k e dbs) db = (if db = k then refs e else ref_count dbs db)"
  by (simp add: ref_count_def AList.update_conv')

lemma ref_count_delete: "ref_count (AList.delete k dbs) db = (if db = k then 0 else ref_count dbs db)"
  by (simp add: ref_count_def AList.delete_conv')

lemma ref_count_evict:
  "distinct (map fst dbs) \<Longrightarrow> ref_count (evictLocked m dbs) db = ref_count dbs db"
proof (induction rule: evict_induct [where m = m])
  case (victim dbs v e)
  have "ref_count dbs v = 0"
    using map_of_is_SomeI [OF victim(1,3)] victim(4) by (simp add: ref_count_def)
  with victim(6) show ?case by (simp add: ref_count_delete)
qed simp

lemma fst_set_update: "fst ` set (AList.update k e dbs) = insert k (fst ` set dbs)"
  by (simp add: AList.dom_update)

text \<open>Every operation but a drop ends in an eviction; what it has to establish is the same.\<close>

lemma cluster_inv_evict:
  assumes "distinct (map fst dbs)" "fst ` set dbs \<subseteq> set fs" "\<And>db. h db = ref_count dbs db"
    and "entry d \<in> set fs" "MaintenanceDatabase \<in> set fs"
    and "d' = d\<lparr>files := fs, use_seq := q, open_dbs := evictLocked (maxOpen d) dbs\<rparr>"
  shows "cluster_inv \<lparr>dir = d', held = h\<rparr>"
proof -
  have "fst ` set (evictLocked (maxOpen d) dbs) \<subseteq> set fs"
    using evict_subset [of "maxOpen d" dbs] assms(2) by blast
  moreover have "within_cap d'"
    using evict_within_cap [OF assms(1), of d] by (simp add: assms(6) within_cap_def)
  ultimately show ?thesis
    using assms by (simp add: cluster_inv_def evict_distinct ref_count_evict)
qed

lemma connect_inv:
  assumes "cluster_inv c" "Engine opens (dir c) db = (Inr (), d')"
  shows "cluster_inv (c\<lparr>dir := d', held := (held c)(db := held c db + 1)\<rparr>)"
proof -
  let ?d = "dir c" and ?h = "(held c)(db := held c db + 1)"
  note inv = assms(1) [unfolded cluster_inv_def]
  have lk: "engine_locked opens ?d db = (Inr (), d')" "exists_db ?d db"
    using assms(2) by (auto simp: Engine_def engine_check_def split: if_splits)
  have eq: "c\<lparr>dir := d', held := ?h\<rparr> = \<lparr>dir = d', held = ?h\<rparr>" by (cases c) simp
  show ?thesis
  proof (cases "map_of (open_dbs ?d) db")
    case None
    let ?dbs = "AList.update db \<lparr>refs = 1, used = use_seq ?d + 1\<rparr> (open_dbs ?d)"
    have d': "d' = ?d\<lparr>files := files ?d, use_seq := use_seq ?d + 1, open_dbs := evictLocked (maxOpen ?d) ?dbs\<rparr>"
      using lk None by (auto simp: engine_locked_def split: if_splits)
    have "ref_count (open_dbs ?d) db = 0" using None by (simp add: ref_count_def)
    then have h: "?h x = ref_count ?dbs x" for x using inv by (simp add: ref_count_update)
    show ?thesis unfolding eq
      by (rule cluster_inv_evict [OF _ _ h _ _ d'])
         (use inv lk(2) in \<open>auto simp: AList.distinct_update fst_set_update exists_db_def\<close>)
  next
    case (Some e)
    let ?e = "\<lparr>refs = Suc (refs e), used = Suc (use_seq ?d)\<rparr>"
    have d': "d' = ?d\<lparr>use_seq := use_seq ?d + 1, open_dbs := AList.update db ?e (open_dbs ?d)\<rparr>"
      using lk Some by (simp add: engine_locked_def)
    have mem: "db \<in> fst ` set (open_dbs ?d)" using map_of_SomeD [OF Some] by force
    have len: "length (AList.update db ?e (open_dbs ?d)) = length (open_dbs ?d)"
    proof -
      have "distinct (map fst (AList.update db ?e (open_dbs ?d)))" using inv by (simp add: AList.distinct_update)
      then have "length (AList.update db ?e (open_dbs ?d)) = card (fst ` set (AList.update db ?e (open_dbs ?d)))"
        by (metis distinct_card length_map list.set_map)
      also have "\<dots> = card (fst ` set (open_dbs ?d))" using mem by (simp add: fst_set_update insert_absorb)
      also have "\<dots> = length (open_dbs ?d)" using inv by (metis distinct_card length_map list.set_map)
      finally show ?thesis .
    qed
    have cap: "within_cap d'"
    proof (cases "length (open_dbs ?d) \<le> maxOpen ?d")
      case True then show ?thesis by (simp add: within_cap_def d' len)
    next
      case False
      then have all: "\<forall>(n, x) \<in> set (open_dbs ?d). 0 < refs x" using inv by (simp add: within_cap_def)
      have "set (AList.update db ?e (open_dbs ?d)) \<subseteq> insert (db, ?e) (set (open_dbs ?d))"
        using inv by (auto simp: set_AList_update)
      then show ?thesis using all by (fastforce simp: within_cap_def d')
    qed
    have "ref_count (open_dbs ?d) db = refs e" using Some by (simp add: ref_count_def)
    then have "?h x = ref_count (AList.update db ?e (open_dbs ?d)) x" for x
      using inv by (simp add: ref_count_update)
    then show ?thesis
      using inv mem cap by (auto simp: cluster_inv_def d' AList.distinct_update fst_set_update)
  qed
qed

lemma disconnect_inv:
  assumes "cluster_inv c" "0 < held c db"
  shows "cluster_inv (c\<lparr>dir := Release (dir c) db, held := (held c)(db := held c db - 1)\<rparr>)"
proof -
  let ?d = "dir c" and ?h = "(held c)(db := held c db - 1)"
  note inv = assms(1) [unfolded cluster_inv_def]
  obtain e where e: "map_of (open_dbs ?d) db = Some e" "0 < refs e" "held c db = refs e"
    using assms(2) inv by (auto simp: ref_count_def split: option.splits)
  let ?dbs = "AList.update db (e\<lparr>refs := refs e - 1\<rparr>) (open_dbs ?d)"
  have d': "Release ?d db = ?d\<lparr>files := files ?d, use_seq := use_seq ?d, open_dbs := evictLocked (maxOpen ?d) ?dbs\<rparr>"
    using e by (simp add: Release_def)
  have h: "?h x = ref_count ?dbs x" for x using inv e by (simp add: ref_count_update)
  have mem: "db \<in> fst ` set (open_dbs ?d)" using map_of_SomeD [OF e(1)] by force
  have eq: "c\<lparr>dir := Release ?d db, held := ?h\<rparr> = \<lparr>dir = Release ?d db, held = ?h\<rparr>" by (cases c) simp
  show ?thesis unfolding eq
    by (rule cluster_inv_evict [OF _ _ h _ _ d'])
       (use inv mem in \<open>auto simp: AList.distinct_update fst_set_update\<close>)
qed

lemma create_inv:
  assumes "cluster_inv c"
  shows "cluster_inv (c\<lparr>dir := snd (CreateDatabase opens (dir c) db)\<rparr>)"
proof (cases "create_check (dir c) db = None \<and> opens db")
  case False
  then have "snd (CreateDatabase opens (dir c) db) = dir c"
    by (auto simp: CreateDatabase_def create_locked_def split: option.splits)
  then show ?thesis using assms by simp
next
  case True
  let ?d = "dir c" and ?dbs = "AList.update db \<lparr>refs = 0, used = use_seq (dir c) + 1\<rparr> (open_dbs (dir c))"
  note inv = assms [unfolded cluster_inv_def]
  have new: "db \<notin> set (files ?d)" using True by (auto simp: create_check_def exists_db_def split: if_splits)
  have d': "snd (CreateDatabase opens ?d db) =
      ?d\<lparr>files := files ?d @ [db], use_seq := use_seq ?d + 1, open_dbs := evictLocked (maxOpen ?d) ?dbs\<rparr>"
    using True new by (simp add: CreateDatabase_def create_locked_def exists_db_def)
  have "map_of (open_dbs ?d) db = None" using inv new by (auto simp: map_of_eq_None_iff)
  then have "ref_count (open_dbs ?d) db = 0" by (simp add: ref_count_def)
  then have h: "held c x = ref_count ?dbs x" for x using inv by (simp add: ref_count_update)
  have eq: "c\<lparr>dir := d\<rparr> = \<lparr>dir = d, held = held c\<rparr>" for d by (cases c) simp
  show ?thesis unfolding eq
    by (rule cluster_inv_evict [OF _ _ h _ _ d'])
       (use inv in \<open>auto simp: AList.distinct_update fst_set_update\<close>)
qed

lemma drop_inv:
  assumes "cluster_inv c"
  shows "cluster_inv (c\<lparr>dir := snd (DropDatabase (dir c) db)\<rparr>)"
proof (cases "drop_check (dir c) db = None \<and> idle_db (dir c) db")
  case False
  then have "snd (DropDatabase (dir c) db) = dir c"
    by (auto simp: DropDatabase_def drop_locked_def split: option.splits)
  then show ?thesis using assms by simp
next
  case True
  let ?d = "dir c"
  note inv = assms [unfolded cluster_inv_def]
  have d': "snd (DropDatabase ?d db) =
      ?d\<lparr>open_dbs := AList.delete db (open_dbs ?d), files := removeAll db (files ?d)\<rparr>"
    using True by (simp add: DropDatabase_def drop_locked_def)
  have ne: "db \<noteq> entry ?d" "db \<noteq> MaintenanceDatabase"
    using True by (auto simp: drop_check_def split: if_splits)
  have "ref_count (open_dbs ?d) db = 0"
    using True by (simp add: idle_db_def ref_count_def split: option.splits)
  then have h: "held c x = ref_count (AList.delete db (open_dbs ?d)) x" for x
    using inv by (simp add: ref_count_delete)
  have sub: "set (AList.delete db (open_dbs ?d)) \<subseteq> set (open_dbs ?d)" "db \<notin> fst ` set (AList.delete db (open_dbs ?d))"
    "length (AList.delete db (open_dbs ?d)) \<le> length (open_dbs ?d)"
    by (auto simp: delete_dbs)
  have cap: "within_cap (snd (DropDatabase ?d db))"
    using inv sub(1,3) by (fastforce simp: within_cap_def d')
  have "fst ` set (AList.delete db (open_dbs ?d)) \<subseteq> set (removeAll db (files ?d))"
    using inv sub(1,2) by auto
  then show ?thesis
    using inv ne cap h by (auto simp: cluster_inv_def d' AList.distinct_delete)
qed

lemma cluster_step_inv: "cluster_step c c' \<Longrightarrow> cluster_inv c \<Longrightarrow> cluster_inv c'"
proof (induction rule: cluster_step.induct)
  case (cl_connect opens c db d')
  then show ?case by (intro connect_inv)
next
  case (cl_disconnect c db)
  then show ?case by (intro disconnect_inv)
qed (auto intro: create_inv drop_inv)

definition cluster_start :: "cluster \<Rightarrow> bool" where
  "cluster_start c \<longleftrightarrow>
     (\<exists>opens existing entry0 max0. OpenCluster opens existing entry0 max0 = Inr (dir c)) \<and> held c = (\<lambda>_. 0)"

definition cluster_empty :: "Dir \<Rightarrow> bool" where
  "cluster_empty d \<longleftrightarrow>
     distinct (map fst (open_dbs d)) \<and> fst ` set (open_dbs d) \<subseteq> set (files d) \<and>
     (\<forall>db. ref_count (open_dbs d) db = 0) \<and> within_cap d"

lemma create_empty:
  assumes "cluster_empty d" "CreateDatabase opens d db = (Inr (), d')"
  shows "cluster_empty d' \<and> set (files d') = insert db (set (files d)) \<and> entry d' = entry d"
proof -
  let ?dbs = "AList.update db \<lparr>refs = 0, used = use_seq d + 1\<rparr> (open_dbs d)"
  note inv = assms(1) [unfolded cluster_empty_def]
  have d': "d' = d\<lparr>files := files d @ [db], use_seq := use_seq d + 1, open_dbs := evictLocked (maxOpen d) ?dbs\<rparr>"
    using assms(2)
    by (auto simp: CreateDatabase_def create_check_def create_locked_def split: if_splits option.splits)
  have dist: "distinct (map fst ?dbs)" using inv by (simp add: AList.distinct_update)
  have "fst ` set (evictLocked (maxOpen d) ?dbs) \<subseteq> insert db (set (files d))"
    using evict_subset [of "maxOpen d" ?dbs] inv fst_set_update [of db _ "open_dbs d"] by blast
  moreover have "within_cap d'" using evict_within_cap [OF dist, of d] by (simp add: d' within_cap_def)
  ultimately show ?thesis
    using inv by (simp add: cluster_empty_def d' evict_distinct AList.distinct_update ref_count_evict ref_count_update)
qed

lemma OpenCluster_empty:
  assumes "OpenCluster opens existing entry0 max0 = Inr d"
  shows "cluster_empty d \<and> entry d = entry0 \<and> entry0 \<in> set (files d) \<and> MaintenanceDatabase \<in> set (files d)"
proof -
  let ?ensure = "\<lambda>d name. if exists_db d name then Inr d
      else (case CreateDatabase opens d name of (Inl e, _) \<Rightarrow> Inl e | (Inr _, d') \<Rightarrow> Inr d')"
  let ?d0 = "\<lparr>files = existing, entry = entry0, maxOpen = (if max0 \<le> 0 then DefaultMaxOpenDatabases else nat max0),
              open_dbs = [], use_seq = 0\<rparr>"
  have ens: "cluster_empty d2 \<and> entry d2 = entry d1 \<and> set (files d2) = insert name (set (files d1))"
    if "?ensure d1 name = Inr d2" "cluster_empty d1" for d1 d2 name
    using that create_empty [of d1 opens name d2]
    by (auto simp: exists_db_def split: if_splits prod.splits sum.splits)
  have e0: "cluster_empty ?d0" by (simp add: cluster_empty_def ref_count_def within_cap_def)
  obtain d1 where d1: "?ensure ?d0 entry0 = Inr d1" "?ensure d1 MaintenanceDatabase = Inr d"
    using assms by (simp add: OpenCluster_def Let_def split: if_splits sum.splits)
  from ens [OF d1(1) e0] have "cluster_empty d1" "entry d1 = entry0" "entry0 \<in> set (files d1)" by auto
  with ens [OF d1(2)] show ?thesis by auto
qed

lemma cluster_start_inv: "cluster_start c \<Longrightarrow> cluster_inv c"
  using OpenCluster_empty by (fastforce simp: cluster_start_def cluster_inv_def cluster_empty_def)

interpretation cluster_sys: invariant_system cluster_start cluster_step cluster_inv
  by unfold_locales (auto intro: cluster_start_inv cluster_step_inv)


definition small_cluster :: cluster where
  "small_cluster = \<lparr>dir = \<lparr>files = [''postgres''], entry = ''postgres'', maxOpen = 1, open_dbs = [], use_seq = 0\<rparr>,
     held = (\<lambda>_. 0)\<rparr>"

lemma small_cluster_start: "cluster_start small_cluster"
proof -
  have "OpenCluster (\<lambda>_. True) [''postgres''] ''postgres'' 1 = Inr (dir small_cluster)"
    by (simp add: OpenCluster_def ValidDatabaseName_def isIdentStart_def isIdentPart_def is_lower_def
        exists_db_def MaintenanceDatabase_def small_cluster_def)
  then show ?thesis unfolding cluster_start_def by (auto simp: small_cluster_def)
qed


section \<open>Two checks at once\<close>

text \<open>CREATE DATABASE looks for the file before it takes the lock, so of two at the same moment both
  succeed; and if a client connected in between, the second forgets that client: the database counts
  as idle with a connection on it, and a DROP then removes its file under the client.\<close>
theorem create_race:
  assumes "create_check d db = None" "opens db" "open_dbs d = []" "0 < maxOpen d"
    and "db \<noteq> entry d" "db \<noteq> MaintenanceDatabase"
  shows "let (r1, d1) = create_locked opens d db;
             (r2, d2) = Engine opens d1 db;
             (r3, d3) = create_locked opens d2 db;
             (r4, d4) = DropDatabase d3 db
         in r1 = Inr () \<and> r2 = Inr () \<and> r3 = Inr () \<and> r4 = Inr () \<and> db \<notin> set (files d4)"
proof -
  have ev: "evictLocked (maxOpen d) [(db, e)] = [(db, e)]" for e
    using assms(4) by (subst evictLocked.simps) simp
  have new: "\<not> exists_db d db" "ValidDatabaseName db"
    using assms(1) by (auto simp: create_check_def split: if_splits)
  then have "db \<noteq> []" by (auto simp: ValidDatabaseName_def)
  with new assms ev show ?thesis
    by (simp add: create_locked_def Engine_def engine_check_def engine_locked_def exists_db_def
        DropDatabase_def drop_check_def drop_locked_def idle_db_def Let_def)
qed

theorem create_race_witness:
  "fst (create_locked (\<lambda>_. True) (snd (Engine (\<lambda>_. True)
     (snd (create_locked (\<lambda>_. True) (dir small_cluster) ''app'')) ''app'')) ''app'') = Inr ()"
proof -
  have "create_check (dir small_cluster) ''app'' = None"
    by (simp add: create_check_def ValidDatabaseName_def isIdentStart_def isIdentPart_def is_lower_def
        exists_db_def small_cluster_def)
  then show ?thesis
    using create_race [of "dir small_cluster" "''app''" "\<lambda>_. True"]
    by (simp add: small_cluster_def MaintenanceDatabase_def case_prod_beta Let_def)
qed

section \<open>A server with one database\<close>

definition single_Engine :: "string \<Rightarrow> string \<Rightarrow> cluster_error + unit" where
  "single_Engine name db =
     (if db = [] \<or> EqualFold db name then Inr () else Inl (NoSuchDatabase db [name]))"

definition errNotADirectory :: string where
  "errNotADirectory = ''this server holds a single database; point overlite at a file in a writable directory to create and drop databases''"

section \<open>The statements\<close>

definition cluster_error_text :: "(string \<Rightarrow> string) \<Rightarrow> cluster_error \<Rightarrow> string" where
  "cluster_error_text os_error e =
     (case e of
        ClusterError m \<Rightarrow> m
      | OpenFailed db \<Rightarrow> ''create database '' @ goQuote db @ '': '' @ os_error db
      | NoSuchDatabase db avail \<Rightarrow>
          if avail = [] then ''database '' @ goQuote db @ '' does not exist''
          else ''database '' @ goQuote db @ '' does not exist; this server serves '' @ Join avail '', '')"

definition parseDatabaseDDL :: "string \<Rightarrow> (string \<times> bool) option" where
  "parseDatabaseDDL sql =
     (let f = Fields (TrimSuffix (TrimSpace sql) '';'') in
      if length f < 3 then None
      else (let rest = drop 2 f;
                (ifExists, rest) =
                  (if 2 \<le> length rest \<and> EqualFold (rest ! 0) ''if'' then
                     (if EqualFold (rest ! 1) ''not'' \<and> 3 \<le> length rest \<and> EqualFold (rest ! 2) ''exists''
                      then (True, drop 3 rest)
                      else if EqualFold (rest ! 1) ''exists'' then (True, drop 2 rest)
                      else (False, rest))
                   else (False, rest))
            in if rest = [] then None else Some (unquoteIdent (hd rest), ifExists)))"

text \<open>\<open>tryDatabaseDDL\<close> of a session on \<open>database\<close>: \<open>None\<close> when the statement is something else.\<close>

definition tryDatabaseDDL ::
  "(string \<Rightarrow> bool) \<Rightarrow> (string \<Rightarrow> string) \<Rightarrow> Dir option \<Rightarrow> string \<Rightarrow> string \<Rightarrow> (string + string) option \<times> Dir option" where
  "tryDatabaseDDL opens os_error cl database sql =
     (if \<not> isDatabaseDDL sql then (None, cl)
      else (case cl of
        None \<Rightarrow> (Some (Inl ''this server does not manage databases''), cl)
      | Some d \<Rightarrow>
          (case parseDatabaseDDL sql of
             None \<Rightarrow> (Some (Inl (''syntax error in '' @ firstWordUpper sql @ '' DATABASE'')), cl)
           | Some (name, ifExists) \<Rightarrow>
               if EqualFold (firstWordUpper sql) ''CREATE'' then
                 (case CreateDatabase opens d name of
                    (Inr _, d') \<Rightarrow> (Some (Inr ''CREATE DATABASE''), Some d')
                  | (Inl e, d') \<Rightarrow>
                      if ifExists \<and> Contains (cluster_error_text os_error e) ''already exists''
                      then (Some (Inr ''CREATE DATABASE''), Some d')
                      else (Some (Inl (cluster_error_text os_error e)), Some d'))
               else if EqualFold name database then
                 (Some (Inl ''cannot drop the currently open database''), cl)
               else (case DropDatabase d name of
                    (Inr _, d') \<Rightarrow> (Some (Inr ''DROP DATABASE''), Some d')
                  | (Inl e, d') \<Rightarrow>
                      if ifExists \<and> Contains (cluster_error_text os_error e) ''does not exist''
                      then (Some (Inr ''DROP DATABASE''), Some d')
                      else (Some (Inl (cluster_error_text os_error e)), Some d')))))"

section \<open>Per-file state\<close>

record dbState =
  st_path :: string
  oidBand :: int

definition enumOIDBase :: int where "enumOIDBase = 90000000"

definition enumOIDBandWidth :: int where "enumOIDBandWidth = 1000000"

record db_states =
  by_path :: "(string \<times> dbState) list"
  nextOIDBand :: int

definition stateFor :: "db_states \<Rightarrow> string \<Rightarrow> dbState \<times> db_states" where
  "stateFor w p =
     (case map_of (by_path w) p of
        Some s \<Rightarrow> (s, w)
      | None \<Rightarrow>
          (let n = nextOIDBand w + 1; s = \<lparr>st_path = p, oidBand = n * enumOIDBandWidth\<rparr>
           in (s, \<lparr>by_path = AList.update p s (by_path w), nextOIDBand = n\<rparr>)))"

definition forgetState :: "db_states \<Rightarrow> string \<Rightarrow> db_states" where
  "forgetState w p = w\<lparr>by_path := AList.delete p (by_path w)\<rparr>"

definition enumBase :: "dbState option \<Rightarrow> int" where
  "enumBase s = (case s of None \<Rightarrow> enumOIDBase | Some s \<Rightarrow> enumOIDBase + oidBand s)"

inductive db_states_step :: "db_states \<Rightarrow> db_states \<Rightarrow> bool" where
  "db_states_step w (snd (stateFor w p))"
| "db_states_step w (forgetState w p)"

definition bands_inv :: "db_states \<Rightarrow> bool" where
  "bands_inv w \<longleftrightarrow>
     distinct (map fst (by_path w)) \<and>
     (\<forall>(p, s) \<in> set (by_path w). \<exists>k. oidBand s = k * enumOIDBandWidth \<and> 0 < k \<and> k \<le> nextOIDBand w) \<and>
     (\<forall>(p, s) \<in> set (by_path w). \<forall>(q, t) \<in> set (by_path w). oidBand s = oidBand t \<longrightarrow> p = q) \<and>
     0 \<le> nextOIDBand w"

lemma stateFor_bands: "bands_inv w \<Longrightarrow> bands_inv (snd (stateFor w p))"
proof -
  assume inv: "bands_inv w"
  show ?thesis
  proof (cases "map_of (by_path w) p")
    case (Some s) then show ?thesis using inv by (simp add: stateFor_def)
  next
    case None
    let ?n = "nextOIDBand w + 1" and ?s = "\<lparr>st_path = p, oidBand = (nextOIDBand w + 1) * enumOIDBandWidth\<rparr>"
    have fresh: "oidBand t \<noteq> oidBand ?s" if mem: "(q, t) \<in> set (by_path w)" for q t
    proof -
      obtain k where "oidBand t = k * enumOIDBandWidth" "k \<le> nextOIDBand w"
        using inv mem by (fastforce simp: bands_inv_def)
      then show ?thesis by (simp add: enumOIDBandWidth_def)
    qed
    have w': "snd (stateFor w p) = \<lparr>by_path = AList.update p ?s (by_path w), nextOIDBand = ?n\<rparr>"
      using None by (simp add: stateFor_def Let_def)
    have d: "distinct (map fst (by_path w))" using inv by (simp add: bands_inv_def)
    have mem: "(q, t) \<in> set (AList.update p ?s (by_path w)) \<longleftrightarrow> (q, t) = (p, ?s) \<or> ((q, t) \<in> set (by_path w) \<and> q \<noteq> p)" for q t
      using set_AList_update [OF d] by simp
    have "\<exists>k. oidBand t = k * enumOIDBandWidth \<and> 0 < k \<and> k \<le> ?n"
      if "(q, t) \<in> set (AList.update p ?s (by_path w))" for q t
    proof (cases "(q, t) \<in> set (by_path w)")
      case True
      then obtain k where "oidBand t = k * enumOIDBandWidth" "0 < k" "k \<le> nextOIDBand w"
        using inv by (fastforce simp: bands_inv_def)
      then show ?thesis by (intro exI [of _ k]) simp
    next
      case False
      then have "t = ?s" using that mem by simp
      moreover have "0 \<le> nextOIDBand w" using inv by (simp add: bands_inv_def)
      ultimately show ?thesis by (intro exI [of _ ?n]) simp
    qed
    moreover have "q = r" if "(q, t) \<in> set (AList.update p ?s (by_path w))" "(r, u) \<in> set (AList.update p ?s (by_path w))"
      "oidBand t = oidBand u" for q t r u
    proof -
      have old: "(q, t) \<in> set (by_path w) \<Longrightarrow> (r, u) \<in> set (by_path w) \<Longrightarrow> q = r"
        using inv that(3) by (fastforce simp: bands_inv_def)
      show ?thesis using that mem old fresh by (metis prod.inject)
    qed
    ultimately show ?thesis
      using inv d by (fastforce simp: bands_inv_def w' AList.distinct_update)
  qed
qed

lemma forgetState_bands: "bands_inv w \<Longrightarrow> bands_inv (forgetState w p)"
  by (fastforce simp: bands_inv_def forgetState_def AList.distinct_delete set_AList_delete)

interpretation db_states_sys: invariant_system "\<lambda>w. w = \<lparr>by_path = [], nextOIDBand = 0\<rparr>" db_states_step bands_inv
proof unfold_locales
  show "bands_inv w \<Longrightarrow> db_states_step w w' \<Longrightarrow> bands_inv w'" for w w'
    by (erule db_states_step.cases) (auto intro: stateFor_bands forgetState_bands)
qed (auto simp: bands_inv_def)

text \<open>Two databases open in one process never give their enum types the same oid: the bands of any
  two live states are disjoint, apart from each other and above the base, however files are opened,
  dropped and created again.\<close>
theorem enum_bands_disjoint:
  assumes "db_states_step\<^sup>*\<^sup>* \<lparr>by_path = [], nextOIDBand = 0\<rparr> w"
    and "(p, s) \<in> set (by_path w)" "(q, t) \<in> set (by_path w)" "p \<noteq> q"
    and "0 \<le> i" "i < enumOIDBandWidth" "0 \<le> j" "j < enumOIDBandWidth"
  shows "enumBase (Some s) + i \<noteq> enumBase (Some t) + j \<and> enumBase None + j < enumBase (Some s) + i"
proof -
  have inv: "bands_inv w" using db_states_sys.inv_reachable [OF refl assms(1)] .
  obtain k where k: "oidBand s = k * enumOIDBandWidth" "0 < k"
    using inv assms(2) by (fastforce simp: bands_inv_def)
  obtain l where l: "oidBand t = l * enumOIDBandWidth" "0 < l"
    using inv assms(3) by (fastforce simp: bands_inv_def)
  have "k \<noteq> l" using inv assms(2-4) k l by (fastforce simp: bands_inv_def)
  then have "k < l \<or> l < k" by auto
  then have "oidBand s + i \<noteq> oidBand t + j"
  proof
    assume "k < l" then show ?thesis using assms(5-8) k l unfolding enumOIDBandWidth_def by linarith
  next
    assume "l < k" then show ?thesis using assms(5-8) k l unfolding enumOIDBandWidth_def by linarith
  qed
  moreover have "j < oidBand s + i"
    using assms(5-8) k unfolding enumOIDBandWidth_def by linarith
  ultimately show ?thesis by (simp add: enumBase_def)
qed

theorem enum_bands_disjoint_witness:
  "let (s, w1) = stateFor \<lparr>by_path = [], nextOIDBand = 0\<rparr> ''a.db''; (t, w2) = stateFor w1 ''b.db''
   in enumBase (Some s) + 5 \<noteq> enumBase (Some t) + 5"
proof -
  let ?w0 = "\<lparr>by_path = [], nextOIDBand = 0\<rparr>"
  let ?w1 = "snd (stateFor ?w0 ''a.db'')" and ?w2 = "snd (stateFor (snd (stateFor ?w0 ''a.db'')) ''b.db'')"
  have steps: "db_states_step\<^sup>*\<^sup>* ?w0 ?w2"
    by (rule rtranclp_trans [of _ _ ?w1]) (intro r_into_rtranclp db_states_step.intros)+
  have "(''a.db'', fst (stateFor ?w0 ''a.db'')) \<in> set (by_path ?w2)"
    "(''b.db'', fst (stateFor ?w1 ''b.db'')) \<in> set (by_path ?w2)"
    by (simp_all add: stateFor_def Let_def)
  then show ?thesis
    using enum_bands_disjoint [OF steps, of "''a.db''" _ "''b.db''" _ 5 5]
    by (simp add: enumOIDBandWidth_def case_prod_beta)
qed

end
