(* ===== verification/Utility.thy ===== *)
theory Utility
  imports Values Splitter
begin

text \<open>
  Results (\<open>core.ResultSet\<close>), the utility statements answered without the engine (\<open>utility.go\<close>:
  \<open>interceptUtility\<close>, SHOW) and the search path (\<open>searchpath.go\<close>). A session's \<open>searchPath\<close> is a list of
  names; the empty list is Go's \<open>nil\<close>, the default path.
\<close>

section \<open>Results\<close>

record column =
  col_name :: string
  col_decl :: string

record result_set =
  IsQuery :: bool
  Columns :: "column list"
  Rows :: "core_value list list"
  RowsAffected :: int
  Command :: string

definition command_result :: "string \<Rightarrow> result_set" where
  "command_result w = \<lparr>IsQuery = False, Columns = [], Rows = [], RowsAffected = 0, Command = w\<rparr>"

definition one_row :: "string \<Rightarrow> string \<Rightarrow> result_set" where
  "one_row name v =
     \<lparr>IsQuery = True, Columns = [\<lparr>col_name = name, col_decl = ''text''\<rparr>], Rows = [[VString v]],
      RowsAffected = 1, Command = ''SHOW''\<rparr>"

section \<open>SHOW\<close>

definition default_search_path :: string where
  "default_search_path = CHR 0x22 # ''$user'' @ CHR 0x22 # '', public''"

definition parseShowName :: "string \<Rightarrow> string" where
  "parseShowName sql =
     (let fields = Fields (TrimRight (TrimSpace sql) '';'') in
      if length fields < 2 then ''?column?''
      else if ToLower (Join (drop 1 fields) '' '') = ''transaction isolation level'' then ''transaction_isolation''
      else ToLower (TrimRight (fields ! 1) '';''))"

definition showValue :: "string \<Rightarrow> string" where
  "showValue name =
     (if name = ''search_path'' then default_search_path
      else if name = ''server_version'' then ''15.0''
      else if name = ''server_version_num'' then ''150000''
      else if name \<in> {''server_encoding'', ''client_encoding''} then ''UTF8''
      else if name \<in> {''standard_conforming_strings'', ''integer_datetimes'', ''is_superuser''} then ''on''
      else if name \<in> {''transaction_isolation'', ''default_transaction_isolation''} then ''read committed''
      else if name \<in> {''transaction_read_only'', ''default_transaction_read_only'', ''in_hot_standby''} then ''off''
      else if name \<in> {''datestyle'', ''DateStyle''} then ''ISO, MDY''
      else if name \<in> {''timezone'', ''TimeZone''} then ''UTC''
      else if name = ''max_index_keys'' then ''32''
      else if name = ''max_identifier_length'' then ''63''
      else if name = ''application_name'' then ''overlite''
      else [])"

definition showResult :: "string \<Rightarrow> result_set" where
  "showResult sql = one_row (parseShowName sql) (showValue (parseShowName sql))"

section \<open>Statements answered without the engine\<close>

definition alterIsNoop :: "string \<Rightarrow> bool" where
  "alterIsNoop sql =
     (let up = ToUpper sql; w = secondWordUpper sql in
      if w = ''SCHEMA'' then True
      else if w = ''TABLE'' then Contains up '' OWNER TO '' \<or> Contains up '' ADD CONSTRAINT ''
      else Contains up '' OWNER TO '')"

text \<open>The loop over words 1 to 3 of a CREATE or DROP.\<close>

fun routine_word :: "string list \<Rightarrow> string option" where
  "routine_word [] = None"
| "routine_word (w # ws) = (if w = ''PROCEDURE'' \<or> w = ''AGGREGATE'' then Some w else routine_word ws)"

definition interceptUtility :: "string \<Rightarrow> result_set option" where
  "interceptUtility sql =
     (let w = firstWordUpper sql in
      if w \<in> {''SET'', ''RESET'', ''DISCARD'', ''DEALLOCATE'', ''LOAD'', ''CHECKPOINT'', ''CLUSTER'', ''ANALYZE'', ''LOCK''}
      then Some (command_result w)
      else if w = ''SHOW'' then Some (showResult sql)
      else if w = ''CREATE'' \<or> w = ''DROP'' then
        (if secondWordUpper sql = ''EXTENSION'' then Some (command_result (w @ '' EXTENSION''))
         else map_option (\<lambda>r. command_result (w @ '' '' @ r)) (routine_word (take 3 (drop 1 (Fields (ToUpper sql))))))
      else if w = ''ALTER'' then
        (if alterIsNoop sql then Some (command_result (''ALTER '' @ secondWordUpper sql)) else None)
      else None)"

section \<open>The search path\<close>

definition parseSearchPathList :: "string \<Rightarrow> string list" where
  "parseSearchPathList list0 =
     (let l = TrimSpace (TrimRight list0 [CHR '';'', CHR '' '', CHR 0x09]) in
      if EqualFold l ''default'' then []
      else filter (\<lambda>p. p \<noteq> []) (map (\<lambda>part. Trim (TrimSpace part) [CHR 0x22, CHR 0x27]) (SplitByte l (CHR '',''))))"

definition searchPathString :: "string list \<Rightarrow> string" where
  "searchPathString sp =
     (if sp = [] then default_search_path
      else Join (map (\<lambda>p. if p = ''$user'' then CHR 0x22 # p @ [CHR 0x22] else p) sp) '', '')"

text \<open>\<open>None\<close>: not handled. The path afterwards is the second component.\<close>

definition trySearchPath :: "string list \<Rightarrow> string \<Rightarrow> result_set option option \<times> string list" where
  "trySearchPath sp sql =
     (let f = Fields sql in
      if length f < 2 then (None, sp)
      else (let head = ToUpper (f ! 0) in
        if head = ''RESET'' \<and> EqualFold (stripSemi (f ! 1)) ''search_path'' then (Some None, [])
        else if head = ''SHOW'' \<and> EqualFold (stripSemi (f ! 1)) ''search_path'' then
          (Some (Some (one_row ''search_path'' (searchPathString sp))), sp)
        else if head = ''SET'' then
          (let rest = dropSessionLocal (drop 1 f) in
           if 2 \<le> length rest \<and> EqualFold (rest ! 0) ''search_path'' \<and>
              (rest ! 1 = ''='' \<or> EqualFold (rest ! 1) ''to'')
           then (Some None, parseSearchPathList (Join (drop 2 rest) '' ''))
           else (None, sp))
        else (None, sp)))"

text \<open>The loop of \<open>startupSearchPath\<close> over the words of \<open>options\<close>.\<close>

fun options_search_path :: "string list \<Rightarrow> string list option" where
  "options_search_path [] = None"
| "options_search_path [f] =
     (case CutByte (TrimPrefix f ''-c'') (CHR ''='') of
        Some (k, v) \<Rightarrow> if EqualFold k ''search_path'' then Some (parseSearchPathList v) else None
      | None \<Rightarrow> None)"
| "options_search_path (f # g # fs) =
     (if f = ''-c'' then
        (case CutByte g (CHR ''='') of
           Some (k, v) \<Rightarrow> if EqualFold k ''search_path'' then Some (parseSearchPathList v) else options_search_path fs
         | None \<Rightarrow> options_search_path fs)
      else
        (case CutByte (TrimPrefix f ''-c'') (CHR ''='') of
           Some (k, v) \<Rightarrow> if EqualFold k ''search_path'' then Some (parseSearchPathList v)
                          else options_search_path (g # fs)
         | None \<Rightarrow> options_search_path (g # fs)))"

definition startupSearchPath :: "(string \<rightharpoonup> string) \<Rightarrow> string list" where
  "startupSearchPath params =
     (case params ''search_path'' of
        Some v \<Rightarrow>
          if TrimSpace v \<noteq> [] then parseSearchPathList v
          else (case params ''options'' of
                  Some o1 \<Rightarrow> (case options_search_path (Fields o1) of Some l \<Rightarrow> l | None \<Rightarrow> [])
                | None \<Rightarrow> [])
      | None \<Rightarrow>
          (case params ''options'' of
             Some o1 \<Rightarrow> (case options_search_path (Fields o1) of Some l \<Rightarrow> l | None \<Rightarrow> [])
           | None \<Rightarrow> []))"

section \<open>Round trip of the path\<close>

definition plain_schema :: "string \<Rightarrow> bool" where
  "plain_schema p \<longleftrightarrow> p \<noteq> [] \<and> (p = ''$user'' \<or> list_all isIdentPart p)"

lemma identPart_plain:
  "isIdentPart c \<Longrightarrow> \<not> is_space c \<and> c \<noteq> CHR '','' \<and> c \<noteq> CHR '';'' \<and> c \<noteq> CHR '' '' \<and> c \<noteq> CHR 0x09 \<and> c \<noteq> CHR 0x22 \<and> c \<noteq> CHR 0x27"
  by (auto simp: isIdentPart_def isIdentStart_def is_lower_def is_upper_def is_digit_def is_space_def)

definition shown :: "string \<Rightarrow> string" where
  "shown p = (if p = ''$user'' then CHR 0x22 # p @ [CHR 0x22] else p)"

lemma shown_props:
  assumes "plain_schema p"
  shows "CHR '','' \<notin> set (shown p)" "shown p \<noteq> []" "\<not> is_space (hd (shown p))" "\<not> is_space (last (shown p))"
    and "last (shown p) \<notin> {CHR '';'', CHR '' '', CHR 0x09}"
    and "Trim (shown p) [CHR 0x22, CHR 0x27] = p"
proof -
  have id: "p \<noteq> ''$user'' \<Longrightarrow> isIdentPart c" if "c \<in> set p" for c
    using assms that by (auto simp: plain_schema_def list_all_iff)
  have ne: "p \<noteq> []" using assms by (simp add: plain_schema_def)
  show "CHR '','' \<notin> set (shown p)" using id identPart_plain by (auto simp: shown_def)
  show "shown p \<noteq> []" using ne by (simp add: shown_def)
  show "\<not> is_space (hd (shown p))" "\<not> is_space (last (shown p))"
    using id [of "hd p"] id [of "last p"] ne identPart_plain by (auto simp: shown_def is_space_def)
  show "last (shown p) \<notin> {CHR '';'', CHR '' '', CHR 0x09}"
    using id [of "last p"] ne identPart_plain by (auto simp: shown_def)
  show "Trim (shown p) [CHR 0x22, CHR 0x27] = p"
  proof (cases "p = ''$user''")
    case True
    have "Trim (CHR 0x22 # ''$user'' @ [CHR 0x22]) [CHR 0x22, CHR 0x27] = ''$user''" by code_simp
    then show ?thesis using True by (simp add: shown_def)
  next
    case False
    have h: "hd p \<noteq> CHR 0x22 \<and> hd p \<noteq> CHR 0x27" "last p \<noteq> CHR 0x22 \<and> last p \<noteq> CHR 0x27"
      using id [of "hd p"] id [of "last p"] ne False identPart_plain by auto
    show ?thesis using h False by (simp add: shown_def Trim_id)
  qed
qed

lemma Join_sep2: "Join ws (a # b # []) = Join (case ws of [] \<Rightarrow> [] | w # ws' \<Rightarrow> w # map (\<lambda>x. b # x) ws') [a]"
proof -
  have "Join (w # ws) [a, b] = Join (w # map (\<lambda>x. b # x) ws) [a]" for w ws
  proof (induction ws arbitrary: w)
    case (Cons v ws)
    have "Join ((b # v) # map (\<lambda>x. b # x) ws) [a] = b # Join (v # map (\<lambda>x. b # x) ws) [a]"
      by (cases ws) simp_all
    then show ?case using Cons.IH [of v] by simp
  qed simp
  then show ?thesis by (cases ws) auto
qed

lemma TrimSpace_space: "\<not> is_space (hd s) \<Longrightarrow> s \<noteq> [] \<Longrightarrow> \<not> is_space (last s) \<Longrightarrow> TrimSpace (CHR '' '' # s) = s"
  using TrimSpace_id [of s] by (simp add: TrimSpace_def is_space_def)

text \<open>The path SHOW search_path prints is read back by SET search_path as the same path: names and
  \<open>"$user"\<close>, in order.\<close>
theorem search_path_roundtrip:
  assumes "sp \<noteq> []" "list_all plain_schema sp" "\<not> EqualFold (searchPathString sp) ''default''"
  shows "parseSearchPathList (searchPathString sp) = sp"
proof -
  obtain p ps where sp: "sp = p # ps" using assms(1) by (cases sp) auto
  have pl: "plain_schema q" if "q \<in> set sp" for q using assms(2) that by (simp add: list_all_iff)
  let ?ws = "shown p # map (\<lambda>q. CHR '' '' # shown q) ps"
  have str: "searchPathString sp = Join ?ws '',''"
    using assms(1) by (simp add: searchPathString_def Join_sep2 sp shown_def [symmetric] comp_def)
  have split: "SplitByte (Join ?ws '','') (CHR '','') = ?ws"
    using pl by (intro SplitByte_join) (auto simp: sp shown_props(1))
  define J where "J = Join ?ws '',''"
  have J: "J \<noteq> []" "hd J = hd (shown p)" "last J = last (shown (last sp))"
  proof -
    have "shown p \<noteq> []" using pl [of p] by (simp add: sp shown_props)
    then show "J \<noteq> []" "hd J = hd (shown p)" by (cases ps; simp add: J_def)+
    have "Join (ws @ [w]) [d] \<noteq> [] \<and> last (Join (ws @ [w]) [d]) = last w" if "w \<noteq> []" for ws w and d :: char
      using that
    proof (induction ws)
      case (Cons v ws) then show ?case by (cases "ws @ [w]") auto
    qed simp
    moreover have "?ws = butlast ?ws @ [last ?ws]" by simp
    moreover have "last ?ws \<noteq> []" "last (last ?ws) = last (shown (last sp))"
      using \<open>shown p \<noteq> []\<close> pl by (auto simp: sp last_map shown_props)
    ultimately show "last J = last (shown (last sp))" unfolding J_def by metis
  qed
  have lst: "plain_schema (last sp)" "plain_schema p" using pl assms(1) by (auto simp: sp)
  have tr: "TrimSpace (TrimRight J [CHR '';'', CHR '' '', CHR 0x09]) = J"
    using J shown_props(3) [OF lst(2)] shown_props(4,5) [OF lst(1)]
    by (simp add: TrimRight_id TrimSpace_id)
  have part: "Trim (TrimSpace (shown q)) [CHR 0x22, CHR 0x27] = q"
    "Trim (TrimSpace (CHR '' '' # shown q)) [CHR 0x22, CHR 0x27] = q" if "q \<in> set sp" for q
    using shown_props [OF pl [OF that]] by (simp_all add: TrimSpace_id TrimSpace_space)
  have "q \<noteq> []" if "q \<in> set sp" for q using pl [OF that] by (simp add: plain_schema_def)
  then have keep: "filter (\<lambda>p. p \<noteq> []) sp = sp" by (simp add: filter_id_conv)
  have "map (\<lambda>w. Trim (TrimSpace w) [CHR 0x22, CHR 0x27]) ?ws = sp"
    using part by (simp add: sp map_idI)
  then show ?thesis
    using assms(3) keep unfolding parseSearchPathList_def str J_def [symmetric] tr Let_def
    by (simp add: split [folded J_def])
qed

theorem search_path_roundtrip_witness:
  "parseSearchPathList (searchPathString [''$user'', ''app'', ''public'']) = [''$user'', ''app'', ''public'']"
proof -
  have "\<not> EqualFold (searchPathString [''$user'', ''app'', ''public'']) ''default''" by code_simp
  moreover have "list_all plain_schema [''$user'', ''app'', ''public'']" by code_simp
  ultimately show ?thesis using search_path_roundtrip by blast
qed

text \<open>\<open>SET search_path=app\<close>, written without spaces, is accepted and does nothing: the session does not
  see it as a search-path statement, so the generic SET answers it.\<close>
theorem set_search_path_ignored:
  "trySearchPath sp ''SET search_path=app'' = (None, sp) \<and>
   interceptUtility ''SET search_path=app'' = Some (command_result ''SET'')"
proof -
  have "Fields ''SET search_path=app'' = [''SET'', ''search_path=app'']"
    "dropSessionLocal [''search_path=app''] = [''search_path=app'']" "ToUpper ''SET'' = ''SET''"
    "firstWordUpper ''SET search_path=app'' = ''SET''" by code_simp+
  then show ?thesis by (simp add: trySearchPath_def interceptUtility_def Let_def)
qed

end
