(* ===== verification/Session.thy ===== *)
theory Session
  imports Utility WireFormat SqlState
begin

text \<open>
  A session's message loop (\<open>extended.go\<close>, \<open>handleSimpleQuery\<close> of \<open>postgres.go\<close>, \<open>handleQuery\<close> of
  \<open>multistatement.go\<close>, \<open>trySavepoint\<close> of \<open>utility.go\<close>): transaction state, routing of statements in the
  order the code tries them, prepared statements and portals, paging, and what is sent back. The
  engine and the statement handlers are the record \<open>'d handlers\<close>, functions on a state \<open>'d\<close> of their
  own; several are modelled in the other theories. Writing to the client is appending to \<open>sent\<close>; a
  write that fails ends the connection and is not modelled. Prepared statements are shared by pointer
  between the session's map and the portals bound to them, so they live in a store, \<open>preps\<close>, and both
  hold an index into it.
\<close>

section \<open>State\<close>

datatype backend_msg =
    MParseComplete | MBindComplete | MCloseComplete | MNoData | MEmptyQuery | MPortalSuspended
  | MReadyForQuery char
  | MCommandComplete string
  | MError string string
  | MRowDescription "column list" "32 word list"
  | MDataRows "core_value list list" "32 word list" "int list"
  | MParameterTypes "32 word list"
  | MParameterDescription nat
  | MNotification string string
  | MCopyIn nat
  | MCopyOut nat
  | MCopyData string
  | MCopyDone

type_synonym answer = "string + string"

text \<open>What COPY sends: an error, the responses and data of its sub-protocol, or the tag.\<close>

datatype copy_reply =
    CError string string | CIn nat | COut nat | CData string | CDone | CTag string

record prepared =
  p_sql :: string
  p_raw :: string
  p_numParams :: int
  p_paramOIDs :: "32 word list"
  p_resultOIDs :: "32 word list"
  p_blank :: bool
  p_databaseDDL :: string
  p_util :: "result_set option"
  p_txControl :: string
  p_seqDDL :: string
  p_typeDDL :: string
  p_setRole :: string
  p_grant :: string
  p_rlsDDL :: string
  p_alterDDL :: string
  p_listenNotify :: string
  p_comment :: string
  p_searchPathStmt :: string

record portal =
  pt_prep :: nat
  pt_params :: "core_value list"
  pt_formats :: "int list"
  pt_resultOIDs :: "32 word list"
  pt_result :: "result_set option"
  pt_pos :: nat

record 'd session =
  env :: 'd
  in_transaction :: bool
  txFailed :: bool
  skipping :: bool
  errored :: bool
  preps :: "prepared list"
  prepared_map :: "string \<rightharpoonup> nat"
  portals :: "string \<rightharpoonup> portal"
  sqlPrepared :: "string \<rightharpoonup> string"
  sent :: "backend_msg list"
  closed :: bool

text \<open>The engine and the handlers. A handler that may not recognise its statement returns \<open>None\<close>; an
  answer is an error's text or a command tag.\<close>

record 'd handlers =
  h_begin :: "'d \<Rightarrow> string option \<times> 'd"
  h_commit :: "'d \<Rightarrow> string option \<times> 'd"
  h_rollback :: "'d \<Rightarrow> string option \<times> 'd"
  h_exec :: "'d \<Rightarrow> bool \<Rightarrow> string \<Rightarrow> core_value list \<Rightarrow> (string + result_set) \<times> 'd"
  h_describe :: "'d \<Rightarrow> bool \<Rightarrow> string \<Rightarrow> core_value list \<Rightarrow> (string + column list option) \<times> 'd"
  h_releaseTx :: "'d \<Rightarrow> 'd"
  h_schemaDDL :: "'d \<Rightarrow> bool \<Rightarrow> string \<Rightarrow> answer option \<times> 'd"
  h_roleDDL :: "'d \<Rightarrow> string \<Rightarrow> answer option \<times> 'd"
  h_clearPrivCache :: "'d \<Rightarrow> 'd"
  h_grant :: "'d \<Rightarrow> string \<Rightarrow> answer \<times> 'd"
  h_rlsDDL :: "'d \<Rightarrow> string \<Rightarrow> answer option \<times> 'd"
  h_alterTable :: "'d \<Rightarrow> string \<Rightarrow> answer option \<times> 'd"
  h_listenNotify :: "'d \<Rightarrow> string \<Rightarrow> string option \<times> 'd"
  h_seqDDL :: "'d \<Rightarrow> string \<Rightarrow> answer option \<times> 'd"
  h_typeDDL :: "'d \<Rightarrow> string \<Rightarrow> answer option \<times> 'd"
  h_comment :: "'d \<Rightarrow> string \<Rightarrow> answer option \<times> 'd"
  h_setRole :: "'d \<Rightarrow> string \<Rightarrow> string option \<times> 'd"
  h_copy :: "'d \<Rightarrow> bool \<Rightarrow> string \<Rightarrow> (copy_reply list \<times> bool) option \<times> 'd"
  h_searchPath :: "'d \<Rightarrow> string \<Rightarrow> result_set option option \<times> 'd"
  h_checkPrivileges :: "'d \<Rightarrow> string \<Rightarrow> string option \<times> 'd"
  h_databaseDDL :: "'d \<Rightarrow> string \<Rightarrow> answer option \<times> 'd"
  h_refreshDatabases :: "'d \<Rightarrow> 'd"
  h_columnDefaults :: "'d \<Rightarrow> string \<Rightarrow> string \<times> 'd"
  h_rlsInsert :: "'d \<Rightarrow> string \<Rightarrow> core_value list \<Rightarrow> (string + result_set) option \<times> 'd"
  h_rewrite :: "'d \<Rightarrow> string \<Rightarrow> core_value list \<Rightarrow> (string + string) \<times> 'd"
  h_recordOwnership :: "'d \<Rightarrow> string \<Rightarrow> 'd"
  h_goBusy :: "'d \<Rightarrow> 'd"
  h_goIdle :: "'d \<Rightarrow> (string \<times> string) list \<times> 'd"
  h_unregisterAll :: "'d \<Rightarrow> 'd"
  h_releaseAdvisory :: "'d \<Rightarrow> 'd"
  h_canceled :: "string \<Rightarrow> bool"
  h_dialect :: "string \<Rightarrow> string"
  h_neutralize :: "string \<Rightarrow> string option"
  h_isAlterTable :: "string \<Rightarrow> bool"
  h_isComment :: "string \<Rightarrow> bool"
  h_isTypeDDL :: "string \<Rightarrow> bool"
  h_isRLSDDL :: "string \<Rightarrow> bool"
  h_splitAlter :: "string \<Rightarrow> string list"
  h_paramTypes :: "'d \<Rightarrow> prepared \<Rightarrow> 32 word list \<times> 'd"
  h_decodeParam :: "int \<Rightarrow> 32 word \<Rightarrow> string \<Rightarrow> core_value"
  h_coerceBools :: "'d \<Rightarrow> prepared \<Rightarrow> int list \<Rightarrow> core_value list \<Rightarrow> core_value list \<times> 'd"
  h_oid :: "column \<Rightarrow> core_value list list \<Rightarrow> nat \<Rightarrow> 32 word"
  h_describeOid :: "prepared \<Rightarrow> column \<Rightarrow> nat \<Rightarrow> 32 word"

section \<open>Sending\<close>

definition emit :: "backend_msg list \<Rightarrow> 'd session \<Rightarrow> 'd session" where
  "emit ms st = st\<lparr>sent := sent st @ ms\<rparr>"

definition sendErr :: "string \<times> string \<Rightarrow> 'd session \<Rightarrow> 'd session" where
  "sendErr e st = emit [MError (fst e) (snd e)] (st\<lparr>errored := True\<rparr>)"

definition protoError :: "string \<times> string \<Rightarrow> 'd session \<Rightarrow> 'd session" where
  "protoError e st = sendErr e (st\<lparr>skipping := True\<rparr>)"

text \<open>\<open>if s.tx != nil { s.txFailed = true }\<close>\<close>

definition fail_tx :: "'d session \<Rightarrow> 'd session" where
  "fail_tx st = (if in_transaction st then st\<lparr>txFailed := True\<rparr> else st)"

definition result_oids :: "'d handlers \<Rightarrow> result_set \<Rightarrow> 32 word list" where
  "result_oids H rs = map (\<lambda>i. h_oid H (Columns rs ! i) (Rows rs) i) [0..<length (Columns rs)]"

definition result_msgs :: "'d handlers \<Rightarrow> result_set \<Rightarrow> backend_msg list" where
  "result_msgs H rs =
     [MRowDescription (Columns rs) (result_oids H rs), MDataRows (Rows rs) (result_oids H rs) []]"

definition tag_of :: "result_set \<Rightarrow> backend_msg" where
  "tag_of rs = MCommandComplete (commandTag (Command rs) (RowsAffected rs))"

definition abortedTxError :: "'d session \<Rightarrow> bool" where
  "abortedTxError st \<longleftrightarrow> in_transaction st \<and> txFailed st"

definition aborted_message :: "string \<times> string" where
  "aborted_message =
     (''25P02'', ''current transaction is aborted, commands ignored until end of transaction block'')"

definition readyForQuery :: "'d session \<Rightarrow> 'd session" where
  "readyForQuery st =
     emit [MReadyForQuery (if in_transaction st then (if txFailed st then CHR ''E'' else CHR ''T'')
                           else CHR ''I'')] st"

section \<open>Transactions\<close>

definition endTx :: "'d handlers \<Rightarrow> bool \<Rightarrow> 'd session \<Rightarrow> string option \<times> 'd session" where
  "endTx H commit st =
     (if \<not> in_transaction st then (None, st)
      else (let (e, d) = (if commit \<and> \<not> txFailed st then h_commit H (env st) else h_rollback H (env st))
            in (e, st\<lparr>env := h_releaseTx H d, in_transaction := False, txFailed := False\<rparr>)))"

definition applyTxControl :: "'d handlers \<Rightarrow> string \<Rightarrow> 'd session \<Rightarrow> string \<times> string option \<times> 'd session" where
  "applyTxControl H kind st =
     (if kind = ''BEGIN'' then
        (if in_transaction st then (''BEGIN'', None, st)
         else (case h_begin H (env st) of
                 (Some e, d) \<Rightarrow> (''BEGIN'', Some e, st\<lparr>env := d\<rparr>)
               | (None, d) \<Rightarrow> (''BEGIN'', None, st\<lparr>env := d, in_transaction := True, txFailed := False\<rparr>)))
      else if kind = ''COMMIT'' then (''COMMIT'', endTx H True st)
      else if kind = ''ROLLBACK'' then (''ROLLBACK'', endTx H False st)
      else ([], None, st))"

text \<open>\<open>trySavepoint\<close>: \<open>None\<close> when the statement is something else, else the error (code and text) or the
  tag.\<close>

definition trySavepoint :: "'d handlers \<Rightarrow> string \<Rightarrow> 'd session \<Rightarrow> ((string \<times> string) + string) option \<times> 'd session" where
  "trySavepoint H sql st =
     (let kind = savepointKind sql in
      if kind = [] then (None, st)
      else if \<not> in_transaction st then
        (Some (Inl (''25P01'', kind @ '' can only be used in transaction blocks'')), st)
      else if kind = ''ROLLBACK TO'' then
        (case h_exec H (env st) True sql [] of
           (Inl e, d) \<Rightarrow> (Some (Inl (''42000'', e)), st\<lparr>env := d\<rparr>)
         | (Inr _, d) \<Rightarrow> (Some (Inr ''ROLLBACK''), st\<lparr>env := d, txFailed := False\<rparr>))
      else if txFailed st then (Some (Inl aborted_message), st)
      else (case h_exec H (env st) True sql [] of
           (Inl e, d) \<Rightarrow> (Some (Inl (''42000'', e)), st\<lparr>env := d, txFailed := True\<rparr>)
         | (Inr _, d) \<Rightarrow> (Some (Inr kind), st\<lparr>env := d\<rparr>)))"

section \<open>One simple statement\<close>

text \<open>An alternative of the router: whether it handled the statement, and the state.\<close>

type_synonym 'd alternative = "'d session \<Rightarrow> bool \<times> 'd session"

fun first_of :: "'d alternative list \<Rightarrow> 'd session \<Rightarrow> bool \<times> 'd session" where
  "first_of [] st = (False, st)"
| "first_of (a # as) st = (case a st of (True, st') \<Rightarrow> (True, st') | (False, st') \<Rightarrow> first_of as st')"

text \<open>A handler's answer: an error with this code, aborting the transaction or not, or the tag.\<close>

definition answer_with ::
  "(string \<Rightarrow> string \<times> string) \<Rightarrow> bool \<Rightarrow> answer option \<times> 'd \<Rightarrow> ('d \<Rightarrow> 'd) \<Rightarrow> 'd alternative" where
  "answer_with code_of aborts r after st =
     (case r of
        (None, d) \<Rightarrow> (False, st\<lparr>env := d\<rparr>)
      | (Some (Inl e), d) \<Rightarrow>
          (True, sendErr (code_of e) ((if aborts then fail_tx else id) (st\<lparr>env := d\<rparr>)))
      | (Some (Inr tag), d) \<Rightarrow> (True, emit [MCommandComplete tag] (st\<lparr>env := after d\<rparr>)))"

definition with_code :: "string \<Rightarrow> string \<Rightarrow> string \<times> string" where
  "with_code c e = (c, e)"

definition exec_code :: "'d handlers \<Rightarrow> string \<Rightarrow> string \<times> string" where
  "exec_code H e = execErrorState (h_canceled H e) e"

definition sq_txControl :: "'d handlers \<Rightarrow> string \<Rightarrow> 'd alternative" where
  "sq_txControl H sql st =
     (if txControlKind sql = [] then (False, st)
      else (case applyTxControl H (txControlKind sql) st of
              (tag, Some e, st') \<Rightarrow> (True, sendErr (''25000'', e) (st'\<lparr>txFailed := in_transaction st'\<rparr>))
            | (tag, None, st') \<Rightarrow> (True, emit [MCommandComplete tag] st')))"

definition sq_schemaDDL :: "'d handlers \<Rightarrow> string \<Rightarrow> 'd alternative" where
  "sq_schemaDDL H sql st =
     answer_with (with_code ''42000'') False (h_schemaDDL H (env st) (in_transaction st) sql) id st"

definition sq_savepoint :: "'d handlers \<Rightarrow> string \<Rightarrow> 'd alternative" where
  "sq_savepoint H sql st =
     (case trySavepoint H sql st of
        (None, st') \<Rightarrow> (False, st')
      | (Some (Inl e), st') \<Rightarrow> (True, sendErr e st')
      | (Some (Inr tag), st') \<Rightarrow> (True, emit [MCommandComplete tag] st'))"

definition sq_abortedGuard :: "'d alternative" where
  "sq_abortedGuard st = (if abortedTxError st then (True, sendErr aborted_message st) else (False, st))"

definition sq_roleDDL :: "'d handlers \<Rightarrow> string \<Rightarrow> 'd alternative" where
  "sq_roleDDL H sql st =
     answer_with (with_code ''42000'') True (h_roleDDL H (env st) sql) (h_clearPrivCache H) st"

definition sq_grant :: "'d handlers \<Rightarrow> string \<Rightarrow> 'd alternative" where
  "sq_grant H sql st =
     (if \<not> isGrant sql then (False, st)
      else answer_with (with_code ''42000'') True (apfst Some (h_grant H (env st) sql)) id st)"

definition sq_rlsDDL :: "'d handlers \<Rightarrow> string \<Rightarrow> 'd alternative" where
  "sq_rlsDDL H sql st = answer_with (with_code ''42000'') True (h_rlsDDL H (env st) sql) id st"

definition sq_alterTable :: "'d handlers \<Rightarrow> string \<Rightarrow> 'd alternative" where
  "sq_alterTable H sql st = answer_with (exec_code H) True (h_alterTable H (env st) sql) id st"

definition sq_listenNotify :: "'d handlers \<Rightarrow> string \<Rightarrow> 'd alternative" where
  "sq_listenNotify H sql st =
     answer_with (with_code []) False (apfst (map_option Inr) (h_listenNotify H (env st) sql)) id st"

definition sq_seqDDL :: "'d handlers \<Rightarrow> string \<Rightarrow> 'd alternative" where
  "sq_seqDDL H sql st = answer_with (with_code ''42000'') True (h_seqDDL H (env st) sql) id st"

definition sq_typeDDL :: "'d handlers \<Rightarrow> string \<Rightarrow> 'd alternative" where
  "sq_typeDDL H sql st = answer_with (with_code ''42000'') True (h_typeDDL H (env st) sql) id st"

definition sq_comment :: "'d handlers \<Rightarrow> string \<Rightarrow> 'd alternative" where
  "sq_comment H sql st = answer_with (with_code ''42000'') True (h_comment H (env st) sql) id st"

definition sq_setRole :: "'d handlers \<Rightarrow> string \<Rightarrow> 'd alternative" where
  "sq_setRole H sql st =
     (if \<not> isSetRole sql then (False, st)
      else (case h_setRole H (env st) sql of
              (Some e, d) \<Rightarrow> (True, sendErr (''22023'', e) (st\<lparr>env := d\<rparr>))
            | (None, d) \<Rightarrow> (True, emit [MCommandComplete (firstWordUpper sql)] (st\<lparr>env := d\<rparr>))))"

text \<open>SQL-level PREPARE, EXECUTE and DEALLOCATE (\<open>prepare.go\<close>).\<close>

definition handlePrepare :: "string \<Rightarrow> 'd session \<Rightarrow> 'd session" where
  "handlePrepare sql st =
     (let name = readIdent (TrimSpace (drop 7 sql)) in
      if name = [] then sendErr (''42601'', ''syntax error in PREPARE'') st
      else (case indexTopLevelWord sql 7 ''as'' of
              None \<Rightarrow> sendErr (''42601'', ''PREPARE requires AS <query>'') st
            | Some i \<Rightarrow> emit [MCommandComplete ''PREPARE'']
                (st\<lparr>sqlPrepared := (sqlPrepared st)(name \<mapsto> TrimSpace (drop (i + 2) sql))\<rparr>)))"

definition execute_args :: "string \<Rightarrow> string list" where
  "execute_args rest =
     (case IndexByte rest (CHR ''('') of
        None \<Rightarrow> []
      | Some i \<Rightarrow> (case readParenArgs rest i of
                    None \<Rightarrow> []
                  | Some (inner, _) \<Rightarrow> map TrimSpace (splitTopLevel inner)))"

definition handleExecuteSQL :: "'d handlers \<Rightarrow> string \<Rightarrow> 'd session \<Rightarrow> 'd session" where
  "handleExecuteSQL H sql st =
     (let rest = TrimSpace (drop 7 sql); name = readIdent rest in
      case sqlPrepared st name of
        None \<Rightarrow> sendErr (''26000'', ''prepared statement '' @ quoteName name @ '' does not exist'') st
      | Some query \<Rightarrow>
          (case h_rewrite H (env st) (substituteParams query (execute_args rest)) [] of
             (Inl e, d) \<Rightarrow> sendErr (exec_code H e) (st\<lparr>env := d\<rparr>)
           | (Inr rewritten, d) \<Rightarrow>
               (case h_exec H d (in_transaction st) rewritten [] of
                  (Inl e, d') \<Rightarrow> sendErr (exec_code H e) (st\<lparr>env := d'\<rparr>)
                | (Inr rs, d') \<Rightarrow>
                    emit ((if IsQuery rs then result_msgs H rs else []) @ [tag_of rs]) (st\<lparr>env := d'\<rparr>))))"

definition sq_sqlPrepare :: "'d handlers \<Rightarrow> string \<Rightarrow> 'd alternative" where
  "sq_sqlPrepare H sql st =
     (let w = firstWordUpper sql in
      if w = ''PREPARE'' then (True, handlePrepare sql st)
      else if w = ''EXECUTE'' then (True, handleExecuteSQL H sql st)
      else if w = ''DEALLOCATE'' then
        (True, emit [MCommandComplete ''DEALLOCATE'']
                 (if 2 \<le> length (Fields sql)
                  then st\<lparr>sqlPrepared := (sqlPrepared st)(unquoteIdent (Fields sql ! 1) := None)\<rparr>
                  else st))
      else (False, st))"

text \<open>The messages of a COPY; an error among them marks the connection.\<close>

fun copy_msg :: "copy_reply \<Rightarrow> backend_msg" where
  "copy_msg (CError c m) = MError c m"
| "copy_msg (CIn n) = MCopyIn n"
| "copy_msg (COut n) = MCopyOut n"
| "copy_msg (CData x) = MCopyData x"
| "copy_msg CDone = MCopyDone"
| "copy_msg (CTag t) = MCommandComplete t"

fun is_CError :: "copy_reply \<Rightarrow> bool" where
  "is_CError (CError c m) = True"
| "is_CError _ = False"

definition emit_copy :: "copy_reply list \<Rightarrow> 'd session \<Rightarrow> 'd session" where
  "emit_copy rs st = emit (map copy_msg rs) (if list_ex is_CError rs then st\<lparr>errored := True\<rparr> else st)"

definition sq_copy :: "'d handlers \<Rightarrow> string \<Rightarrow> 'd alternative" where
  "sq_copy H sql st =
     (case h_copy H (env st) (in_transaction st) sql of
        (None, d) \<Rightarrow> (False, st\<lparr>env := d\<rparr>)
      | (Some (ms, aborts), d) \<Rightarrow>
          (True, emit_copy ms ((if aborts then fail_tx else id) (st\<lparr>env := d\<rparr>))))"

definition sq_searchPath :: "'d handlers \<Rightarrow> string \<Rightarrow> 'd alternative" where
  "sq_searchPath H sql st =
     (case h_searchPath H (env st) sql of
        (None, d) \<Rightarrow> (False, st\<lparr>env := d\<rparr>)
      | (Some (Some rs), d) \<Rightarrow> (True, emit (result_msgs H rs @ [tag_of rs]) (st\<lparr>env := d\<rparr>))
      | (Some None, d) \<Rightarrow> (True, emit [MCommandComplete ''SET''] (st\<lparr>env := d\<rparr>)))"

definition sq_utility :: "'d handlers \<Rightarrow> string \<Rightarrow> 'd alternative" where
  "sq_utility H sql st =
     (case interceptUtility sql of
        None \<Rightarrow> (False, st)
      | Some rs \<Rightarrow> (True, emit ((if IsQuery rs then result_msgs H rs else []) @ [tag_of rs]) st))"

definition sq_privileges :: "'d handlers \<Rightarrow> string \<Rightarrow> 'd alternative" where
  "sq_privileges H sql st =
     (case h_checkPrivileges H (env st) sql of
        (None, d) \<Rightarrow> (False, st\<lparr>env := d\<rparr>)
      | (Some e, d) \<Rightarrow> (True, sendErr (''42501'', e) (fail_tx (st\<lparr>env := d\<rparr>))))"

definition sq_databaseDDL :: "'d handlers \<Rightarrow> string \<Rightarrow> 'd alternative" where
  "sq_databaseDDL H sql st =
     answer_with (\<lambda>e. (databaseDDLState e, e)) True (h_databaseDDL H (env st) sql) (h_refreshDatabases H) st"

text \<open>The statement runs: column defaults, the row check of an INSERT, the expansions, the engine.\<close>

definition sq_run :: "'d handlers \<Rightarrow> string \<Rightarrow> 'd alternative" where
  "sq_run H sql0 st0 =
     (let (sql, d0) = h_columnDefaults H (env st0) sql0; st = st0\<lparr>env := d0\<rparr> in
      case h_rlsInsert H (env st) sql [] of
        (Some (Inl e), d) \<Rightarrow> (True, sendErr (''42501'', e) (fail_tx (st\<lparr>env := d\<rparr>)))
      | (Some (Inr rs), d) \<Rightarrow>
          (True, emit ((if IsQuery rs then result_msgs H rs else []) @ [tag_of rs]) (st\<lparr>env := d\<rparr>))
      | (None, d) \<Rightarrow>
          (case h_rewrite H d sql [] of
             (Inl e, d') \<Rightarrow> (True, sendErr (''42P01'', e) (fail_tx (st\<lparr>env := d'\<rparr>)))
           | (Inr rewritten, d') \<Rightarrow>
               (case h_exec H d' (in_transaction st) rewritten [] of
                  (Inl e, d'') \<Rightarrow> (True, sendErr (exec_code H e) (fail_tx (st\<lparr>env := d''\<rparr>)))
                | (Inr rs, d'') \<Rightarrow>
                    (True, emit ((if IsQuery rs then result_msgs H rs else []) @ [tag_of rs])
                             (st\<lparr>env := h_recordOwnership H d'' sql\<rparr>)))))"

definition simple_alternatives :: "'d handlers \<Rightarrow> string \<Rightarrow> 'd alternative list" where
  "simple_alternatives H sql =
     [sq_txControl H sql, sq_schemaDDL H sql, sq_savepoint H sql, sq_abortedGuard,
      sq_roleDDL H sql, sq_grant H sql, sq_rlsDDL H sql, sq_alterTable H sql, sq_listenNotify H sql,
      sq_seqDDL H sql, sq_typeDDL H sql, sq_comment H sql, sq_setRole H sql, sq_sqlPrepare H sql,
      sq_copy H sql, sq_searchPath H sql, sq_utility H sql, sq_privileges H sql, sq_databaseDDL H sql,
      sq_run H sql]"

definition query_text :: "string \<Rightarrow> string" where
  "query_text body = TrimSpace (TrimRight (TrimSpace (TrimRight body [CHR 0x00])) '';'')"

definition handleSimpleQuery :: "'d handlers \<Rightarrow> string \<Rightarrow> 'd session \<Rightarrow> 'd session" where
  "handleSimpleQuery H body st =
     (let sql = query_text body in
      if isBlankStatement sql then emit [MEmptyQuery] st
      else snd (first_of (simple_alternatives H (stripLeadingComments sql)) st))"

section \<open>A Query message\<close>

text \<open>The loop over the statements, which stops at the first that sent an error; the flag is \<open>failed\<close>.\<close>

fun run_statements :: "'d handlers \<Rightarrow> string list \<Rightarrow> 'd session \<Rightarrow> bool \<times> 'd session" where
  "run_statements H [] st = (False, st)"
| "run_statements H (q # qs) st =
     (let st' = handleSimpleQuery H q (st\<lparr>errored := False\<rparr>) in
      if errored st' then (True, st') else run_statements H qs st')"

definition own_transaction :: "string \<Rightarrow> bool" where
  "own_transaction q \<longleftrightarrow>
     (let s = stripLeadingComments q in txControlKind s \<noteq> [] \<or> savepointKind s \<noteq> [] \<or> isDatabaseDDL s)"

definition query_statements :: "'d handlers \<Rightarrow> string \<Rightarrow> string list" where
  "query_statements H body = concat (map (h_splitAlter H) (splitStatements (TrimRight body [CHR 0x00])))"

definition end_batch :: "'d handlers \<Rightarrow> bool \<Rightarrow> bool \<Rightarrow> 'd session \<Rightarrow> 'd session" where
  "end_batch H implicit failed st =
     (if implicit \<and> in_transaction st then
        (case endTx H (\<not> failed) st of
           (Some e, st') \<Rightarrow> if \<not> failed then sendErr (exec_code H e) st' else st'
         | (None, st') \<Rightarrow> st')
      else st)"

definition handleQuery :: "'d handlers \<Rightarrow> string \<Rightarrow> 'd session \<Rightarrow> 'd session" where
  "handleQuery H body st =
     (let stmts = query_statements H body in
      if length stmts \<le> 1 then handleSimpleQuery H body st
      else (let implicit = (\<not> in_transaction st \<and> \<not> list_ex own_transaction stmts) in
        case (if implicit then applyTxControl H ''BEGIN'' st else ([], None, st)) of
          (_, Some e, st') \<Rightarrow> sendErr (''25000'', e) st'
        | (_, None, st') \<Rightarrow>
            (let (failed, st'') = run_statements H stmts st' in end_batch H implicit failed st'')))"

section \<open>The extended protocol\<close>

definition empty_prepared :: prepared where
  "empty_prepared = \<lparr>p_sql = [], p_raw = [], p_numParams = 0, p_paramOIDs = [], p_resultOIDs = [],
     p_blank = False, p_databaseDDL = [], p_util = None, p_txControl = [], p_seqDDL = [], p_typeDDL = [],
     p_setRole = [], p_grant = [], p_rlsDDL = [], p_alterDDL = [], p_listenNotify = [], p_comment = [],
     p_searchPathStmt = []\<rparr>"

definition store_prepared :: "string \<Rightarrow> prepared \<Rightarrow> 'd session \<Rightarrow> 'd session" where
  "store_prepared name p st =
     emit [MParseComplete]
       (st\<lparr>preps := preps st @ [p], prepared_map := (prepared_map st)(name \<mapsto> length (preps st))\<rparr>)"

definition malformed :: "string \<Rightarrow> string \<times> string" where
  "malformed what = (''08P01'', ''malformed '' @ what @ '' message'')"

text \<open>The chain of classifications of a statement that is parsed; SHOW search_path is answered from the
  path of the moment.\<close>

definition classify :: "'d handlers \<Rightarrow> string \<Rightarrow> 32 word list \<Rightarrow> 'd session \<Rightarrow> prepared \<times> 'd" where
  "classify H query declared st =
     (let raw0 = trimStatement query; raw = stripLeadingComments raw0; d = env st; e = empty_prepared in
      if isBlankStatement raw0 then (e\<lparr>p_blank := True\<rparr>, d)
      else if txControlKind raw \<noteq> [] then (e\<lparr>p_txControl := txControlKind raw\<rparr>, d)
      else if h_isAlterTable H raw then (e\<lparr>p_alterDDL := raw\<rparr>, d)
      else if isListenNotify raw then (e\<lparr>p_listenNotify := raw\<rparr>, d)
      else if isDatabaseDDL raw then (e\<lparr>p_databaseDDL := raw\<rparr>, d)
      else if h_isComment H raw then (e\<lparr>p_comment := raw\<rparr>, d)
      else if isSearchPathStmt raw then
        (if EqualFold (firstWordUpper raw) ''SHOW'' then
           (let (r, d') = h_searchPath H d raw in (e\<lparr>p_util := (case r of Some (Some rs) \<Rightarrow> Some rs | _ \<Rightarrow> None)\<rparr>, d'))
         else (e\<lparr>p_searchPathStmt := raw\<rparr>, d))
      else (case interceptUtility raw of
        Some rs \<Rightarrow> (e\<lparr>p_util := Some rs\<rparr>, d)
      | None \<Rightarrow>
          if isSequenceDDL raw then (e\<lparr>p_seqDDL := raw\<rparr>, d)
          else if h_isTypeDDL H raw then (e\<lparr>p_typeDDL := raw\<rparr>, d)
          else if isSetRole raw then (e\<lparr>p_setRole := raw\<rparr>, d)
          else if isGrant raw then (e\<lparr>p_grant := raw\<rparr>, d)
          else if h_isRLSDDL H raw then (e\<lparr>p_rlsDDL := raw\<rparr>, d)
          else (e\<lparr>p_sql := h_dialect H raw, p_raw := raw, p_numParams := countParams (h_dialect H raw),
                  p_paramOIDs := declared\<rparr>, d)))"

definition handleParse :: "'d handlers \<Rightarrow> string \<Rightarrow> 'd session \<Rightarrow> 'd session" where
  "handleParse H body st =
     (case read_Parse body of
        Panics \<Rightarrow> st\<lparr>closed := True\<rparr>
      | Malformed \<Rightarrow> protoError (malformed ''Parse'') st
      | Parsed (name, query, declared) \<Rightarrow>
          (let (p, d) = classify H query declared st in store_prepared name p (st\<lparr>env := d\<rparr>)))"

definition formatFor :: "int list \<Rightarrow> nat \<Rightarrow> int" where
  "formatFor fmts i =
     (case fmts of [] \<Rightarrow> 0 | [f] \<Rightarrow> f | _ \<Rightarrow> if i < length fmts then fmts ! i else 0)"

definition lookup_prepared :: "'d session \<Rightarrow> string \<Rightarrow> prepared option" where
  "lookup_prepared st name = map_option (\<lambda>i. preps st ! i) (prepared_map st name)"

definition bound_value :: "'d handlers \<Rightarrow> int list \<Rightarrow> 32 word list \<Rightarrow> nat \<Rightarrow> string option \<Rightarrow> core_value" where
  "bound_value H fmts oids i raw =
     (case raw of None \<Rightarrow> VNull
      | Some r \<Rightarrow> h_decodeParam H (formatFor fmts i) (if i < length oids then oids ! i else 0) r)"

definition handleBind :: "'d handlers \<Rightarrow> string \<Rightarrow> 'd session \<Rightarrow> 'd session" where
  "handleBind H body st =
     (case read_Bind body of
        Panics \<Rightarrow> st\<lparr>closed := True\<rparr>
      | Malformed \<Rightarrow> protoError (malformed ''Bind'') st
      | Parsed m \<Rightarrow>
          (case (prepared_map st (bm_stmt m), lookup_prepared st (bm_stmt m)) of
             (Some i, Some p) \<Rightarrow>
               (let raws = bm_params m;
                    params = map (\<lambda>k. bound_value H (bm_formats m) (p_paramOIDs p) k (raws ! k)) [0..<length raws];
                    (params', d) = h_coerceBools H (env st) p (bm_formats m) params
                in emit [MBindComplete]
                     (st\<lparr>env := d, portals := (portals st)(bm_portal m \<mapsto>
                        \<lparr>pt_prep = i, pt_params = params', pt_formats = bm_resFormats m, pt_resultOIDs = [],
                         pt_result = None, pt_pos = 0\<rparr>)\<rparr>))
           | _ \<Rightarrow> protoError (''26000'', ''unknown prepared statement '' @ quoteName (bm_stmt m)) st))"

definition is_utility :: "prepared \<Rightarrow> bool" where
  "is_utility p \<longleftrightarrow> p_blank p \<or> p_databaseDDL p \<noteq> [] \<or> p_util p \<noteq> None \<or> p_txControl p \<noteq> [] \<or>
     p_seqDDL p \<noteq> [] \<or> p_typeDDL p \<noteq> [] \<or> p_setRole p \<noteq> [] \<or> p_grant p \<noteq> [] \<or> p_rlsDDL p \<noteq> [] \<or>
     p_alterDDL p \<noteq> [] \<or> p_listenNotify p \<noteq> [] \<or> p_comment p \<noteq> [] \<or> p_searchPathStmt p \<noteq> []"

definition util_describe :: "'d handlers \<Rightarrow> result_set option \<Rightarrow> backend_msg list" where
  "util_describe H u =
     (case u of None \<Rightarrow> [MNoData]
      | Some rs \<Rightarrow> if IsQuery rs then [MRowDescription (Columns rs) (result_oids H rs)] else [MNoData])"

definition probeArgs :: "int \<Rightarrow> core_value list" where
  "probeArgs n = replicate (nat n) (VInt 0)"

text \<open>The query part of \<open>handleDescribe\<close>: the columns of a probe, and where the types are remembered.\<close>

definition describe_query ::
  "'d handlers \<Rightarrow> prepared \<Rightarrow> core_value list \<Rightarrow> (32 word list \<Rightarrow> 'd session \<Rightarrow> 'd session) \<Rightarrow> 'd session \<Rightarrow> 'd session" where
  "describe_query H p args remember st =
     (let sql = (case h_neutralize H (p_raw p) of Some q \<Rightarrow> q | None \<Rightarrow> p_sql p) in
      case h_describe H (env st) (in_transaction st) sql args of
        (Inl e, d) \<Rightarrow> protoError (sqlState e, e) (st\<lparr>env := d\<rparr>)
      | (Inr None, d) \<Rightarrow> emit [MNoData] (st\<lparr>env := d\<rparr>)
      | (Inr (Some cols), d) \<Rightarrow>
          (let oids = map (\<lambda>i. h_describeOid H p (cols ! i) i) [0..<length cols]
           in emit [MRowDescription cols oids] (remember oids (st\<lparr>env := d\<rparr>))))"

definition set_prep :: "nat \<Rightarrow> (prepared \<Rightarrow> prepared) \<Rightarrow> 'd session \<Rightarrow> 'd session" where
  "set_prep i f st = st\<lparr>preps := (preps st)[i := f (preps st ! i)]\<rparr>"

definition set_portal :: "string \<Rightarrow> portal \<Rightarrow> 'd session \<Rightarrow> 'd session" where
  "set_portal name pt st = st\<lparr>portals := (portals st)(name \<mapsto> pt)\<rparr>"

definition handleDescribe :: "'d handlers \<Rightarrow> string \<Rightarrow> 'd session \<Rightarrow> 'd session" where
  "handleDescribe H body st =
     (case read_target body of
        Panics \<Rightarrow> st\<lparr>closed := True\<rparr>
      | Malformed \<Rightarrow> protoError (malformed ''Describe'') st
      | Parsed (kind, name) \<Rightarrow>
          if kind = CHR ''S'' then
            (case prepared_map st name of
               None \<Rightarrow> protoError (''26000'', ''unknown prepared statement '' @ quoteName name) st
             | Some i \<Rightarrow>
                 (let p = preps st ! i in
                  if is_utility p then emit (MParameterDescription 0 # util_describe H (p_util p)) st
                  else (let (oids, d) = h_paramTypes H (env st) p;
                            p' = p\<lparr>p_paramOIDs := oids\<rparr>;
                            st' = emit [MParameterTypes oids] (set_prep i (\<lambda>_. p') (st\<lparr>env := d\<rparr>))
                        in describe_query H p' (probeArgs (p_numParams p'))
                             (\<lambda>ro. set_prep i (\<lambda>q. q\<lparr>p_resultOIDs := ro\<rparr>)) st')))
          else if kind = CHR ''P'' then
            (case portals st name of
               None \<Rightarrow> protoError (''34000'', ''unknown portal '' @ quoteName name) st
             | Some pt \<Rightarrow>
                 (let p = preps st ! pt_prep pt in
                  if is_utility p then emit (util_describe H (p_util p)) st
                  else describe_query H p (pt_params pt)
                         (\<lambda>ro. set_portal name (pt\<lparr>pt_resultOIDs := ro\<rparr>)) st))
          else protoError (''08P01'', ''invalid Describe target'') st)"

definition describedOIDs :: "prepared \<Rightarrow> portal \<Rightarrow> nat \<Rightarrow> 32 word list option" where
  "describedOIDs p pt n =
     (if length (pt_resultOIDs pt) = n then Some (pt_resultOIDs pt)
      else if length (p_resultOIDs p) = n then Some (p_resultOIDs p)
      else None)"

definition handleClose :: "string \<Rightarrow> 'd session \<Rightarrow> 'd session" where
  "handleClose body st =
     (case read_target body of
        Panics \<Rightarrow> st\<lparr>closed := True\<rparr>
      | Malformed \<Rightarrow> protoError (malformed ''Close'') st
      | Parsed (kind, name) \<Rightarrow>
          emit [MCloseComplete]
            (if kind = CHR ''S'' then st\<lparr>prepared_map := (prepared_map st)(name := None)\<rparr>
             else if kind = CHR ''P'' then st\<lparr>portals := (portals st)(name := None)\<rparr>
             else st))"

section \<open>Execute\<close>

definition answer_ext ::
  "(string \<Rightarrow> string \<times> string) \<Rightarrow> bool \<Rightarrow> answer option \<times> 'd \<Rightarrow> ('d \<Rightarrow> 'd) \<Rightarrow> 'd alternative" where
  "answer_ext code_of aborts r after st =
     (case r of
        (Some (Inl e), d) \<Rightarrow>
          (True, protoError (code_of e) ((if aborts then fail_tx else id) (st\<lparr>env := d\<rparr>)))
      | (Some (Inr tag), d) \<Rightarrow> (True, emit [MCommandComplete tag] (st\<lparr>env := after d\<rparr>))
      | (None, d) \<Rightarrow> (True, emit [MCommandComplete []] (st\<lparr>env := after d\<rparr>)))"

definition unless_empty :: "string \<Rightarrow> 'd alternative \<Rightarrow> 'd alternative" where
  "unless_empty sql a st = (if sql = [] then (False, st) else a st)"

definition ex_blank :: "prepared \<Rightarrow> 'd alternative" where
  "ex_blank p st = (if p_blank p then (True, emit [MEmptyQuery] st) else (False, st))"

definition ex_databaseDDL :: "'d handlers \<Rightarrow> prepared \<Rightarrow> 'd alternative" where
  "ex_databaseDDL H p = unless_empty (p_databaseDDL p)
     (\<lambda>st. answer_ext (\<lambda>e. (databaseDDLState e, e)) False (h_databaseDDL H (env st) (p_databaseDDL p))
             (h_refreshDatabases H) st)"

definition ex_txControl :: "'d handlers \<Rightarrow> prepared \<Rightarrow> 'd alternative" where
  "ex_txControl H p = unless_empty (p_txControl p)
     (\<lambda>st. case applyTxControl H (p_txControl p) st of
        (tag, Some e, st') \<Rightarrow> (True, protoError (''25000'', e) (st'\<lparr>txFailed := in_transaction st'\<rparr>))
      | (tag, None, st') \<Rightarrow> (True, emit [MCommandComplete tag] st'))"

definition ex_savepoint :: "'d handlers \<Rightarrow> prepared \<Rightarrow> 'd alternative" where
  "ex_savepoint H p st =
     (case trySavepoint H (p_raw p) st of
        (None, st') \<Rightarrow> (False, st')
      | (Some (Inl e), st') \<Rightarrow> (True, protoError e st')
      | (Some (Inr tag), st') \<Rightarrow> (True, emit [MCommandComplete tag] st'))"

definition ex_abortedGuard :: "'d alternative" where
  "ex_abortedGuard st = (if abortedTxError st then (True, protoError aborted_message st) else (False, st))"

definition ex_seqDDL :: "'d handlers \<Rightarrow> prepared \<Rightarrow> 'd alternative" where
  "ex_seqDDL H p = unless_empty (p_seqDDL p)
     (\<lambda>st. answer_ext (with_code ''42000'') True (h_seqDDL H (env st) (p_seqDDL p)) id st)"

definition ex_typeDDL :: "'d handlers \<Rightarrow> prepared \<Rightarrow> 'd alternative" where
  "ex_typeDDL H p = unless_empty (p_typeDDL p)
     (\<lambda>st. answer_ext (with_code ''42000'') True (h_typeDDL H (env st) (p_typeDDL p)) id st)"

definition ex_setRole :: "'d handlers \<Rightarrow> prepared \<Rightarrow> 'd alternative" where
  "ex_setRole H p = unless_empty (p_setRole p)
     (\<lambda>st. case h_setRole H (env st) (p_setRole p) of
        (Some e, d) \<Rightarrow> (True, protoError (''22023'', e) (st\<lparr>env := d\<rparr>))
      | (None, d) \<Rightarrow> (True, emit [MCommandComplete (firstWordUpper (p_setRole p))] (st\<lparr>env := d\<rparr>)))"

definition ex_grant :: "'d handlers \<Rightarrow> prepared \<Rightarrow> 'd alternative" where
  "ex_grant H p = unless_empty (p_grant p)
     (\<lambda>st. answer_ext (with_code ''42000'') True (apfst Some (h_grant H (env st) (p_grant p))) id st)"

definition ex_rlsDDL :: "'d handlers \<Rightarrow> prepared \<Rightarrow> 'd alternative" where
  "ex_rlsDDL H p = unless_empty (p_rlsDDL p)
     (\<lambda>st. answer_ext (with_code ''42000'') True (h_rlsDDL H (env st) (p_rlsDDL p)) id st)"

definition ex_alterDDL :: "'d handlers \<Rightarrow> prepared \<Rightarrow> 'd alternative" where
  "ex_alterDDL H p = unless_empty (p_alterDDL p)
     (\<lambda>st. answer_ext (exec_code H) True (h_alterTable H (env st) (p_alterDDL p)) id st)"

definition ex_listenNotify :: "'d handlers \<Rightarrow> prepared \<Rightarrow> 'd alternative" where
  "ex_listenNotify H p = unless_empty (p_listenNotify p)
     (\<lambda>st. answer_ext (with_code []) False (apfst (map_option Inr) (h_listenNotify H (env st) (p_listenNotify p))) id st)"

definition ex_comment :: "'d handlers \<Rightarrow> prepared \<Rightarrow> 'd alternative" where
  "ex_comment H p = unless_empty (p_comment p)
     (\<lambda>st. answer_ext (exec_code H) False (h_comment H (env st) (p_comment p)) id st)"

definition ex_searchPath :: "'d handlers \<Rightarrow> prepared \<Rightarrow> int list \<Rightarrow> 'd alternative" where
  "ex_searchPath H p fmts = unless_empty (p_searchPathStmt p)
     (\<lambda>st. case h_searchPath H (env st) (p_searchPathStmt p) of
        (Some (Some rs), d) \<Rightarrow> (True, emit [MDataRows (Rows rs) (result_oids H rs) fmts, tag_of rs] (st\<lparr>env := d\<rparr>))
      | (_, d) \<Rightarrow> (True, emit [MCommandComplete ''SET''] (st\<lparr>env := d\<rparr>)))"

definition ex_util :: "'d handlers \<Rightarrow> prepared \<Rightarrow> int list \<Rightarrow> 'd alternative" where
  "ex_util H p fmts st =
     (case p_util p of
        None \<Rightarrow> (False, st)
      | Some u \<Rightarrow>
          (True, emit ((if IsQuery u then [MDataRows (Rows u) (result_oids H u) fmts] else []) @ [tag_of u]) st))"

definition resetPortal :: "portal \<Rightarrow> portal" where
  "resetPortal pt = pt\<lparr>pt_result := None, pt_pos := 0\<rparr>"

text \<open>Running the query of a portal that holds no result yet: \<open>Inl\<close> is the state once an error or a
  finished INSERT has been answered, \<open>Inr\<close> goes on to the rows.\<close>

definition run_portal :: "'d handlers \<Rightarrow> string \<Rightarrow> prepared \<Rightarrow> portal \<Rightarrow> 'd session \<Rightarrow> 'd session + (result_set \<times> 'd session)" where
  "run_portal H name p pt st0 =
     (case h_checkPrivileges H (env st0) (p_raw p) of
        (Some e, d) \<Rightarrow> Inl (protoError (''42501'', e) (fail_tx (st0\<lparr>env := d\<rparr>)))
      | (None, d) \<Rightarrow>
          (let (raw, d1) = h_columnDefaults H d (p_raw p); st = st0\<lparr>env := d1\<rparr> in
           case h_rlsInsert H d1 raw (pt_params pt) of
             (Some (Inl e), d2) \<Rightarrow> Inl (protoError (''42501'', e) (fail_tx (st\<lparr>env := d2\<rparr>)))
           | (Some (Inr rs), d2) \<Rightarrow>
               Inl (emit ((if IsQuery rs then [MDataRows (Rows rs) (result_oids H rs) (pt_formats pt)] else []) @ [tag_of rs])
                      (set_portal name (resetPortal pt) (st\<lparr>env := d2\<rparr>)))
           | (None, d2) \<Rightarrow>
               (case h_rewrite H d2 raw (pt_params pt) of
                  (Inl e, d3) \<Rightarrow> Inl (protoError (''42P01'', e) (fail_tx (st\<lparr>env := d3\<rparr>)))
                | (Inr sql, d3) \<Rightarrow>
                    (case h_exec H d3 (in_transaction st) sql (pt_params pt) of
                       (Inl e, d4) \<Rightarrow> Inl (protoError (exec_code H e) (fail_tx (st\<lparr>env := d4\<rparr>)))
                     | (Inr rs, d4) \<Rightarrow> Inr (rs, st\<lparr>env := h_recordOwnership H d4 (p_raw p)\<rparr>)))))"

text \<open>The rows of this Execute: from \<open>pos\<close>, at most \<open>maxRows\<close> of them when that is positive.\<close>

definition page_end :: "nat \<Rightarrow> nat \<Rightarrow> int \<Rightarrow> nat" where
  "page_end n at maxRows =
     (if 0 < maxRows \<and> int at + maxRows < int n then at + nat maxRows else n)"

definition send_page :: "'d handlers \<Rightarrow> string \<Rightarrow> prepared \<Rightarrow> portal \<Rightarrow> result_set \<Rightarrow> int \<Rightarrow> 'd session \<Rightarrow> 'd session" where
  "send_page H name p pt rs maxRows st =
     (if \<not> IsQuery rs then emit [tag_of rs] (set_portal name (resetPortal pt) st)
      else
        (let oids = (case describedOIDs p pt (length (Columns rs)) of Some o1 \<Rightarrow> o1 | None \<Rightarrow> result_oids H rs);
             stop = page_end (length (Rows rs)) (pt_pos pt) maxRows;
             rows = take (stop - pt_pos pt) (drop (pt_pos pt) (Rows rs));
             st' = emit [MDataRows rows oids (pt_formats pt)] st
         in if stop < length (Rows rs)
            then emit [MPortalSuspended] (set_portal name (pt\<lparr>pt_result := Some rs, pt_pos := stop\<rparr>) st')
            else emit [tag_of rs] (set_portal name (resetPortal pt) st')))"

definition ex_query :: "'d handlers \<Rightarrow> string \<Rightarrow> prepared \<Rightarrow> portal \<Rightarrow> int \<Rightarrow> 'd alternative" where
  "ex_query H name p pt maxRows st =
     (case pt_result pt of
        Some rs \<Rightarrow> (True, send_page H name p pt rs maxRows st)
      | None \<Rightarrow>
          (case run_portal H name p pt st of
             Inl st' \<Rightarrow> (True, st')
           | Inr (rs, st') \<Rightarrow> (True, send_page H name p (pt\<lparr>pt_result := Some rs, pt_pos := 0\<rparr>) rs maxRows st')))"

definition execute_alternatives :: "'d handlers \<Rightarrow> string \<Rightarrow> prepared \<Rightarrow> portal \<Rightarrow> int \<Rightarrow> 'd alternative list" where
  "execute_alternatives H name p pt maxRows =
     [ex_blank p, ex_databaseDDL H p, ex_txControl H p, ex_savepoint H p, ex_abortedGuard,
      ex_seqDDL H p, ex_typeDDL H p, ex_setRole H p, ex_grant H p, ex_rlsDDL H p, ex_alterDDL H p,
      ex_listenNotify H p, ex_comment H p, ex_searchPath H p (pt_formats pt), ex_util H p (pt_formats pt),
      ex_query H name p pt maxRows]"

definition handleExecute :: "'d handlers \<Rightarrow> string \<Rightarrow> 'd session \<Rightarrow> 'd session" where
  "handleExecute H body st =
     (case read_Execute body of
        Panics \<Rightarrow> st\<lparr>closed := True\<rparr>
      | Malformed \<Rightarrow> protoError (malformed ''Execute'') st
      | Parsed (name, maxRows) \<Rightarrow>
          (case portals st name of
             None \<Rightarrow> protoError (''34000'', ''unknown portal '' @ quoteName name) st
           | Some pt \<Rightarrow> snd (first_of (execute_alternatives H name (preps st ! pt_prep pt) pt maxRows) st)))"

section \<open>The loop\<close>

definition dispatchExtended :: "'d handlers \<Rightarrow> char \<Rightarrow> string \<Rightarrow> 'd session \<Rightarrow> 'd session" where
  "dispatchExtended H typ body st =
     (if typ = CHR ''P'' then handleParse H body st
      else if typ = CHR ''B'' then handleBind H body st
      else if typ = CHR ''D'' then handleDescribe H body st
      else if typ = CHR ''E'' then handleExecute H body st
      else if typ = CHR ''C'' then handleClose body st
      else st)"

definition extended_types :: "char list" where
  "extended_types = ''PBDEC''"

text \<open>One turn of \<open>loop\<close> for a message that was read. \<open>Terminate\<close> ends it, as does a panic; the deferred
  clean-up then runs. Flush only moves bytes that \<open>sent\<close> already has.\<close>

definition close_session :: "'d handlers \<Rightarrow> 'd session \<Rightarrow> 'd session" where
  "close_session H st =
     (let d = h_releaseAdvisory H (h_unregisterAll H (env st)) in
      if in_transaction st
      then st\<lparr>env := snd (h_rollback H d), in_transaction := False, closed := True\<rparr>
      else st\<lparr>env := d, closed := True\<rparr>)"

definition go_idle :: "'d handlers \<Rightarrow> 'd session \<Rightarrow> 'd session" where
  "go_idle H st =
     (let (ns, d) = h_goIdle H (env st) in emit (map (\<lambda>(c, p). MNotification c p) ns) (st\<lparr>env := d\<rparr>))"

definition loop_step :: "'d handlers \<Rightarrow> char \<times> string \<Rightarrow> 'd session \<Rightarrow> 'd session" where
  "loop_step H msg st0 =
     (if closed st0 then st0
      else
       (let (typ, body) = msg; st = st0\<lparr>env := h_goBusy H (env st0)\<rparr> in
        if typ = CHR ''Q'' then go_idle H (readyForQuery (handleQuery H body (st\<lparr>skipping := False\<rparr>)))
        else if typ \<in> set extended_types then
          (if skipping st then st
           else (let st' = dispatchExtended H typ body st in if closed st' then close_session H st' else st'))
        else if typ = CHR ''S'' then go_idle H (readyForQuery (st\<lparr>skipping := False\<rparr>))
        else if typ = CHR ''H'' then st
        else if typ = CHR ''X'' then close_session H st
        else protoError (''0A000'', ''unsupported message '' @ CHR 0x27 # typ # [CHR 0x27]) st))"

definition session_loop :: "'d handlers \<Rightarrow> (char \<times> string) list \<Rightarrow> 'd session \<Rightarrow> 'd session" where
  "session_loop H msgs st = foldl (\<lambda>st m. loop_step H m st) st msgs"

end
