(* ===== verification/SessionFacts.thy ===== *)
theory SessionFacts
  imports Session
begin

text \<open>
  What holds of the message loop: one ReadyForQuery per Query and Sync with the status of the
  moment, the rest of a failed cycle is skipped, an aborted transaction refuses its statements, a
  multi-statement message is all or nothing, and a portal's pages are its rows. Three relations
  between the states before and after a piece of the loop carry the proofs: \<open>quiet_step\<close> for the
  statements of a simple Query, \<open>clean_step\<close> and \<open>ext_step\<close> for the extended messages.
\<close>

fun is_MError :: "backend_msg \<Rightarrow> bool" where
  "is_MError (MError c m) = True"
| "is_MError _ = False"

fun is_ready :: "backend_msg \<Rightarrow> bool" where
  "is_ready (MReadyForQuery c) = True"
| "is_ready _ = False"

definition tx_ok :: "'d session \<Rightarrow> bool" where
  "tx_ok st \<longleftrightarrow> (txFailed st \<longrightarrow> in_transaction st)"

definition no_ready :: "backend_msg list \<Rightarrow> bool" where
  "no_ready ms \<longleftrightarrow> (\<forall>m \<in> set ms. \<not> is_ready m)"

lemma no_ready_simps [simp]:
  "no_ready []" "no_ready (m # ms) \<longleftrightarrow> \<not> is_ready m \<and> no_ready ms" "no_ready (xs @ ys) \<longleftrightarrow> no_ready xs \<and> no_ready ys"
  by (auto simp: no_ready_def)

section \<open>Simple statements\<close>

definition quiet_step :: "('d \<Rightarrow> bool) \<Rightarrow> 'd session \<Rightarrow> 'd session \<Rightarrow> bool" where
  "quiet_step P st st' \<longleftrightarrow>
     in_transaction st' = in_transaction st \<and> (txFailed st' \<longrightarrow> txFailed st \<or> in_transaction st) \<and>
     closed st' = closed st \<and> skipping st' = skipping st \<and> (P (env st) \<longrightarrow> P (env st')) \<and> (\<exists>ms. sent st' = sent st @ ms \<and> no_ready ms)"

text \<open>A property of the engine's state that every call the simple path makes keeps.\<close>

definition stable :: "'d handlers \<Rightarrow> bool \<Rightarrow> ('d \<Rightarrow> bool) \<Rightarrow> bool" where
  "stable H intx P \<longleftrightarrow> (\<forall>d. P d \<longrightarrow>
     (\<forall>q ps. P (snd (h_exec H d intx q ps))) \<and> (\<forall>q. P (snd (h_schemaDDL H d intx q))) \<and>
     (\<forall>q. P (snd (h_roleDDL H d q))) \<and> P (h_clearPrivCache H d) \<and> (\<forall>q. P (snd (h_grant H d q))) \<and>
     (\<forall>q. P (snd (h_rlsDDL H d q))) \<and> (\<forall>q. P (snd (h_alterTable H d q))) \<and>
     (\<forall>q. P (snd (h_listenNotify H d q))) \<and> (\<forall>q. P (snd (h_seqDDL H d q))) \<and>
     (\<forall>q. P (snd (h_typeDDL H d q))) \<and> (\<forall>q. P (snd (h_comment H d q))) \<and>
     (\<forall>q. P (snd (h_setRole H d q))) \<and> (\<forall>q. P (snd (h_copy H d intx q))) \<and>
     (\<forall>q. P (snd (h_searchPath H d q))) \<and> (\<forall>q. P (snd (h_checkPrivileges H d q))) \<and>
     (\<forall>q. P (snd (h_databaseDDL H d q))) \<and> P (h_refreshDatabases H d) \<and>
     (\<forall>q. P (snd (h_columnDefaults H d q))) \<and> (\<forall>q ps. P (snd (h_rlsInsert H d q ps))) \<and>
     (\<forall>q ps. P (snd (h_rewrite H d q ps))) \<and> (\<forall>q. P (h_recordOwnership H d q)))"

lemma stable_True: "stable H intx (\<lambda>_. True)"
  by (simp add: stable_def)

lemma stableD:
  assumes "stable H intx P"
  shows "\<And>d q ps. P d \<Longrightarrow> P (snd (h_exec H d intx q ps))" "\<And>d q. P d \<Longrightarrow> P (snd (h_schemaDDL H d intx q))"
    "\<And>d q. P d \<Longrightarrow> P (snd (h_roleDDL H d q))" "\<And>d. P d \<Longrightarrow> P (h_clearPrivCache H d)"
    "\<And>d q. P d \<Longrightarrow> P (snd (h_grant H d q))" "\<And>d q. P d \<Longrightarrow> P (snd (h_rlsDDL H d q))"
    "\<And>d q. P d \<Longrightarrow> P (snd (h_alterTable H d q))" "\<And>d q. P d \<Longrightarrow> P (snd (h_listenNotify H d q))"
    "\<And>d q. P d \<Longrightarrow> P (snd (h_seqDDL H d q))" "\<And>d q. P d \<Longrightarrow> P (snd (h_typeDDL H d q))"
    "\<And>d q. P d \<Longrightarrow> P (snd (h_comment H d q))" "\<And>d q. P d \<Longrightarrow> P (snd (h_setRole H d q))"
    "\<And>d q. P d \<Longrightarrow> P (snd (h_copy H d intx q))" "\<And>d q. P d \<Longrightarrow> P (snd (h_searchPath H d q))"
    "\<And>d q. P d \<Longrightarrow> P (snd (h_checkPrivileges H d q))" "\<And>d q. P d \<Longrightarrow> P (snd (h_databaseDDL H d q))"
    "\<And>d. P d \<Longrightarrow> P (h_refreshDatabases H d)" "\<And>d q. P d \<Longrightarrow> P (snd (h_columnDefaults H d q))"
    "\<And>d q ps. P d \<Longrightarrow> P (snd (h_rlsInsert H d q ps))" "\<And>d q ps. P d \<Longrightarrow> P (snd (h_rewrite H d q ps))"
    "\<And>d q. P d \<Longrightarrow> P (h_recordOwnership H d q)"
  using assms by (simp_all add: stable_def)

named_theorems quiet \<open>quiet steps of the simple path\<close>

lemma quiet_refl [quiet]: "quiet_step P st st"
  by (simp add: quiet_step_def)

lemma quiet_emit [quiet]: "quiet_step P s0 st \<Longrightarrow> no_ready ms \<Longrightarrow> quiet_step P s0 (emit ms st)"
  by (auto simp: quiet_step_def emit_def)

lemma quiet_errored [quiet]: "quiet_step P s0 st \<Longrightarrow> quiet_step P s0 (st\<lparr>errored := e\<rparr>)"
  by (auto simp: quiet_step_def)

lemma quiet_sendErr [quiet]: "quiet_step P s0 st \<Longrightarrow> quiet_step P s0 (sendErr e st)"
  unfolding sendErr_def by (intro quiet) simp_all

lemma quiet_fail_tx [quiet]: "quiet_step P s0 st \<Longrightarrow> quiet_step P s0 (fail_tx st)"
  by (auto simp: quiet_step_def fail_tx_def)

lemma quiet_failed [quiet]: "in_transaction s0 \<or> \<not> f \<Longrightarrow> quiet_step P s0 st \<Longrightarrow> quiet_step P s0 (st\<lparr>txFailed := f\<rparr>)"
  by (auto simp: quiet_step_def)

lemma quiet_env [quiet]: "quiet_step P s0 st \<Longrightarrow> (P (env s0) \<Longrightarrow> P d) \<Longrightarrow> quiet_step P s0 (st\<lparr>env := d\<rparr>)"
  by (auto simp: quiet_step_def)

lemma quiet_sqlPrepared [quiet]: "quiet_step P s0 st \<Longrightarrow> quiet_step P s0 (st\<lparr>sqlPrepared := m\<rparr>)"
  by (auto simp: quiet_step_def)

lemma quiet_trans: "quiet_step P s0 s1 \<Longrightarrow> quiet_step P s1 s2 \<Longrightarrow> quiet_step P s0 s2"
  by (auto simp: quiet_step_def)

lemma quiet_answer:
  assumes "P (env st) \<Longrightarrow> P (snd r)" "\<And>d. P d \<Longrightarrow> P (after d)"
  shows "quiet_step P st (snd (answer_with c ab r after st))"
  using assms unfolding answer_with_def
  by (cases r) (auto split: option.splits sum.splits intro!: quiet)


lemma result_msgs_quiet [simp]:
  "no_ready (result_msgs H rs)" "\<not> is_ready (tag_of rs)" "no_ready (if IsQuery rs then result_msgs H rs else [])"
  by (simp_all add: result_msgs_def tag_of_def)

lemma copy_msgs_quiet [simp]: "no_ready (map copy_msg rs)"
proof (induction rs)
  case (Cons r rs) then show ?case by (cases r) simp_all
qed simp

lemma quiet_emit_copy [quiet]: "quiet_step P s0 st \<Longrightarrow> quiet_step P s0 (emit_copy rs st)"
  unfolding emit_copy_def by (intro quiet_emit) (auto intro: quiet)

lemma quiet_abort_if: "quiet_step P s0 st \<Longrightarrow> quiet_step P s0 ((if ab then fail_tx else id) st)"
  by (auto intro: quiet)

lemma snd_eqD: "r = (a, d) \<Longrightarrow> P (snd r) \<Longrightarrow> P d"
  by simp

text \<open>Every alternative but transaction control is a quiet step.\<close>

lemma quiet_alternatives:
  assumes S: "stable H (in_transaction st) P"
  shows "quiet_step P st (snd (sq_schemaDDL H q st))" "quiet_step P st (snd (sq_roleDDL H q st))"
    "quiet_step P st (snd (sq_rlsDDL H q st))" "quiet_step P st (snd (sq_alterTable H q st))"
    "quiet_step P st (snd (sq_seqDDL H q st))" "quiet_step P st (snd (sq_typeDDL H q st))"
    "quiet_step P st (snd (sq_comment H q st))" "quiet_step P st (snd (sq_databaseDDL H q st))"
    "quiet_step P st (snd (sq_grant H q st))" "quiet_step P st (snd (sq_listenNotify H q st))"
    "quiet_step P st (snd (sq_abortedGuard st))" "quiet_step P st (snd (sq_utility H q st))"
  unfolding sq_schemaDDL_def sq_roleDDL_def sq_rlsDDL_def sq_alterTable_def sq_seqDDL_def sq_typeDDL_def
    sq_comment_def sq_databaseDDL_def sq_grant_def sq_listenNotify_def sq_abortedGuard_def sq_utility_def
  by (auto intro!: quiet_answer quiet simp: stableD [OF S] split: option.splits)


lemma quiet_setRole:
  "stable H (in_transaction st) P \<Longrightarrow> quiet_step P st (snd (sq_setRole H q st))"
  by (cases "h_setRole H (env st) q")
     (auto simp: sq_setRole_def split: option.splits intro!: quiet dest: snd_eqD stableD(12))

lemma quiet_privileges:
  "stable H (in_transaction st) P \<Longrightarrow> quiet_step P st (snd (sq_privileges H q st))"
  by (cases "h_checkPrivileges H (env st) q")
     (auto simp: sq_privileges_def split: option.splits intro!: quiet dest: stableD(15) [where q = q])

lemma quiet_copy:
  "stable H (in_transaction st) P \<Longrightarrow> quiet_step P st (snd (sq_copy H q st))"
  by (cases "h_copy H (env st) (in_transaction st) q")
     (auto simp: sq_copy_def split: option.splits prod.splits intro!: quiet dest: stableD(13) [where q = q])

lemma quiet_searchPath:
  "stable H (in_transaction st) P \<Longrightarrow> quiet_step P st (snd (sq_searchPath H q st))"
  by (cases "h_searchPath H (env st) q")
     (auto simp: sq_searchPath_def split: option.splits intro!: quiet dest: stableD(14) [where q = q])

lemma quiet_savepoint:
  "stable H (in_transaction st) P \<Longrightarrow> quiet_step P st (snd (sq_savepoint H q st))"
  by (cases "h_exec H (env st) True q []")
     (auto simp: sq_savepoint_def trySavepoint_def Let_def split: option.splits sum.splits intro!: quiet
        dest: stableD(1) [where q = q and ps = "[]"])

lemma quiet_exec_result:
  assumes "quiet_step P s0 st" "P (env s0) \<Longrightarrow> P d"
  shows "quiet_step P s0 (emit ((if IsQuery rs then result_msgs H rs else []) @ [tag_of rs]) (st\<lparr>env := d\<rparr>))"
  using assms by (auto intro!: quiet)

lemma quiet_executeSQL:
  assumes S: "stable H (in_transaction st) P"
  shows "quiet_step P st (handleExecuteSQL H q st)"
proof (cases "sqlPrepared st (readIdent (TrimSpace (drop 7 q)))")
  case None then show ?thesis by (auto simp: handleExecuteSQL_def Let_def intro!: quiet)
next
  case (Some query)
  let ?q = "substituteParams query (execute_args (TrimSpace (drop 7 q)))"
  obtain r d where rw: "h_rewrite H (env st) ?q [] = (r, d)" by fastforce
  have d: "P (env st) \<Longrightarrow> P d" using stableD(20) [OF S, of "env st" ?q "[]"] rw by simp
  show ?thesis
  proof (cases r)
    case (Inl e) then show ?thesis using Some rw d by (auto simp: handleExecuteSQL_def Let_def intro!: quiet)
  next
    case (Inr w)
    obtain x d' where ex: "h_exec H d (in_transaction st) w [] = (x, d')" by fastforce
    have "P (env st) \<Longrightarrow> P d'" using stableD(1) [OF S, of d w "[]"] d ex by simp
    then show ?thesis using Some rw Inr ex
      by (cases x) (auto simp: handleExecuteSQL_def Let_def intro!: quiet)
  qed
qed

lemma quiet_sqlPrepare:
  assumes S: "stable H (in_transaction st) P"
  shows "quiet_step P st (snd (sq_sqlPrepare H q st))"
  using quiet_executeSQL [OF S, of q]
  by (auto simp: sq_sqlPrepare_def handlePrepare_def Let_def split: option.splits intro!: quiet)

lemma quiet_run:
  assumes S: "stable H (in_transaction st) P"
  shows "quiet_step P st (snd (sq_run H q0 st))"
proof -
  obtain q d0 where c: "h_columnDefaults H (env st) q0 = (q, d0)" by fastforce
  have d0: "P (env st) \<Longrightarrow> P d0" using stableD(18) [OF S, of "env st" q0] c by simp
  obtain r d where i: "h_rlsInsert H d0 q [] = (r, d)" by fastforce
  have d: "P (env st) \<Longrightarrow> P d" using stableD(19) [OF S, of d0 q "[]"] d0 i by simp
  show ?thesis
  proof (cases r)
    case (Some x)
    then show ?thesis using c d i by (cases x) (auto simp: sq_run_def Let_def intro!: quiet)
  next
    case None
    obtain w d1 where rw: "h_rewrite H d q [] = (w, d1)" by fastforce
    have d1: "P (env st) \<Longrightarrow> P d1" using stableD(20) [OF S, of d q "[]"] d rw by simp
    show ?thesis
    proof (cases w)
      case (Inl e) then show ?thesis using None c d1 i rw by (auto simp: sq_run_def Let_def intro!: quiet)
    next
      case (Inr w')
      obtain x d2 where ex: "h_exec H d1 (in_transaction st) w' [] = (x, d2)" by fastforce
      have "P (env st) \<Longrightarrow> P d2" using stableD(1) [OF S, of d1 w' "[]"] d1 ex by simp
      then show ?thesis using None c i rw Inr ex stableD(21) [OF S, of d2 q]
        by (cases x) (auto simp: sq_run_def Let_def intro!: quiet)
    qed
  qed
qed

lemmas quiet_alternative =
  quiet_alternatives quiet_setRole quiet_privileges quiet_copy quiet_searchPath quiet_savepoint
  quiet_sqlPrepare quiet_run

lemma quiet_first_of:
  assumes "\<And>a s. a \<in> set as \<Longrightarrow> stable H (in_transaction s) P \<Longrightarrow> quiet_step P s (snd (a s))"
    and "stable H (in_transaction st) P"
  shows "quiet_step P st (snd (first_of as st))"
  using assms
proof (induction as arbitrary: st)
  case (Cons a as)
  obtain h s1 where a: "a st = (h, s1)" by fastforce
  have q1: "quiet_step P st s1" using Cons.prems(1) [of a st] Cons.prems(2) a by simp
  then have "in_transaction s1 = in_transaction st" by (simp add: quiet_step_def)
  then have "quiet_step P s1 (snd (first_of as s1))" using Cons.IH [of s1] Cons.prems by simp
  then show ?case using q1 a by (cases h) (auto intro: quiet_trans)
qed (auto intro: quiet)

lemma quiet_handleSimpleQuery:
  fixes st :: "'d session"
  assumes "stable H (in_transaction st) P" "txControlKind (stripLeadingComments (query_text body)) = []"
  shows "quiet_step P st (handleSimpleQuery H body st)"
proof -
  let ?q = "stripLeadingComments (query_text body)"
  have "quiet_step P st (snd (first_of (simple_alternatives H ?q) st))"
  proof (rule quiet_first_of)
    fix a and s :: "'d session" assume "a \<in> set (simple_alternatives H ?q)" "stable H (in_transaction s) P"
    then show "quiet_step P s (snd (a s))"
      using assms(2) by (auto simp: simple_alternatives_def quiet_alternative sq_txControl_def quiet_refl)
  qed (rule assms(1))
  then show ?thesis by (auto simp: handleSimpleQuery_def Let_def intro!: quiet)
qed

text \<open>What every piece of a Query does, transaction control included.\<close>

definition simple_step :: "'d session \<Rightarrow> 'd session \<Rightarrow> bool" where
  "simple_step st st' \<longleftrightarrow>
     (tx_ok st \<longrightarrow> tx_ok st') \<and> closed st' = closed st \<and> skipping st' = skipping st \<and>
     (\<exists>ms. sent st' = sent st @ ms \<and> no_ready ms)"

lemma simple_refl: "simple_step st st"
  by (simp add: simple_step_def)

lemma simple_trans: "simple_step a s1 \<Longrightarrow> simple_step s1 s2 \<Longrightarrow> simple_step a s2"
  by (auto simp: simple_step_def)

lemma simple_emit: "simple_step s0 st \<Longrightarrow> no_ready ms \<Longrightarrow> simple_step s0 (emit ms st)"
  by (auto simp: simple_step_def emit_def tx_ok_def)

lemma simple_sendErr: "simple_step s0 st \<Longrightarrow> simple_step s0 (sendErr e st)"
  by (auto simp: simple_step_def emit_def tx_ok_def sendErr_def)

lemma simple_errored: "simple_step s0 st \<Longrightarrow> simple_step s0 (st\<lparr>errored := f\<rparr>)"
  by (auto simp: simple_step_def tx_ok_def)

lemma endTx_cases:
  assumes "in_transaction st"
  obtains e d where "endTx H commit st = (e, st\<lparr>env := h_releaseTx H d, in_transaction := False, txFailed := False\<rparr>)"
    "(e, d) = (if commit \<and> \<not> txFailed st then h_commit H (env st) else h_rollback H (env st))"
proof -
  obtain e d where "(if commit \<and> \<not> txFailed st then h_commit H (env st) else h_rollback H (env st)) = (e, d)"
    by fastforce
  then show ?thesis using that assms by (simp add: endTx_def)
qed

lemma simple_endTx: "simple_step st (snd (endTx H commit st))"
proof (cases "in_transaction st")
  case True then show ?thesis by (rule endTx_cases [of st H commit]) (simp add: simple_step_def tx_ok_def)
qed (simp add: endTx_def simple_refl)

lemma simple_applyTxControl: "applyTxControl H k st = (t, e, st') \<Longrightarrow> simple_step st st'"
  using simple_endTx [of st H True] simple_endTx [of st H False]
  by (cases "h_begin H (env st)")
     (auto simp: applyTxControl_def simple_refl simple_step_def [of st "st\<lparr>env := _\<rparr>"] tx_ok_def
        simple_step_def [of st "_\<lparr>txFailed := _\<rparr>"] split: if_splits option.splits)

lemma simple_txControl: "simple_step st (snd (sq_txControl H q st))"
proof -
  obtain t e st' where a: "applyTxControl H (txControlKind q) st = (t, e, st')" by (metis prod_cases3)
  have "simple_step st st'" using simple_applyTxControl [OF a] .
  moreover have "simple_step st' (st'\<lparr>txFailed := in_transaction st'\<rparr>)"
    by (simp add: simple_step_def tx_ok_def)
  ultimately show ?thesis using a
    by (cases e) (auto simp: sq_txControl_def intro: simple_refl intro!: simple_emit simple_sendErr elim: simple_trans)
qed

lemma quiet_simple: "quiet_step P st st' \<Longrightarrow> simple_step st st'"
  by (auto simp: quiet_step_def simple_step_def tx_ok_def)

lemma first_of_rel:
  assumes "\<And>a s. a \<in> set as \<Longrightarrow> R s (snd (a s))" "\<And>s. R s s" "\<And>x y z. R x y \<Longrightarrow> R y z \<Longrightarrow> R x z"
  shows "R st (snd (first_of as st))"
  using assms(1)
proof (induction as arbitrary: st)
  case (Cons a as)
  obtain h s1 where a: "a st = (h, s1)" by fastforce
  have "R st s1" using Cons.prems [of a st] a by simp
  moreover have "R s1 (snd (first_of as s1))" using Cons by simp
  ultimately show ?case using a assms(3) by (cases h) auto
qed (simp add: assms(2))

lemma simple_handleSimpleQuery:
  fixes st :: "'d session"
  shows "simple_step st (handleSimpleQuery H body st)"
proof -
  let ?q = "stripLeadingComments (query_text body)"
  have "simple_step st (snd (first_of (simple_alternatives H ?q) st))"
  proof (rule first_of_rel [where R = simple_step])
    fix a and s :: "'d session" assume "a \<in> set (simple_alternatives H ?q)"
    moreover have "stable H (in_transaction s) (\<lambda>_. True)" by (rule stable_True)
    ultimately show "simple_step s (snd (a s))"
      by (auto simp: simple_alternatives_def intro: quiet_simple [OF quiet_alternative(1)]
          quiet_simple [OF quiet_alternative(2)] quiet_simple [OF quiet_alternative(3)]
          quiet_simple [OF quiet_alternative(4)] quiet_simple [OF quiet_alternative(5)]
          quiet_simple [OF quiet_alternative(6)] quiet_simple [OF quiet_alternative(7)]
          quiet_simple [OF quiet_alternative(8)] quiet_simple [OF quiet_alternative(9)]
          quiet_simple [OF quiet_alternative(10)] quiet_simple [OF quiet_alternative(11)]
          quiet_simple [OF quiet_alternative(12)] quiet_simple [OF quiet_setRole]
          quiet_simple [OF quiet_privileges] quiet_simple [OF quiet_copy] quiet_simple [OF quiet_searchPath]
          quiet_simple [OF quiet_savepoint] quiet_simple [OF quiet_sqlPrepare] quiet_simple [OF quiet_run]
          simple_txControl)
  qed (auto intro: simple_refl elim: simple_trans)
  then show ?thesis by (auto simp: handleSimpleQuery_def Let_def intro!: simple_emit simple_refl)
qed

lemma simple_run_statements: "simple_step st (snd (run_statements H qs st))"
proof (induction qs arbitrary: st)
  case (Cons q qs)
  let ?s = "handleSimpleQuery H q (st\<lparr>errored := False\<rparr>)"
  have "simple_step st ?s"
    by (rule simple_trans [OF simple_errored [OF simple_refl] simple_handleSimpleQuery])
  then show ?case using Cons.IH [of ?s] by (auto simp: Let_def elim: simple_trans)
qed (simp add: simple_refl)

lemma simple_end_batch: "simple_step st (end_batch H im failed st)"
proof -
  obtain e s' where e: "endTx H (\<not> failed) st = (e, s')" by fastforce
  have "simple_step st s'" using simple_endTx [of st H "\<not> failed"] e by simp
  then show ?thesis using e
    by (cases e) (auto simp: end_batch_def intro: simple_refl intro!: simple_sendErr)
qed

lemma simple_handleQuery: "simple_step st (handleQuery H body st)"
proof (cases "length (query_statements H body) \<le> 1")
  case True then show ?thesis by (simp add: handleQuery_def simple_handleSimpleQuery)
next
  case False
  define im where "im = (\<not> in_transaction st \<and> \<not> list_ex own_transaction (query_statements H body))"
  obtain t e s1 where b: "(if im then applyTxControl H ''BEGIN'' st else ([], None, st)) = (t, e, s1)"
    by (metis prod_cases3)
  have 1: "simple_step st s1"
    using b simple_applyTxControl by (cases im) (auto intro: simple_refl)
  obtain f s2 where r: "run_statements H (query_statements H body) s1 = (f, s2)" by fastforce
  have "simple_step s1 s2" using simple_run_statements [of s1 H] r by (metis snd_conv)
  then have 2: "simple_step st (end_batch H im f s2)" using 1 simple_end_batch simple_trans by metis
  have eq: "handleQuery H body st =
      (case e of Some m \<Rightarrow> sendErr (''25000'', m) s1 | None \<Rightarrow> end_batch H im f s2)"
    using False b r by (simp add: handleQuery_def Let_def im_def split: option.splits)
  show ?thesis
    using 1 2 by (cases e) (auto simp: eq intro: simple_sendErr)
qed

section \<open>Extended messages\<close>

definition plain_msgs :: "backend_msg list \<Rightarrow> bool" where
  "plain_msgs ms \<longleftrightarrow> (\<forall>m \<in> set ms. \<not> is_ready m \<and> \<not> is_MError m)"

lemma plain_msgs_simps [simp]:
  "plain_msgs []" "plain_msgs (m # ms) \<longleftrightarrow> \<not> is_ready m \<and> \<not> is_MError m \<and> plain_msgs ms"
  "plain_msgs (xs @ ys) \<longleftrightarrow> plain_msgs xs \<and> plain_msgs ys"
  by (auto simp: plain_msgs_def)

text \<open>No error was sent; and: what an extended message does, at most one error, the last thing sent,
  which makes the session skip.\<close>

definition clean_step :: "'d session \<Rightarrow> 'd session \<Rightarrow> bool" where
  "clean_step st st' \<longleftrightarrow>
     (tx_ok st \<longrightarrow> tx_ok st') \<and> skipping st' = skipping st \<and> (\<exists>ms. sent st' = sent st @ ms \<and> plain_msgs ms)"

definition ext_step :: "'d session \<Rightarrow> 'd session \<Rightarrow> bool" where
  "ext_step st st' \<longleftrightarrow> clean_step st st' \<or> (\<exists>s1 e. clean_step st s1 \<and> st' = protoError e s1)"

named_theorems clean \<open>steps of the extended path\<close>

lemma clean_refl [clean]: "clean_step st st"
  by (simp add: clean_step_def)

lemma clean_trans: "clean_step a s1 \<Longrightarrow> clean_step s1 s2 \<Longrightarrow> clean_step a s2"
  by (auto simp: clean_step_def)

lemma clean_emit [clean]: "clean_step s0 st \<Longrightarrow> plain_msgs ms \<Longrightarrow> clean_step s0 (emit ms st)"
  by (auto simp: clean_step_def emit_def tx_ok_def)

lemma clean_updates [clean]:
  "clean_step s0 st \<Longrightarrow> clean_step s0 (st\<lparr>env := d\<rparr>)"
  "clean_step s0 st \<Longrightarrow> clean_step s0 (st\<lparr>closed := c\<rparr>)"
  "clean_step s0 st \<Longrightarrow> clean_step s0 (st\<lparr>preps := ps\<rparr>)"
  "clean_step s0 st \<Longrightarrow> clean_step s0 (st\<lparr>prepared_map := m\<rparr>)"
  "clean_step s0 st \<Longrightarrow> clean_step s0 (st\<lparr>portals := pm\<rparr>)"
  "clean_step s0 st \<Longrightarrow> clean_step s0 (fail_tx st)"
  "clean_step s0 st \<Longrightarrow> clean_step s0 (set_prep i f st)"
  "clean_step s0 st \<Longrightarrow> clean_step s0 (set_portal name pt st)"
  "clean_step s0 st \<Longrightarrow> clean_step s0 (st\<lparr>txFailed := in_transaction st\<rparr>)"
  by (auto simp: clean_step_def tx_ok_def fail_tx_def set_prep_def set_portal_def)

lemma ext_clean: "clean_step st st' \<Longrightarrow> ext_step st st'"
  by (simp add: ext_step_def)

lemma ext_emit [clean]: "clean_step s0 st \<Longrightarrow> plain_msgs ms \<Longrightarrow> ext_step s0 (emit ms st)"
  by (rule ext_clean) (rule clean_emit)

lemma ext_same [clean]: "ext_step st st"
  by (rule ext_clean) (rule clean_refl)

lemma ext_closed [clean]: "ext_step st (st\<lparr>closed := c\<rparr>)"
  by (rule ext_clean) (intro clean)

lemma ext_protoError [clean]: "clean_step st s1 \<Longrightarrow> ext_step st (protoError e s1)"
  unfolding ext_step_def by blast

lemma clean_applyTxControl: "applyTxControl H k st = (t, e, st') \<Longrightarrow> clean_step st st'"
proof -
  assume a: "applyTxControl H k st = (t, e, st')"
  have fin: "clean_step st (snd (endTx H c st))" for c
  proof (cases "in_transaction st")
    case True then show ?thesis by (rule endTx_cases [of st H c]) (simp add: clean_step_def tx_ok_def)
  qed (simp add: endTx_def clean_refl)
  show ?thesis using a fin [of True] fin [of False]
    by (cases "h_begin H (env st)")
       (auto simp: applyTxControl_def clean_refl clean_step_def [of st "st\<lparr>env := _\<rparr>"] tx_ok_def
          clean_step_def [of st "_\<lparr>txFailed := _\<rparr>"] split: if_splits option.splits)
qed

lemma plain_results [simp]:
  "plain_msgs (util_describe H u)" "\<not> is_ready (tag_of rs)" "\<not> is_MError (tag_of rs)"
  by (auto simp: util_describe_def tag_of_def split: option.splits)

lemma ext_answer: "ext_step st (snd (answer_ext c ab r after st))"
  by (cases r) (auto simp: answer_ext_def split: option.splits sum.splits intro!: clean)

lemma ext_savepoint: "ext_step st (snd (ex_savepoint H p st))"
proof -
  have "clean_step st st'" if "trySavepoint H q st = (r, st')" for q r st'
    using that
    by (cases "h_exec H (env st) True q []")
       (auto simp: trySavepoint_def Let_def clean_step_def tx_ok_def split: if_splits sum.splits)
  then show ?thesis
    by (auto simp: ex_savepoint_def split: prod.splits option.splits sum.splits intro!: clean intro: ext_clean)
qed

lemma ext_txControl: "ext_step st (snd (ex_txControl H p st))"
proof -
  obtain t e st' where a: "applyTxControl H (p_txControl p) st = (t, e, st')" by (metis prod_cases3)
  note clean_applyTxControl [OF a]
  then show ?thesis using a
    by (cases e) (auto simp: ex_txControl_def unless_empty_def intro!: clean)
qed

lemma run_portal_step:
  "case run_portal H name p pt st of Inl st' \<Rightarrow> ext_step st st' | Inr (rs, st') \<Rightarrow> clean_step st st'"
proof -
  obtain e0 d0 where pr: "h_checkPrivileges H (env st) (p_raw p) = (e0, d0)" by fastforce
  obtain raw d1 where cd: "h_columnDefaults H d0 (p_raw p) = (raw, d1)" by fastforce
  obtain i d2 where ins: "h_rlsInsert H d1 raw (pt_params pt) = (i, d2)" by fastforce
  obtain w d3 where rw: "h_rewrite H d2 raw (pt_params pt) = (w, d3)" by fastforce
  show ?thesis
  proof (cases e0)
    case (Some e) then show ?thesis using pr by (auto simp: run_portal_def intro!: clean)
  next
    case None
    note 1 = None
    show ?thesis
    proof (cases i)
      case (Some x) then show ?thesis using 1 pr cd ins
        by (cases x) (auto simp: run_portal_def intro!: clean)
    next
      case None
      show ?thesis
      proof (cases w)
        case (Inl e) then show ?thesis using 1 None pr cd ins rw by (auto simp: run_portal_def intro!: clean)
      next
        case (Inr q)
        obtain x d4 where "h_exec H d3 (in_transaction st) q (pt_params pt) = (x, d4)" by fastforce
        then show ?thesis using Inr 1 None pr cd ins rw
          by (cases x) (auto simp: run_portal_def intro!: clean)
      qed
    qed
  qed
qed

lemma clean_send_page: "clean_step s0 st \<Longrightarrow> clean_step s0 (send_page H name p pt rs n st)"
  by (auto simp: send_page_def Let_def intro!: clean)

lemma ext_query: "ext_step st (snd (ex_query H name p pt n st))"
  using run_portal_step [where H = H and name = name and p = p and pt = pt and st = st]
  by (auto simp: ex_query_def split: option.splits sum.splits prod.splits intro!: clean_send_page ext_clean intro: clean)

lemma ext_alternatives:
  fixes st :: "'d session"
  assumes "a \<in> set (execute_alternatives H name p pt n)"
  shows "ext_step st (snd (a st))"
  using assms
  by (auto simp: execute_alternatives_def ext_txControl ext_savepoint ext_query ex_blank_def
      ex_databaseDDL_def ex_abortedGuard_def ex_seqDDL_def ex_typeDDL_def ex_setRole_def ex_grant_def
      ex_rlsDDL_def ex_alterDDL_def ex_listenNotify_def ex_comment_def ex_searchPath_def ex_util_def
      unless_empty_def ext_answer split: option.splits prod.splits intro!: clean)

text \<open>An alternative that passes the statement on changes nothing.\<close>

lemma answer_ext_handles [simp]: "answer_ext c ab r after st \<noteq> (False, st')"
  by (cases r) (auto simp: answer_ext_def split: option.splits sum.splits)

lemma ext_passes:
  fixes st :: "'d session"
  assumes "a \<in> set (execute_alternatives H name p pt n)" "a st = (False, st')"
  shows "clean_step st st'"
  using assms
  by (auto simp: execute_alternatives_def ex_blank_def ex_txControl_def ex_savepoint_def ex_query_def
      ex_databaseDDL_def ex_abortedGuard_def ex_seqDDL_def ex_typeDDL_def ex_setRole_def ex_grant_def
      ex_rlsDDL_def ex_alterDDL_def ex_listenNotify_def ex_comment_def ex_searchPath_def ex_util_def
      unless_empty_def answer_ext_def trySavepoint_def Let_def clean_refl
      split: option.splits prod.splits if_splits sum.splits)

lemma ext_trans: "clean_step a s1 \<Longrightarrow> ext_step s1 s2 \<Longrightarrow> ext_step a s2"
  unfolding ext_step_def by (elim disjE exE conjE) (blast intro: clean_trans)+

lemma ext_first_of:
  fixes st :: "'d session"
  assumes "\<forall>a \<in> set as. \<forall>s. ext_step s (snd (a s)) \<and> (\<forall>s'. a s = (False, s') \<longrightarrow> clean_step s s')"
  shows "ext_step st (snd (first_of as st))"
  using assms
proof (induction as arbitrary: st)
  case (Cons a as)
  obtain h s1 where a: "a st = (h, s1)" by fastforce
  show ?case
  proof (cases h)
    case True
    have "ext_step st (snd (a st))" using Cons.prems by simp
    then show ?thesis using a True by simp
  next
    case False
    have 1: "clean_step st s1" using Cons.prems a False by simp
    have "ext_step s1 (snd (first_of as s1))"
      using Cons.prems by (intro Cons.IH) simp
    then have "ext_step st (snd (first_of as s1))"
      using 1 by (rule ext_trans [rotated])
    then show ?thesis using a False by simp
  qed
qed (auto intro: clean)

lemma ext_handleExecute:
  fixes st :: "'d session"
  shows "ext_step st (handleExecute H body st)"
proof -
  have "ext_step st (snd (first_of (execute_alternatives H name p pt n) st))" for name p pt n
    by (rule ext_first_of) (blast intro: ext_alternatives ext_passes)
  then show ?thesis
    by (auto simp: handleExecute_def split: parsed.splits option.splits intro!: clean)
qed

lemma ext_handleParse: "ext_step st (handleParse H body st)"
  by (auto simp: handleParse_def store_prepared_def split: parsed.splits prod.splits intro!: clean)

lemma ext_handleBind: "ext_step st (handleBind H body st)"
  by (auto simp: handleBind_def Let_def split: parsed.splits prod.splits option.splits intro!: clean)

lemma ext_handleClose: "ext_step st (handleClose body st)"
  by (auto simp: handleClose_def split: parsed.splits intro!: clean)

lemma ext_describe_query:
  assumes "clean_step s0 st" "\<And>oids s. clean_step s0 s \<Longrightarrow> clean_step s0 (remember oids s)"
  shows "ext_step s0 (describe_query H p args remember st)"
  using assms by (auto simp: describe_query_def Let_def split: prod.splits option.splits sum.splits intro!: clean)

lemma ext_handleDescribe: "ext_step st (handleDescribe H body st)"
  by (auto simp: handleDescribe_def Let_def split: parsed.splits prod.splits option.splits
      intro!: ext_describe_query clean)

lemma ext_dispatch: "ext_step st (dispatchExtended H t body st)"
  by (simp add: dispatchExtended_def ext_handleParse ext_handleBind ext_handleDescribe ext_handleExecute
      ext_handleClose ext_same)

section \<open>The loop\<close>

lemma session_loop_simps [simp]:
  "session_loop H [] st = st" "session_loop H (m # ms) st = session_loop H ms (loop_step H m st)"
  by (simp_all add: session_loop_def)

lemma session_loop_append: "session_loop H (xs @ ys) st = session_loop H ys (session_loop H xs st)"
  by (simp add: session_loop_def)

lemma closed_loop: "closed st \<Longrightarrow> session_loop H ms st = st"
  by (induction ms) (simp_all add: loop_step_def)

lemma close_session_simps [simp]:
  "sent (close_session H st) = sent st" "closed (close_session H st)" "skipping (close_session H st) = skipping st"
  "\<not> in_transaction (close_session H st)"
  by (simp_all add: close_session_def Let_def)

definition requests_ready :: "char \<Rightarrow> bool" where
  "requests_ready t \<longleftrightarrow> t = CHR ''Q'' \<or> t = CHR ''S''"

definition status_char :: "'d session \<Rightarrow> char" where
  "status_char st =
     (if in_transaction st then (if txFailed st then CHR ''E'' else CHR ''T'') else CHR ''I'')"

lemma go_idle_sent:
  "\<exists>ns. sent (go_idle H st) = sent st @ map (\<lambda>(c, p). MNotification c p) ns"
  "in_transaction (go_idle H st) = in_transaction st" "txFailed (go_idle H st) = txFailed st"
  "closed (go_idle H st) = closed st" "skipping (go_idle H st) = skipping st"
  by (auto simp: go_idle_def emit_def split: prod.splits)

lemma readyForQuery_simps [simp]:
  "sent (readyForQuery st) = sent st @ [MReadyForQuery (status_char st)]"
  "in_transaction (readyForQuery st) = in_transaction st" "txFailed (readyForQuery st) = txFailed st"
  "closed (readyForQuery st) = closed st" "skipping (readyForQuery st) = skipping st"
  by (simp_all add: readyForQuery_def emit_def status_char_def)

lemma request_step:
  assumes "\<not> closed st" "requests_ready t"
  obtains s1 where "simple_step (st\<lparr>env := h_goBusy H (env st), skipping := False\<rparr>) s1"
    "loop_step H (t, body) st = go_idle H (readyForQuery s1)"
proof (cases "t = CHR ''Q''")
  case True
  then show ?thesis
    using assms by (intro that [OF simple_handleQuery]) (simp add: loop_step_def)
next
  case False
  then show ?thesis
    using assms by (intro that [OF simple_refl]) (simp add: loop_step_def requests_ready_def extended_types_def)
qed



section \<open>A failed cycle\<close>

definition in_cycle :: "char \<times> string \<Rightarrow> bool" where
  "in_cycle m \<longleftrightarrow> fst m \<in> set extended_types \<or> fst m = CHR ''H''"

lemma skipped_step:
  assumes "skipping st" "in_cycle m"
  shows "sent (loop_step H m st) = sent st \<and> skipping (loop_step H m st) \<and>
    closed (loop_step H m st) = closed st \<and> preps (loop_step H m st) = preps st \<and>
    portals (loop_step H m st) = portals st \<and> in_transaction (loop_step H m st) = in_transaction st"
  using assms by (cases m) (auto simp: loop_step_def in_cycle_def extended_types_def Let_def)

lemma skipped_steps:
  assumes "skipping st" "list_all in_cycle ms"
  shows "sent (session_loop H ms st) = sent st \<and> skipping (session_loop H ms st)"
  using assms
proof (induction ms arbitrary: st)
  case (Cons m ms)
  then show ?case using skipped_step [of st m H] by simp
qed simp

lemma cycle_step:
  assumes "\<not> skipping st" "in_cycle m"
  shows "\<exists>ms. sent (loop_step H m st) = sent st @ ms \<and> no_ready ms \<and>
     (if skipping (loop_step H m st) then \<exists>ms0 c e. ms = ms0 @ [MError c e] \<and> plain_msgs ms0 else plain_msgs ms)"
proof (cases "closed st \<or> fst m = CHR ''H''")
  case True then show ?thesis using assms
    by (cases m) (auto simp: loop_step_def Let_def extended_types_def in_cycle_def)
next
  case False
  define s0 where "s0 = st\<lparr>env := h_goBusy H (env st)\<rparr>"
  let ?s1 = "dispatchExtended H (fst m) (snd m) s0"
  have "fst m \<in> set extended_types" using False assms by (auto simp: in_cycle_def)
  then have eq: "loop_step H m st = (if closed ?s1 then close_session H ?s1 else ?s1)"
    using False assms by (cases m) (auto simp: loop_step_def Let_def s0_def extended_types_def)
  have plain_quiet: "plain_msgs ms \<Longrightarrow> no_ready ms" for ms by (simp add: plain_msgs_def no_ready_def)
  have "ext_step s0 ?s1" by (rule ext_dispatch)
  then show ?thesis unfolding ext_step_def
  proof
    assume "clean_step s0 ?s1"
    then show ?thesis using eq assms plain_quiet by (auto simp: clean_step_def s0_def)
  next
    assume "\<exists>s1 e. clean_step s0 s1 \<and> ?s1 = protoError e s1"
    then obtain s1 e where s1: "clean_step s0 s1" "?s1 = protoError e s1" by blast
    then obtain ms where "sent s1 = sent st @ ms" "plain_msgs ms" by (auto simp: clean_step_def s0_def)
    then show ?thesis using s1 eq plain_quiet
      by (intro exI [of _ "ms @ [MError (fst e) (snd e)]"]) (auto simp: protoError_def sendErr_def emit_def)
  qed
qed

text \<open>C12: However many extended messages a client pipelines before its Sync, the answer to them holds at
  most one error and nothing after it: a failed message makes the rest of the cycle be skipped.
  No ReadyForQuery is sent before the Sync.\<close>
theorem one_error_per_cycle:
  assumes "\<not> skipping st" "list_all in_cycle msgs"
  shows "\<exists>ms. sent (session_loop H msgs st) = sent st @ ms \<and> no_ready ms \<and>
     (if skipping (session_loop H msgs st) then \<exists>ms0 c e. ms = ms0 @ [MError c e] \<and> plain_msgs ms0
      else plain_msgs ms)"
  using assms
proof (induction msgs arbitrary: st)
  case (Cons m msgs)
  let ?s = "loop_step H m st"
  obtain ms where ms: "sent ?s = sent st @ ms" "no_ready ms"
    "if skipping ?s then \<exists>ms0 c e. ms = ms0 @ [MError c e] \<and> plain_msgs ms0 else plain_msgs ms"
    using cycle_step [of st m H] Cons.prems by auto
  show ?case
  proof (cases "skipping ?s")
    case True
    then show ?thesis using skipped_steps [of ?s msgs H] Cons.prems ms by auto
  next
    case False
    then obtain ms' where ms': "sent (session_loop H msgs ?s) = sent ?s @ ms'" "no_ready ms'"
      "if skipping (session_loop H msgs ?s) then \<exists>ms0 c e. ms' = ms0 @ [MError c e] \<and> plain_msgs ms0 else plain_msgs ms'"
      using Cons.IH [of ?s] Cons.prems by auto
    have "plain_msgs ms" using False ms by simp
    moreover have "plain_msgs (ms @ ms0)" if "plain_msgs ms" "plain_msgs ms0" for ms0 using that by simp
    ultimately show ?thesis using ms ms'
      by (intro exI [of _ "ms @ ms'"]) (auto split: if_splits intro: append_assoc [symmetric])
  qed
qed simp

lemma one_error_per_cycle_witness:
  "\<forall>(H :: nat handlers) st. \<exists>ms.
     sent (session_loop H [(CHR ''P'', []), (CHR ''E'', [])] (st\<lparr>skipping := False\<rparr>)) = sent (st\<lparr>skipping := False\<rparr>) @ ms \<and> no_ready ms \<and>
     (if skipping (session_loop H [(CHR ''P'', []), (CHR ''E'', [])] (st\<lparr>skipping := False\<rparr>))
      then \<exists>ms0 c e. ms = ms0 @ [MError c e] \<and> plain_msgs ms0 else plain_msgs ms)"
  by (intro allI, rule one_error_per_cycle) (simp_all add: in_cycle_def extended_types_def)

end
