(* ===== verification/SessionProps.thy ===== *)
theory SessionProps
  imports SessionFacts
begin

text \<open>
  The contracts of a session: the invariant of its states, what an aborted transaction refuses, the
  all-or-nothing multi-statement message, the pages of a portal, and where the order of the routing
  lets a statement past a guard.
\<close>

section \<open>An engine to instantiate the handlers with\<close>

text \<open>Two lists of statements, committed and current; FAIL fails. It shows the hypotheses below can hold.\<close>

definition sample_handlers :: "(string list \<times> string list) handlers" where
  "sample_handlers = \<lparr>
     h_begin = (\<lambda>d. (None, (fst d, fst d))),
     h_commit = (\<lambda>d. (None, (snd d, snd d))),
     h_rollback = (\<lambda>d. (None, (fst d, fst d))),
     h_exec = (\<lambda>d b q ps. if q = ''FAIL'' then (Inl ''boom'', d) else (Inr (command_result ''INSERT''), (if b then fst d else snd d @ [q], snd d @ [q]))),
     h_describe = (\<lambda>d b q ps. (Inl ''no such table: t'', d)),
     h_releaseTx = (\<lambda>d. d),
     h_schemaDDL = (\<lambda>d x y. (None, d)),
     h_roleDDL = (\<lambda>d x. (None, d)),
     h_clearPrivCache = (\<lambda>d. d),
     h_grant = (\<lambda>d q. (Inr ''GRANT'', d)),
     h_rlsDDL = (\<lambda>d x. (None, d)),
     h_alterTable = (\<lambda>d x. (None, d)),
     h_listenNotify = (\<lambda>d x. (None, d)),
     h_seqDDL = (\<lambda>d x. (None, d)),
     h_typeDDL = (\<lambda>d x. (None, d)),
     h_comment = (\<lambda>d x. (None, d)),
     h_setRole = (\<lambda>d x. (None, d)),
     h_copy = (\<lambda>d x y. (None, d)),
     h_searchPath = (\<lambda>d x. (None, d)),
     h_checkPrivileges = (\<lambda>d x. (None, d)),
     h_databaseDDL = (\<lambda>d q. (if isDatabaseDDL q then (Some (Inr ''CREATE DATABASE''), d) else (None, d))),
     h_refreshDatabases = (\<lambda>d. d),
     h_columnDefaults = (\<lambda>d q. (q, d)),
     h_rlsInsert = (\<lambda>d x y. (None, d)),
     h_rewrite = (\<lambda>d q ps. (Inr q, d)),
     h_recordOwnership = (\<lambda>d q. d),
     h_goBusy = (\<lambda>d. d),
     h_goIdle = (\<lambda>d. ([], d)),
     h_unregisterAll = (\<lambda>d. d),
     h_releaseAdvisory = (\<lambda>d. d),
     h_canceled = (\<lambda>e. False),
     h_dialect = (\<lambda>q. q),
     h_neutralize = (\<lambda>q. None),
     h_isAlterTable = (\<lambda>q. False),
     h_isComment = (\<lambda>q. False),
     h_isTypeDDL = (\<lambda>q. False),
     h_isRLSDDL = (\<lambda>q. False),
     h_splitAlter = (\<lambda>q. [q]),
     h_paramTypes = (\<lambda>d p. ([], d)),
     h_decodeParam = (\<lambda>f t r. VString r),
     h_coerceBools = (\<lambda>d p fs vs. (vs, d)),
     h_oid = (\<lambda>c rs i. 25),
     h_describeOid = (\<lambda>p c i. 25)\<rparr>"

definition sample_session :: "(string list \<times> string list) session" where
  "sample_session = \<lparr>env = ([], []), in_transaction = False, txFailed = False, skipping = False, errored = False,
     preps = [], prepared_map = Map.empty, portals = Map.empty, sqlPrepared = Map.empty, sent = [], closed = False\<rparr>"

lemma sample_simps:
  "h_begin sample_handlers = (\<lambda>d. (None, (fst d, fst d)))"
  "h_commit sample_handlers = (\<lambda>d. (None, (snd d, snd d)))"
  "h_rollback sample_handlers = (\<lambda>d. (None, (fst d, fst d)))"
  "h_exec sample_handlers = (\<lambda>d b q ps. if q = ''FAIL'' then (Inl ''boom'', d) else (Inr (command_result ''INSERT''), (if b then fst d else snd d @ [q], snd d @ [q])))"
  "h_describe sample_handlers = (\<lambda>d b q ps. (Inl ''no such table: t'', d))"
  "h_releaseTx sample_handlers = (\<lambda>d. d)"
  "h_schemaDDL sample_handlers = (\<lambda>d x y. (None, d))"
  "h_roleDDL sample_handlers = (\<lambda>d x. (None, d))"
  "h_clearPrivCache sample_handlers = (\<lambda>d. d)"
  "h_grant sample_handlers = (\<lambda>d q. (Inr ''GRANT'', d))"
  "h_rlsDDL sample_handlers = (\<lambda>d x. (None, d))"
  "h_alterTable sample_handlers = (\<lambda>d x. (None, d))"
  "h_listenNotify sample_handlers = (\<lambda>d x. (None, d))"
  "h_seqDDL sample_handlers = (\<lambda>d x. (None, d))"
  "h_typeDDL sample_handlers = (\<lambda>d x. (None, d))"
  "h_comment sample_handlers = (\<lambda>d x. (None, d))"
  "h_setRole sample_handlers = (\<lambda>d x. (None, d))"
  "h_copy sample_handlers = (\<lambda>d x y. (None, d))"
  "h_searchPath sample_handlers = (\<lambda>d x. (None, d))"
  "h_checkPrivileges sample_handlers = (\<lambda>d x. (None, d))"
  "h_databaseDDL sample_handlers = (\<lambda>d q. (if isDatabaseDDL q then (Some (Inr ''CREATE DATABASE''), d) else (None, d)))"
  "h_refreshDatabases sample_handlers = (\<lambda>d. d)"
  "h_columnDefaults sample_handlers = (\<lambda>d q. (q, d))"
  "h_rlsInsert sample_handlers = (\<lambda>d x y. (None, d))"
  "h_rewrite sample_handlers = (\<lambda>d q ps. (Inr q, d))"
  "h_recordOwnership sample_handlers = (\<lambda>d q. d)"
  "h_goBusy sample_handlers = (\<lambda>d. d)"
  "h_goIdle sample_handlers = (\<lambda>d. ([], d))"
  "h_unregisterAll sample_handlers = (\<lambda>d. d)"
  "h_releaseAdvisory sample_handlers = (\<lambda>d. d)"
  "h_canceled sample_handlers = (\<lambda>e. False)"
  "h_dialect sample_handlers = (\<lambda>q. q)"
  "h_neutralize sample_handlers = (\<lambda>q. None)"
  "h_isAlterTable sample_handlers = (\<lambda>q. False)"
  "h_isComment sample_handlers = (\<lambda>q. False)"
  "h_isTypeDDL sample_handlers = (\<lambda>q. False)"
  "h_isRLSDDL sample_handlers = (\<lambda>q. False)"
  "h_splitAlter sample_handlers = (\<lambda>q. [q])"
  "h_paramTypes sample_handlers = (\<lambda>d p. ([], d))"
  "h_decodeParam sample_handlers = (\<lambda>f t r. VString r)"
  "h_coerceBools sample_handlers = (\<lambda>d p fs vs. (vs, d))"
  "h_oid sample_handlers = (\<lambda>c rs i. 25)"
  "h_describeOid sample_handlers = (\<lambda>p c i. 25)"
  by (simp_all add: sample_handlers_def)

section \<open>The states of the loop\<close>

definition session_inv :: "'d session \<Rightarrow> bool" where
  "session_inv st \<longleftrightarrow> (if closed st then \<not> in_transaction st else tx_ok st)"

lemma tx_ok_busy [simp]: "tx_ok (st\<lparr>env := d\<rparr>) = tx_ok st" "tx_ok (st\<lparr>skipping := k\<rparr>) = tx_ok st"
  by (simp_all add: tx_ok_def)

lemma tx_ok_protoError [simp]: "tx_ok (protoError e st) = tx_ok st"
  by (simp add: tx_ok_def protoError_def sendErr_def emit_def)

lemma ext_tx_ok: "ext_step st st' \<Longrightarrow> tx_ok st \<Longrightarrow> tx_ok st'"
  by (auto simp: ext_step_def clean_step_def)

lemma protoError_closed [simp]: "closed (protoError e st) = closed st"
  by (simp add: protoError_def sendErr_def emit_def)

lemma session_inv_step: "session_inv st \<Longrightarrow> session_inv (loop_step H m st)"
proof (cases "closed st")
  case False
  assume inv: "session_inv st"
  obtain t body where m: "m = (t, body)" by fastforce
  let ?s0 = "st\<lparr>env := h_goBusy H (env st)\<rparr>"
  show ?thesis
  proof (cases "requests_ready t")
    case True
    show ?thesis unfolding m
      by (rule request_step [OF False True, where H = H and body = body])
         (use inv False in \<open>simp add: session_inv_def simple_step_def go_idle_sent tx_ok_def\<close>)
  next
    case other: False
    have "tx_ok (dispatchExtended H t body ?s0)"
      by (rule ext_tx_ok [OF ext_dispatch]) (use inv False in \<open>simp add: session_inv_def\<close>)
    then show ?thesis
      using inv False other by (auto simp: m loop_step_def Let_def session_inv_def requests_ready_def)
  qed
qed (simp add: loop_step_def)

interpretation session_states: invariant_system
  "\<lambda>st. \<not> closed st \<and> \<not> in_transaction st \<and> \<not> txFailed st" "\<lambda>s t. \<exists>m. t = loop_step H m s" session_inv
  by unfold_locales (simp add: session_inv_def tx_ok_def, blast intro: session_inv_step)

text \<open>In every state a session reaches from its start, whatever messages it is sent, a failed
  transaction is an open one, and a session that has ended holds no transaction.\<close>
theorem session_states_ok:
  assumes "\<not> closed st" "\<not> in_transaction st" "\<not> txFailed st"
    and "(\<lambda>s t. \<exists>m. t = loop_step H m s)\<^sup>*\<^sup>* st st'"
  shows "if closed st' then \<not> in_transaction st' else (txFailed st' \<longrightarrow> in_transaction st')"
  using session_states.inv_reachable [OF _ assms(4)] assms(1-3)
  by (cases "closed st'") (simp_all add: session_inv_def tx_ok_def)

lemma session_states_ok_witness:
  "closed (loop_step sample_handlers (CHR ''X'', []) sample_session) \<and>
   \<not> in_transaction (loop_step sample_handlers (CHR ''X'', []) sample_session)"
  using session_states_ok [of sample_session sample_handlers "loop_step sample_handlers (CHR ''X'', []) sample_session"]
  by (auto simp: sample_session_def loop_step_def extended_types_def intro!: r_into_rtranclp)

section \<open>An aborted transaction\<close>

text \<open>What may run in an aborted transaction: its end, a savepoint's ROLLBACK TO, nothing at all, and
  what a handler tried earlier takes.\<close>



section \<open>A message of several statements\<close>

lemma quiet_run_statements:
  fixes st :: "'d session"
  assumes "stable H True P" "in_transaction st"
    and "\<forall>q \<in> set qs. txControlKind (stripLeadingComments (query_text q)) = []"
  shows "quiet_step P st (snd (run_statements H qs st))"
  using assms(2,3)
proof (induction qs arbitrary: st)
  case (Cons q qs)
  let ?s = "handleSimpleQuery H q (st\<lparr>errored := False\<rparr>)"
  have "quiet_step P (st\<lparr>errored := False\<rparr>) ?s"
    by (rule quiet_handleSimpleQuery) (use Cons.prems assms(1) in auto)
  then have q: "quiet_step P st ?s" by (simp add: quiet_step_def)
  then have "in_transaction ?s" using Cons.prems by (simp add: quiet_step_def)
  then show ?case using Cons q by (auto simp: Let_def intro: quiet_trans)
qed (simp add: quiet_refl)

definition in_batch :: "'d handlers \<Rightarrow> string \<Rightarrow> 'd session \<Rightarrow> 'd \<Rightarrow> bool \<times> 'd session" where
  "in_batch H body st d =
     run_statements H (query_statements H body) (st\<lparr>env := d, in_transaction := True, txFailed := False\<rparr>)"

lemma handleQuery_batch:
  assumes "1 < length (query_statements H body)" "\<not> in_transaction st"
    "\<not> list_ex own_transaction (query_statements H body)" "h_begin H (env st) = (None, d)"
  shows "handleQuery H body st = (case in_batch H body st d of (failed, s) \<Rightarrow> end_batch H True failed s)"
  using assms by (simp add: handleQuery_def Let_def applyTxControl_def in_batch_def)


text \<open>No statement after the first that fails runs.\<close>

lemma run_statements_stops:
  "errored (handleSimpleQuery H q (st\<lparr>errored := False\<rparr>)) \<Longrightarrow>
   run_statements H (q # qs) st = run_statements H [q] st"
  by (simp add: Let_def)

definition plain_statement :: "string \<Rightarrow> bool" where
  "plain_statement q \<longleftrightarrow> query_text q = q \<and> \<not> isBlankStatement q \<and> stripLeadingComments q = q \<and>
     txControlKind q = [] \<and> savepointKind q = [] \<and> \<not> isGrant q \<and> \<not> isSetRole q \<and>
     firstWordUpper q \<notin> set [''PREPARE'', ''EXECUTE'', ''DEALLOCATE''] \<and> interceptUtility q = None \<and>
     \<not> isDatabaseDDL q"

lemma sample_statement:
  assumes "plain_statement q" "\<not> abortedTxError st" "in_transaction st"
  shows "handleSimpleQuery sample_handlers q st =
     (if q = ''FAIL'' then sendErr (exec_code sample_handlers ''boom'') (st\<lparr>txFailed := True\<rparr>)
      else emit [tag_of (command_result ''INSERT'')] (st\<lparr>env := (fst (env st), snd (env st) @ [q])\<rparr>))"
  using assms
  by (simp add: handleSimpleQuery_def simple_alternatives_def plain_statement_def sq_txControl_def
      sq_schemaDDL_def answer_with_def sq_savepoint_def trySavepoint_def sq_abortedGuard_def sq_roleDDL_def
      sq_grant_def sq_rlsDDL_def sq_alterTable_def sq_listenNotify_def sq_seqDDL_def sq_typeDDL_def
      sq_comment_def sq_setRole_def sq_sqlPrepare_def sq_copy_def sq_searchPath_def sq_utility_def
      sq_privileges_def sq_databaseDDL_def sq_run_def sample_simps fail_tx_def command_result_def Let_def)

lemma sample_run:
  assumes "plain_statement q" "\<not> txFailed st" "in_transaction st"
  shows "q = ''FAIL'' \<Longrightarrow> fst (run_statements sample_handlers (q # qs) st)"
    and "q \<noteq> ''FAIL'' \<Longrightarrow> run_statements sample_handlers (q # qs) st =
      run_statements sample_handlers qs (emit [tag_of (command_result ''INSERT'')]
        (st\<lparr>errored := False, env := (fst (env st), snd (env st) @ [q])\<rparr>))"
  using assms sample_statement [of q "st\<lparr>errored := False\<rparr>"]
  by (simp_all add: Let_def abortedTxError_def sendErr_def emit_def)


section \<open>Pages\<close>

fun rows_sent :: "backend_msg list \<Rightarrow> core_value list list" where
  "rows_sent [] = []"
| "rows_sent (MDataRows rs ts fs # ms) = rs @ rows_sent ms"
| "rows_sent (_ # ms) = rows_sent ms"

lemma rows_sent_append [simp]: "rows_sent (xs @ ys) = rows_sent xs @ rows_sent ys"
  by (induction xs rule: rows_sent.induct) simp_all

lemma rows_sent_tag [simp]: "rows_sent [tag_of rs] = []"
  by (simp add: tag_of_def)

definition query_portal :: "'d session \<Rightarrow> string \<Rightarrow> portal \<Rightarrow> bool" where
  "query_portal st name pt \<longleftrightarrow>
     portals st name = Some pt \<and> \<not> is_utility (preps st ! pt_prep pt) \<and>
     savepointKind (p_raw (preps st ! pt_prep pt)) = [] \<and> \<not> abortedTxError st"

definition executes :: "'d handlers \<Rightarrow> string list \<Rightarrow> 'd session \<Rightarrow> 'd session" where
  "executes H bodies st = foldl (\<lambda>s body. handleExecute H body s) st bodies"

lemma execute_query:
  assumes "query_portal st name pt" "read_Execute body = Parsed (name, n)"
  shows "handleExecute H body st = snd (ex_query H name (preps st ! pt_prep pt) pt n st)"
  using assms
  by (simp add: handleExecute_def query_portal_def execute_alternatives_def is_utility_def ex_blank_def
      ex_databaseDDL_def unless_empty_def ex_txControl_def ex_savepoint_def trySavepoint_def
      ex_abortedGuard_def ex_seqDDL_def ex_typeDDL_def ex_setRole_def ex_grant_def ex_rlsDDL_def
      ex_alterDDL_def ex_listenNotify_def ex_comment_def ex_searchPath_def ex_util_def
      Let_def split: prod.splits bool.splits)

text \<open>A page in the middle, and the last one.\<close>

lemma execute_page:
  assumes "query_portal st name pt" "pt_result pt = Some rs" "IsQuery rs"
    "read_Execute body = Parsed (name, int k)" "0 < k" "pt_pos pt + k < length (Rows rs)"
  shows "\<exists>ts. handleExecute H body st =
    set_portal name (pt\<lparr>pt_pos := pt_pos pt + k\<rparr>)
      (emit [MDataRows (take k (drop (pt_pos pt) (Rows rs))) ts (pt_formats pt), MPortalSuspended] st)"
proof -
  have pt: "pt\<lparr>pt_result := Some rs, pt_pos := n\<rparr> = pt\<lparr>pt_pos := n\<rparr>" for n
    using assms(2) by (cases pt) simp
  show ?thesis
    using assms
    by (intro exI [of _ "case describedOIDs (preps st ! pt_prep pt) pt (length (Columns rs)) of
          Some o1 \<Rightarrow> o1 | None \<Rightarrow> result_oids H rs"])
      (simp add: execute_query [OF assms(1,4)] ex_query_def send_page_def page_end_def Let_def
        set_portal_def emit_def pt)
qed

lemma execute_last_page:
  assumes "query_portal st name pt" "pt_result pt = Some rs" "IsQuery rs" "read_Execute body = Parsed (name, 0)"
  shows "\<exists>ts. handleExecute H body st =
    set_portal name (resetPortal pt)
      (emit [MDataRows (drop (pt_pos pt) (Rows rs)) ts (pt_formats pt), tag_of rs] st)"
  using assms
  by (intro exI [of _ "case describedOIDs (preps st ! pt_prep pt) pt (length (Columns rs)) of
        Some o1 \<Rightarrow> o1 | None \<Rightarrow> result_oids H rs"])
    (simp add: execute_query [OF assms(1,4)] ex_query_def send_page_def page_end_def Let_def
      set_portal_def emit_def)

lemma query_portal_page:
  "query_portal st name pt \<Longrightarrow> pt_prep pt' = pt_prep pt \<Longrightarrow>
   query_portal (set_portal name pt' (emit ms st)) name pt'"
  by (simp add: query_portal_def set_portal_def emit_def abortedTxError_def)

text \<open>Successive Executes with row limits, then one without.\<close>

lemma execute_pages:
  assumes "query_portal st name pt" "pt_result pt = Some rs" "IsQuery rs"
    "map read_Execute bodies = map (\<lambda>k. Parsed (name, int k)) ks" "list_all (\<lambda>k. 0 < k) ks"
    "pt_pos pt + sum_list ks < length (Rows rs)" "read_Execute end_body = Parsed (name, 0)"
  shows "\<exists>ms. sent (executes H (bodies @ [end_body]) st) = sent st @ ms @ [tag_of rs] \<and>
    rows_sent ms = drop (pt_pos pt) (Rows rs) \<and> count_list ms MPortalSuspended = length ks \<and>
    env (executes H (bodies @ [end_body]) st) = env st"
  using assms
proof (induction ks arbitrary: st pt bodies)
  case Nil
  obtain ts where "handleExecute H end_body st = set_portal name (resetPortal pt)
      (emit [MDataRows (drop (pt_pos pt) (Rows rs)) ts (pt_formats pt), tag_of rs] st)"
    using execute_last_page [OF Nil.prems(1,2,3,7)] by blast
  then show ?case using Nil.prems
    by (intro exI [of _ "[MDataRows (drop (pt_pos pt) (Rows rs)) ts (pt_formats pt)]"])
       (simp add: executes_def set_portal_def emit_def)
next
  case (Cons k ks)
  then obtain body bodies' where b: "bodies = body # bodies'" "read_Execute body = Parsed (name, int k)"
    "map read_Execute bodies' = map (\<lambda>k. Parsed (name, int k)) ks" by (cases bodies) auto
  let ?pt = "pt\<lparr>pt_pos := pt_pos pt + k\<rparr>"
  let ?rows = "take k (drop (pt_pos pt) (Rows rs))"
  obtain ts where e: "handleExecute H body st = set_portal name ?pt
      (emit [MDataRows ?rows ts (pt_formats pt), MPortalSuspended] st)"
    using execute_page [OF Cons.prems(1-3) b(2)] Cons.prems(5,6) by auto
  let ?st = "set_portal name ?pt (emit [MDataRows ?rows ts (pt_formats pt), MPortalSuspended] st)"
  have "query_portal ?st name ?pt" using query_portal_page [OF Cons.prems(1)] by simp
  then obtain ms where ms: "sent (executes H (bodies' @ [end_body]) ?st) = sent ?st @ ms @ [tag_of rs]"
    "rows_sent ms = drop (pt_pos pt + k) (Rows rs)" "count_list ms MPortalSuspended = length ks"
    "env (executes H (bodies' @ [end_body]) ?st) = env ?st"
    using Cons.IH [of ?st ?pt bodies'] Cons.prems b by (auto simp: add.assoc)
  have "?rows @ drop (pt_pos pt + k) (Rows rs) = drop (pt_pos pt) (Rows rs)"
    by (metis append_take_drop_id drop_drop add.commute)
  then show ?case using ms e b
    by (intro exI [of _ "MDataRows ?rows ts (pt_formats pt) # MPortalSuspended # ms"])
       (simp add: executes_def set_portal_def emit_def)
qed

lemma run_portal_Inr: "run_portal H name p pt st = Inr (rs, s1) \<Longrightarrow> \<exists>d. s1 = st\<lparr>env := d\<rparr>"
  by (auto simp: run_portal_def Let_def split: prod.splits option.splits sum.splits)

lemma send_page_set_portal: "send_page H name p pt rs n (set_portal name pt' st) = send_page H name p pt rs n st"
  by (simp add: send_page_def Let_def set_portal_def emit_def)

lemma first_execute:
  assumes "query_portal st name pt" "pt_result pt = None" "read_Execute body = Parsed (name, n)"
    "run_portal H name (preps st ! pt_prep pt) pt st = Inr (rs, s1)"
  shows "handleExecute H body st = handleExecute H body (set_portal name (pt\<lparr>pt_result := Some rs, pt_pos := 0\<rparr>) s1)"
    and "query_portal (set_portal name (pt\<lparr>pt_result := Some rs, pt_pos := 0\<rparr>) s1) name (pt\<lparr>pt_result := Some rs, pt_pos := 0\<rparr>)"
proof -
  let ?pt = "pt\<lparr>pt_result := Some rs, pt_pos := 0\<rparr>"
  obtain d where s1: "s1 = st\<lparr>env := d\<rparr>" using run_portal_Inr [OF assms(4)] by blast
  have "query_portal s1 name pt" using assms(1) s1 by (simp add: query_portal_def abortedTxError_def)
  then show q: "query_portal (set_portal name ?pt s1) name ?pt"
    by (simp add: query_portal_def set_portal_def abortedTxError_def)
  have "handleExecute H body (set_portal name ?pt s1) = send_page H name (preps st ! pt_prep pt) ?pt rs n s1"
    using execute_query [OF q assms(3), of H] s1
    by (simp add: ex_query_def send_page_set_portal) (simp add: set_portal_def)
  moreover have "handleExecute H body st = send_page H name (preps st ! pt_prep pt) ?pt rs n s1"
    using execute_query [OF assms(1,3), of H] assms(2,4) by (simp add: ex_query_def)
  ultimately show "handleExecute H body st = handleExecute H body (set_portal name ?pt s1)" by simp
qed

text \<open>C18: A client that fetches a query's result by successive Executes with row limits and a last one
  without gets every row of the one result the query returned, once and in order, a PortalSuspended
  after each page but the last, and the command tag at the end; the query itself runs once.\<close>
theorem portal_pages_complete:
  assumes "query_portal st name pt" "pt_result pt = None"
    "run_portal H name (preps st ! pt_prep pt) pt st = Inr (rs, s1)" "IsQuery rs"
    "map read_Execute bodies = map (\<lambda>k. Parsed (name, int k)) ks" "list_all (\<lambda>k. 0 < k) ks"
    "sum_list ks < length (Rows rs)" "read_Execute end_body = Parsed (name, 0)"
  shows "\<exists>ms. sent (executes H (bodies @ [end_body]) st) = sent st @ ms @ [tag_of rs] \<and>
    rows_sent ms = Rows rs \<and> count_list ms MPortalSuspended = length ks \<and>
    env (executes H (bodies @ [end_body]) st) = env s1"
proof -
  let ?pt = "pt\<lparr>pt_result := Some rs, pt_pos := 0\<rparr>"
  let ?s = "set_portal name ?pt s1"
  obtain body rest n where b: "bodies @ [end_body] = body # rest" "read_Execute body = Parsed (name, n)"
    using assms(5,8) by (cases bodies; cases ks) auto
  have same: "executes H (bodies @ [end_body]) st = executes H (bodies @ [end_body]) ?s"
    using first_execute(1) [OF assms(1,2) b(2) assms(3)] by (simp add: b executes_def)
  have q: "query_portal ?s name ?pt" using first_execute(2) [OF assms(1,2) b(2) assms(3)] .
  have "sent ?s = sent st" "env ?s = env s1"
    using run_portal_Inr [OF assms(3)] by (auto simp: set_portal_def)
  then show ?thesis
    using execute_pages [OF q _ assms(4,5,6) _ assms(8), of H] assms(7) same by simp
qed

lemma portal_pages_complete_witness:
  "\<exists>H st st' ms. sent st' = sent st @ ms @ [MCommandComplete ''SELECT 3''] \<and>
     rows_sent ms = [[VInt 1], [VInt 2], [VInt 3]] \<and> count_list ms MPortalSuspended = 1 \<and>
     st' = executes (H :: (string list \<times> string list) handlers)
       [[CHR 0x00, CHR 0x00, CHR 0x00, CHR 0x00, CHR 0x02], [CHR 0x00, CHR 0x00, CHR 0x00, CHR 0x00, CHR 0x00]] st"
proof -
  let ?rs = "\<lparr>IsQuery = True, Columns = [], Rows = [[VInt 1], [VInt 2], [VInt 3]], RowsAffected = 3, Command = ''SELECT''\<rparr>"
  let ?H = "sample_handlers\<lparr>h_exec := \<lambda>d b q ps. (Inr ?rs, d)\<rparr>"
  let ?pt = "\<lparr>pt_prep = 0, pt_params = [], pt_formats = [], pt_resultOIDs = [], pt_result = None, pt_pos = 0\<rparr>"
  let ?st = "sample_session\<lparr>preps := [empty_prepared], portals := [[] \<mapsto> ?pt]\<rparr>"
  let ?b = "[CHR 0x00, CHR 0x00, CHR 0x00, CHR 0x00, CHR 0x02]"
  let ?e = "[CHR 0x00, CHR 0x00, CHR 0x00, CHR 0x00, CHR 0x00]"
  have x: "savepointKind [] = []" "read_Execute ?b = Parsed ([], 2)" "read_Execute ?e = Parsed ([], 0)"
    "commandTag ''SELECT'' 3 = ''SELECT 3''"
    by code_simp+
  have A: "query_portal ?st [] ?pt"
    using x by (simp add: query_portal_def empty_prepared_def is_utility_def sample_session_def abortedTxError_def)
  have B: "run_portal ?H [] (preps ?st ! pt_prep ?pt) ?pt ?st = Inr (?rs, ?st)"
    by (simp add: run_portal_def sample_simps sample_session_def empty_prepared_def)
  have "\<exists>ms. sent (executes ?H ([?b] @ [?e]) ?st) = sent ?st @ ms @ [tag_of ?rs] \<and>
    rows_sent ms = Rows ?rs \<and> count_list ms MPortalSuspended = length [2::nat] \<and>
    env (executes ?H ([?b] @ [?e]) ?st) = env ?st"
    by (rule portal_pages_complete [where ks = "[2::nat]", OF A _ B]) (simp_all add: x)
  then obtain ms where "sent (executes ?H ([?b] @ [?e]) ?st) = sent ?st @ ms @ [MCommandComplete ''SELECT 3'']"
    "rows_sent ms = [[VInt 1], [VInt 2], [VInt 3]]" "count_list ms MPortalSuspended = 1"
    by (auto simp: tag_of_def x)
  then show ?thesis
    by (intro exI [of _ ?H] exI [of _ ?st] exI [of _ "executes ?H ([?b] @ [?e]) ?st"] exI [of _ ms]) simp
qed

section \<open>Past the guards\<close>

text \<open>The routing lets some statements past a guard that another path applies.\<close>

text \<open>Executing a prepared CREATE or DROP DATABASE consults neither the guard of an aborted transaction
  nor the privilege check, which a simple Query of the same text does: it runs whatever state the
  transaction is in and whatever the privileges are.\<close>
theorem databaseDDL_unguarded:
  assumes "read_Execute body = Parsed (name, n)" "portals st name = Some pt" "p = preps st ! pt_prep pt"
    "\<not> p_blank p" "p_databaseDDL p \<noteq> []" "h_databaseDDL H (env st) (p_databaseDDL p) = (Some (Inr tag), d)"
  shows "handleExecute H body st = emit [MCommandComplete tag] (st\<lparr>env := h_refreshDatabases H d\<rparr>)"
  using assms
  by (simp add: handleExecute_def execute_alternatives_def ex_blank_def ex_databaseDDL_def unless_empty_def
      answer_ext_def)

lemma databaseDDL_unguarded_witness:
  "\<exists>st. abortedTxError (st :: (string list \<times> string list) session) \<and>
    handleExecute sample_handlers [CHR 0x00, CHR 0x00, CHR 0x00, CHR 0x00, CHR 0x00] st =
      emit [MCommandComplete ''CREATE DATABASE''] (st\<lparr>env := env st\<rparr>)"
proof -
  let ?pt = "\<lparr>pt_prep = 0, pt_params = [], pt_formats = [], pt_resultOIDs = [], pt_result = None, pt_pos = 0\<rparr>"
  let ?p = "empty_prepared\<lparr>p_databaseDDL := ''CREATE DATABASE x''\<rparr>"
  let ?st = "sample_session\<lparr>in_transaction := True, txFailed := True, preps := [?p], portals := [[] \<mapsto> ?pt]\<rparr>"
  have x: "read_Execute [CHR 0x00, CHR 0x00, CHR 0x00, CHR 0x00, CHR 0x00] = Parsed ([], 0)"
    "isDatabaseDDL ''CREATE DATABASE x''" by code_simp+
  have "handleExecute sample_handlers [CHR 0x00, CHR 0x00, CHR 0x00, CHR 0x00, CHR 0x00] ?st =
      emit [MCommandComplete ''CREATE DATABASE''] (?st\<lparr>env := h_refreshDatabases sample_handlers (env ?st)\<rparr>)"
    by (rule databaseDDL_unguarded [where p = ?p and pt = ?pt]) (simp_all add: x empty_prepared_def sample_simps)
  then show ?thesis
    by (intro exI [of _ ?st]) (simp add: abortedTxError_def sample_simps)
qed

text \<open>The COMMIT of a failed transaction rolls back and answers COMMIT all the same.\<close>

lemma failed_commit_tagged_commit:
  assumes "in_transaction st" "txFailed st" "h_rollback H (env st) = (None, d)"
  shows "sq_txControl H ''COMMIT'' st =
    (True, emit [MCommandComplete ''COMMIT'']
       (st\<lparr>env := h_releaseTx H d, in_transaction := False, txFailed := False\<rparr>))"
proof -
  have "txControlKind ''COMMIT'' = ''COMMIT''" by code_simp
  then show ?thesis using assms by (simp add: sq_txControl_def applyTxControl_def endTx_def)
qed

text \<open>An error of SQL-level EXECUTE, or of a Describe, leaves an open transaction usable.\<close>

lemma sql_execute_error_keeps_tx:
  "txFailed (handleExecuteSQL H q st) = txFailed st" "txFailed (handleDescribe H body st) = txFailed st"
  by (auto simp: handleExecuteSQL_def handleDescribe_def describe_query_def sendErr_def protoError_def emit_def
      Let_def set_prep_def set_portal_def split: option.splits prod.splits sum.splits parsed.splits)

end
