(* ===== verification/RoleTables.thy ===== *)
theory RoleTables
  imports Values
begin

text \<open>
  The tables roles and privileges live in (\<open>engine/roles.go\<close>, \<open>engine/grants.go\<close>) and the queries on them
  (\<open>privileges.go\<close>, \<open>session_user.go\<close>). A table is the list of its rows; names compare without case.
  The queries are the SQL texts the functions send: a SELECT is a search, a DELETE a filter, an UPDATE
  a map, an INSERT an append, refused when it would repeat a primary key. A statement on these tables
  fails for no other reason. The recursive queries are a work list over the membership edges.
\<close>

section \<open>Rows\<close>

record role_row =
  rolname :: string
  rolsuper :: int
  rolinherit :: int
  rolcreaterole :: int
  rolcreatedb :: int
  rolcanlogin :: int
  rolreplication :: int
  rolbypassrls :: int
  rolpassword :: "string option"

record membership =
  mb_member :: string
  mb_roleof :: string
  mb_admin :: int

record grant_row =
  gr_grantee :: string
  gr_table :: string
  gr_priv :: string

record owner_row =
  ow_table :: string
  ow_owner :: string

record auth_db =
  roles :: "role_row list"
  memberships :: "membership list"
  grants :: "grant_row list"
  owners :: "owner_row list"

definition default_role :: "string \<Rightarrow> role_row" where
  "default_role name = \<lparr>rolname = name, rolsuper = 0, rolinherit = 1, rolcreaterole = 0, rolcreatedb = 0,
     rolcanlogin = 0, rolreplication = 0, rolbypassrls = 0, rolpassword = None\<rparr>"

definition nocase_eq :: "string \<Rightarrow> string \<Rightarrow> bool" where
  "nocase_eq x y \<longleftrightarrow> ToLower x = ToLower y"

lemma nocase_eq_refl [simp]: "nocase_eq x x"
  by (simp add: nocase_eq_def)

definition seedDefaultRole :: "string \<Rightarrow> auth_db \<Rightarrow> auth_db" where
  "seedDefaultRole catalogRole db =
     (if list_ex (\<lambda>r. nocase_eq (rolname r) catalogRole) (roles db) then db
      else db\<lparr>roles := roles db @ [(default_role catalogRole)
        \<lparr>rolsuper := 1, rolcreaterole := 1, rolcreatedb := 1, rolcanlogin := 1, rolbypassrls := 1\<rparr>]\<rparr>)"

section \<open>Queries\<close>

definition roleBypasses :: "auth_db \<Rightarrow> string \<Rightarrow> bool" where
  "roleBypasses db role =
     (case filter (\<lambda>r. nocase_eq (rolname r) role) (roles db) of
        [] \<Rightarrow> True
      | r # _ \<Rightarrow> truthy (VInt (rolsuper r)))"

definition hasCreateRole :: "auth_db \<Rightarrow> string \<Rightarrow> bool" where
  "hasCreateRole db role = list_ex (\<lambda>r. nocase_eq (rolname r) role \<and> rolcreaterole r \<noteq> 0) (roles db)"

definition roleExists :: "auth_db \<Rightarrow> string \<Rightarrow> bool" where
  "roleExists db name = list_ex (\<lambda>r. nocase_eq (rolname r) name) (roles db)"

text \<open>The work list of the recursive queries over edges from member to role.\<close>

function closure_from :: "('a \<times> 'a) list \<Rightarrow> 'a list \<Rightarrow> 'a list \<Rightarrow> 'a list" where
  "closure_from E [] seen = seen"
| "closure_from E (x # q) seen =
     (let new = remdups (filter (\<lambda>r. r \<notin> set seen) (map snd (filter (\<lambda>e. fst e = x) E)))
      in closure_from E (q @ new) (seen @ new))"
  by pat_completeness auto
termination
proof (relation "measures [\<lambda>(E, q, seen). card (snd ` set E - set seen), \<lambda>(E, q, seen). length q]")
  fix E :: "('a \<times> 'a) list" and x q seen new
  assume new: "new = remdups (filter (\<lambda>r. r \<notin> set seen) (map snd (filter (\<lambda>e. fst e = x) E)))"
  show "((E, q @ new, seen @ new), (E, x # q, seen)) \<in>
      measures [\<lambda>(E, q, seen). card (snd ` set E - set seen), \<lambda>(E, q, seen). length q]"
  proof (cases "new = []")
    case False
    then obtain y where "y \<in> set new" by (cases new) auto
    then have "y \<in> snd ` set E - set seen" "y \<in> set (seen @ new)" using new by auto
    then have "snd ` set E - set (seen @ new) \<subset> snd ` set E - set seen" by auto
    then have "card (snd ` set E - set (seen @ new)) < card (snd ` set E - set seen)"
      by (intro psubset_card_mono) auto
    then show ?thesis by simp
  qed simp
qed simp

declare closure_from.simps [simp del]

lemma closure_from_spec:
  assumes "set q \<subseteq> set seen" "\<forall>x \<in> set seen - set q. set E `` {x} \<subseteq> set seen"
  shows "set (closure_from E q seen) = (set E)\<^sup>* `` set seen"
  using assms
proof (induction E q seen rule: closure_from.induct)
  case (1 E seen)
  have "y \<in> set seen" if "(x, y) \<in> (set E)\<^sup>*" "x \<in> set seen" for x y
    using that 1(2) by (induction rule: rtrancl_induct) auto
  then show ?case by (auto simp: closure_from.simps)
next
  case (2 E x q seen)
  define new where "new = remdups (filter (\<lambda>r. r \<notin> set seen) (map snd (filter (\<lambda>e. fst e = x) E)))"
  have new: "set new = set E `` {x} - set seen" by (force simp: new_def)
  have "set (closure_from E (q @ new) (seen @ new)) = (set E)\<^sup>* `` set (seen @ new)"
  proof (rule "2.IH" [OF new_def])
    show "set (q @ new) \<subseteq> set (seen @ new)" using "2.prems"(1) by auto
    show "\<forall>y \<in> set (seen @ new) - set (q @ new). set E `` {y} \<subseteq> set (seen @ new)"
      using "2.prems"(2) new by fastforce
  qed
  also have "\<dots> = (set E)\<^sup>* `` set seen"
  proof -
    have "x \<in> set seen" using "2.prems"(1) by simp
    then have "set new \<subseteq> (set E)\<^sup>* `` set seen" using new by auto
    then show ?thesis by (auto intro: rtrancl_trans)
  qed
  finally show ?case by (simp add: new_def Let_def closure_from.simps)
qed

lemma closure_of: "set (closure_from E [c] [c]) = {r. (c, r) \<in> (set E)\<^sup>*}"
  using closure_from_spec [of "[c]" "[c]" E] by auto

definition member_edges :: "auth_db \<Rightarrow> (string \<times> string) list" where
  "member_edges db = map (\<lambda>m. (ToLower (mb_member m), ToLower (mb_roleof m))) (memberships db)"

definition inherits :: "auth_db \<Rightarrow> string \<Rightarrow> bool" where
  "inherits db lowrole = list_ex (\<lambda>r. ToLower (rolname r) = lowrole \<and> rolinherit r \<noteq> 0) (roles db)"

definition inherit_edges :: "auth_db \<Rightarrow> (string \<times> string) list" where
  "inherit_edges db = filter (\<lambda>(m, _). inherits db m) (member_edges db)"

definition effectiveRoles :: "auth_db \<Rightarrow> string \<Rightarrow> string list" where
  "effectiveRoles db currentRole = closure_from (inherit_edges db) [ToLower currentRole] [ToLower currentRole]"

definition isMemberOf :: "auth_db \<Rightarrow> string \<Rightarrow> string \<Rightarrow> bool" where
  "isMemberOf db member target \<longleftrightarrow>
     ToLower target \<in> set (closure_from (member_edges db) [ToLower member] [ToLower member])"

definition hasAdminOption :: "auth_db \<Rightarrow> string \<Rightarrow> string \<Rightarrow> bool" where
  "hasAdminOption db currentRole target =
     list_ex (\<lambda>m. nocase_eq (mb_roleof m) target \<and> mb_admin m \<noteq> 0 \<and>
        ToLower (mb_member m) \<in> set (effectiveRoles db currentRole)) (memberships db)"

definition ownsTable :: "auth_db \<Rightarrow> string \<Rightarrow> string list \<Rightarrow> bool" where
  "ownsTable db table rs =
     list_ex (\<lambda>w. nocase_eq (ow_table w) table \<and> ToLower (ow_owner w) \<in> ToLower ` set rs) (owners db)"

definition hasPrivilege :: "auth_db \<Rightarrow> string \<Rightarrow> string \<Rightarrow> string \<Rightarrow> bool" where
  "hasPrivilege db currentRole table priv =
     (let rs = effectiveRoles db currentRole in
      if ownsTable db table rs then True
      else if priv = ''OWNER'' then False
      else list_ex (\<lambda>g. nocase_eq (gr_table g) table \<and>
              (ToUpper (gr_priv g) = ToUpper priv \<or> ToUpper (gr_priv g) = ''ALL'') \<and>
              ToLower (gr_grantee g) \<in> ToLower ` set (rs @ [''public''])) (grants db))"

section \<open>What the queries answer\<close>

lemma effectiveRoles_set:
  "set (effectiveRoles db cur) = {r. (ToLower cur, r) \<in> {(m, r'). (m, r') \<in> set (member_edges db) \<and> inherits db m}\<^sup>*}"
proof -
  have "set (inherit_edges db) = {(m, r'). (m, r') \<in> set (member_edges db) \<and> inherits db m}"
    by (auto simp: inherit_edges_def)
  then show ?thesis by (simp add: effectiveRoles_def closure_of)
qed

lemma isMemberOf_iff: "isMemberOf db m target \<longleftrightarrow> (ToLower m, ToLower target) \<in> (set (member_edges db))\<^sup>*"
  by (simp add: isMemberOf_def closure_of)


lemma ToLower_idem [simp]: "ToLower (ToLower x) = ToLower x"
proof -
  have "to_lower (to_lower c) = to_lower c" for c
    by (auto simp: to_lower_def is_upper_def)
  then show ?thesis by (simp add: ToLower_def)
qed

lemma member_edges_lower: "(x, y) \<in> set (member_edges db) \<Longrightarrow> ToLower y = y"
  by (auto simp: member_edges_def)

lemma effectiveRoles_lower:
  assumes "r \<in> set (effectiveRoles db cur)"
  shows "ToLower r = r"
proof -
  have "(ToLower cur, r) \<in> {(m, r'). (m, r') \<in> set (member_edges db) \<and> inherits db m}\<^sup>*"
    using assms effectiveRoles_set by blast
  then show ?thesis
    by (induction rule: rtrancl_induct) (auto dest: member_edges_lower)
qed

end
