(* ===== verification/Privileges.thy ===== *)
theory Privileges
  imports RoleTables
begin

text \<open>
  Checking a statement against the current role (\<open>privileges.go\<close>): the words of the statement, the
  tables it names, the privileges it needs, and the check with its cache of who bypasses it.
\<close>

section \<open>The tables of a statement\<close>

record tablePriv =
  tp_table :: string
  tp_priv :: string

record sqlword =
  w_text :: string
  w_quoted :: bool

text \<open>The inner loop over an identifier with its quoted parts: where it ends, and whether a part was quoted.\<close>

function word_end :: "string \<Rightarrow> bool \<Rightarrow> nat \<Rightarrow> nat \<times> bool" where
  "word_end sql quoted j =
     (if j < length sql then
        if sql ! j = CHR 0x22 then
          (let k = j + 1 + length (takeWhile (\<lambda>c. c \<noteq> CHR 0x22) (drop (j + 1) sql))
           in word_end sql True (if k < length sql then k + 1 else k))
        else if isIdentPart (sql ! j) \<or> sql ! j = CHR ''.'' then word_end sql quoted (j + 1)
        else (j, quoted)
      else (j, quoted))"
  by pat_completeness auto
termination by (relation "measure (\<lambda>(s, q, j). length s - j)") (auto simp: Let_def)

declare word_end.simps [simp del]

lemma word_end_ge: "j \<le> fst (word_end sql quoted j)"
proof (induction sql quoted j rule: word_end.induct)
  case (1 sql quoted j)
  let ?k = "j + 1 + length (takeWhile (\<lambda>c. c \<noteq> CHR 0x22) (drop (j + 1) sql))"
  show ?case
    using 1 by (subst word_end.simps) (force simp: Let_def)
qed

lemma word_end_starts:
  assumes "i < length sql" "sql ! i = CHR 0x22 \<or> isIdentStart (sql ! i) \<or> sql ! i = CHR ''.''"
  shows "i < fst (word_end sql False i)"
proof -
  let ?k = "i + 1 + length (takeWhile (\<lambda>c. c \<noteq> CHR 0x22) (drop (i + 1) sql))"
  have ge: "i < fst (word_end sql q m)" if "i < m" for q m
    using word_end_ge [of m sql q] that by linarith
  have "isIdentPart (sql ! i)" if "isIdentStart (sql ! i)"
    using that by (simp add: isIdentPart_def)
  then show ?thesis
    using assms ge by (subst word_end.simps) (auto simp: Let_def)
qed

function scanWords_from :: "string \<Rightarrow> nat \<Rightarrow> sqlword list" where
  "scanWords_from sql i =
     (if i < length sql then
        if sql ! i = CHR 0x27 then scanWords_from sql (endOfStringLiteral sql i)
        else if sql ! i = CHR ''('' then \<lparr>w_text = ''('', w_quoted = False\<rparr> # scanWords_from sql (i + 1)
        else if sql ! i = CHR 0x22 \<or> isIdentStart (sql ! i) \<or> sql ! i = CHR ''.'' then
          (let r = word_end sql False i
           in \<lparr>w_text = Scanner.slice sql i (fst r), w_quoted = snd r\<rparr> # scanWords_from sql (fst r))
        else scanWords_from sql (i + 1)
      else [])"
  by pat_completeness auto
termination
proof (relation "measure (\<lambda>(s, i). length s - i)", goal_cases)
  case (2 sql i)
  then show ?case using endOfStringLiteral_bounds(1) [of i sql] by auto
next
  case (4 sql i r)
  then show ?case using word_end_starts [of i sql] by auto
qed auto

definition scanWords :: "string \<Rightarrow> sqlword list" where
  "scanWords sql = scanWords_from sql 0"

definition sqlReserved :: "string list" where
  "sqlReserved = [''select'', ''where'', ''on'', ''using'', ''set'', ''values'', ''lateral'', ''only'', ''as'',
     ''group'', ''order'', ''limit'', ''returning'', ''natural'', ''left'', ''right'', ''inner'', ''outer'',
     ''full'', ''cross'', ''join'']"

definition tableName :: "sqlword \<Rightarrow> string option" where
  "tableName t =
     (if w_text t = [] \<or> hd (w_text t) = CHR ''('' then None
      else
       (let (schema0, name0) = (case CutByte (w_text t) (CHR ''.'') of Some (x, y) \<Rightarrow> (x, y) | None \<Rightarrow> ([], w_text t));
            name = Trim name0 [CHR 0x22]; schema = Trim schema0 [CHR 0x22]; low = ToLower name in
        if name = [] then None
        else if \<not> w_quoted t \<and> low \<in> set sqlReserved then None
        else if EqualFold schema ''pg_catalog'' \<or> EqualFold schema ''information_schema'' then None
        else if HasPrefix low ''pg_'' \<or> HasPrefix low ''sqlite_'' \<or> HasPrefix low ''_overlite'' \<or> low = ''information_schema''
        then None
        else Some name))"

fun tables_after :: "string list \<Rightarrow> string \<Rightarrow> string list \<Rightarrow> sqlword list \<Rightarrow> tablePriv list" where
  "tables_after kws p seen (t # n # toks) =
     (if ToLower (w_text t) \<notin> set kws \<or> w_quoted t then tables_after kws p seen (n # toks)
      else (case tableName n of
              None \<Rightarrow> tables_after kws p seen (n # toks)
            | Some name \<Rightarrow>
                if ToLower name \<in> set seen then tables_after kws p seen (n # toks)
                else \<lparr>tp_table = name, tp_priv = p\<rparr> # tables_after kws p (ToLower name # seen) (n # toks)))"
| "tables_after kws p seen _ = []"

definition tablesAfter :: "string \<Rightarrow> string list \<Rightarrow> string \<Rightarrow> tablePriv list" where
  "tablesAfter sql keywords p = tables_after keywords p [] (scanWords sql)"

definition truncateTables :: "string \<Rightarrow> tablePriv list" where
  "truncateTables sql =
     concat (map (\<lambda>t. if EqualFold (w_text t) ''table'' \<or> EqualFold (w_text t) ''only'' then []
                      else (case tableName t of Some name \<Rightarrow> [\<lparr>tp_table = name, tp_priv = ''TRUNCATE''\<rparr>] | None \<Rightarrow> []))
       (drop 1 (scanWords sql)))"

definition requiredPrivileges :: "string \<Rightarrow> tablePriv list" where
  "requiredPrivileges sql =
     (let w = firstWordUpper sql in
      if w = ''SELECT'' \<or> w = ''WITH'' \<or> w = ''TABLE'' then tablesAfter sql [''from'', ''join''] ''SELECT''
      else if w = ''INSERT'' then tablesAfter sql [''into''] ''INSERT''
      else if w = ''UPDATE'' then tablesAfter sql [''update''] ''UPDATE''
      else if w = ''DELETE'' then tablesAfter sql [''from''] ''DELETE''
      else if w = ''TRUNCATE'' then truncateTables sql
      else if (w = ''DROP'' \<or> w = ''ALTER'') \<and> EqualFold (secondWord sql) ''table''
        then tablesAfter sql [''table''] ''OWNER''
      else [])"

section \<open>The check\<close>

text \<open>A session's identity and its cache of which roles bypass the check.\<close>

record identity =
  authUser :: string
  sessionUser :: string
  currentRole :: string
  bypassCache :: "(string \<rightharpoonup> bool) option"

definition privBypass :: "auth_db \<Rightarrow> identity \<Rightarrow> bool \<times> identity" where
  "privBypass db s =
     (let cache = (case bypassCache s of Some c \<Rightarrow> c | None \<Rightarrow> Map.empty) in
      case cache (currentRole s) of
        Some x \<Rightarrow> (x, s\<lparr>bypassCache := Some cache\<rparr>)
      | None \<Rightarrow> (let x = roleBypasses db (currentRole s) in (x, s\<lparr>bypassCache := Some (cache(currentRole s \<mapsto> x))\<rparr>)))"

definition clearPrivCache :: "identity \<Rightarrow> identity" where
  "clearPrivCache s = s\<lparr>bypassCache := None\<rparr>"

definition privilege_error :: "string \<Rightarrow> string" where
  "privilege_error table = ''permission denied for table '' @ table"

fun first_missing :: "auth_db \<Rightarrow> string \<Rightarrow> tablePriv list \<Rightarrow> string option" where
  "first_missing db cur [] = None"
| "first_missing db cur (r # rs) =
     (if hasPrivilege db cur (tp_table r) (tp_priv r) then first_missing db cur rs
      else Some (privilege_error (tp_table r)))"

definition checkPrivileges :: "auth_db \<Rightarrow> string \<Rightarrow> identity \<Rightarrow> string option \<times> identity" where
  "checkPrivileges db sql s =
     (let reqs = requiredPrivileges sql in
      if reqs = [] then (None, s)
      else (case privBypass db s of
              (True, s') \<Rightarrow> (None, s')
            | (False, s') \<Rightarrow> (first_missing db (currentRole s) reqs, s')))"

section \<open>What the check decides\<close>

text \<open>The cache agrees with the role table. Role DDL of this session clears it; another session's does not.\<close>

definition cache_ok :: "auth_db \<Rightarrow> identity \<Rightarrow> bool" where
  "cache_ok db s \<longleftrightarrow> (\<forall>c r x. bypassCache s = Some c \<longrightarrow> c r = Some x \<longrightarrow> x = roleBypasses db r)"

lemma cache_ok_clear [simp]: "cache_ok db (clearPrivCache s)"
  by (simp add: cache_ok_def clearPrivCache_def)

lemma privBypass_ok:
  "cache_ok db s \<Longrightarrow> fst (privBypass db s) = roleBypasses db (currentRole s) \<and> cache_ok db (snd (privBypass db s))"
  by (auto simp: privBypass_def cache_ok_def Let_def split: option.splits)

lemma privBypass_role [simp]: "currentRole (snd (privBypass db s)) = currentRole s"
  by (simp add: privBypass_def Let_def split: option.splits)

lemma first_missing_None:
  "first_missing db cur reqs = None \<longleftrightarrow> (\<forall>r \<in> set reqs. hasPrivilege db cur (tp_table r) (tp_priv r))"
  by (induction reqs) auto

lemma first_missing_Some:
  "first_missing db cur reqs = Some e \<Longrightarrow>
     \<exists>xs r ys. reqs = xs @ r # ys \<and> (\<forall>x \<in> set xs. hasPrivilege db cur (tp_table x) (tp_priv x)) \<and>
        \<not> hasPrivilege db cur (tp_table r) (tp_priv r) \<and> e = privilege_error (tp_table r)"
proof (induction reqs)
  case (Cons r rs)
  show ?case
  proof (cases "hasPrivilege db cur (tp_table r) (tp_priv r)")
    case True
    then obtain xs r' ys where "rs = xs @ r' # ys" "\<forall>x \<in> set xs. hasPrivilege db cur (tp_table x) (tp_priv x)"
      "\<not> hasPrivilege db cur (tp_table r') (tp_priv r')" "e = privilege_error (tp_table r')"
      using Cons by auto
    with True show ?thesis by (intro exI [of _ "r # xs"] exI [of _ r'] exI [of _ ys]) simp
  next
    case False
    then show ?thesis using Cons.prems by (intro exI [of _ "[]"] exI [of _ r] exI [of _ rs]) simp
  qed
qed simp

text \<open>C7: The check lets a statement through exactly when it names no table it needs a privilege on, or the
  current role bypasses the check, or the role holds every privilege the statement needs; otherwise it
  reports the first table, in the statement's order, on which one is missing. The cache stays true.\<close>
theorem checkPrivileges_exact:
  assumes "cache_ok db s"
  shows "(fst (checkPrivileges db sql s) = None \<longleftrightarrow>
       requiredPrivileges sql = [] \<or> roleBypasses db (currentRole s) \<or>
       (\<forall>r \<in> set (requiredPrivileges sql). hasPrivilege db (currentRole s) (tp_table r) (tp_priv r))) \<and>
     (\<forall>e. fst (checkPrivileges db sql s) = Some e \<longrightarrow>
       (\<exists>xs r ys. requiredPrivileges sql = xs @ r # ys \<and>
          (\<forall>x \<in> set xs. hasPrivilege db (currentRole s) (tp_table x) (tp_priv x)) \<and>
          \<not> hasPrivilege db (currentRole s) (tp_table r) (tp_priv r) \<and>
          e = privilege_error (tp_table r))) \<and>
     cache_ok db (snd (checkPrivileges db sql s))"
proof (cases "requiredPrivileges sql = []")
  case True
  then show ?thesis using assms by (simp add: checkPrivileges_def)
next
  case False
  obtain x s' where p: "privBypass db s = (x, s')" by fastforce
  then have "x = roleBypasses db (currentRole s)" "cache_ok db s'"
    using privBypass_ok [OF assms] by auto
  with False p show ?thesis
    using first_missing_Some [of db "currentRole s" "requiredPrivileges sql"]
    by (cases x) (simp_all add: checkPrivileges_def Let_def first_missing_None)
qed

definition sample_db :: auth_db where
  "sample_db = \<lparr>roles = [(default_role ''bob'')\<lparr>rolcanlogin := 1\<rparr>], memberships = [],
     grants = [\<lparr>gr_grantee = ''bob'', gr_table = ''t'', gr_priv = ''SELECT''\<rparr>], owners = []\<rparr>"

definition bob :: identity where
  "bob = \<lparr>authUser = ''bob'', sessionUser = ''bob'', currentRole = ''bob'', bypassCache = None\<rparr>"

lemma bob_roles: "effectiveRoles sample_db ''bob'' = [''bob'']" "roleBypasses sample_db ''bob'' = False"
  by code_simp+

lemma bob_reads: "hasPrivilege sample_db ''bob'' ''t'' ''SELECT''" "\<not> hasPrivilege sample_db ''bob'' ''u'' ''SELECT''"
  by code_simp+

lemma sample_reqs:
  "requiredPrivileges ''select * from t join u on true'' =
     [\<lparr>tp_table = ''t'', tp_priv = ''SELECT''\<rparr>, \<lparr>tp_table = ''u'', tp_priv = ''SELECT''\<rparr>]"
  by code_simp

theorem checkPrivileges_exact_witness:
  "fst (checkPrivileges sample_db ''select * from t join u on true'' bob) = Some ''permission denied for table u''"
proof -
  have "cache_ok sample_db bob" by (simp add: cache_ok_def bob_def)
  note chk = checkPrivileges_exact [OF this, of "''select * from t join u on true''"]
  then have "fst (checkPrivileges sample_db ''select * from t join u on true'' bob) \<noteq> None"
    using bob_reads bob_roles sample_reqs by (simp add: bob_def)
  then obtain e where e: "fst (checkPrivileges sample_db ''select * from t join u on true'' bob) = Some e"
    by blast
  then obtain xs r ys where
    "requiredPrivileges ''select * from t join u on true'' = xs @ r # ys"
    "\<not> hasPrivilege sample_db ''bob'' (tp_table r) (tp_priv r)" "e = privilege_error (tp_table r)"
    using chk by (auto simp: bob_def)
  then have "e = ''permission denied for table u''"
    using bob_reads sample_reqs by (auto simp: Cons_eq_append_conv privilege_error_def)
  with e show ?thesis by simp
qed

text \<open>Names that are no tables: a common table expression and the FROM of \<open>extract\<close>.\<close>

lemma overchecked:
  "requiredPrivileges ''with c as (select 1) select * from c'' = [\<lparr>tp_table = ''c'', tp_priv = ''SELECT''\<rparr>]"
  "requiredPrivileges ''select extract(year from d)'' = [\<lparr>tp_table = ''d'', tp_priv = ''SELECT''\<rparr>]"
  by code_simp+

text \<open>Tables the statement reads and the check does not see.\<close>

lemma underchecked:
  "requiredPrivileges ''insert into t select * from secret'' = [\<lparr>tp_table = ''t'', tp_priv = ''INSERT''\<rparr>]"
  "requiredPrivileges ''update t set x = (select max(v) from secret)'' = [\<lparr>tp_table = ''t'', tp_priv = ''UPDATE''\<rparr>]"
  by code_simp+

end
