(* ===== verification/Grants.thy ===== *)
theory Grants
  imports Privileges
begin

text \<open>
  GRANT, REVOKE and table ownership (\<open>grants.go\<close>): the parsers of the two forms of the statement and
  the statements they send to the tables of \<open>RoleTables\<close>. A slice whose bounds cross panics in Go; the
  functions that cut a statement by the positions of its keywords return an option, \<open>None\<close> for the panic.
  The statements on the two tables violate no constraint, so only the handlers' own errors remain.
\<close>

section \<open>Parsing\<close>

text \<open>\<open>s[i:j]\<close>, with the panic of bounds that cross or leave the string.\<close>

definition cut :: "string \<Rightarrow> nat \<Rightarrow> nat \<Rightarrow> string option" where
  "cut s i j = (if i \<le> j \<and> j \<le> length s then Some (take (j - i) (drop i s)) else None)"

definition strip_tail :: "string \<Rightarrow> string \<Rightarrow> string" where
  "strip_tail s tail = (case Index (ToLower s) tail of Some k \<Rightarrow> take k s | None \<Rightarrow> s)"

definition splitPrivs :: "string \<Rightarrow> string list" where
  "splitPrivs spec =
     (let l = ToLower (TrimSpace spec) in
      if l = ''all'' \<or> l = ''all privileges'' \<or> l = [] then [''ALL'']
      else filter (\<lambda>p. p \<noteq> [])
        (map (\<lambda>p. let p = ToUpper (TrimSpace p) in
                 (case IndexByte p (CHR ''('') of Some i \<Rightarrow> TrimSpace (take i p) | None \<Rightarrow> p))
          (SplitByte spec (CHR '',''))))"

definition splitTables :: "string \<Rightarrow> string list" where
  "splitTables spec =
     List.map_filter (\<lambda>t. tableName \<lparr>w_text = TrimSpace t, w_quoted = False\<rparr>) (SplitByte spec (CHR '',''))"

definition grantee_of :: "string \<Rightarrow> string option" where
  "grantee_of g0 =
     (let g = TrimSpace (TrimPrefix (TrimPrefix (TrimSpace g0) ''GROUP '') ''group '') in
      if EqualFold g ''public'' then Some ''public''
      else (let g = Trim g [CHR 0x22] in if g = [] then None else Some g))"

definition splitGrantees :: "string \<Rightarrow> string list" where
  "splitGrantees spec = List.map_filter grantee_of (SplitByte spec (CHR '',''))"

definition spaces4 :: string where
  "spaces4 = [CHR '';'', CHR '' '', CHR 0x09, CHR 0x0A]"

definition not_a_table :: "string \<Rightarrow> bool" where
  "not_a_table lowObj \<longleftrightarrow>
     list_ex (HasPrefix lowObj) [''schema'', ''sequence'', ''database'', ''function'', ''all tables'', ''all '']"

text \<open>\<open>Some None\<close> is the form the function does not model (\<open>ok\<close> false).\<close>

definition parseGrant :: "string \<Rightarrow> bool \<Rightarrow> (string list \<times> string list \<times> string list) option option" where
  "parseGrant sql revoke =
     (let low = ToLower sql; sep = (if revoke then ''from'' else ''to'') in
      case indexWord low ''on'' of
        None \<Rightarrow> Some None
      | Some on \<Rightarrow>
          (case indexWord low sep of
             None \<Rightarrow> Some None
           | Some fromKw \<Rightarrow>
               if fromKw < on then Some None
               else
                 (case (cut sql (firstWordEnd sql) on, cut sql (on + 2) fromKw,
                        cut sql (fromKw + length sep) (length sql)) of
                    (Some privs0, Some obj0, Some who0) \<Rightarrow>
                      (let privSpec = TrimSpace privs0;
                           granteeSpec = fold (\<lambda>t g. strip_tail g t) ['' with grant option'', '' cascade'', '' restrict'']
                             (TrimRight (TrimSpace who0) spaces4);
                           objSpec = TrimSpace (TrimPrefix (TrimSpace (TrimPrefix (TrimSpace obj0) ''TABLE'')) ''table'') in
                       if not_a_table (ToLower objSpec) then Some None
                       else
                         (let privs = splitPrivs privSpec; tables = splitTables objSpec;
                              grantees = splitGrantees granteeSpec in
                          if privs = [] \<or> tables = [] \<or> grantees = [] then Some None
                          else Some (Some (privs, tables, grantees))))
                  | _ \<Rightarrow> None)))"

record roleGrant =
  rg_roles :: "string list"
  rg_members :: "string list"
  rg_admin :: bool
  rg_adminOnly :: bool

definition admin_option_for :: "string \<Rightarrow> string option" where
  "admin_option_for rolesSpec =
     (let rs = TrimSpace rolesSpec in
      if 15 \<le> length rs \<and> EqualFold (take 15 rs) ''admin option fo''
      then (case Index (ToLower rs) ''for'' of Some i \<Rightarrow> Some (drop (i + 3) rs) | None \<Rightarrow> None)
      else None)"

definition parseRoleGrant :: "string \<Rightarrow> bool \<Rightarrow> roleGrant option option" where
  "parseRoleGrant sql revoke =
     (let low = ToLower sql; sep = (if revoke then ''from'' else ''to'') in
      case indexWord low sep of
        None \<Rightarrow> Some None
      | Some sepIdx \<Rightarrow>
          (case (cut sql (firstWordEnd sql) sepIdx, cut sql (sepIdx + length sep) (length sql)) of
             (Some rolesSpec, Some memSpec) \<Rightarrow>
               (let withAdmin = Index (ToLower memSpec) ''with admin'';
                    memSpec = (case withAdmin of Some k \<Rightarrow> take k memSpec | None \<Rightarrow> memSpec);
                    forRole = admin_option_for rolesSpec;
                    rolesSpec = (case forRole of Some r \<Rightarrow> r | None \<Rightarrow> rolesSpec);
                    memSpec = TrimRight (fold (\<lambda>t g. strip_tail g t) ['' granted by'', '' cascade'', '' restrict''] memSpec)
                      spaces4;
                    rls = splitGrantees rolesSpec; mems = splitGrantees memSpec in
                if rls = [] \<or> mems = [] then Some None
                else Some (Some \<lparr>rg_roles = rls, rg_members = mems, rg_admin = (withAdmin \<noteq> None),
                     rg_adminOnly = (forRole \<noteq> None)\<rparr>))
           | _ \<Rightarrow> None))"

section \<open>Table grants\<close>

definition revoke_table :: "string \<Rightarrow> string \<Rightarrow> string \<Rightarrow> auth_db \<Rightarrow> auth_db" where
  "revoke_table tbl who priv db =
     db\<lparr>grants := filter (\<lambda>g. \<not> (nocase_eq (gr_grantee g) who \<and> nocase_eq (gr_table g) tbl \<and>
        (ToUpper (gr_priv g) = ToUpper priv \<or> ToUpper priv = ''ALL''))) (grants db)\<rparr>"

definition grant_table :: "string \<Rightarrow> string \<Rightarrow> string \<Rightarrow> auth_db \<Rightarrow> auth_db" where
  "grant_table tbl who priv db =
     db\<lparr>grants := filter (\<lambda>g. \<not> (nocase_eq (gr_grantee g) who \<and> nocase_eq (gr_table g) tbl \<and>
        ToUpper (gr_priv g) = ToUpper priv)) (grants db)
        @ [\<lparr>gr_grantee = who, gr_table = tbl, gr_priv = ToUpper priv\<rparr>]\<rparr>"

definition table_grants :: "bool \<Rightarrow> string list \<Rightarrow> string list \<Rightarrow> string list \<Rightarrow> auth_db \<Rightarrow> auth_db" where
  "table_grants revoke privs tables grantees db =
     fold (\<lambda>(tbl, who, priv). (if revoke then revoke_table else grant_table) tbl who priv)
       (concat (map (\<lambda>tbl. concat (map (\<lambda>who. map (\<lambda>priv. (tbl, who, priv)) privs) grantees)) tables)) db"

section \<open>Role membership\<close>

definition canGrantMembership :: "auth_db \<Rightarrow> string \<Rightarrow> string \<Rightarrow> bool" where
  "canGrantMembership db cur role \<longleftrightarrow> roleBypasses db cur \<or> hasAdminOption db cur role"

definition same_edge :: "string \<Rightarrow> string \<Rightarrow> membership \<Rightarrow> bool" where
  "same_edge mem role m \<longleftrightarrow> nocase_eq (mb_member m) mem \<and> nocase_eq (mb_roleof m) role"

text \<open>One role and one member: the inner loop's body, with its error.\<close>

definition grant_member :: "bool \<Rightarrow> roleGrant \<Rightarrow> string \<Rightarrow> string \<Rightarrow> auth_db \<Rightarrow> string + auth_db" where
  "grant_member revoke rg role mem db =
     (if revoke then
        (if rg_adminOnly rg
         then Inr (db\<lparr>memberships := map (\<lambda>m. if same_edge mem role m then m\<lparr>mb_admin := 0\<rparr> else m) (memberships db)\<rparr>)
         else Inr (db\<lparr>memberships := filter (\<lambda>m. \<not> same_edge mem role m) (memberships db)\<rparr>))
      else if \<not> roleExists db role then Inl (''role '' @ goQuote role @ '' does not exist'')
      else if \<not> roleExists db mem then Inl (''role '' @ goQuote mem @ '' does not exist'')
      else Inr (db\<lparr>memberships := filter (\<lambda>m. \<not> same_edge mem role m) (memberships db)
             @ [\<lparr>mb_member = mem, mb_roleof = role, mb_admin = (if rg_admin rg then 1 else 0)\<rparr>]\<rparr>))"

text \<open>An early return keeps the statements already sent.\<close>

fun grant_members :: "bool \<Rightarrow> roleGrant \<Rightarrow> string \<Rightarrow> string list \<Rightarrow> auth_db \<Rightarrow> string option \<times> auth_db" where
  "grant_members revoke rg role [] db = (None, db)"
| "grant_members revoke rg role (mem # mems) db =
     (case grant_member revoke rg role mem db of
        Inl e \<Rightarrow> (Some e, db)
      | Inr db' \<Rightarrow> grant_members revoke rg role mems db')"

fun grant_roles :: "bool \<Rightarrow> roleGrant \<Rightarrow> string \<Rightarrow> string list \<Rightarrow> auth_db \<Rightarrow> string option \<times> auth_db" where
  "grant_roles revoke rg cur [] db = (None, db)"
| "grant_roles revoke rg cur (role # rls) db =
     (if \<not> canGrantMembership db cur role then (Some (''must have admin option on role '' @ goQuote role), db)
      else (case grant_members revoke rg role (rg_members rg) db of
              (Some e, db') \<Rightarrow> (Some e, db')
            | (None, db') \<Rightarrow> grant_roles revoke rg cur rls db'))"

definition applyRoleGrant :: "string \<Rightarrow> bool \<Rightarrow> string \<Rightarrow> auth_db \<Rightarrow> (string option \<times> auth_db) option" where
  "applyRoleGrant sql revoke cur db =
     (case parseRoleGrant sql revoke of
        None \<Rightarrow> None
      | Some None \<Rightarrow> Some (None, db)
      | Some (Some rg) \<Rightarrow> Some (grant_roles revoke rg cur (rg_roles rg) db))"

definition applyGrant :: "string \<Rightarrow> string \<Rightarrow> auth_db \<Rightarrow> (string \<times> string option \<times> auth_db) option" where
  "applyGrant sql cur db =
     (let revoke = EqualFold (firstWordUpper sql) ''REVOKE''; tag = (if revoke then ''REVOKE'' else ''GRANT'') in
      if indexWord (ToLower sql) ''on'' = None then
        (case applyRoleGrant sql revoke cur db of None \<Rightarrow> None | Some (e, db') \<Rightarrow> Some (tag, e, db'))
      else (case parseGrant sql revoke of
              None \<Rightarrow> None
            | Some None \<Rightarrow> Some (tag, None, db)
            | Some (Some (privs, tables, grantees)) \<Rightarrow>
                Some (tag, None, table_grants revoke privs tables grantees db)))"

section \<open>Ownership\<close>

fun createdTableName :: "string list \<Rightarrow> string" where
  "createdTableName [] = []"
| "createdTableName (t # toks) =
     (if ToLower t = ''if'' \<or> ToLower t = ''not'' \<or> ToLower t = ''exists'' then createdTableName toks
      else
        (let raw = (case IndexAny t ''(;'' of Some i \<Rightarrow> take i t | None \<Rightarrow> t) in
         case tableName \<lparr>w_text = TrimSpace raw, w_quoted = False\<rparr> of Some name \<Rightarrow> name | None \<Rightarrow> []))"

definition set_owner :: "string \<Rightarrow> string \<Rightarrow> auth_db \<Rightarrow> auth_db" where
  "set_owner name owner db =
     db\<lparr>owners := filter (\<lambda>w. \<not> nocase_eq (ow_table w) name) (owners db) @ [\<lparr>ow_table = name, ow_owner = owner\<rparr>]\<rparr>"

definition forget_table :: "string \<Rightarrow> auth_db \<Rightarrow> auth_db" where
  "forget_table name db =
     db\<lparr>owners := filter (\<lambda>w. \<not> nocase_eq (ow_table w) name) (owners db),
        grants := filter (\<lambda>g. \<not> nocase_eq (gr_table g) name) (grants db)\<rparr>"

definition recordOwnership :: "string \<Rightarrow> string \<Rightarrow> auth_db \<Rightarrow> auth_db" where
  "recordOwnership sql cur db =
     (let f = Fields sql in
      if length f < 3 then db
      else if EqualFold (f ! 0) ''create'' \<and> EqualFold (f ! 1) ''table'' then
        (let name = createdTableName (drop 2 f) in if name \<noteq> [] then set_owner name cur db else db)
      else if EqualFold (f ! 0) ''drop'' \<and> EqualFold (f ! 1) ''table'' then
        (let name = createdTableName (drop 2 f) in if name \<noteq> [] then forget_table name db else db)
      else db)"

section \<open>What the two tables come to\<close>

text \<open>The grants as a set of triples, compared as the queries compare them.\<close>

definition grant_key :: "grant_row \<Rightarrow> string \<times> string \<times> string" where
  "grant_key g = (ToLower (gr_grantee g), ToLower (gr_table g), ToUpper (gr_priv g))"

definition granted :: "auth_db \<Rightarrow> (string \<times> string \<times> string) set" where
  "granted db = grant_key ` set (grants db)"

lemma ToUpper_idem [simp]: "ToUpper (ToUpper x) = ToUpper x"
proof -
  have "to_upper (to_upper c) = to_upper c" for c
    by (auto simp: to_upper_def is_lower_def)
  then show ?thesis by (simp add: ToUpper_def)
qed

lemma granted_grant_table:
  "granted (grant_table tbl who priv db) = insert (ToLower who, ToLower tbl, ToUpper priv) (granted db)"
  by (auto simp: granted_def grant_table_def grant_key_def nocase_eq_def image_iff)

lemma granted_revoke_table:
  "granted (revoke_table tbl who priv db) =
     granted db - {(w, t, p). w = ToLower who \<and> t = ToLower tbl \<and> (p = ToUpper priv \<or> ToUpper priv = ''ALL'')}"
  by (auto simp: granted_def revoke_table_def grant_key_def nocase_eq_def image_iff)

lemma in_granted:
  "(w, t, p) \<in> granted db \<longleftrightarrow>
     (\<exists>g \<in> set (grants db). ToLower (gr_grantee g) = w \<and> ToLower (gr_table g) = t \<and> ToUpper (gr_priv g) = p)"
  by (force simp: granted_def grant_key_def)

definition grant_triples :: "string list \<Rightarrow> string list \<Rightarrow> string list \<Rightarrow> (string \<times> string \<times> string) list" where
  "grant_triples privs tables grantees =
     concat (map (\<lambda>tbl. concat (map (\<lambda>who. map (\<lambda>priv. (tbl, who, priv)) privs) grantees)) tables)"

lemma set_grant_triples [simp]:
  "set (grant_triples privs tables grantees) = set tables \<times> set grantees \<times> set privs"
  by (auto simp: grant_triples_def)

lemma granted_fold_grant:
  "granted (fold (\<lambda>(tbl, who, priv). grant_table tbl who priv) ts db) =
     granted db \<union> (\<lambda>(t, w, p). (ToLower w, ToLower t, ToUpper p)) ` set ts"
  by (induction ts arbitrary: db) (auto simp: granted_grant_table)

lemma granted_fold_revoke:
  "granted (fold (\<lambda>(tbl, who, priv). revoke_table tbl who priv) ts db) =
     granted db - {(w, t, p). \<exists>(t', w', p') \<in> set ts. w = ToLower w' \<and> t = ToLower t' \<and>
        (p = ToUpper p' \<or> ToUpper p' = ''ALL'')}"
  by (induction ts arbitrary: db) (auto simp: granted_revoke_table)

lemma table_grants_fold:
  "table_grants revoke privs tables grantees db =
     (if revoke then fold (\<lambda>(tbl, who, priv). revoke_table tbl who priv) (grant_triples privs tables grantees) db
      else fold (\<lambda>(tbl, who, priv). grant_table tbl who priv) (grant_triples privs tables grantees) db)"
  by (simp add: table_grants_def grant_triples_def)

lemma fold_grant_others:
  "roles (fold (\<lambda>(tbl, who, priv). grant_table tbl who priv) ts db) = roles db"
  "memberships (fold (\<lambda>(tbl, who, priv). grant_table tbl who priv) ts db) = memberships db"
  "owners (fold (\<lambda>(tbl, who, priv). grant_table tbl who priv) ts db) = owners db"
  by (induction ts arbitrary: db) (auto simp: grant_table_def)

lemma fold_revoke_others:
  "roles (fold (\<lambda>(tbl, who, priv). revoke_table tbl who priv) ts db) = roles db"
  "memberships (fold (\<lambda>(tbl, who, priv). revoke_table tbl who priv) ts db) = memberships db"
  "owners (fold (\<lambda>(tbl, who, priv). revoke_table tbl who priv) ts db) = owners db"
  by (induction ts arbitrary: db) (auto simp: revoke_table_def)

lemma granted_table_grants:
  "granted (table_grants revoke privs tables grantees db) =
     (if revoke
      then granted db - {(w, t, p). w \<in> ToLower ` set grantees \<and> t \<in> ToLower ` set tables \<and>
             (p \<in> ToUpper ` set privs \<or> ''ALL'' \<in> ToUpper ` set privs)}
      else granted db \<union> (ToLower ` set grantees) \<times> (ToLower ` set tables) \<times> (ToUpper ` set privs))"
proof (cases revoke)
  case True
  have "(\<exists>(t', w', p') \<in> set tables \<times> set grantees \<times> set privs. w = ToLower w' \<and> t = ToLower t' \<and>
          (p = ToUpper p' \<or> ToUpper p' = ''ALL'')) \<longleftrightarrow>
        w \<in> ToLower ` set grantees \<and> t \<in> ToLower ` set tables \<and>
          (p \<in> ToUpper ` set privs \<or> ''ALL'' \<in> ToUpper ` set privs)" for w t p
    unfolding image_iff by (simp add: eq_commute [of "''ALL''"]) blast
  with True show ?thesis by (simp add: table_grants_fold granted_fold_revoke)
next
  case False
  have "(\<lambda>(t, w, p). (ToLower w, ToLower t, ToUpper p)) ` (set tables \<times> set grantees \<times> set privs) =
      (ToLower ` set grantees) \<times> (ToLower ` set tables) \<times> (ToUpper ` set privs)"
    by force
  with False show ?thesis by (simp add: table_grants_fold granted_fold_grant)
qed

lemma table_grants_others [simp]:
  "roles (table_grants revoke privs tables grantees db) = roles db"
  "memberships (table_grants revoke privs tables grantees db) = memberships db"
  "owners (table_grants revoke privs tables grantees db) = owners db"
  by (simp_all add: table_grants_fold fold_grant_others fold_revoke_others)

lemma effectiveRoles_cong:
  "roles db' = roles db \<Longrightarrow> memberships db' = memberships db \<Longrightarrow> effectiveRoles db' = effectiveRoles db"
  by (simp add: effectiveRoles_def inherit_edges_def member_edges_def inherits_def fun_eq_iff)

lemma hasPrivilege_granted:
  "hasPrivilege db cur tbl priv \<longleftrightarrow>
     ownsTable db tbl (effectiveRoles db cur) \<or>
     (priv \<noteq> ''OWNER'' \<and> (\<exists>w p. (w, ToLower tbl, p) \<in> granted db \<and> (p = ToUpper priv \<or> p = ''ALL'') \<and>
        (w \<in> set (effectiveRoles db cur) \<or> w = ''public'')))"
proof -
  have low: "ToLower ` set (effectiveRoles db cur) = set (effectiveRoles db cur)"
    using effectiveRoles_lower [of _ db cur] by force
  have pub: "ToLower ''public'' = ''public''" by code_simp
  have "hasPrivilege db cur tbl priv \<longleftrightarrow>
     ownsTable db tbl (effectiveRoles db cur) \<or>
     (priv \<noteq> ''OWNER'' \<and> (\<exists>g \<in> set (grants db). ToLower (gr_table g) = ToLower tbl \<and>
        (ToUpper (gr_priv g) = ToUpper priv \<or> ToUpper (gr_priv g) = ''ALL'') \<and>
        (ToLower (gr_grantee g) \<in> set (effectiveRoles db cur) \<or> ToLower (gr_grantee g) = ''public'')))"
    by (auto simp: hasPrivilege_def Let_def nocase_eq_def list_ex_iff low pub)
  moreover have "(\<exists>w p. (w, ToLower tbl, p) \<in> granted db \<and> (p = ToUpper priv \<or> p = ''ALL'') \<and>
        (w \<in> set (effectiveRoles db cur) \<or> w = ''public'')) \<longleftrightarrow>
     (\<exists>g \<in> set (grants db). ToLower (gr_table g) = ToLower tbl \<and>
        (ToUpper (gr_priv g) = ToUpper priv \<or> ToUpper (gr_priv g) = ''ALL'') \<and>
        (ToLower (gr_grantee g) \<in> set (effectiveRoles db cur) \<or> ToLower (gr_grantee g) = ''public''))"
    unfolding in_granted by blast
  ultimately show ?thesis by simp
qed

lemma self_effective: "ToLower cur \<in> set (effectiveRoles db cur)"
  by (simp add: effectiveRoles_set)

lemma applyGrant_parsed:
  assumes "parseGrant sql (EqualFold (firstWordUpper sql) ''REVOKE'') = Some (Some (privs, tables, grantees))"
  shows "\<exists>tag db'. applyGrant sql cur db = Some (tag, None, db') \<and>
     granted db' =
       (if EqualFold (firstWordUpper sql) ''REVOKE''
        then granted db - {(w, t, p). w \<in> ToLower ` set grantees \<and> t \<in> ToLower ` set tables \<and>
               (p \<in> ToUpper ` set privs \<or> ''ALL'' \<in> ToUpper ` set privs)}
        else granted db \<union> (ToLower ` set grantees) \<times> (ToLower ` set tables) \<times> (ToUpper ` set privs)) \<and>
     roles db' = roles db \<and> memberships db' = memberships db \<and> owners db' = owners db"
proof -
  have "indexWord (ToLower sql) ''on'' \<noteq> None"
  proof
    assume "indexWord (ToLower sql) ''on'' = None"
    then have "parseGrant sql r = Some None" for r by (simp add: parseGrant_def)
    with assms show False by simp
  qed
  then have "applyGrant sql cur db =
      Some (if EqualFold (firstWordUpper sql) ''REVOKE'' then ''REVOKE'' else ''GRANT'', None,
        table_grants (EqualFold (firstWordUpper sql) ''REVOKE'') privs tables grantees db)"
    using assms by (auto simp add: applyGrant_def Let_def)
  then show ?thesis by (auto simp: granted_table_grants)
qed

text \<open>C17: A GRANT or REVOKE on tables, once parsed, changes the set of grants by exactly the triples of its
  grantees, tables and privileges: a GRANT adds them, a REVOKE removes them (every privilege, when it
  names ALL), in whatever case and order the rows were recorded, and touches no other table. It never
  fails.\<close>
theorem applyGrant_tables:
  assumes "parseGrant sql (EqualFold (firstWordUpper sql) ''REVOKE'') = Some (Some (privs, tables, grantees))"
  shows "\<exists>tag db'. applyGrant sql cur db = Some (tag, None, db') \<and>
     granted db' =
       (if EqualFold (firstWordUpper sql) ''REVOKE''
        then granted db - {(w, t, p). w \<in> ToLower ` set grantees \<and> t \<in> ToLower ` set tables \<and>
               (p \<in> ToUpper ` set privs \<or> ''ALL'' \<in> ToUpper ` set privs)}
        else granted db \<union> (ToLower ` set grantees) \<times> (ToLower ` set tables) \<times> (ToUpper ` set privs)) \<and>
     roles db' = roles db \<and> memberships db' = memberships db \<and> owners db' = owners db"
  using applyGrant_parsed [OF assms] .

text \<open>What a GRANT names is held afterwards by the grantee, and by every role that inherits from it; the
  role that runs the GRANT plays no part, so a role can grant itself any privilege on any table.\<close>
theorem grant_takes_effect:
  assumes "\<not> EqualFold (firstWordUpper sql) ''REVOKE''"
    and "parseGrant sql False = Some (Some (privs, tables, grantees))"
    and "tbl \<in> set tables" "who \<in> set grantees" "priv \<in> set privs" "priv \<noteq> ''OWNER''"
    and "ToLower who \<in> set (effectiveRoles db role)"
  shows "\<exists>tag db'. applyGrant sql cur db = Some (tag, None, db') \<and> hasPrivilege db' role tbl priv"
proof -
  obtain tag db' where r: "applyGrant sql cur db = Some (tag, None, db')"
    "granted db' = granted db \<union> (ToLower ` set grantees) \<times> (ToLower ` set tables) \<times> (ToUpper ` set privs)"
    "roles db' = roles db" "memberships db' = memberships db"
    using applyGrant_parsed [of sql privs tables grantees cur db] assms(1,2) by auto
  have "(ToLower who, ToLower tbl, ToUpper priv) \<in> granted db'"
    using assms(3-5) r(2) by simp
  moreover have "ToLower who \<in> set (effectiveRoles db' role)"
    using assms(7) effectiveRoles_cong [OF r(3,4)] by simp
  ultimately have "hasPrivilege db' role tbl priv"
    using assms(6) unfolding hasPrivilege_granted by blast
  then show ?thesis using r(1) by blast
qed

text \<open>A privilege held through a recorded ALL survives a REVOKE that does not itself name ALL.\<close>
theorem revoke_spares_all:
  assumes "EqualFold (firstWordUpper sql) ''REVOKE''"
    and "parseGrant sql True = Some (Some (privs, tables, grantees))"
    and "''ALL'' \<notin> ToUpper ` set privs" "priv \<noteq> ''OWNER''"
    and "(ToLower who, ToLower tbl, ''ALL'') \<in> granted db"
  shows "\<exists>tag db'. applyGrant sql cur db = Some (tag, None, db') \<and> hasPrivilege db' who tbl priv"
proof -
  obtain tag db' where r: "applyGrant sql cur db = Some (tag, None, db')"
    "granted db' = granted db - {(w, t, p). w \<in> ToLower ` set grantees \<and> t \<in> ToLower ` set tables \<and>
               (p \<in> ToUpper ` set privs \<or> ''ALL'' \<in> ToUpper ` set privs)}"
    using applyGrant_parsed [of sql privs tables grantees cur db] assms(1,2) by auto
  then have "(ToLower who, ToLower tbl, ''ALL'') \<in> granted db'"
    using assms(3,5) by auto
  then have "hasPrivilege db' who tbl priv"
    using assms(4) self_effective unfolding hasPrivilege_granted by blast
  then show ?thesis using r(1) by blast
qed

section \<open>Witnesses\<close>

lemma sample_grant:
  "parseGrant ''GRANT UPDATE ON t TO bob'' False = Some (Some ([''UPDATE''], [''t''], [''bob'']))"
  "EqualFold (firstWordUpper ''GRANT UPDATE ON t TO bob'') ''REVOKE'' = False"
  by code_simp+

lemma sample_revoke:
  "parseGrant ''REVOKE SELECT ON t FROM bob'' True = Some (Some ([''SELECT''], [''t''], [''bob'']))"
  "EqualFold (firstWordUpper ''REVOKE SELECT ON t FROM bob'') ''REVOKE''"
  by code_simp+

theorem applyGrant_tables_witness:
  "\<exists>tag db'. applyGrant ''REVOKE SELECT ON t FROM bob'' ''bob'' sample_db = Some (tag, None, db') \<and> granted db' = {}"
proof -
  have g: "granted sample_db = {(''bob'', ''t'', ''SELECT'')}"
    by (simp add: granted_def grant_key_def sample_db_def) code_simp
  have "''SELECT'' \<in> ToUpper ` set [''SELECT'']" "''bob'' \<in> ToLower ` set [''bob'']" "''t'' \<in> ToLower ` set [''t'']"
    by code_simp+
  then show ?thesis
    using applyGrant_tables [of "''REVOKE SELECT ON t FROM bob''" "[''SELECT'']" "[''t'']" "[''bob'']" "''bob''" sample_db]
      sample_revoke g by force
qed

theorem grant_takes_effect_witness:
  "\<exists>tag db'. applyGrant ''GRANT UPDATE ON t TO bob'' ''bob'' sample_db = Some (tag, None, db') \<and>
     hasPrivilege db' ''bob'' ''t'' ''UPDATE''"
proof (rule grant_takes_effect [where who = "''bob''"])
  show "parseGrant ''GRANT UPDATE ON t TO bob'' False = Some (Some ([''UPDATE''], [''t''], [''bob'']))"
    by (rule sample_grant)
  show "ToLower ''bob'' \<in> set (effectiveRoles sample_db ''bob'')" by (rule self_effective)
qed (simp_all add: sample_grant)

definition all_db :: auth_db where
  "all_db = sample_db\<lparr>grants := [\<lparr>gr_grantee = ''bob'', gr_table = ''t'', gr_priv = ''ALL''\<rparr>]\<rparr>"

theorem revoke_spares_all_witness:
  "\<exists>tag db'. applyGrant ''REVOKE SELECT ON t FROM bob'' ''postgres'' all_db = Some (tag, None, db') \<and>
     hasPrivilege db' ''bob'' ''t'' ''SELECT''"
proof (rule revoke_spares_all)
  show "''ALL'' \<notin> ToUpper ` set [''SELECT'']" by code_simp
  show "(ToLower ''bob'', ToLower ''t'', ''ALL'') \<in> granted all_db"
    by (simp add: all_db_def granted_def grant_key_def) code_simp
qed (simp_all add: sample_revoke)

text \<open>A keyword inside the first word crosses the bounds of the slice before it.\<close>

lemma grant_first_word_panics: "applyGrant ''GRANT(a,on to b'' cur db = None"
proof -
  have "parseGrant ''GRANT(a,on to b'' False = None" "indexWord (ToLower ''GRANT(a,on to b'') ''on'' \<noteq> None"
    "EqualFold (firstWordUpper ''GRANT(a,on to b'') ''REVOKE'' = False"
    by code_simp+
  then show ?thesis by (auto simp: applyGrant_def)
qed

section \<open>Ownership follows CREATE and DROP TABLE\<close>

lemma ownsTable_set_owner:
  "ownsTable (set_owner name cur db) t rs \<longleftrightarrow>
     (if nocase_eq t name then ToLower cur \<in> ToLower ` set rs else ownsTable db t rs)"
  by (auto simp: ownsTable_def set_owner_def nocase_eq_def list_ex_iff)

lemma ownsTable_forget:
  "ownsTable (forget_table name db) t rs \<longleftrightarrow> \<not> nocase_eq t name \<and> ownsTable db t rs"
  by (auto simp: ownsTable_def forget_table_def nocase_eq_def list_ex_iff)

lemma granted_forget: "granted (forget_table name db) = granted db - {(w, t, p). t = ToLower name}"
  by (auto simp: granted_def forget_table_def grant_key_def nocase_eq_def)

text \<open>After CREATE TABLE the current role is the table's only owner, whoever owned it before (the
  statement may be a CREATE TABLE IF NOT EXISTS that found the table); after DROP TABLE nobody owns it and
  no grant on it is left. Either way no other table's owner or grants change.\<close>
theorem recordOwnership_effect:
  assumes "3 \<le> length (Fields sql)" "EqualFold (Fields sql ! 1) ''table''"
    and "createdTableName (drop 2 (Fields sql)) = name" "name \<noteq> []"
  shows "(EqualFold (Fields sql ! 0) ''create'' \<longrightarrow>
       granted (recordOwnership sql cur db) = granted db \<and>
       (\<forall>t rs. ownsTable (recordOwnership sql cur db) t rs \<longleftrightarrow>
          (if nocase_eq t name then ToLower cur \<in> ToLower ` set rs else ownsTable db t rs))) \<and>
     (EqualFold (Fields sql ! 0) ''drop'' \<longrightarrow>
       granted (recordOwnership sql cur db) = granted db - {(w, t, p). t = ToLower name} \<and>
       (\<forall>t rs. ownsTable (recordOwnership sql cur db) t rs \<longleftrightarrow> \<not> nocase_eq t name \<and> ownsTable db t rs))"
proof -
  have "\<not> (EqualFold x ''create'' \<and> EqualFold x ''drop'')" for x
  proof -
    have "ToLower ''create'' \<noteq> ToLower ''drop''" by code_simp
    then show ?thesis by (simp add: EqualFold_def)
  qed
  moreover have "recordOwnership sql cur db = set_owner name cur db" if "EqualFold (Fields sql ! 0) ''create''"
    using that assms by (simp add: recordOwnership_def Let_def)
  moreover have "recordOwnership sql cur db = forget_table name db"
    if "EqualFold (Fields sql ! 0) ''drop''" "\<not> EqualFold (Fields sql ! 0) ''create''"
    using that assms by (simp add: recordOwnership_def Let_def)
  moreover have "granted (set_owner name cur db) = granted db"
    by (simp add: granted_def set_owner_def)
  ultimately show ?thesis
    using ownsTable_set_owner ownsTable_forget granted_forget by metis
qed

definition owned_db :: auth_db where
  "owned_db = sample_db\<lparr>owners := [\<lparr>ow_table = ''t'', ow_owner = ''alice''\<rparr>]\<rparr>"

theorem recordOwnership_effect_witness:
  "ownsTable owned_db ''t'' [''alice''] \<and>
   \<not> ownsTable (recordOwnership ''create table if not exists t (x int)'' ''bob'' owned_db) ''t'' [''alice''] \<and>
   ownsTable (recordOwnership ''create table if not exists t (x int)'' ''bob'' owned_db) ''t'' [''bob'']"
proof -
  let ?q = "''create table if not exists t (x int)''"
  have q: "3 \<le> length (Fields ?q)" "EqualFold (Fields ?q ! 1) ''table''" "EqualFold (Fields ?q ! 0) ''create''"
    "createdTableName (drop 2 (Fields ?q)) = ''t''"
    by code_simp+
  have "ToLower ''bob'' \<in> ToLower ` set [''bob'']" "ToLower ''bob'' \<notin> ToLower ` set [''alice'']"
    "nocase_eq ''t'' ''t''" "ownsTable owned_db ''t'' [''alice'']"
    by code_simp+
  then show ?thesis
    using recordOwnership_effect [of ?q "''t''" "''bob''" owned_db] q by auto
qed

end
