(* ===== verification/Sha256.thy ===== *)
theory Sha256
  imports GoStrings "HOL-Library.Word"
begin

unbundle bit_operations_syntax

text \<open>
  The parts of Go's standard library that SCRAM rests on, on byte strings: SHA-256
  (\<open>crypto/sha256\<close>), HMAC (\<open>crypto/hmac\<close>) and base64 (\<open>encoding/base64\<close>, standard alphabet). What
  the proofs use of the hash is only the length of its result; base64 is shown to be undone by its
  decoder and to stay inside its alphabet.
\<close>

section \<open>SHA-256\<close>

text \<open>The fractional parts of the cube roots of the first 64 primes and of the square roots of the first
  eight, to 32 bits, in decimal.\<close>

definition K256 :: "32 word list" where
  "K256 = [1116352408, 1899447441, 3049323471, 3921009573, 961987163, 1508970993, 2453635748, 2870763221,
     3624381080, 310598401, 607225278, 1426881987, 1925078388, 2162078206, 2614888103, 3248222580,
     3835390401, 4022224774, 264347078, 604807628, 770255983, 1249150122, 1555081692, 1996064986,
     2554220882, 2821834349, 2952996808, 3210313671, 3336571891, 3584528711, 113926993, 338241895,
     666307205, 773529912, 1294757372, 1396182291, 1695183700, 1986661051, 2177026350, 2456956037,
     2730485921, 2820302411, 3259730800, 3345764771, 3516065817, 3600352804, 4094571909, 275423344,
     430227734, 506948616, 659060556, 883997877, 958139571, 1322822218, 1537002063, 1747873779,
     1955562222, 2024104815, 2227730452, 2361852424, 2428436474, 2756734187, 3204031479, 3329325298]"

definition H256 :: "32 word list" where
  "H256 = [1779033703, 3144134277, 1013904242, 2773480762,
     1359893119, 2600822924, 528734635, 1541459225]"

definition sha_bytes :: "nat \<Rightarrow> nat \<Rightarrow> string" where
  "sha_bytes n v = map (\<lambda>i. char_of (v div 256 ^ (n - 1 - i))) [0..<n]"

definition pad256 :: "string \<Rightarrow> string" where
  "pad256 m = m @ CHR 0x80 # replicate ((119 - length m mod 64) mod 64) (CHR 0x00) @ sha_bytes 8 (8 * length m)"

definition word_be :: "string \<Rightarrow> 32 word" where
  "word_be s = of_nat (foldl (\<lambda>a c. 256 * a + code c) 0 s)"

function chunks :: "nat \<Rightarrow> 'a list \<Rightarrow> 'a list list" where
  "chunks n xs = (if xs = [] \<or> n = 0 then [] else take n xs # chunks n (drop n xs))"
  by pat_completeness auto
termination by (relation "measure (\<lambda>(n, xs). length xs)") auto

definition schedule :: "32 word list \<Rightarrow> 32 word list" where
  "schedule w0 =
     foldl (\<lambda>w t.
       (let x = w ! (t - 15); y = w ! (t - 2);
            s0 = word_rotr 7 x XOR word_rotr 18 x XOR drop_bit 3 x;
            s1 = word_rotr 17 y XOR word_rotr 19 y XOR drop_bit 10 y
        in w @ [w ! (t - 16) + s0 + w ! (t - 7) + s1])) w0 [16..<64]"

type_synonym regs = "32 word \<times> 32 word \<times> 32 word \<times> 32 word \<times> 32 word \<times> 32 word \<times> 32 word \<times> 32 word"

definition round256 :: "regs \<Rightarrow> 32 word \<times> 32 word \<Rightarrow> regs" where
  "round256 r kw =
     (case r of (a, b, c, d, e, f, g, h) \<Rightarrow>
       (let s1 = word_rotr 6 e XOR word_rotr 11 e XOR word_rotr 25 e;
            ch = (e AND f) XOR (NOT e AND g);
            t1 = h + s1 + ch + fst kw + snd kw;
            s0 = word_rotr 2 a XOR word_rotr 13 a XOR word_rotr 22 a;
            maj = (a AND b) XOR (a AND c) XOR (b AND c)
        in (t1 + s0 + maj, a, b, c, d + t1, e, f, g)))"

definition block256 :: "32 word list \<Rightarrow> string \<Rightarrow> 32 word list" where
  "block256 hs blk =
     (case foldl round256 (hs ! 0, hs ! 1, hs ! 2, hs ! 3, hs ! 4, hs ! 5, hs ! 6, hs ! 7)
             (zip K256 (schedule (map word_be (chunks 4 blk)))) of
        (a, b, c, d, e, f, g, h) \<Rightarrow> map2 (+) hs [a, b, c, d, e, f, g, h])"

definition Sum256 :: "string \<Rightarrow> string" where
  "Sum256 m = concat (map (\<lambda>w. sha_bytes 4 (unat w)) (foldl block256 H256 (chunks 64 (pad256 m))))"

lemma length_sha_bytes [simp]: "length (sha_bytes n v) = n"
  by (simp add: sha_bytes_def)

lemma length_block256: "length hs = 8 \<Longrightarrow> length (block256 hs blk) = 8"
  by (simp add: block256_def case_prod_beta)

lemma length_blocks: "length hs = 8 \<Longrightarrow> length (foldl block256 hs bs) = 8"
  by (induction bs arbitrary: hs) (simp_all add: length_block256)

lemma length_Sum256 [simp]: "length (Sum256 m) = 32"
proof -
  have "length (foldl block256 H256 (chunks 64 (pad256 m))) = 8"
    by (rule length_blocks) (simp add: H256_def)
  then show ?thesis by (simp add: Sum256_def length_concat comp_def sum_list_triv)
qed

section \<open>HMAC\<close>

definition xor_char :: "char \<Rightarrow> char \<Rightarrow> char" where
  "xor_char a b = char_of ((code a) XOR (code b))"

definition xor_bytes :: "string \<Rightarrow> string \<Rightarrow> string" where
  "xor_bytes a b = map2 xor_char a b"

lemma xor_char_twice [simp]: "xor_char (xor_char a b) b = a"
proof -
  have "code a < 2 ^ 8" "code b < 2 ^ 8" using nat_of_char_less_256 [of a] nat_of_char_less_256 [of b] by simp_all
  then have "take_bit 8 (code a XOR code b) = code a XOR code b"
    by (simp add: take_bit_xor take_bit_nat_eq_self)
  then have "code a XOR code b < 2 ^ 8" by (metis take_bit_nat_less_exp)
  then show ?thesis by (simp add: xor_char_def xor.assoc)
qed

lemma length_xor_bytes [simp]: "length (xor_bytes a b) = min (length a) (length b)"
  by (simp add: xor_bytes_def)

lemma xor_bytes_twice: "length a = length b \<Longrightarrow> xor_bytes (xor_bytes a b) b = a"
  by (induction a b rule: list_induct2) (simp_all add: xor_bytes_def)

definition hmac_key :: "string \<Rightarrow> string" where
  "hmac_key key = (let k = (if 64 < length key then Sum256 key else key) in k @ replicate (64 - length k) (CHR 0x00))"

definition hmacSHA256 :: "string \<Rightarrow> string \<Rightarrow> string" where
  "hmacSHA256 key msg =
     (let k = hmac_key key; ipad = map (xor_char (CHR 0x36)) k; opad = map (xor_char (CHR 0x5C)) k
      in Sum256 (opad @ Sum256 (ipad @ msg)))"

lemma length_hmacSHA256 [simp]: "length (hmacSHA256 key msg) = 32"
  by (simp add: hmacSHA256_def Let_def)

section \<open>Base64\<close>

definition b64_char :: "nat \<Rightarrow> char" where
  "b64_char n = (''ABCDEFGHIJKLMNOPQRSTUVWXYZabcdefghijklmnopqrstuvwxyz0123456789+/'') ! n"

fun index_of :: "'a \<Rightarrow> 'a list \<Rightarrow> nat option" where
  "index_of x [] = None"
| "index_of x (y # ys) = (if x = y then Some 0 else map_option Suc (index_of x ys))"

definition b64_alphabet :: string where
  "b64_alphabet = ''ABCDEFGHIJKLMNOPQRSTUVWXYZabcdefghijklmnopqrstuvwxyz0123456789+/''"

definition b64_val :: "char \<Rightarrow> nat option" where
  "b64_val c = index_of c b64_alphabet"

fun EncodeToString :: "string \<Rightarrow> string" where
  "EncodeToString [] = []"
| "EncodeToString [a] =
     (let v = code a * 16 in [b64_char (v div 64), b64_char (v mod 64), CHR ''='', CHR ''=''])"
| "EncodeToString [a, b] =
     (let v = (code a * 256 + code b) * 4
      in [b64_char (v div 4096), b64_char (v div 64 mod 64), b64_char (v mod 64), CHR ''=''])"
| "EncodeToString (a # b # c # rest) =
     (let v = code a * 65536 + code b * 256 + code c
      in b64_char (v div 262144) # b64_char (v div 4096 mod 64) # b64_char (v div 64 mod 64)
           # b64_char (v mod 64) # EncodeToString rest)"

fun decode_quads :: "string \<Rightarrow> string option" where
  "decode_quads [] = Some []"
| "decode_quads (c1 # c2 # c3 # c4 # rest) =
     (case (b64_val c1, b64_val c2) of
        (Some v1, Some v2) \<Rightarrow>
          if c3 = CHR ''='' then
            (if c4 = CHR ''='' \<and> rest = [] then Some [char_of ((v1 * 64 + v2) div 16)] else None)
          else (case b64_val c3 of
                  None \<Rightarrow> None
                | Some v3 \<Rightarrow>
                    if c4 = CHR ''='' then
                      (if rest = [] then (let v = ((v1 * 64 + v2) * 64 + v3) div 4
                                          in Some [char_of (v div 256), char_of v]) else None)
                    else (case (b64_val c4, decode_quads rest) of
                            (Some v4, Some bs) \<Rightarrow>
                              (let v = ((v1 * 64 + v2) * 64 + v3) * 64 + v4
                               in Some (char_of (v div 65536) # char_of (v div 256) # char_of v # bs))
                          | _ \<Rightarrow> None))
      | _ \<Rightarrow> None)"
| "decode_quads _ = None"

definition DecodeString :: "string \<Rightarrow> string option" where
  "DecodeString s = decode_quads (filter (\<lambda>c. c \<noteq> CHR 0x0A \<and> c \<noteq> CHR 0x0D) s)"

lemma index_of_nth: "distinct xs \<Longrightarrow> n < length xs \<Longrightarrow> index_of (xs ! n) xs = Some n"
  by (induction xs arbitrary: n) (auto simp: nth_Cons split: nat.splits)

lemma b64_alphabet_facts: "distinct b64_alphabet" "length b64_alphabet = 64"
  by (simp_all add: b64_alphabet_def)

lemma b64_char_alphabet: "b64_char n = b64_alphabet ! n"
  by (simp add: b64_char_def b64_alphabet_def)

lemma b64_val_char [simp]: "n < 64 \<Longrightarrow> b64_val (b64_char n) = Some n"
  by (simp add: b64_val_def b64_char_alphabet index_of_nth b64_alphabet_facts)

lemma b64_char_in: "n < 64 \<Longrightarrow> b64_char n \<in> set b64_alphabet"
  by (simp add: b64_char_alphabet b64_alphabet_facts)

lemma b64_alphabet_excludes:
  "CHR ''='' \<notin> set b64_alphabet" "CHR '','' \<notin> set b64_alphabet" "CHR 0x0A \<notin> set b64_alphabet"
  "CHR 0x0D \<notin> set b64_alphabet" "CHR ''$'' \<notin> set b64_alphabet" "CHR '':'' \<notin> set b64_alphabet"
  by (simp_all add: b64_alphabet_def)

lemma b64_char_ne_eq [simp]: "n < 64 \<Longrightarrow> b64_char n \<noteq> CHR ''=''"
  using b64_char_in b64_alphabet_excludes(1) by metis

lemma code_lt [simp]: "code c < 256"
  by (rule nat_of_char_less_256)

lemma b64_bound2: "x < 256 \<Longrightarrow> y < 256 \<Longrightarrow> (x * 256 + y) * 4 div 4096 < (64 :: nat)"
  by (rule less_mult_imp_div_less) simp

lemma b64_join2: "(v div 4096 * 64 + v div 64 mod 64) * 64 + v mod 64 = (v :: nat)"
proof -
  have "v div 4096 = v div 64 div 64" by (simp add: div_mult2_eq)
  then show ?thesis by simp
qed

lemma b64_join3: "((v div 262144 * 64 + v div 4096 mod 64) * 64 + v div 64 mod 64) * 64 + v mod 64 = (v :: nat)"
proof -
  have "v div 262144 = v div 64 div 4096" "v div 4096 = v div 64 div 64" by (simp_all flip: div_mult2_eq)
  then show ?thesis using b64_join2 [of "v div 64"] by simp
qed

lemma char_of_code: "n mod 256 = code c \<Longrightarrow> char_of n = c"
  by (metis char_of_mod_256 char_of_char)

lemma bytes3:
  assumes "x < 256" "y < 256" "z < (256 :: nat)"
  shows "(x * 65536 + y * 256 + z) div 262144 < 64 \<and> (x * 65536 + y * 256 + z) div 65536 mod 256 = x \<and>
    (x * 65536 + y * 256 + z) div 256 mod 256 = y \<and> (x * 65536 + y * 256 + z) mod 256 = z"
proof -
  let ?v = "x * 65536 + y * 256 + z"
  have v: "?v = (x * 256 + y) * 256 + z" by simp
  have w: "(w * 256 + z) div 256 = w" "(w * 256 + z) mod 256 = z" for w using assms(3) by simp_all
  have "?v div 256 = x * 256 + y" "?v mod 256 = z" unfolding v by (rule w)+
  moreover have "?v div 65536 = ?v div 256 div 256" by (simp flip: div_mult2_eq)
  moreover have "?v div 262144 < 64" by (rule less_mult_imp_div_less) (use assms in simp)
  ultimately show ?thesis using assms(1,2) by simp
qed

lemma decode_two:
  "v div 4096 < 64 \<Longrightarrow>
   decode_quads [b64_char (v div 4096), b64_char (v div 64 mod 64), b64_char (v mod 64), CHR ''=''] =
   Some [char_of (v div 4 div 256), char_of (v div 4)]"
  using b64_join2 [of v] by (simp add: Let_def)

lemma decode_three:
  "v div 262144 < 64 \<Longrightarrow>
   decode_quads (b64_char (v div 262144) # b64_char (v div 4096 mod 64) # b64_char (v div 64 mod 64) # b64_char (v mod 64) # rest) =
   map_option (\<lambda>bs. char_of (v div 65536) # char_of (v div 256) # char_of v # bs) (decode_quads rest)"
  using b64_join3 [of v] by (cases "decode_quads rest") (simp_all add: Let_def)

lemma decode_quads_Encode: "decode_quads (EncodeToString bs) = Some bs"
proof (induction bs rule: EncodeToString.induct)
  case (2 a)
  have "code a * 16 div 64 < 64" "code a * 16 mod 64 < 64" using code_lt [of a] by linarith+
  moreover have "code a * 16 div 64 * 64 + code a * 16 mod 64 = code a * 16" by (rule div_mult_mod_eq)
  then have "(code a * 16 div 64 * 64 + code a * 16 mod 64) div 16 = code a" by simp
  ultimately show ?case by (simp add: Let_def)
next
  case (3 a b)
  define v where "v = (code a * 256 + code b) * 4"
  have "v div 4 = code a * 256 + code b" by (simp add: v_def)
  then have "char_of (v div 4 div 256) = a" "char_of (v div 4) = b"
    using code_lt [of b] by (auto intro!: char_of_code)
  moreover have "v div 4096 < 64" unfolding v_def by (rule b64_bound2) (rule code_lt)+
  moreover have "EncodeToString [a, b] = [b64_char (v div 4096), b64_char (v div 64 mod 64), b64_char (v mod 64), CHR ''='']"
    by (simp only: EncodeToString.simps Let_def v_def)
  ultimately show ?case using decode_two [of v] by (simp only:)
next
  case (4 a b c rest)
  define v where "v = code a * 65536 + code b * 256 + code c"
  have "v div 262144 < 64" "v div 65536 mod 256 = code a" "v div 256 mod 256 = code b" "v mod 256 = code c"
    unfolding v_def using bytes3 [OF code_lt code_lt code_lt] by blast+
  then have "char_of (v div 65536) = a" "char_of (v div 256) = b" "char_of v = c" "v div 262144 < 64"
    using char_of_code by blast+
  moreover have "EncodeToString (a # b # c # rest) = b64_char (v div 262144) # b64_char (v div 4096 mod 64) #
      b64_char (v div 64 mod 64) # b64_char (v mod 64) # EncodeToString rest"
    by (simp only: EncodeToString.simps Let_def v_def)
  ultimately show ?case using decode_three [of v "EncodeToString rest"] 4 by (simp only: option.map)
qed simp

lemma Encode_alphabet: "x \<in> set (EncodeToString bs) \<Longrightarrow> x \<in> set b64_alphabet \<or> x = CHR ''=''"
proof (induction bs rule: EncodeToString.induct)
  case (2 a)
  have "code a * 16 div 64 < 64" using code_lt [of a] by linarith
  then show ?case using 2 b64_char_in by (auto simp: Let_def)
next
  case (3 a b)
  have "(code a * 256 + code b) * 4 div 4096 < 64"
    by (rule b64_bound2) (rule code_lt)+
  then show ?case using 3 b64_char_in by (auto simp: Let_def)
next
  case (4 a b c rest)
  have "(code a * 65536 + code b * 256 + code c) div 262144 < 64"
    using code_lt [of a] code_lt [of b] code_lt [of c] by linarith
  then show ?case using 4 b64_char_in by (auto simp: Let_def)
qed simp

lemma DecodeString_Encode [simp]: "DecodeString (EncodeToString bs) = Some bs"
proof -
  have "filter (\<lambda>c. c \<noteq> CHR 0x0A \<and> c \<noteq> CHR 0x0D) (EncodeToString bs) = EncodeToString bs"
    using Encode_alphabet [of _ bs] b64_alphabet_excludes by (intro filter_True) auto
  then show ?thesis by (simp add: DecodeString_def decode_quads_Encode)
qed

lemma Encode_no_separators [simp]:
  "CHR '','' \<notin> set (EncodeToString bs)" "CHR ''$'' \<notin> set (EncodeToString bs)" "CHR '':'' \<notin> set (EncodeToString bs)"
  using Encode_alphabet [of _ bs] b64_alphabet_excludes by auto

lemma Encode_inj: "EncodeToString x = EncodeToString y \<longleftrightarrow> x = y"
  by (metis DecodeString_Encode option.inject)

end
