(* ===== verification/Scram.thy ===== *)
theory Scram
  imports WireFormat Sha256
begin

text \<open>
  SCRAM-SHA-256 (\<open>scram.go\<close>): verifiers, their stored form, and the server's side of the exchange. The
  random salt and nonce bytes are arguments; the client is what it answers to the server's first
  message. Flushing and connection errors are not modelled.
\<close>

section \<open>Verifiers\<close>

definition scramIterations :: int where
  "scramIterations = 4096"

record scramVerifier =
  iter :: int
  salt :: string
  storedKey :: string
  serverKey :: string

text \<open>The loop of \<open>pbkdf2SHA256\<close> from its second turn on.\<close>

fun pbkdf2_loop :: "nat \<Rightarrow> string \<Rightarrow> string \<Rightarrow> string \<Rightarrow> string" where
  "pbkdf2_loop 0 pw u t = t"
| "pbkdf2_loop (Suc n) pw u t = (let u' = hmacSHA256 pw u in pbkdf2_loop n pw u' (xor_bytes t u'))"

definition pbkdf2_block :: "string \<Rightarrow> string \<Rightarrow> int \<Rightarrow> nat \<Rightarrow> string" where
  "pbkdf2_block pw slt n block =
     (let u = hmacSHA256 pw (slt @ i32 (int block)) in pbkdf2_loop (nat (n - 1)) pw u u)"

definition pbkdf2SHA256 :: "string \<Rightarrow> string \<Rightarrow> int \<Rightarrow> nat \<Rightarrow> string" where
  "pbkdf2SHA256 pw slt n keyLen =
     take keyLen (concat (map (pbkdf2_block pw slt n) [1..<Suc ((keyLen + 31) div 32)]))"

definition deriveVerifier :: "string \<Rightarrow> string \<Rightarrow> int \<Rightarrow> scramVerifier" where
  "deriveVerifier password slt n =
     (let salted = pbkdf2SHA256 password slt n 32; clientKey = hmacSHA256 salted ''Client Key'' in
      \<lparr>iter = n, salt = slt, storedKey = Sum256 clientKey, serverKey = hmacSHA256 salted ''Server Key''\<rparr>)"

definition verifier_text :: "scramVerifier \<Rightarrow> string" where
  "verifier_text v =
     ''SCRAM-SHA-256$'' @ FormatInt (iter v) @ '':'' @ EncodeToString (salt v) @ ''$'' @
     EncodeToString (storedKey v) @ '':'' @ EncodeToString (serverKey v)"

definition buildSCRAMVerifier :: "string \<Rightarrow> string \<Rightarrow> string" where
  "buildSCRAMVerifier random password = verifier_text (deriveVerifier password random scramIterations)"

definition parseSCRAMVerifier :: "string \<Rightarrow> scramVerifier option" where
  "parseSCRAMVerifier s =
     (if \<not> HasPrefix s ''SCRAM-SHA-256$'' then None
      else (case CutByte (drop 14 s) (CHR ''$'') of
        None \<Rightarrow> None
      | Some (saltPart, keyPart) \<Rightarrow>
          (case (CutByte saltPart (CHR '':''), CutByte keyPart (CHR '':'')) of
             (Some (iterStr, saltB64), Some (storedB64, serverB64)) \<Rightarrow>
               (case ParseInt iterStr of
                  None \<Rightarrow> None
                | Some n \<Rightarrow>
                    (case (DecodeString saltB64, DecodeString storedB64, DecodeString serverB64) of
                       (Some slt, Some stored, Some server) \<Rightarrow>
                         Some \<lparr>iter = n, salt = slt, storedKey = stored, serverKey = server\<rparr>
                     | _ \<Rightarrow> None))
           | _ \<Rightarrow> None)))"

definition verifies :: "scramVerifier \<Rightarrow> string \<Rightarrow> bool" where
  "verifies v password \<longleftrightarrow> storedKey (deriveVerifier password (salt v) (iter v)) = storedKey v"

record credential =
  plaintext :: string
  scram :: "scramVerifier option"

definition cred_matches :: "credential \<Rightarrow> string \<Rightarrow> bool" where
  "cred_matches cred password =
     (case scram cred of Some v \<Rightarrow> verifies v password | None \<Rightarrow> password = plaintext cred)"

section \<open>Messages\<close>

definition scramBare :: "string \<Rightarrow> string" where
  "scramBare clientFirst =
     (case IndexByte clientFirst (CHR '','') of
        None \<Rightarrow> clientFirst
      | Some i1 \<Rightarrow>
          (case IndexByte (drop (i1 + 1) clientFirst) (CHR '','') of
             None \<Rightarrow> clientFirst
           | Some i2 \<Rightarrow> drop (i1 + 1 + i2 + 1) clientFirst))"

definition LastIndex :: "string \<Rightarrow> string \<Rightarrow> nat option" where
  "LastIndex s p = map_option (\<lambda>i. length s - i - length p) (Index (rev s) (rev p))"

definition scramWithoutProof :: "string \<Rightarrow> string" where
  "scramWithoutProof clientFinal =
     (case LastIndex clientFinal '',p='' of Some i \<Rightarrow> take i clientFinal | None \<Rightarrow> clientFinal)"

fun attr_of :: "string list \<Rightarrow> string \<Rightarrow> string" where
  "attr_of [] key = []"
| "attr_of (part # ps) key =
     (if HasPrefix part (key @ ''='') then drop (length key + 1) part else attr_of ps key)"

definition scramAttr :: "string \<Rightarrow> string \<Rightarrow> string" where
  "scramAttr msg key = attr_of (SplitByte msg (CHR '','')) key"

text \<open>\<open>randomNonce\<close> encodes 18 random bytes without padding, which 18 bytes never need.\<close>

definition randomNonce :: "string \<Rightarrow> string" where
  "randomNonce random = TrimRight (EncodeToString random) ''=''"

section \<open>The exchange\<close>

datatype auth_error = Refused string | AuthFailed | Protocol string

definition authSASL :: string where
  "authSASL = i32 10 @ appendCString [] ''SCRAM-SHA-256'' @ [CHR 0x00]"

definition client_first :: "char \<Rightarrow> string \<Rightarrow> auth_error + (string \<times> string)" where
  "client_first typ body =
     (if typ \<noteq> CHR ''p'' then Inl (Protocol ''expected SASL initial response'')
      else
       (let (mech, r) = r_cstring (newReader body) in
        if mech \<noteq> ''SCRAM-SHA-256'' then Inl (Protocol ''unsupported SASL mechanism'')
        else
         (let (n, r) = r_int32 r; (clientFirst, r) = r_bytes n r in
          if err r then Inl (Protocol ''malformed SASL initial response'')
          else
           (let bare = scramBare clientFirst; nonce = scramAttr bare ''r'' in
            if nonce = [] then Inl (Protocol ''missing client nonce'') else Inr (bare, nonce)))))"

definition server_first :: "scramVerifier \<Rightarrow> string \<Rightarrow> string" where
  "server_first v nonce = ''r='' @ nonce @ '',s='' @ EncodeToString (salt v) @ '',i='' @ FormatInt (iter v)"

definition auth_message :: "string \<Rightarrow> string \<Rightarrow> string \<Rightarrow> string" where
  "auth_message bare serverFirst clientFinal =
     bare @ '','' @ serverFirst @ '','' @ scramWithoutProof clientFinal"

definition check_final ::
  "scramVerifier \<Rightarrow> string \<Rightarrow> string \<Rightarrow> string \<Rightarrow> char \<Rightarrow> string \<Rightarrow> auth_error + string" where
  "check_final v bare serverFirst nonce typ clientFinal =
     (if typ \<noteq> CHR ''p'' then Inl (Protocol ''expected SASL response'')
      else if scramAttr clientFinal ''r'' \<noteq> nonce then Inl AuthFailed
      else (case DecodeString (scramAttr clientFinal ''p'') of
        None \<Rightarrow> Inl (Protocol ''bad client proof'')
      | Some proof \<Rightarrow>
          (let authMessage = auth_message bare serverFirst clientFinal;
               clientSig = hmacSHA256 (storedKey v) authMessage in
           if length proof \<noteq> length clientSig then Inl AuthFailed
           else if Sum256 (xor_bytes proof clientSig) \<noteq> storedKey v then Inl AuthFailed
           else Inr (i32 12 @ ''v='' @ EncodeToString (hmacSHA256 (serverKey v) authMessage)))))"

definition scram_verifier :: "credential \<Rightarrow> string \<Rightarrow> scramVerifier" where
  "scram_verifier cred random =
     (case scram cred of Some v \<Rightarrow> v | None \<Rightarrow> deriveVerifier (plaintext cred) random scramIterations)"

text \<open>The client: its first message, and what it answers to the server's first.\<close>

definition authSCRAM ::
  "credential \<Rightarrow> string \<Rightarrow> string \<Rightarrow> char \<times> string \<Rightarrow> (string \<Rightarrow> char \<times> string) \<Rightarrow> auth_error + string" where
  "authSCRAM cred random nonce_random first client =
     (case client_first (fst first) (snd first) of
        Inl e \<Rightarrow> Inl e
      | Inr (bare, clientNonce) \<Rightarrow>
          (let v = scram_verifier cred random; nonce = clientNonce @ randomNonce nonce_random;
               serverFirst = server_first v nonce; (typ, clientFinal) = client (i32 11 @ serverFirst)
           in check_final v bare serverFirst nonce typ clientFinal))"

section \<open>The stored form\<close>

lemma parse_verifier_text:
  assumes "in_int64 (iter v)"
  shows "parseSCRAMVerifier (verifier_text v) = Some v"
proof -
  have fi: "CHR '':'' \<notin> set (FormatInt (iter v))" "CHR ''$'' \<notin> set (FormatInt (iter v))"
    using FormatInt_chars [of "CHR '':''" "iter v"] FormatInt_chars [of "CHR ''$''" "iter v"]
    by (auto simp: is_digit_def)
  let ?sp = "FormatInt (iter v) @ '':'' @ EncodeToString (salt v)"
  let ?kp = "EncodeToString (storedKey v) @ '':'' @ EncodeToString (serverKey v)"
  have "CutByte (?sp @ CHR ''$'' # ?kp) (CHR ''$'') = Some (?sp, ?kp)"
    using fi by (intro CutByte_mid) simp
  moreover have "CutByte ?sp (CHR '':'') = Some (FormatInt (iter v), EncodeToString (salt v))"
    using CutByte_mid [OF fi(1)] by simp
  moreover have "CutByte ?kp (CHR '':'') = Some (EncodeToString (storedKey v), EncodeToString (serverKey v))"
    using CutByte_mid [of "CHR '':''" "EncodeToString (storedKey v)"] by simp
  ultimately show ?thesis
    using assms by (simp add: parseSCRAMVerifier_def verifier_text_def ParseInt_FormatInt)
qed

lemma verifies_derived: "verifies (deriveVerifier password slt n) password"
  by (simp add: verifies_def deriveVerifier_def Let_def)

text \<open>A verifier is read back from the text the server stores in rolpassword, whatever its salt and keys
  hold, and the stored form of a password is verified by that password.\<close>
theorem verifier_roundtrip:
  assumes "in_int64 (iter v)"
  shows "parseSCRAMVerifier (verifier_text v) = Some v \<and>
    verifies (deriveVerifier password slt n) password"
  using parse_verifier_text [OF assms] verifies_derived by simp

theorem verifier_roundtrip_witness:
  "parseSCRAMVerifier (verifier_text \<lparr>iter = 4096, salt = ''s'', storedKey = ''k'', serverKey = ''v''\<rparr>) =
     Some \<lparr>iter = 4096, salt = ''s'', storedKey = ''k'', serverKey = ''v''\<rparr>"
  using verifier_roundtrip [of "\<lparr>iter = 4096, salt = ''s'', storedKey = ''k'', serverKey = ''v''\<rparr>"]
  by (simp add: in_int64_def)

section \<open>The exchange with a client that knows the password\<close>

text \<open>The client of RFC 5802, without channel binding.\<close>

definition rfc_bare :: "string \<Rightarrow> string \<Rightarrow> string" where
  "rfc_bare user cnonce = ''n='' @ user @ '',r='' @ cnonce"

definition rfc_first :: "string \<Rightarrow> string \<Rightarrow> string" where
  "rfc_first user cnonce =
     appendCString [] ''SCRAM-SHA-256'' @ i32 (int (length (''n,,'' @ rfc_bare user cnonce))) @ ''n,,'' @ rfc_bare user cnonce"

definition rfc_salted :: "string \<Rightarrow> string \<Rightarrow> string" where
  "rfc_salted password serverFirst =
     pbkdf2SHA256 password (the (DecodeString (scramAttr serverFirst ''s''))) (the (ParseInt (scramAttr serverFirst ''i''))) 32"

definition rfc_without_proof :: "string \<Rightarrow> string" where
  "rfc_without_proof serverFirst = ''c=biws,r='' @ scramAttr serverFirst ''r''"

definition rfc_auth_message :: "string \<Rightarrow> string \<Rightarrow> string" where
  "rfc_auth_message bare serverFirst = bare @ '','' @ serverFirst @ '','' @ rfc_without_proof serverFirst"

definition rfc_final :: "string \<Rightarrow> string \<Rightarrow> string \<Rightarrow> string" where
  "rfc_final password bare serverFirst =
     (let clientKey = hmacSHA256 (rfc_salted password serverFirst) ''Client Key'';
          sig = hmacSHA256 (Sum256 clientKey) (rfc_auth_message bare serverFirst)
      in rfc_without_proof serverFirst @ '',p='' @ EncodeToString (xor_bytes clientKey sig))"

definition rfc_server_signature :: "string \<Rightarrow> string \<Rightarrow> string \<Rightarrow> string" where
  "rfc_server_signature password bare serverFirst =
     hmacSHA256 (hmacSHA256 (rfc_salted password serverFirst) ''Server Key'') (rfc_auth_message bare serverFirst)"

lemma SplitByte_append: "d \<notin> set x \<Longrightarrow> SplitByte (x @ d # y) d = x # SplitByte y d"
  by (induction x) auto

lemma SplitByte_none: "d \<notin> set x \<Longrightarrow> SplitByte x d = [x]"
  by (induction x) auto

lemma randomNonce_no_comma [simp]: "CHR '','' \<notin> set (randomNonce r)"
proof -
  have "set (TrimRight s cs) \<subseteq> set s" for s cs :: string
    by (auto simp: TrimRight_def dest: set_dropWhileD)
  then show ?thesis using Encode_no_separators(1) [of r] unfolding randomNonce_def by blast
qed

lemma client_first_rfc:
  assumes "CHR '','' \<notin> set user" "CHR '','' \<notin> set cn" "cn \<noteq> []"
    "int (length (''n,,'' @ rfc_bare user cn)) < 2 ^ 31"
  shows "client_first (CHR ''p'') (rfc_first user cn) = Inr (rfc_bare user cn, cn)"
proof -
  let ?cf = "''n,,'' @ rfc_bare user cn"
  have len: "in_int32 (int (length ?cf))" using assms(4) by (simp add: in_int32_def)
  have body: "newReader (rfc_first user cn) =
      at_reader [] (''SCRAM-SHA-256'' @ CHR 0x00 # (bytes_be 4 (int (length ?cf)) @ ?cf))"
    by (simp add: newReader_at rfc_first_def appendCString_def i32_def append_bytes_be)
  have bare: "scramBare ?cf = rfc_bare user cn"
    by (simp add: scramBare_def IndexByte_def)
  have split: "SplitByte (rfc_bare user cn) (CHR '','') = [''n='' @ user, ''r='' @ cn]"
    using SplitByte_append [of "CHR '',''" "''n='' @ user" "''r='' @ cn"] SplitByte_none [of "CHR '',''" "''r='' @ cn"]
      assms(1,2) by (simp add: rfc_bare_def)
  have attr: "scramAttr (rfc_bare user cn) ''r'' = cn" by (simp add: scramAttr_def split)
  have r1: "r_cstring (at_reader [] (''SCRAM-SHA-256'' @ CHR 0x00 # (bytes_be 4 (int (length ?cf)) @ ?cf))) =
      (''SCRAM-SHA-256'', at_reader ([] @ ''SCRAM-SHA-256'' @ [CHR 0x00]) (bytes_be 4 (int (length ?cf)) @ ?cf))"
    by (rule at_reader_reads(3)) simp
  have r2: "r_int32 (at_reader pre (bytes_be 4 (int (length ?cf)) @ ?cf)) =
      (int (length ?cf), at_reader (pre @ bytes_be 4 (int (length ?cf))) ?cf)" for pre
    by (rule at_reader_reads(2) [OF len])
  have r3: "r_bytes (int (length ?cf)) (at_reader pre ?cf) = (?cf, at_reader (pre @ ?cf) [])" for pre
    using at_reader_reads(5) [of ?cf pre "[]"] by simp
  show ?thesis
    unfolding client_first_def body r1 prod.case Let_def r2 r3
    using assms(3) by (simp only: bare attr at_reader_end) simp
qed

lemma Index_proof_mark:
  "CHR '','' \<notin> set x \<Longrightarrow> Index (x @ ''=p,'' @ y) ''=p,'' = Some (length x)"
proof (induction x)
  case (Cons c x)
  have "\<not> HasPrefix ((c # x) @ ''=p,'' @ y) ''=p,''"
    using Cons.prems by (cases x; cases "tl x") auto
  then show ?case using Cons by simp
qed simp

lemma scramWithoutProof_mark: "CHR '','' \<notin> set enc \<Longrightarrow> scramWithoutProof (w @ '',p='' @ enc) = w"
  using Index_proof_mark [of "rev enc" "rev w"] by (simp add: scramWithoutProof_def LastIndex_def)

lemma scramAttr_final:
  assumes "CHR '','' \<notin> set nonce" "CHR '','' \<notin> set enc"
  shows "scramAttr (''c=biws,r='' @ nonce @ '',p='' @ enc) ''r'' = nonce"
    and "scramAttr (''c=biws,r='' @ nonce @ '',p='' @ enc) ''p'' = enc"
proof -
  have "SplitByte (''c=biws'' @ CHR '','' # (''r='' @ nonce) @ CHR '','' # (''p='' @ enc)) (CHR '','') =
      [''c=biws'', ''r='' @ nonce, ''p='' @ enc]"
    using assms SplitByte_append [of "CHR '',''" "''r='' @ nonce" "''p='' @ enc"] SplitByte_none [of "CHR '',''" "''p='' @ enc"]
      SplitByte_append [of "CHR '',''" "''c=biws''" "(''r='' @ nonce) @ CHR '','' # (''p='' @ enc)"]
    by simp
  then show "scramAttr (''c=biws,r='' @ nonce @ '',p='' @ enc) ''r'' = nonce"
    "scramAttr (''c=biws,r='' @ nonce @ '',p='' @ enc) ''p'' = enc"
    by (simp_all add: scramAttr_def)
qed

lemma scramAttr_server_first:
  assumes "CHR '','' \<notin> set nonce"
  shows "scramAttr (server_first v nonce) ''r'' = nonce"
    "scramAttr (server_first v nonce) ''s'' = EncodeToString (salt v)"
    "scramAttr (server_first v nonce) ''i'' = FormatInt (iter v)"
proof -
  have c: "CHR '','' \<notin> set (FormatInt (iter v))"
    using FormatInt_chars [of "CHR '',''" "iter v"] by (auto simp: is_digit_def)
  have "SplitByte ((''r='' @ nonce) @ CHR '','' # (''s='' @ EncodeToString (salt v)) @ CHR '','' # (''i='' @ FormatInt (iter v))) (CHR '','') =
      [''r='' @ nonce, ''s='' @ EncodeToString (salt v), ''i='' @ FormatInt (iter v)]"
    using assms c SplitByte_append [of "CHR '',''" "''s='' @ EncodeToString (salt v)" "''i='' @ FormatInt (iter v)"]
      SplitByte_none [of "CHR '',''" "''i='' @ FormatInt (iter v)"]
      SplitByte_append [of "CHR '',''" "''r='' @ nonce"
        "(''s='' @ EncodeToString (salt v)) @ CHR '','' # (''i='' @ FormatInt (iter v))"]
    by simp
  then show "scramAttr (server_first v nonce) ''r'' = nonce"
    "scramAttr (server_first v nonce) ''s'' = EncodeToString (salt v)"
    "scramAttr (server_first v nonce) ''i'' = FormatInt (iter v)"
    by (simp_all add: scramAttr_def server_first_def)
qed

lemma check_final_rfc:
  assumes "CHR '','' \<notin> set nonce" "in_int64 n" "v = deriveVerifier password slt n"
  shows "check_final v bare (server_first v nonce) nonce (CHR ''p'') (rfc_final password bare (server_first v nonce)) =
    Inr (i32 12 @ ''v='' @ EncodeToString (rfc_server_signature password bare (server_first v nonce)))"
proof -
  let ?sf = "server_first v nonce"
  let ?ck = "hmacSHA256 (rfc_salted password ?sf) ''Client Key''"
  let ?sig = "hmacSHA256 (Sum256 ?ck) (rfc_auth_message bare ?sf)"
  have salted: "rfc_salted password ?sf = pbkdf2SHA256 password slt n 32"
    using assms by (simp add: rfc_salted_def scramAttr_server_first ParseInt_FormatInt deriveVerifier_def Let_def)
  have keys: "storedKey v = Sum256 ?ck" "serverKey v = hmacSHA256 (rfc_salted password ?sf) ''Server Key''"
    using assms(3) salted by (simp_all add: deriveVerifier_def Let_def)
  let ?enc = "EncodeToString (xor_bytes ?ck ?sig)"
  have final: "rfc_final password bare ?sf = ''c=biws,r='' @ nonce @ '',p='' @ ?enc"
    by (simp add: rfc_final_def Let_def rfc_without_proof_def scramAttr_server_first [OF assms(1)])
  have wo: "scramWithoutProof (''c=biws,r='' @ nonce @ '',p='' @ ?enc) = ''c=biws,r='' @ nonce"
    using scramWithoutProof_mark [of ?enc "''c=biws,r='' @ nonce"] by simp
  have am: "auth_message bare ?sf (rfc_final password bare ?sf) = rfc_auth_message bare ?sf"
    unfolding auth_message_def final wo
    by (simp add: rfc_auth_message_def rfc_without_proof_def scramAttr_server_first [OF assms(1)])
  have attrs: "scramAttr (rfc_final password bare ?sf) ''r'' = nonce" "scramAttr (rfc_final password bare ?sf) ''p'' = ?enc"
    unfolding final using scramAttr_final [OF assms(1), of ?enc] by simp_all
  show ?thesis
    unfolding check_final_def attrs am keys
    by (simp add: xor_bytes_twice rfc_server_signature_def)
qed

lemma authSCRAM_completes:
  assumes "CHR '','' \<notin> set user" "CHR '','' \<notin> set cnonce" "cnonce \<noteq> []"
    "int (length (''n,,'' @ rfc_bare user cnonce)) < 2 ^ 31"
    and cred: "(case scram cred of None \<Rightarrow> plaintext cred = password
                | Some v \<Rightarrow> in_int64 (iter v) \<and> v = deriveVerifier password (salt v) (iter v))"
    and sf: "serverFirst = server_first (scram_verifier cred random) (cnonce @ randomNonce nonce_random)"
  shows "authSCRAM cred random nonce_random (CHR ''p'', rfc_first user cnonce)
      (\<lambda>m. (CHR ''p'', rfc_final password (rfc_bare user cnonce) (drop 4 m))) =
    Inr (i32 12 @ ''v='' @ EncodeToString (rfc_server_signature password (rfc_bare user cnonce) serverFirst))"
proof -
  let ?v = "scram_verifier cred random"
  have v: "?v = deriveVerifier password (salt ?v) (iter ?v)" "in_int64 (iter ?v)"
    using cred by (auto simp: scram_verifier_def deriveVerifier_def scramIterations_def in_int64_def Let_def
        split: option.splits)
  have "CHR '','' \<notin> set (cnonce @ randomNonce nonce_random)" using assms(2) by simp
  from check_final_rfc [OF this v(2) v(1)]
  have "check_final ?v (rfc_bare user cnonce) serverFirst (cnonce @ randomNonce nonce_random) (CHR ''p'')
      (rfc_final password (rfc_bare user cnonce) serverFirst) =
    Inr (i32 12 @ ''v='' @ EncodeToString (rfc_server_signature password (rfc_bare user cnonce) serverFirst))"
    unfolding sf .
  moreover have "length (i32 11) = 4" by (simp add: i32_def appendInt32_def)
  ultimately show ?thesis
    using client_first_rfc [OF assms(1-4)] sf by (simp add: authSCRAM_def Let_def)
qed

text \<open>Whoever knows the password gets in: the exchange of RFC 5802 with a role whose verifier was
  derived from that password (or with the server's own), for any salt, iteration count and nonces,
  ends with the server's signature, and the signature is the one the client computes for itself.\<close>
theorem scram_complete:
  assumes "CHR '','' \<notin> set user" "CHR '','' \<notin> set cnonce" "cnonce \<noteq> []"
    "int (length (''n,,'' @ rfc_bare user cnonce)) < 2 ^ 31"
    and cred: "(case scram cred of None \<Rightarrow> plaintext cred = password
                | Some v \<Rightarrow> in_int64 (iter v) \<and> v = deriveVerifier password (salt v) (iter v))"
    and sf: "serverFirst = server_first (scram_verifier cred random) (cnonce @ randomNonce nonce_random)"
  shows "authSCRAM cred random nonce_random (CHR ''p'', rfc_first user cnonce)
      (\<lambda>m. (CHR ''p'', rfc_final password (rfc_bare user cnonce) (drop 4 m))) =
    Inr (i32 12 @ ''v='' @ EncodeToString (rfc_server_signature password (rfc_bare user cnonce) serverFirst))"
  using authSCRAM_completes [OF assms] .

theorem scram_complete_witness:
  "\<exists>out. authSCRAM \<lparr>plaintext = ''pw'', scram = None\<rparr> ''salt'' ''0123456789abcdefgh'' (CHR ''p'', rfc_first ''u'' ''abc'')
     (\<lambda>m. (CHR ''p'', rfc_final ''pw'' (rfc_bare ''u'' ''abc'') (drop 4 m))) = Inr out"
  using scram_complete [of "''u''" "''abc''" "\<lparr>plaintext = ''pw'', scram = None\<rparr>" "''pw''" _ "''salt''" "''0123456789abcdefgh''"]
  by (simp add: rfc_bare_def)

section \<open>What acceptance means\<close>

lemma check_final_accepts:
  assumes "check_final v bare sf nonce typ final = Inr out"
  shows "scramAttr final ''r'' = nonce"
    and "\<exists>proof. DecodeString (scramAttr final ''p'') = Some proof \<and>
      Sum256 (xor_bytes proof (hmacSHA256 (storedKey v) (auth_message bare sf final))) = storedKey v"
  using assms by (auto simp: check_final_def Let_def split: if_splits option.splits)

lemma Encode_no_pad: "length bs mod 3 = 0 \<Longrightarrow> CHR ''='' \<notin> set (EncodeToString bs)"
proof (induction bs rule: EncodeToString.induct)
  case (4 a b c rest)
  have "code a * 65536 + code b * 256 + code c < 64 * 262144"
    using code_lt [of a] code_lt [of b] code_lt [of c] by linarith
  then have "(code a * 65536 + code b * 256 + code c) div 262144 < 64" by (rule less_mult_imp_div_less)
  then show ?case using 4 by (auto simp: Let_def mod_Suc dest: sym split: if_splits)
qed simp_all

lemma randomNonce_inj:
  assumes "length x = 18" "length y = 18" "randomNonce x = randomNonce y"
  shows "x = y"
proof -
  have "randomNonce r = EncodeToString r" if "length r = 18" for r
    unfolding randomNonce_def using Encode_no_pad [of r] that
    by (intro TrimRight_id) (auto dest: last_in_set)
  then show ?thesis using assms Encode_inj by simp
qed

lemma authSCRAM_accepts:
  assumes "authSCRAM cred random nr first client = Inr out"
  shows "\<exists>bare cn proof. client_first (fst first) (snd first) = Inr (bare, cn) \<and>
    (let v = scram_verifier cred random; sf = server_first v (cn @ randomNonce nr); final = snd (client (i32 11 @ sf)) in
      scramAttr final ''r'' = cn @ randomNonce nr \<and>
      Sum256 (xor_bytes proof (hmacSHA256 (storedKey v) (auth_message bare sf final))) = storedKey v)"
proof -
  obtain bare cn where cf: "client_first (fst first) (snd first) = Inr (bare, cn)"
    using assms by (auto simp: authSCRAM_def split: sum.splits)
  let ?v = "scram_verifier cred random"
  let ?sf = "server_first ?v (cn @ randomNonce nr)"
  obtain t final where c: "client (i32 11 @ ?sf) = (t, final)" by fastforce
  have "check_final ?v bare ?sf (cn @ randomNonce nr) t final = Inr out"
    using assms cf c by (simp add: authSCRAM_def Let_def)
  from check_final_accepts [OF this] show ?thesis using cf c by (auto simp: Let_def)
qed

text \<open>C35: A final message accepted in one exchange is refused in every other: with the same first message and
  the same final message, two exchanges that both succeed drew the same nonce bytes. What is accepted
  holds a proof that, undone with the signature of this exchange, hashes to the stored key.\<close>
theorem scram_no_replay:
  assumes "authSCRAM cred r1 n1 first (\<lambda>_. reply) = Inr out1" "authSCRAM cred r2 n2 first (\<lambda>_. reply) = Inr out2"
    "length n1 = 18" "length n2 = 18"
  shows "n1 = n2"
proof -
  obtain bare cn where cf: "client_first (fst first) (snd first) = Inr (bare, cn)"
    and 1: "scramAttr (snd reply) ''r'' = cn @ randomNonce n1"
    using authSCRAM_accepts [OF assms(1)] by (auto simp: Let_def)
  have "scramAttr (snd reply) ''r'' = cn @ randomNonce n2"
    using authSCRAM_accepts [OF assms(2)] cf by (auto simp: Let_def)
  then show ?thesis using 1 randomNonce_inj [OF assms(3,4)] by simp
qed

theorem scram_no_replay_witness:
  "\<exists>cred first reply out. authSCRAM cred ''salt'' ''0123456789abcdefgh'' first (\<lambda>_. reply) = Inr out \<and>
     (''0123456789abcdefgh'' :: string) = ''0123456789abcdefgh''"
proof -
  let ?cred = "\<lparr>plaintext = ''pw'', scram = None\<rparr>"
  let ?n = "''0123456789abcdefgh''"
  let ?first = "(CHR ''p'', rfc_first ''u'' ''abc'')"
  obtain out where out: "authSCRAM ?cred ''salt'' ?n ?first
     (\<lambda>m. (CHR ''p'', rfc_final ''pw'' (rfc_bare ''u'' ''abc'') (drop 4 m))) = Inr out"
    using authSCRAM_completes [of "''u''" "''abc''" ?cred "''pw''" _ "''salt''" ?n] by (auto simp: rfc_bare_def)
  let ?m = "i32 11 @ server_first (scram_verifier ?cred ''salt'') (''abc'' @ randomNonce ?n)"
  let ?reply = "(CHR ''p'', rfc_final ''pw'' (rfc_bare ''u'' ''abc'') (drop 4 ?m))"
  have cf: "client_first (CHR ''p'') (rfc_first ''u'' ''abc'') = Inr (rfc_bare ''u'' ''abc'', ''abc'')"
    by (rule client_first_rfc) (simp_all add: rfc_bare_def)
  have "authSCRAM ?cred ''salt'' ?n ?first (\<lambda>_. ?reply) = Inr out"
    using out cf by (simp add: authSCRAM_def Let_def)
  then show ?thesis using scram_no_replay [of ?cred "''salt''" ?n ?first ?reply out "''salt''" ?n out] by blast
qed

end
