(* ===== verification/RoleDDL.thy ===== *)
theory RoleDDL
  imports Grants Scram
begin

text \<open>
  CREATE, ALTER and DROP ROLE (\<open>roles.go\<close>). The statements are cut into white-space separated words;
  attributes are an association list in the order of first mention (the source's map has no order, and
  each column is set once). The random salt of a new verifier is an argument and its reader does not
  fail. A statement on the role table fails only by repeating a role name.
\<close>

section \<open>Attributes and passwords\<close>

definition role_attr :: "string \<Rightarrow> (string \<times> int) option" where
  "role_attr t =
     (let w = ToUpper (TrimRight t '';'') in
      if w = ''SUPERUSER'' then Some (''rolsuper'', 1)
      else if w = ''NOSUPERUSER'' then Some (''rolsuper'', 0)
      else if w = ''CREATEDB'' then Some (''rolcreatedb'', 1)
      else if w = ''NOCREATEDB'' then Some (''rolcreatedb'', 0)
      else if w = ''CREATEROLE'' then Some (''rolcreaterole'', 1)
      else if w = ''NOCREATEROLE'' then Some (''rolcreaterole'', 0)
      else if w = ''LOGIN'' then Some (''rolcanlogin'', 1)
      else if w = ''NOLOGIN'' then Some (''rolcanlogin'', 0)
      else if w = ''INHERIT'' then Some (''rolinherit'', 1)
      else if w = ''NOINHERIT'' then Some (''rolinherit'', 0)
      else if w = ''REPLICATION'' then Some (''rolreplication'', 1)
      else if w = ''NOREPLICATION'' then Some (''rolreplication'', 0)
      else if w = ''BYPASSRLS'' then Some (''rolbypassrls'', 1)
      else if w = ''NOBYPASSRLS'' then Some (''rolbypassrls'', 0)
      else None)"

definition parseRoleAttrs :: "string list \<Rightarrow> (string \<times> int) list" where
  "parseRoleAttrs tokens =
     fold (\<lambda>t m. case role_attr t of Some (col, v) \<Rightarrow> AList.update col v m | None \<Rightarrow> m) tokens []"

definition set_column :: "string \<times> int \<Rightarrow> role_row \<Rightarrow> role_row" where
  "set_column = (\<lambda>(col, v) r.
     if col = ''rolsuper'' then r\<lparr>rolsuper := v\<rparr>
     else if col = ''rolcreatedb'' then r\<lparr>rolcreatedb := v\<rparr>
     else if col = ''rolcreaterole'' then r\<lparr>rolcreaterole := v\<rparr>
     else if col = ''rolcanlogin'' then r\<lparr>rolcanlogin := v\<rparr>
     else if col = ''rolinherit'' then r\<lparr>rolinherit := v\<rparr>
     else if col = ''rolreplication'' then r\<lparr>rolreplication := v\<rparr>
     else if col = ''rolbypassrls'' then r\<lparr>rolbypassrls := v\<rparr>
     else r)"

text \<open>\<open>None\<close> is the panic of the slice between the quotes, \<open>Some None\<close> that there is no password.\<close>

definition extractPassword :: "string \<Rightarrow> string option option" where
  "extractPassword sql =
     (case Index (ToLower sql) ''password'' of
        None \<Rightarrow> Some None
      | Some i \<Rightarrow>
          (let p = scan_while (\<lambda>c. c = CHR '' '' \<or> c = CHR 0x09) sql (i + 8) in
           if p < length sql \<and> sql ! p = CHR 0x27
           then map_option (\<lambda>x. Some (undouble (CHR 0x27) x)) (cut sql (p + 1) (endOfStringLiteral sql p - 1))
           else Some None))"

section \<open>The statements\<close>

datatype role_error = RoleMsg string | UniqueViolation

fun roleDDLTarget_from :: "string list \<Rightarrow> string" where
  "roleDDLTarget_from [] = []"
| "roleDDLTarget_from (t # ts) =
     (if ToLower (TrimRight t '';'') \<in> {''if'', ''not'', ''exists''} then roleDDLTarget_from ts else unquoteIdent t)"

definition roleDDLTarget :: "string list \<Rightarrow> string" where
  "roleDDLTarget fs = roleDDLTarget_from (drop 2 fs)"

definition requireRoleAdmin :: "auth_db \<Rightarrow> string \<Rightarrow> string \<Rightarrow> string \<Rightarrow> role_error option" where
  "requireRoleAdmin db cur verb target =
     (if roleBypasses db cur \<or> hasCreateRole db cur then None
      else if verb = ''ALTER'' \<and> target \<noteq> [] \<and> EqualFold target cur then None
      else Some (RoleMsg (''permission denied to '' @ ToLower verb @ '' role'')))"

lemma requireRoleAdmin_None:
  "requireRoleAdmin db cur verb target = None \<longleftrightarrow>
     roleBypasses db cur \<or> hasCreateRole db cur \<or> (verb = ''ALTER'' \<and> target \<noteq> [] \<and> EqualFold target cur)"
  by (simp add: requireRoleAdmin_def)

definition grantCreatorAdmin :: "string \<Rightarrow> string \<Rightarrow> auth_db \<Rightarrow> auth_db" where
  "grantCreatorAdmin cur name db =
     (if name = [] \<or> roleBypasses db cur then db
      else db\<lparr>memberships := memberships db @ [\<lparr>mb_member = cur, mb_roleof = name, mb_admin = 1\<rparr>]\<rparr>)"

definition insert_role :: "role_row \<Rightarrow> auth_db \<Rightarrow> role_error + auth_db" where
  "insert_role r db =
     (if roleExists db (rolname r) then Inl UniqueViolation else Inr (db\<lparr>roles := roles db @ [r]\<rparr>))"

definition createRole :: "string \<Rightarrow> string \<Rightarrow> string list \<Rightarrow> string \<Rightarrow> auth_db \<Rightarrow> (role_error + auth_db) option" where
  "createRole random sql fs obj db =
     (if length fs < 3 then Some (Inl (RoleMsg (''syntax error in CREATE '' @ obj)))
      else
       (let name = unquoteIdent (fs ! 2);
            attrs0 = parseRoleAttrs (drop 3 fs);
            attrs = (if map_of attrs0 ''rolcanlogin'' = None \<and> obj = ''USER''
                     then AList.update ''rolcanlogin'' 1 attrs0 else attrs0);
            row = fold set_column attrs (default_role name) in
        case extractPassword sql of
          None \<Rightarrow> None
        | Some None \<Rightarrow> Some (insert_role row db)
        | Some (Some pw) \<Rightarrow> Some (insert_role (row\<lparr>rolpassword := Some (buildSCRAMVerifier random pw)\<rparr>) db)))"

definition update_roles :: "string \<Rightarrow> (role_row \<Rightarrow> role_row) \<Rightarrow> auth_db \<Rightarrow> auth_db" where
  "update_roles name f db = db\<lparr>roles := map (\<lambda>r. if nocase_eq (rolname r) name then f r else r) (roles db)\<rparr>"

text \<open>The UPDATE that renames, which the primary key stops from taking another role's name.\<close>

definition rename_role :: "string \<Rightarrow> string \<Rightarrow> auth_db \<Rightarrow> role_error + auth_db" where
  "rename_role name new db =
     (if roleExists db name \<and> list_ex (\<lambda>r. nocase_eq (rolname r) new \<and> \<not> nocase_eq (rolname r) name) (roles db)
      then Inl UniqueViolation
      else Inr (update_roles name (\<lambda>r. r\<lparr>rolname := new\<rparr>) db))"

definition alterRole :: "string \<Rightarrow> string \<Rightarrow> string list \<Rightarrow> auth_db \<Rightarrow> (role_error + auth_db) option" where
  "alterRole random sql fs db =
     (if length fs < 3 then Some (Inl (RoleMsg ''syntax error in ALTER ROLE''))
      else
       (let name = unquoteIdent (fs ! 2) in
        if 6 \<le> length fs \<and> EqualFold (fs ! 3) ''rename'' \<and> EqualFold (fs ! 4) ''to''
        then Some (rename_role name (unquoteIdent (fs ! 5)) db)
        else
         (case extractPassword sql of
            None \<Rightarrow> None
          | Some pw \<Rightarrow>
              (let attrs = parseRoleAttrs (drop 3 fs);
                   setpw = (\<lambda>r. case pw of Some x \<Rightarrow> r\<lparr>rolpassword := Some (buildSCRAMVerifier random x)\<rparr> | None \<Rightarrow> r) in
               if pw = None \<and> attrs = [] then Some (Inr db)
               else Some (Inr (update_roles name (\<lambda>r. fold set_column attrs (setpw r)) db))))))"

definition drop_one_role :: "string \<Rightarrow> auth_db \<Rightarrow> auth_db" where
  "drop_one_role name0 db =
     (let name = unquoteIdent (TrimSpace name0) in
      if name = [] then db
      else db\<lparr>roles := filter (\<lambda>r. \<not> nocase_eq (rolname r) name) (roles db),
              memberships := filter (\<lambda>m. \<not> (nocase_eq (mb_member m) name \<or> nocase_eq (mb_roleof m) name))
                (memberships db)\<rparr>)"

definition dropRole :: "string list \<Rightarrow> auth_db \<Rightarrow> auth_db" where
  "dropRole fs db =
     (let rest0 = drop 2 fs;
          rest = (if 2 \<le> length rest0 \<and> EqualFold (rest0 ! 0) ''if'' \<and> EqualFold (rest0 ! 1) ''exists''
                  then drop 2 rest0 else rest0) in
      fold drop_one_role (SplitByte (Join rest '' '') (CHR '','')) db)"

datatype ddl_outcome = Unhandled | Handled string "role_error option" auth_db | Panicked

definition tryRoleDDL :: "string \<Rightarrow> string \<Rightarrow> string \<Rightarrow> auth_db \<Rightarrow> ddl_outcome" where
  "tryRoleDDL random sql cur db =
     (let fs = Fields sql in
      if length fs < 2 then Unhandled
      else
       (let verb = ToUpper (fs ! 0); obj = ToUpper (TrimRight (fs ! 1) '';'');
            isRole = (obj = ''ROLE'' \<or> obj = ''USER'' \<or> obj = ''GROUP''); target = roleDDLTarget fs in
        if verb = ''CREATE'' \<and> isRole then
          (case requireRoleAdmin db cur ''CREATE'' target of
             Some e \<Rightarrow> Handled ''CREATE ROLE'' (Some e) db
           | None \<Rightarrow>
               (case createRole random sql fs obj db of
                  None \<Rightarrow> Panicked
                | Some (Inl e) \<Rightarrow> Handled ''CREATE ROLE'' (Some e) db
                | Some (Inr db') \<Rightarrow> Handled ''CREATE ROLE'' None (grantCreatorAdmin cur target db')))
        else if verb = ''ALTER'' \<and> obj = ''DEFAULT'' then Handled ''ALTER DEFAULT PRIVILEGES'' None db
        else if verb = ''ALTER'' \<and> isRole then
          (case requireRoleAdmin db cur ''ALTER'' target of
             Some e \<Rightarrow> Handled ''ALTER ROLE'' (Some e) db
           | None \<Rightarrow>
               (case alterRole random sql fs db of
                  None \<Rightarrow> Panicked
                | Some (Inl e) \<Rightarrow> Handled ''ALTER ROLE'' (Some e) db
                | Some (Inr db') \<Rightarrow> Handled ''ALTER ROLE'' None db'))
        else if verb = ''DROP'' \<and> isRole then
          (case requireRoleAdmin db cur ''DROP'' target of
             Some e \<Rightarrow> Handled ''DROP ROLE'' (Some e) db
           | None \<Rightarrow> Handled ''DROP ROLE'' None (dropRole fs db))
        else Unhandled))"

section \<open>Facts on the statements\<close>

lemma set_column_name [simp]: "rolname (set_column cv r) = rolname r"
  by (simp add: set_column_def split: prod.splits)

lemma fold_set_column_name [simp]: "rolname (fold set_column cvs r) = rolname r"
  by (induction cvs arbitrary: r) auto

lemma default_role_name [simp]: "rolname (default_role n) = n"
  by (simp add: default_role_def)

text \<open>The primary key of the role table: no name twice, whatever its case.\<close>

definition role_names :: "auth_db \<Rightarrow> string list" where
  "role_names db = map (\<lambda>r. ToLower (rolname r)) (roles db)"

definition roles_pk :: "auth_db \<Rightarrow> bool" where
  "roles_pk db \<longleftrightarrow> distinct (role_names db)"

lemma roleExists_iff: "roleExists db n \<longleftrightarrow> ToLower n \<in> set (role_names db)"
  by (auto simp: roleExists_def role_names_def nocase_eq_def list_ex_iff image_iff) metis

lemma roles_pk_cong: "roles db' = roles db \<Longrightarrow> roles_pk db' = roles_pk db"
  by (simp add: roles_pk_def role_names_def)

lemma insert_role_names:
  "insert_role r db = Inr db' \<Longrightarrow>
     role_names db' = role_names db @ [ToLower (rolname r)] \<and> ToLower (rolname r) \<notin> set (role_names db) \<and>
     memberships db' = memberships db"
  by (auto simp: insert_role_def roleExists_iff role_names_def split: if_splits)

lemma update_roles_names:
  "(\<And>r. rolname (f r) = rolname r) \<Longrightarrow> role_names (update_roles name f db) = role_names db"
  by (simp add: update_roles_def role_names_def)

lemma rename_names:
  "role_names (update_roles name (\<lambda>r. r\<lparr>rolname := new\<rparr>) db) =
     map (\<lambda>n. if n = ToLower name then ToLower new else n) (role_names db)"
  by (simp add: update_roles_def role_names_def nocase_eq_def)

lemma rename_role_pk:
  assumes "roles_pk db" "rename_role name new db = Inr db'"
  shows "roles_pk db'"
proof -
  have db': "db' = update_roles name (\<lambda>r. r\<lparr>rolname := new\<rparr>) db"
    and free: "ToLower name \<in> set (role_names db) \<Longrightarrow> ToLower new \<in> set (role_names db) \<Longrightarrow> ToLower new = ToLower name"
    using assms(2) by (auto simp: rename_role_def roleExists_iff list_ex_iff nocase_eq_def role_names_def split: if_splits)
  have "inj_on (\<lambda>n. if n = ToLower name then ToLower new else n) (set (role_names db))"
    using free by (auto simp: inj_on_def)
  then show ?thesis
    using assms(1) by (simp add: roles_pk_def db' rename_names distinct_map)
qed

lemma drop_one_role_pk: "roles_pk db \<Longrightarrow> roles_pk (drop_one_role n db)"
  by (auto simp: roles_pk_def role_names_def drop_one_role_def Let_def distinct_map_filter)

lemma dropRole_pk: "roles_pk db \<Longrightarrow> roles_pk (dropRole fs db)"
proof -
  have "roles_pk db \<Longrightarrow> roles_pk (fold drop_one_role ns db)" for ns
    by (induction ns arbitrary: db) (auto intro: drop_one_role_pk)
  then show "roles_pk db \<Longrightarrow> roles_pk (dropRole fs db)" by (simp add: dropRole_def Let_def)
qed

lemma alterRole_pk: "roles_pk db \<Longrightarrow> alterRole random sql fs db = Some (Inr db') \<Longrightarrow> roles_pk db'"
proof (unfold alterRole_def Let_def, goal_cases)
  case 1
  have upd: "roles_pk (update_roles n (\<lambda>r. fold set_column attrs (case pw of Some x \<Rightarrow> r\<lparr>rolpassword := Some (g x)\<rparr> | None \<Rightarrow> r)) db)"
    for n attrs pw and g :: "string \<Rightarrow> string"
    using 1(1) by (simp add: roles_pk_def update_roles_names split: option.splits)
  from 1 show ?case
    by (auto split: if_splits option.splits dest: rename_role_pk intro: upd)
qed

lemma createRole_names:
  assumes "createRole random sql fs obj db = Some (Inr db')"
  shows "role_names db' = role_names db @ [ToLower (unquoteIdent (fs ! 2))] \<and>
     ToLower (unquoteIdent (fs ! 2)) \<notin> set (role_names db) \<and> memberships db' = memberships db"
  using assms by (auto simp: createRole_def Let_def split: if_splits option.splits dest!: insert_role_names)

lemma tryRoleDDL_pk:
  assumes "roles_pk db" "tryRoleDDL random sql cur db = Handled tag e db'"
  shows "roles_pk db'"
proof -
  have "roles_pk db1" if "createRole random sql fs obj db = Some (Inr db1)" for fs obj db1
    using createRole_names [OF that] assms(1) by (simp add: roles_pk_def)
  moreover have "roles_pk (grantCreatorAdmin cur n db1) = roles_pk db1" for n db1
    by (rule roles_pk_cong) (simp add: grantCreatorAdmin_def)
  ultimately show ?thesis
    using assms
    by (auto simp: tryRoleDDL_def Let_def split: if_splits option.splits sum.splits intro: alterRole_pk dropRole_pk)
qed

section \<open>Memberships name roles that exist\<close>

definition members_exist :: "auth_db \<Rightarrow> bool" where
  "members_exist db \<longleftrightarrow>
     (\<forall>m \<in> set (memberships db). ToLower (mb_member m) \<in> set (role_names db) \<and> ToLower (mb_roleof m) \<in> set (role_names db))"

lemma members_existI:
  "members_exist db \<Longrightarrow> set (role_names db) \<subseteq> set (role_names db') \<Longrightarrow>
     (\<And>m. m \<in> set (memberships db') \<Longrightarrow> \<exists>m' \<in> set (memberships db).
        ToLower (mb_member m') = ToLower (mb_member m) \<and> ToLower (mb_roleof m') = ToLower (mb_roleof m)) \<Longrightarrow>
     members_exist db'"
  unfolding members_exist_def by (metis subsetD)

lemma members_exist_cong: "roles db' = roles db \<Longrightarrow> memberships db' = memberships db \<Longrightarrow> members_exist db' = members_exist db"
  by (simp add: members_exist_def role_names_def)

lemma drop_one_role_members: "members_exist db \<Longrightarrow> members_exist (drop_one_role n db)"
  by (auto simp: members_exist_def drop_one_role_def Let_def role_names_def nocase_eq_def)

lemma dropRole_members: "members_exist db \<Longrightarrow> members_exist (dropRole fs db)"
proof -
  have "members_exist db \<Longrightarrow> members_exist (fold drop_one_role ns db)" for ns
    by (induction ns arbitrary: db) (auto intro: drop_one_role_members)
  then show "members_exist db \<Longrightarrow> members_exist (dropRole fs db)" by (simp add: dropRole_def Let_def)
qed

lemma not_bypass_exists: "\<not> roleBypasses db r \<Longrightarrow> ToLower r \<in> set (role_names db)"
  by (auto simp: roleBypasses_def role_names_def nocase_eq_def filter_eq_Cons_iff image_iff split: list.splits)

definition is_rename :: "string list \<Rightarrow> bool" where
  "is_rename fs \<longleftrightarrow> 6 \<le> length fs \<and> EqualFold (fs ! 3) ''rename'' \<and> EqualFold (fs ! 4) ''to''"

lemma alterRole_members:
  assumes "members_exist db" "alterRole random sql fs db = Some (Inr db')" "\<not> is_rename fs"
  shows "members_exist db'"
proof -
  have upd: "members_exist (update_roles n (\<lambda>r. fold set_column attrs (case pw of Some x \<Rightarrow> r\<lparr>rolpassword := Some (g x)\<rparr> | None \<Rightarrow> r)) db)"
    (is "members_exist (update_roles n ?f db)")
    for n attrs pw and g :: "string \<Rightarrow> string"
  proof -
    have "role_names (update_roles n ?f db) = role_names db"
      by (rule update_roles_names) (simp split: option.splits)
    moreover have "memberships (update_roles n ?f db) = memberships db" by (simp add: update_roles_def)
    ultimately show ?thesis using assms(1) by (simp add: members_exist_def)
  qed
  show ?thesis
    using assms unfolding alterRole_def Let_def is_rename_def
    by (auto split: if_splits option.splits intro: upd)
qed

text \<open>Both forms of the target agree but for the words IF, NOT, EXISTS after the object.\<close>

lemma createRole_members:
  assumes "members_exist db" "createRole random sql fs obj db = Some (Inr db1)"
    and "roleDDLTarget fs = unquoteIdent (fs ! 2)"
  shows "members_exist (grantCreatorAdmin cur (roleDDLTarget fs) db1)"
proof -
  note n = createRole_names [OF assms(2)]
  have one: "members_exist db1"
    using assms(1) n by (auto simp: members_exist_def)
  show ?thesis
  proof (cases "roleDDLTarget fs = [] \<or> roleBypasses db1 cur")
    case True
    then show ?thesis using one by (auto simp: grantCreatorAdmin_def)
  next
    case False
    then have "ToLower cur \<in> set (role_names db1)" by (simp add: not_bypass_exists)
    moreover have "ToLower (roleDDLTarget fs) \<in> set (role_names db1)" using n assms(3) by simp
    ultimately show ?thesis
      using one False by (auto simp: members_exist_def grantCreatorAdmin_def role_names_def)
  qed
qed

lemma tryRoleDDL_members:
  assumes "members_exist db" "tryRoleDDL random sql cur db = Handled tag e db'"
    and "\<not> is_rename (Fields sql)" "roleDDLTarget (Fields sql) = unquoteIdent (Fields sql ! 2)"
  shows "members_exist db'"
  using assms createRole_members [OF assms(1) _ assms(4), of random sql _ _ cur]
  by (auto simp: tryRoleDDL_def Let_def split: if_splits option.splits sum.splits
      intro: alterRole_members dropRole_members)

lemma grant_member_ok:
  assumes "grant_member revoke rg role mem db = Inr db'"
  shows "roles db' = roles db \<and> (members_exist db \<longrightarrow> members_exist db')"
proof
  show r: "roles db' = roles db"
    using assms by (auto simp: grant_member_def split: if_splits)
  show "members_exist db \<longrightarrow> members_exist db'"
    using assms
    by (auto simp: grant_member_def members_exist_def role_names_def roleExists_iff split: if_splits)
qed

lemma grant_members_ok:
  "grant_members revoke rg role mems db = (e, db') \<Longrightarrow>
     roles db' = roles db \<and> (members_exist db \<longrightarrow> members_exist db')"
proof (induction mems arbitrary: db)
  case (Cons m ms)
  then show ?case
    by (auto split: sum.splits dest!: grant_member_ok)
qed simp

lemma grant_roles_ok:
  "grant_roles revoke rg cur rls db = (e, db') \<Longrightarrow>
     roles db' = roles db \<and> (members_exist db \<longrightarrow> members_exist db')"
proof (induction rls arbitrary: db)
  case (Cons r rs)
  show ?case
  proof (cases "grant_members revoke rg r (rg_members rg) db")
    case (Pair e1 db1)
    with Cons show ?thesis
      by (auto split: if_splits option.splits dest!: grant_members_ok)
  qed
qed simp

lemma applyGrant_ok:
  assumes "applyGrant sql cur db = Some (tag, e, db')"
  shows "roles db' = roles db" "members_exist db \<Longrightarrow> members_exist db'"
proof -
  have tg: "members_exist (table_grants rv ps ts ws db) = members_exist db" for rv ps ts ws
    by (rule members_exist_cong) simp_all
  have "roles db' = roles db \<and> (members_exist db \<longrightarrow> members_exist db')"
    using assms tg
    by (auto simp: applyGrant_def applyRoleGrant_def Let_def split: if_splits option.splits prod.splits
        dest!: grant_roles_ok)
  then show "roles db' = roles db" "members_exist db \<Longrightarrow> members_exist db'" by blast+
qed

lemma recordOwnership_others [simp]:
  "roles (recordOwnership sql cur db) = roles db" "memberships (recordOwnership sql cur db) = memberships db"
  by (simp_all add: recordOwnership_def set_owner_def forget_table_def Let_def)

section \<open>The role table over any sequence of statements\<close>

text \<open>The statements that write the four tables, by any session, in any order. A statement that fails keeps
  what it had written.\<close>

inductive auth_step :: "auth_db \<Rightarrow> auth_db \<Rightarrow> bool" where
  role_ddl: "tryRoleDDL random sql cur db = Handled tag e db' \<Longrightarrow> auth_step db db'"
| grant: "applyGrant sql cur db = Some (tag, e, db') \<Longrightarrow> auth_step db db'"
| ownership: "auth_step db (recordOwnership sql cur db)"
| seed: "auth_step db (seedDefaultRole catalogRole db)"

inductive_cases auth_stepE: "auth_step db db'"

definition fresh_auth :: auth_db where
  "fresh_auth = \<lparr>roles = [], memberships = [], grants = [], owners = []\<rparr>"

interpretation auth: invariant_system "\<lambda>db. db = fresh_auth" auth_step roles_pk
proof
  fix db db' assume "db = fresh_auth"
  then show "roles_pk db" by (simp add: roles_pk_def role_names_def fresh_auth_def)
next
  fix db db' assume pk: "roles_pk db" and "auth_step db db'"
  from this(2) show "roles_pk db'"
  proof cases
    case role_ddl
    then show ?thesis using pk tryRoleDDL_pk by blast
  next
    case (grant sql cur tag e)
    then show ?thesis using pk roles_pk_cong [OF applyGrant_ok(1)] by blast
  next
    case (ownership sql cur)
    then show ?thesis using pk roles_pk_cong [of "recordOwnership sql cur db" db] by simp
  next
    case (seed catalogRole)
    then show ?thesis
      using pk by (auto simp: seedDefaultRole_def roles_pk_def role_names_def nocase_eq_def list_ex_iff)
  qed
qed

text \<open>Whatever role statements, grants and table statements the sessions run, on a file whose tables
  started empty, no role name is ever recorded twice, in any case: the model's INSERT and UPDATE keep the
  primary key the table declares, and a rename onto another role's name is refused.\<close>
theorem roles_unique:
  assumes "auth_step\<^sup>*\<^sup>* fresh_auth db"
  shows "distinct (map (\<lambda>r. ToLower (rolname r)) (roles db))"
  using auth.inv_reachable [OF refl assms] by (simp add: roles_pk_def role_names_def)

text \<open>A membership never names a role that does not exist: GRANT checks both ends, CREATE ROLE records
  its creator's, DROP ROLE removes those of the role it drops. (A rename, and a CREATE ROLE whose name
  follows IF NOT EXISTS, are the exceptions.)\<close>
theorem memberships_exist:
  assumes "members_exist db"
  shows "members_exist (recordOwnership sql cur db) \<and>
    (\<forall>tag e db'. applyGrant sql cur db = Some (tag, e, db') \<longrightarrow> members_exist db') \<and>
    (\<forall>tag e db'. tryRoleDDL random sql cur db = Handled tag e db' \<longrightarrow> \<not> is_rename (Fields sql) \<longrightarrow>
       roleDDLTarget (Fields sql) = unquoteIdent (Fields sql ! 2) \<longrightarrow> members_exist db')"
proof -
  have "members_exist (recordOwnership sql cur db)"
    using assms members_exist_cong [of "recordOwnership sql cur db" db] by simp
  then show ?thesis
    using assms applyGrant_ok(2) tryRoleDDL_members by blast
qed

section \<open>Who may change roles\<close>

text \<open>C16: Role statements change something only for a role that bypasses the checks or has CREATEROLE, with
  one exception: an ALTER whose target is the role itself. That one changes only rows named by the word
  after the object keyword, and no membership, grant or ownership.\<close>
theorem role_ddl_authorised:
  assumes "tryRoleDDL random sql cur db = Handled tag e db'" "db' \<noteq> db"
  shows "roleBypasses db cur \<or> hasCreateRole db cur \<or>
    (ToUpper (Fields sql ! 0) = ''ALTER'' \<and> EqualFold (roleDDLTarget (Fields sql)) cur \<and>
     memberships db' = memberships db \<and> grants db' = grants db \<and> owners db' = owners db \<and>
     (\<forall>r \<in> set (roles db). \<not> nocase_eq (rolname r) (unquoteIdent (Fields sql ! 2)) \<longrightarrow> r \<in> set (roles db')))"
proof (rule ccontr)
  assume neg: "\<not> ?thesis"
  then have noadmin: "\<not> roleBypasses db cur" "\<not> hasCreateRole db cur" by auto
  have upd: "memberships (update_roles n f db) = memberships db \<and> grants (update_roles n f db) = grants db \<and>
      owners (update_roles n f db) = owners db \<and>
      (\<forall>r \<in> set (roles db). \<not> nocase_eq (rolname r) n \<longrightarrow> r \<in> set (roles (update_roles n f db)))" for n f
    by (auto simp: update_roles_def image_iff)
  have alt: "memberships db' = memberships db \<and> grants db' = grants db \<and> owners db' = owners db \<and>
      (\<forall>r \<in> set (roles db). \<not> nocase_eq (rolname r) (unquoteIdent (fs ! 2)) \<longrightarrow> r \<in> set (roles db'))"
    if "alterRole random sql fs db = Some (Inr db')" for fs
    using that upd by (auto simp: alterRole_def rename_role_def Let_def split: if_splits option.splits)
  show False
    using assms neg alt noadmin
    by (auto simp: tryRoleDDL_def Let_def requireRoleAdmin_None split: if_splits option.splits sum.splits)
qed

lemma bypass_after_update:
  assumes "\<And>r. rolname (f r) = rolname r" "\<And>r. rolsuper (f r) = 1"
  shows "roleBypasses (update_roles cur f db) cur"
proof -
  have "rolsuper r = 1" if "r \<in> set (filter (\<lambda>r. nocase_eq (rolname r) cur) (roles (update_roles cur f db)))" for r
    using that assms by (auto simp: update_roles_def split: if_splits)
  then show ?thesis
    by (cases "filter (\<lambda>r. nocase_eq (rolname r) cur) (roles (update_roles cur f db))")
       (simp_all add: roleBypasses_def truthy_def)
qed

text \<open>A role may make itself a superuser: the exception for ALTER ROLE on oneself does not look at what
  the statement sets.\<close>
theorem self_superuser:
  assumes "Fields sql = [''ALTER'', ''ROLE'', name, ''SUPERUSER'']"
    and "unquoteIdent name = cur" "roleDDLTarget_from [name, ''SUPERUSER''] = cur" "cur \<noteq> []"
    and "Index (ToLower sql) ''password'' = None"
  shows "\<exists>db'. tryRoleDDL random sql cur db = Handled ''ALTER ROLE'' None db' \<and> roleBypasses db' cur"
proof -
  let ?f = "\<lambda>r. fold set_column [(''rolsuper'', 1)] r"
  have tgt: "roleDDLTarget (Fields sql) = cur" using assms(1,3) by (simp add: roleDDLTarget_def)
  have w: "ToUpper ''ALTER'' = ''ALTER''" "ToUpper (TrimRight ''ROLE'' '';'') = ''ROLE''" by code_simp+
  have pa: "parseRoleAttrs [''SUPERUSER''] = [(''rolsuper'', 1)]" by code_simp
  have allowed: "requireRoleAdmin db cur ''ALTER'' cur = None"
    using assms(4) by (simp add: requireRoleAdmin_None EqualFold_def)
  have alter: "alterRole random sql (Fields sql) db = Some (Inr (update_roles cur ?f db))"
    using assms(1,2,5) pa by (simp add: alterRole_def extractPassword_def)
  have "tryRoleDDL random sql cur db = Handled ''ALTER ROLE'' None (update_roles cur ?f db)"
    using assms(1) w by (simp add: tryRoleDDL_def tgt [unfolded assms(1)] allowed alter [unfolded assms(1)])
  moreover have "roleBypasses (update_roles cur ?f db) cur"
    by (intro bypass_after_update) (simp_all add: set_column_def)
  ultimately show ?thesis by blast
qed

text \<open>CREATE ROLE with a password stores a verifier of that password, never the password, under the name
  the statement gives, and records it only when the name was free.\<close>
theorem created_password_verifies:
  assumes "createRole random sql fs obj db = Some (Inr db')" "extractPassword sql = Some (Some pw)"
  shows "\<not> roleExists db (unquoteIdent (fs ! 2)) \<and>
    (\<exists>r txt v. roles db' = roles db @ [r] \<and> rolname r = unquoteIdent (fs ! 2) \<and> rolpassword r = Some txt \<and>
       parseSCRAMVerifier txt = Some v \<and> salt v = random \<and> iter v = 4096 \<and> verifies v pw)"
proof -
  have "in_int64 (iter (deriveVerifier pw random scramIterations))"
    by (simp add: deriveVerifier_def Let_def scramIterations_def in_int64_def)
  note p = parse_verifier_text [OF this]
  have fields: "salt (deriveVerifier pw random scramIterations) = random" "iter (deriveVerifier pw random scramIterations) = 4096"
    by (simp_all add: deriveVerifier_def Let_def scramIterations_def)
  show ?thesis
    using assms p fields verifies_derived
    by (auto simp: createRole_def insert_role_def buildSCRAMVerifier_def Let_def split: if_splits)
qed

section \<open>Witnesses\<close>

lemma alter_bob_fields:
  "Fields ''ALTER ROLE bob SUPERUSER'' = [''ALTER'', ''ROLE'', ''bob'', ''SUPERUSER'']"
  "unquoteIdent ''bob'' = ''bob''" "roleDDLTarget_from [''bob'', ''SUPERUSER''] = ''bob''"
  "Index (ToLower ''ALTER ROLE bob SUPERUSER'') ''password'' = None"
  by code_simp+

lemma sample_pk: "roles_pk sample_db" "roleExists sample_db ''bob''"
  by (simp_all add: roles_pk_def role_names_def sample_db_def roleExists_def)

theorem self_superuser_witness:
  "\<exists>db'. tryRoleDDL [] ''ALTER ROLE bob SUPERUSER'' ''bob'' sample_db = Handled ''ALTER ROLE'' None db' \<and>
     roleBypasses db' ''bob''"
  by (rule self_superuser [OF alter_bob_fields(1-3)]) (simp_all add: sample_pk alter_bob_fields)

theorem role_ddl_authorised_witness:
  "\<exists>db'. tryRoleDDL [] ''ALTER ROLE bob SUPERUSER'' ''bob'' sample_db = Handled ''ALTER ROLE'' None db' \<and>
     memberships db' = memberships sample_db"
proof -
  have w: "ToUpper ''ALTER'' = ''ALTER''" "ToUpper (TrimRight ''ROLE'' '';'') = ''ROLE''"
    "parseRoleAttrs [''SUPERUSER''] = [(''rolsuper'', 1)]" by code_simp+
  have ne: "set_column (''rolsuper'', 1) (default_role ''bob''\<lparr>rolcanlogin := 1\<rparr>) \<noteq> default_role ''bob''\<lparr>rolcanlogin := 1\<rparr>"
    by (simp add: set_column_def default_role_def)
  have "alterRole [] ''ALTER ROLE bob SUPERUSER'' [''ALTER'', ''ROLE'', ''bob'', ''SUPERUSER''] sample_db =
      Some (Inr (update_roles ''bob'' (set_column (''rolsuper'', 1)) sample_db))"
    using alter_bob_fields w by (simp add: alterRole_def extractPassword_def)
  moreover have "requireRoleAdmin sample_db ''bob'' ''ALTER'' ''bob'' = None"
    by (simp add: requireRoleAdmin_None EqualFold_def)
  ultimately have run: "tryRoleDDL [] ''ALTER ROLE bob SUPERUSER'' ''bob'' sample_db =
      Handled ''ALTER ROLE'' None (update_roles ''bob'' (set_column (''rolsuper'', 1)) sample_db)"
    using alter_bob_fields w by (simp add: tryRoleDDL_def roleDDLTarget_def)
  have "update_roles ''bob'' (set_column (''rolsuper'', 1)) sample_db \<noteq> sample_db"
    using ne by (simp add: update_roles_def sample_db_def)
  from role_ddl_authorised [OF run this] run show ?thesis
    using bob_roles(2) by (auto simp: hasCreateRole_def sample_db_def default_role_def)
qed

lemma createRole_succeeds:
  assumes "3 \<le> length fs" "extractPassword sql = Some (Some pw)" "\<not> roleExists db (unquoteIdent (fs ! 2))"
  shows "\<exists>db'. createRole random sql fs obj db = Some (Inr db')"
  using assms by (simp add: createRole_def insert_role_def Let_def)

abbreviation create_carol :: string where
  "create_carol \<equiv> ''CREATE ROLE carol PASSWORD '' @ [CHR 0x27, CHR ''x'', CHR 0x27]"

theorem created_password_verifies_witness:
  "\<exists>db' r txt v. createRole ''salt'' create_carol (Fields create_carol) ''ROLE'' sample_db = Some (Inr db') \<and>
     roles db' = roles sample_db @ [r] \<and> rolpassword r = Some txt \<and> parseSCRAMVerifier txt = Some v \<and> verifies v ''x''"
proof -
  have c: "3 \<le> length (Fields create_carol)" "extractPassword create_carol = Some (Some ''x'')"
    "unquoteIdent (Fields create_carol ! 2) = ''carol''"
    by code_simp+
  have "\<not> roleExists sample_db ''carol''" by code_simp
  then obtain db' where db': "createRole ''salt'' create_carol (Fields create_carol) ''ROLE'' sample_db = Some (Inr db')"
    using createRole_succeeds [OF c(1,2)] c(3) by metis
  from created_password_verifies [OF db' c(2)] db' show ?thesis by blast
qed

text \<open>A literal that never ends crosses the bounds of its slice.\<close>

lemma password_quote_panics: "extractPassword (''ALTER ROLE bob PASSWORD '' @ [CHR 0x27]) = None"
  by code_simp

theorem roles_unique_witness:
  "distinct (map (\<lambda>r. ToLower (rolname r)) (roles (seedDefaultRole ''postgres'' fresh_auth)))"
  by (rule roles_unique) (rule r_into_rtranclp, rule auth_step.seed)

definition team_db :: auth_db where
  "team_db = \<lparr>roles = [default_role ''bob'', default_role ''staff''],
     memberships = [\<lparr>mb_member = ''bob'', mb_roleof = ''Staff'', mb_admin = 0\<rparr>], grants = [], owners = []\<rparr>"

theorem memberships_exist_witness:
  "\<exists>db'. tryRoleDDL [] ''DROP ROLE staff'' ''postgres'' team_db = Handled ''DROP ROLE'' None db' \<and> members_exist db'"
proof -
  have t: "members_exist team_db" by code_simp
  have f: "Fields ''DROP ROLE staff'' = [''DROP'', ''ROLE'', ''staff'']" "\<not> is_rename [''DROP'', ''ROLE'', ''staff'']"
    "roleDDLTarget [''DROP'', ''ROLE'', ''staff''] = unquoteIdent ''staff''"
    "ToUpper ''DROP'' = ''DROP''" "ToUpper (TrimRight ''ROLE'' '';'') = ''ROLE''"
    by code_simp+
  have "roleBypasses team_db ''postgres''" by code_simp
  then have "tryRoleDDL [] ''DROP ROLE staff'' ''postgres'' team_db =
      Handled ''DROP ROLE'' None (dropRole [''DROP'', ''ROLE'', ''staff''] team_db)"
    using f by (simp add: tryRoleDDL_def requireRoleAdmin_def Let_def)
  then show ?thesis
    using memberships_exist [OF t, where random = "[]" and sql = "''DROP ROLE staff''" and cur = "''postgres''"] f
    by (simp add: exI)
qed

text \<open>A rename leaves the memberships of the old name behind.\<close>

lemma rename_orphans:
  "alterRole [] ''ALTER ROLE staff RENAME TO crew'' (Fields ''ALTER ROLE staff RENAME TO crew'') team_db =
     Some (Inr (update_roles ''staff'' (\<lambda>r. r\<lparr>rolname := ''crew''\<rparr>) team_db))"
  "\<not> members_exist (update_roles ''staff'' (\<lambda>r. r\<lparr>rolname := ''crew''\<rparr>) team_db)"
proof -
  have f: "Fields ''ALTER ROLE staff RENAME TO crew'' = [''ALTER'', ''ROLE'', ''staff'', ''RENAME'', ''TO'', ''crew'']"
    "EqualFold ''RENAME'' ''rename''" "EqualFold ''TO'' ''to''" "unquoteIdent ''staff'' = ''staff''" "unquoteIdent ''crew'' = ''crew''"
    by code_simp+
  have "\<not> list_ex (\<lambda>r. nocase_eq (rolname r) ''crew'') (roles team_db)" by code_simp
  then have "rename_role ''staff'' ''crew'' team_db = Inr (update_roles ''staff'' (\<lambda>r. r\<lparr>rolname := ''crew''\<rparr>) team_db)"
    by (auto simp: rename_role_def list_ex_iff)
  with f show "alterRole [] ''ALTER ROLE staff RENAME TO crew'' (Fields ''ALTER ROLE staff RENAME TO crew'') team_db =
     Some (Inr (update_roles ''staff'' (\<lambda>r. r\<lparr>rolname := ''crew''\<rparr>) team_db))"
    by (simp add: alterRole_def)
  show "\<not> members_exist (update_roles ''staff'' (\<lambda>r. r\<lparr>rolname := ''crew''\<rparr>) team_db)"
    by code_simp
qed

text \<open>DROP ROLE leaves the grants and tables of the name behind, for the next role created under it.\<close>

lemma dropRole_keeps_grants: "grants (dropRole fs db) = grants db \<and> owners (dropRole fs db) = owners db"
proof -
  have "grants (fold drop_one_role ns db) = grants db \<and> owners (fold drop_one_role ns db) = owners db" for ns
    by (induction ns arbitrary: db) (auto simp: drop_one_role_def Let_def)
  then show ?thesis by (simp add: dropRole_def Let_def)
qed

text \<open>A dropped role bypasses the checks from then on.\<close>

lemma dropped_bypasses: "\<not> roleExists db r \<Longrightarrow> roleBypasses db r"
  using not_bypass_exists [of db r] by (auto simp: roleExists_iff)

end
