(* ===== verification/Hba.thy ===== *)
theory Hba
  imports GoStrings "HOL-Library.Word"
begin

unbundle bit_operations_syntax

text \<open>
  Host-based authentication (package \<open>hba\<close>): rules, the first that matches, the text format of
  \<open>pg_hba.conf\<close>, and the part of the \<open>net\<close> package it uses (addresses as 4 or 16 bytes, CIDR masks).
  The YAML decoder is third-party code; what follows it is \<open>yaml_policy\<close>.
\<close>

section \<open>Addresses\<close>

type_synonym ip = "8 word list"

definition v4_prefix :: ip where
  "v4_prefix = replicate 10 0 @ [255, 255]"

definition To4 :: "ip \<Rightarrow> ip option" where
  "To4 a = (if length a = 4 then Some a
            else if length a = 16 \<and> take 12 a = v4_prefix then Some (drop 12 a) else None)"

definition IsLoopback :: "ip \<Rightarrow> bool" where
  "IsLoopback a = (case To4 a of Some a4 \<Rightarrow> a4 ! 0 = 127 | None \<Rightarrow> a = replicate 15 0 @ [1])"

text \<open>\<open>CIDRMask\<close>: the first \<open>n\<close> bits set, in \<open>l\<close> bytes.\<close>

fun CIDRMask :: "nat \<Rightarrow> nat \<Rightarrow> ip" where
  "CIDRMask n 0 = []"
| "CIDRMask n (Suc l) =
     (if 8 \<le> n then 255 # CIDRMask (n - 8) l else NOT (drop_bit n 255) # CIDRMask 0 l)"

record ipnet =
  net_ip :: ip
  net_mask :: ip

definition mask_ip :: "ip \<Rightarrow> ip \<Rightarrow> ip" where
  "mask_ip a m = map2 (AND) a m"

definition networkNumberAndMask :: "ipnet \<Rightarrow> (ip \<times> ip) option" where
  "networkNumberAndMask n =
     (let a = (case To4 (net_ip n) of Some a4 \<Rightarrow> a4 | None \<Rightarrow> net_ip n); m = net_mask n in
      if length a \<noteq> 4 \<and> length a \<noteq> 16 then None
      else if length m = length a then Some (a, m)
      else if length m = 16 \<and> length a = 4 then Some (a, drop 12 m)
      else None)"

definition Contains_ip :: "ipnet \<Rightarrow> ip \<Rightarrow> bool" where
  "Contains_ip n a0 =
     (case networkNumberAndMask n of
        None \<Rightarrow> length a0 = 0
      | Some (nn, m) \<Rightarrow>
          (let a = (case To4 a0 of Some a4 \<Rightarrow> a4 | None \<Rightarrow> a0) in
           length a = length nn \<and> (\<forall>i \<in> set [0..<length nn]. nn ! i AND m ! i = a ! i AND m ! i)))"

text \<open>The text of an address: IPv4 with four decimal fields without leading zeros, IPv6 with up to
  eight groups of hex digits, one \<open>::\<close>, and an IPv4 tail.\<close>

definition v4_field :: "string \<Rightarrow> nat option" where
  "v4_field s =
     (if s = [] \<or> \<not> list_all is_digit s \<or> (1 < length s \<and> hd s = CHR ''0'') then None
      else (case digits_val 0 s of Some n \<Rightarrow> if n \<le> 255 then Some n else None | None \<Rightarrow> None))"

fun sequence :: "'a option list \<Rightarrow> 'a list option" where
  "sequence [] = Some []"
| "sequence (None # xs) = None"
| "sequence (Some x # xs) = map_option ((#) x) (sequence xs)"

definition parse_v4 :: "string \<Rightarrow> ip option" where
  "parse_v4 s =
     (case sequence (map v4_field (SplitByte s (CHR ''.''))) of
        Some fs \<Rightarrow> if length fs = 4 then Some (map of_nat fs) else None
      | None \<Rightarrow> None)"

definition hex_val :: "char \<Rightarrow> nat option" where
  "hex_val c =
     (if is_digit c then Some (code c - 48)
      else if 97 \<le> code c \<and> code c \<le> 102 then Some (code c - 87)
      else if 65 \<le> code c \<and> code c \<le> 70 then Some (code c - 55)
      else None)"

definition hex_group :: "string \<Rightarrow> ip option" where
  "hex_group s =
     (if s = [] \<or> 4 < length s then None
      else (case sequence (map hex_val s) of
              Some ds \<Rightarrow> (let v = foldl (\<lambda>a d. 16 * a + d) 0 ds in Some [of_nat (v div 256), of_nat (v mod 256)])
            | None \<Rightarrow> None))"

text \<open>The groups on one side of the \<open>::\<close>; the last may be an IPv4 address.\<close>

fun v6_groups :: "bool \<Rightarrow> string list \<Rightarrow> ip option" where
  "v6_groups tail [] = Some []"
| "v6_groups tail (g # gs) =
     (if gs = [] \<and> tail \<and> CHR ''.'' \<in> set g then parse_v4 g
      else (case (hex_group g, v6_groups tail gs) of
              (Some x, Some ys) \<Rightarrow> Some (x @ ys)
            | _ \<Rightarrow> None))"

definition v6_side :: "bool \<Rightarrow> string \<Rightarrow> ip option" where
  "v6_side tail s = (if s = [] then Some [] else v6_groups tail (SplitByte s (CHR '':'')))"

definition parse_v6 :: "string \<Rightarrow> ip option" where
  "parse_v6 s =
     (case Index s ''::'' of
        None \<Rightarrow> (case v6_side True s of Some a \<Rightarrow> if length a = 16 then Some a else None | None \<Rightarrow> None)
      | Some i \<Rightarrow>
          (case (v6_side False (take i s), v6_side True (drop (i + 2) s)) of
             (Some a, Some z) \<Rightarrow>
               if length a + length z < 16 then Some (a @ replicate (16 - length a - length z) 0 @ z) else None
           | _ \<Rightarrow> None))"

definition parse_addr :: "string \<Rightarrow> ip option" where
  "parse_addr s =
     (case IndexAny s ''.:%'' of
        None \<Rightarrow> None
      | Some i \<Rightarrow> if s ! i = CHR ''.'' then parse_v4 s
                  else if s ! i = CHR '':'' then parse_v6 s else None)"

definition mask_length :: "string \<Rightarrow> nat option" where
  "mask_length s =
     (if s = [] \<or> \<not> list_all is_digit s then None
      else (case digits_val 0 s of Some n \<Rightarrow> if n < 16777215 then Some n else None | None \<Rightarrow> None))"

definition ParseCIDR :: "string \<Rightarrow> ipnet option" where
  "ParseCIDR s =
     (case CutByte s (CHR ''/'') of
        None \<Rightarrow> None
      | Some (addr, m) \<Rightarrow>
          (case (parse_addr addr, mask_length m) of
             (Some a, Some n) \<Rightarrow>
               if 8 * length a < n then None
               else (let k = CIDRMask n (length a) in Some \<lparr>net_ip = mask_ip a k, net_mask = k\<rparr>)
           | _ \<Rightarrow> None))"

section \<open>Rules\<close>

record conn =
  cn_local :: bool
  cn_ssl :: bool
  cn_database :: string
  cn_user :: string
  cn_ip :: "ip option"

record rule =
  r_type :: string
  r_database :: string
  r_user :: string
  r_address :: string
  r_method :: string
  r_options :: "string \<rightharpoonup> string"
  r_cidr :: "ipnet option"

definition matchType :: "rule \<Rightarrow> conn \<Rightarrow> bool" where
  "matchType r c =
     (let t = ToLower (r_type r) in
      if t = ''local'' then cn_local c
      else if t = ''host'' then \<not> cn_local c
      else if t = ''hostssl'' then \<not> cn_local c \<and> cn_ssl c
      else if t = ''hostnossl'' then \<not> cn_local c \<and> \<not> cn_ssl c
      else False)"

definition matchAddr :: "rule \<Rightarrow> conn \<Rightarrow> bool" where
  "matchAddr r c =
     (if cn_local c then True
      else
       (let a = ToLower (TrimSpace (r_address r)) in
        if a = ''all'' then True
        else if a = ''samehost'' then (case cn_ip c of Some i \<Rightarrow> IsLoopback i | None \<Rightarrow> False)
        else if a = [] then False
        else (case r_cidr r of
                Some n \<Rightarrow> (case cn_ip c of Some i \<Rightarrow> Contains_ip n i | None \<Rightarrow> False)
              | None \<Rightarrow> False)))"

definition pseudo_databases :: "string list" where
  "pseudo_databases = [''replication'', ''sameuser'', ''samerole'', ''samegroup'']"

definition matchDatabase :: "string \<Rightarrow> string \<Rightarrow> bool" where
  "matchDatabase pattern db =
     list_ex (\<lambda>p0. let p = TrimSpace p0 in
        ToLower p = ''all'' \<or> (ToLower p \<notin> set pseudo_databases \<and> p = db)) (SplitByte pattern (CHR '',''))"

definition matchUser :: "string \<Rightarrow> string \<Rightarrow> bool" where
  "matchUser pattern user =
     list_ex (\<lambda>p0. let p = TrimSpace p0 in
        if EqualFold p ''all'' then True
        else if HasPrefix p ''+'' then EqualFold (drop 1 p) user
        else p = user) (SplitByte pattern (CHR '',''))"

definition matches :: "rule \<Rightarrow> conn \<Rightarrow> bool" where
  "matches r c \<longleftrightarrow>
     matchType r c \<and> matchDatabase (r_database r) (cn_database c) \<and> matchUser (r_user r) (cn_user c) \<and>
     matchAddr r c"

fun Method :: "rule list \<Rightarrow> conn \<Rightarrow> string option" where
  "Method [] c = None"
| "Method (r # rs) c = (if matches r c then Some (r_method r) else Method rs c)"

definition compile :: "rule \<Rightarrow> rule" where
  "compile r = (case ParseCIDR (r_address r) of Some n \<Rightarrow> r\<lparr>r_cidr := Some n\<rparr> | None \<Rightarrow> r)"

section \<open>The text format\<close>

definition hba_space :: "char \<Rightarrow> bool" where
  "hba_space c \<longleftrightarrow> c = CHR '' '' \<or> c = CHR 0x09 \<or> c = CHR 0x0D"

function tokenize :: "string \<Rightarrow> string list" where
  "tokenize line =
     (case dropWhile hba_space line of
        [] \<Rightarrow> []
      | c # s \<Rightarrow>
          if c = CHR 0x22
          then takeWhile (\<lambda>x. x \<noteq> CHR 0x22) s # tokenize (drop 1 (dropWhile (\<lambda>x. x \<noteq> CHR 0x22) s))
          else takeWhile (\<lambda>x. \<not> hba_space x) (c # s) # tokenize (dropWhile (\<lambda>x. \<not> hba_space x) (c # s)))"
  by pat_completeness auto
termination
proof (relation "measure length")
  fix line c s assume d: "dropWhile hba_space line = c # (s :: string)"
  then have l: "length (c # s) \<le> length line" by (metis length_dropWhile_le)
  have "length (drop 1 (dropWhile (\<lambda>x. x \<noteq> CHR 0x22) s)) \<le> length s"
    by (metis diff_le_self le_trans length_drop length_dropWhile_le)
  then show "(drop 1 (dropWhile (\<lambda>x. x \<noteq> CHR 0x22) s), line) \<in> measure length" using l by simp
  have "\<not> hba_space c" using d by (metis hd_dropWhile list.discI list.sel(1))
  then have "length (dropWhile (\<lambda>x. \<not> hba_space x) (c # s)) \<le> length s" by (simp add: length_dropWhile_le)
  then show "(dropWhile (\<lambda>x. \<not> hba_space x) (c # s), line) \<in> measure length" using l by simp
qed simp

declare tokenize.simps [simp del]

definition parseOptions :: "string list \<Rightarrow> (string \<rightharpoonup> string)" where
  "parseOptions toks =
     foldl (\<lambda>m t. case IndexByte t (CHR ''='') of
              Some i \<Rightarrow> if 0 < i then m(take i t \<mapsto> Trim (drop (Suc i) t) [CHR 0x22]) else m
            | None \<Rightarrow> m) Map.empty toks"

definition confRule :: "string list \<Rightarrow> string + rule" where
  "confRule toks =
     (let t = ToLower (hd toks) in
      if t = ''local'' then
        (if length toks < 4 then Inl ''local rule needs database, user, method''
         else Inr \<lparr>r_type = t, r_database = toks ! 1, r_user = toks ! 2, r_address = [], r_method = toks ! 3,
                   r_options = parseOptions (drop 4 toks), r_cidr = None\<rparr>)
      else if length toks < 5 then Inl (t @ '' rule needs database, user, address, method'')
      else Inr \<lparr>r_type = t, r_database = toks ! 1, r_user = toks ! 2, r_address = toks ! 3, r_method = toks ! 4,
                r_options = parseOptions (drop 5 toks), r_cidr = None\<rparr>)"

definition uncomment :: "string \<Rightarrow> string" where
  "uncomment text = (case IndexByte text (CHR ''#'') of Some i \<Rightarrow> take i text | None \<Rightarrow> text)"

definition hba_line_error :: "nat \<Rightarrow> string \<Rightarrow> string" where
  "hba_line_error n e = ''pg_hba.conf line '' @ nat_str n @ '': '' @ e"

text \<open>The scanner's lines; one of 64 KiB or more stops it with an error.\<close>

fun parse_lines :: "nat \<Rightarrow> string list \<Rightarrow> string + rule list" where
  "parse_lines n [] = Inr []"
| "parse_lines n (l # ls) =
     (if 65536 \<le> length l then Inl ''bufio.Scanner: token too long''
      else
       (let toks = tokenize (uncomment (TrimSuffix l [CHR 0x0D])) in
        if toks = [] then parse_lines (Suc n) ls
        else (case confRule toks of
                Inl e \<Rightarrow> Inl (hba_line_error (Suc n) e)
              | Inr r \<Rightarrow> (case parse_lines (Suc n) ls of Inl e \<Rightarrow> Inl e | Inr rs \<Rightarrow> Inr (compile r # rs)))))"

definition Parse_conf :: "string \<Rightarrow> string + rule list" where
  "Parse_conf text = parse_lines 0 (SplitByte text (CHR 0x0A))"

definition orDefault :: "string \<Rightarrow> string \<Rightarrow> string" where
  "orDefault v def = (if v = [] then def else v)"

text \<open>The policy of a decoded YAML document.\<close>

definition yaml_policy :: "rule list \<Rightarrow> rule list" where
  "yaml_policy ys =
     map (\<lambda>y. compile (y\<lparr>r_type := ToLower (r_type y), r_database := orDefault (r_database y) ''all'',
                          r_user := orDefault (r_user y) ''all'', r_cidr := None\<rparr>)) ys"

text \<open>\<open>Load\<close>: the files of the directory by name, and the YAML decoder.\<close>

definition Load :: "(string \<Rightarrow> string + rule list) \<Rightarrow> (string \<rightharpoonup> string) \<Rightarrow> string + rule list option" where
  "Load yaml files =
     (case files ''pg_hba.conf'' of
        Some text \<Rightarrow> (case Parse_conf text of Inl e \<Rightarrow> Inl e | Inr p \<Rightarrow> Inr (Some p))
      | None \<Rightarrow>
          (case (files ''pg_hba.yaml'', files ''pg_hba.yml'') of
             (None, None) \<Rightarrow> Inr None
           | (Some t, _) \<Rightarrow> (case yaml t of Inl e \<Rightarrow> Inl e | Inr ys \<Rightarrow> Inr (Some (yaml_policy ys)))
           | (None, Some t) \<Rightarrow> (case yaml t of Inl e \<Rightarrow> Inl e | Inr ys \<Rightarrow> Inr (Some (yaml_policy ys)))))"

section \<open>Which rule decides\<close>

lemma Method_append: "list_all (\<lambda>b. \<not> matches b c) before \<Longrightarrow> Method (before @ rs) c = Method rs c"
  by (induction before) auto

lemma Method_Some:
  "Method rs c = Some m \<Longrightarrow>
   \<exists>before r after. rs = before @ r # after \<and> list_all (\<lambda>b. \<not> matches b c) before \<and> matches r c \<and> m = r_method r"
proof (induction rs)
  case (Cons r rs)
  show ?case
  proof (cases "matches r c")
    case True
    then show ?thesis using Cons.prems by (intro exI [of _ "[]"] exI [of _ r] exI [of _ rs]) auto
  next
    case False
    then obtain before r' after where "rs = before @ r' # after" "list_all (\<lambda>b. \<not> matches b c) before"
      "matches r' c" "m = r_method r'" using Cons by auto
    then show ?thesis using False
      by (intro exI [of _ "r # before"] exI [of _ r'] exI [of _ after]) auto
  qed
qed simp

text \<open>The method of a connection is that of the first rule, in file order, that matches it, and there is
  none exactly when no rule matches: a later rule never overrides an earlier one.\<close>
theorem Method_first_match:
  "(Method rs c = Some m \<longleftrightarrow>
     (\<exists>before r after. rs = before @ r # after \<and> list_all (\<lambda>b. \<not> matches b c) before \<and> matches r c \<and> m = r_method r)) \<and>
   (Method rs c = None \<longleftrightarrow> list_all (\<lambda>r. \<not> matches r c) rs)"
proof
  show "Method rs c = None \<longleftrightarrow> list_all (\<lambda>r. \<not> matches r c) rs"
    by (induction rs) auto
  show "Method rs c = Some m \<longleftrightarrow>
     (\<exists>before r after. rs = before @ r # after \<and> list_all (\<lambda>b. \<not> matches b c) before \<and> matches r c \<and> m = r_method r)"
    using Method_Some by (auto simp: Method_append)
qed

section \<open>Address ranges\<close>

text \<open>Bit \<open>k\<close> of an address, from the most significant.\<close>

definition addr_bit :: "ip \<Rightarrow> nat \<Rightarrow> bool" where
  "addr_bit a k = bit (a ! (k div 8)) (7 - k mod 8)"

lemma length_CIDRMask [simp]: "length (CIDRMask n l) = l"
  by (induction n l rule: CIDRMask.induct) auto

lemma bit_255 [simp]: "bit (255 :: int) j \<longleftrightarrow> j < 8"
proof -
  have "(255 :: int) = mask 8" by (simp add: mask_eq_exp_minus_1)
  then have "bit (255 :: int) j = bit (mask 8 :: int) j" by (simp only:)
  then show ?thesis by (simp only: bit_mask_iff) auto
qed

lemma bit_CIDRMask: "i < l \<Longrightarrow> bit (CIDRMask n l ! i) j \<longleftrightarrow> j < 8 \<and> 8 * i + (7 - j) < n"
proof (induction n l arbitrary: i rule: CIDRMask.induct)
  case (2 n l)
  show ?case
  proof (cases i)
    case 0
    then show ?thesis
      by (auto simp: bit_not_iff bit_drop_bit_eq)
  next
    case (Suc i')
    then show ?thesis using 2 by (auto simp: algebra_simps)
  qed
qed simp

lemma byte_masked_eq: "(x AND m :: 8 word) = (y AND m) \<longleftrightarrow> (\<forall>j < 8. bit m j \<longrightarrow> bit x j = bit y j)"
  by (auto simp: bit_eq_iff bit_and_iff)

lemma masked_prefix:
  assumes "length a = l" "length c = l" "n \<le> 8 * l"
  shows "(\<forall>i < l. a ! i AND CIDRMask n l ! i = c ! i AND CIDRMask n l ! i) \<longleftrightarrow> (\<forall>k < n. addr_bit a k = addr_bit c k)"
proof
  assume eq: "\<forall>i < l. a ! i AND CIDRMask n l ! i = c ! i AND CIDRMask n l ! i"
  show "\<forall>k < n. addr_bit a k = addr_bit c k"
  proof (intro allI impI)
    fix k assume k: "k < n"
    let ?i = "k div 8" and ?j = "7 - k mod 8"
    have i: "?i < l" using k assms(3) by linarith
    have "k mod 8 < 8" by simp
    then have "7 - ?j = k mod 8" by linarith
    then have "8 * ?i + (7 - ?j) = k" by (metis mult_div_mod_eq)
    then have "bit (CIDRMask n l ! ?i) ?j" using k bit_CIDRMask [OF i, of n ?j] by simp
    then have "bit (a ! ?i) ?j = bit (c ! ?i) ?j"
      using eq i byte_masked_eq [of "a ! ?i" "CIDRMask n l ! ?i" "c ! ?i"] by simp
    then show "addr_bit a k = addr_bit c k" by (simp add: addr_bit_def)
  qed
next
  assume bits: "\<forall>k < n. addr_bit a k = addr_bit c k"
  show "\<forall>i < l. a ! i AND CIDRMask n l ! i = c ! i AND CIDRMask n l ! i"
  proof (intro allI impI, subst byte_masked_eq, intro allI impI)
    fix i j assume i: "i < l" and j: "(j::nat) < 8" and m: "bit (CIDRMask n l ! i) j"
    let ?k = "8 * i + (7 - j)"
    have "?k < n" using m bit_CIDRMask [OF i, of n j] by blast
    then have "addr_bit a ?k = addr_bit c ?k" using bits by blast
    moreover have "?k div 8 = i" using j by simp
    moreover have "?k mod 8 = 7 - j" by (subst mod_mult_self4) simp
    then have "7 - ?k mod 8 = j" using j by linarith
    ultimately show "bit (a ! i) j = bit (c ! i) j" unfolding addr_bit_def by (simp only:)
  qed
qed

text \<open>A rule with an IPv4 range \<open>address/n\<close> matches the address of a client exactly when it is an IPv4
  address (or one mapped into IPv6) that agrees with the range's in the first \<open>n\<close> bits.\<close>
theorem cidr_v4_matches:
  assumes "CHR ''/'' \<notin> set addr" "parse_addr addr = Some a" "length a = 4" "mask_length m = Some n" "n \<le> 32"
  shows "\<exists>net. ParseCIDR (addr @ ''/'' @ m) = Some net \<and>
    (Contains_ip net client \<longleftrightarrow> (\<exists>c4. To4 client = Some c4 \<and> (\<forall>k \<in> set [0..<n]. addr_bit a k = addr_bit c4 k)))"
proof -
  let ?k = "CIDRMask n 4"
  let ?net = "\<lparr>net_ip = mask_ip a ?k, net_mask = ?k\<rparr>"
  have p: "ParseCIDR (addr @ ''/'' @ m) = Some ?net"
    using assms CutByte_mid [OF assms(1), of m] by (simp add: ParseCIDR_def Let_def)
  have l: "length (mask_ip a ?k) = 4" using assms(3) by (simp add: mask_ip_def)
  have nm: "networkNumberAndMask ?net = Some (mask_ip a ?k, ?k)"
    by (simp add: networkNumberAndMask_def To4_def l Let_def)
  have idem: "mask_ip a ?k ! i AND ?k ! i = a ! i AND ?k ! i" if "i < 4" for i
    using that assms(3) by (simp add: mask_ip_def and.assoc)
  have To4_len: "length c4 = 4" if "To4 client = Some c4" for c4
    using that by (auto simp: To4_def split: if_splits)
  have "Contains_ip ?net client \<longleftrightarrow> (\<exists>c4. To4 client = Some c4 \<and> (\<forall>i < 4. a ! i AND ?k ! i = c4 ! i AND ?k ! i))"
  proof (cases "To4 client")
    case None
    then have "length client \<noteq> 4" by (auto simp: To4_def)
    then show ?thesis using None by (simp add: Contains_ip_def nm l)
  next
    case (Some c4)
    then show ?thesis using To4_len [OF Some] by (auto simp: Contains_ip_def nm l idem)
  qed
  also have "\<dots> \<longleftrightarrow> (\<exists>c4. To4 client = Some c4 \<and> (\<forall>k < n. addr_bit a k = addr_bit c4 k))"
    using masked_prefix [OF assms(3) To4_len] assms(5) by auto
  finally show ?thesis using p by auto
qed

lemma cidr_v4_matches_witness:
  "\<exists>net. ParseCIDR ''10.0.0.0/8'' = Some net \<and>
    (Contains_ip net [10, 1, 2, 3] \<longleftrightarrow> (\<exists>c4. To4 [10, 1, 2, 3] = Some c4 \<and> (\<forall>k \<in> set [0..<8]. addr_bit [10, 0, 0, 0] k = addr_bit c4 k)))"
proof -
  have f: "sequence (map v4_field (SplitByte ''10.0.0.0'' (CHR ''.''))) = Some [10, 0, 0, 0]"
    "IndexAny ''10.0.0.0'' ''.:%'' = Some 2" "digits_val 0 ''8'' = Some 8" "list_all is_digit ''8''" by code_simp+
  then have x: "parse_addr ''10.0.0.0'' = Some [10, 0, 0, 0]" "mask_length ''8'' = Some 8"
    by (simp_all add: parse_addr_def parse_v4_def mask_length_def)
  show ?thesis using cidr_v4_matches [of "''10.0.0.0''" "[10, 0, 0, 0]" "''8''" 8 "[10, 1, 2, 3]"] x by simp
qed

section \<open>Lines are read as they are written\<close>

definition plain_token :: "string \<Rightarrow> bool" where
  "plain_token t \<longleftrightarrow> t \<noteq> [] \<and> hd t \<noteq> CHR 0x22 \<and>
     list_all (\<lambda>c. \<not> hba_space c \<and> c \<noteq> CHR ''#'' \<and> c \<noteq> CHR 0x0A) t"

lemma tokenize_Nil [simp]: "tokenize [] = []"
  by (simp add: tokenize.simps)

lemma tokenize_space: "hba_space c \<Longrightarrow> tokenize (c # s) = tokenize s"
  by (subst tokenize.simps [of "c # s"], subst tokenize.simps [of s]) simp

lemma tokenize_token:
  assumes t: "plain_token t" and r: "r = [] \<or> hba_space (hd r)"
  shows "tokenize (t @ r) = t # tokenize r"
proof -
  obtain c t' where tc: "t = c # t'" using t by (cases t) (auto simp: plain_token_def)
  have all: "list_all (\<lambda>x. \<not> hba_space x) t" using t by (auto simp: plain_token_def list_all_iff)
  have c: "\<not> hba_space c" "c \<noteq> CHR 0x22" using t tc by (auto simp: plain_token_def)
  have tw: "takeWhile (\<lambda>x. \<not> hba_space x) (t @ r) = t" "dropWhile (\<lambda>x. \<not> hba_space x) (t @ r) = r"
    using all r by (cases r; simp add: takeWhile_append dropWhile_append list_all_iff)+
  show ?thesis
    using c tw unfolding tc by (subst tokenize.simps) simp
qed

lemma tokenize_Join:
  assumes "list_all plain_token ts"
  shows "tokenize (Join ts '' '') = ts"
  using assms
proof (induction ts "'' ''" rule: Join.induct)
  case (2 s)
  then show ?case using tokenize_token [of s "[]"] by simp
next
  case (3 s t ts)
  have sp: "hba_space (CHR '' '')" by (simp add: hba_space_def)
  have "tokenize (s @ '' '' @ Join (t # ts) '' '') = s # tokenize ('' '' @ Join (t # ts) '' '')"
    using 3 sp by (intro tokenize_token) auto
  then show ?case using 3 sp by (simp add: tokenize_space)
qed simp

lemma Join_chars: "x \<in> set (Join ts sep) \<Longrightarrow> x \<in> set sep \<or> (\<exists>t \<in> set ts. x \<in> set t)"
  by (induction ts sep rule: Join.induct) auto

definition rule_columns :: "rule \<Rightarrow> string list" where
  "rule_columns r = [r_type r, r_database r, r_user r, r_address r, r_method r]"

definition rule_line :: "rule \<Rightarrow> string" where
  "rule_line r = Join (rule_columns r) '' ''"

definition plain_rule :: "rule \<Rightarrow> bool" where
  "plain_rule r \<longleftrightarrow> list_all plain_token (rule_columns r) \<and> ToLower (r_type r) = r_type r \<and>
     r_type r \<noteq> ''local'' \<and> r_options r = Map.empty \<and> r_cidr r = None \<and> length (rule_line r) < 65536"

lemma rule_line_chars:
  assumes "plain_rule r"
  shows "CHR ''#'' \<notin> set (rule_line r)" "CHR 0x0A \<notin> set (rule_line r)" "CHR 0x0D \<notin> set (rule_line r)"
proof -
  have "x = CHR '' '' \<or> \<not> hba_space x \<and> x \<noteq> CHR ''#'' \<and> x \<noteq> CHR 0x0A" if "x \<in> set (rule_line r)" for x
    using Join_chars [OF that [unfolded rule_line_def]] assms
    unfolding plain_rule_def list_all_iff plain_token_def by fastforce
  then show "CHR ''#'' \<notin> set (rule_line r)" "CHR 0x0A \<notin> set (rule_line r)" "CHR 0x0D \<notin> set (rule_line r)"
    unfolding hba_space_def by fastforce+
qed

lemma parse_rule_line:
  assumes "plain_rule r"
  shows "tokenize (uncomment (TrimSuffix (rule_line r) [CHR 0x0D])) = rule_columns r"
    and "confRule (rule_columns r) = Inr r"
proof -
  have "\<not> HasSuffix (rule_line r) [CHR 0x0D]"
  proof
    assume "HasSuffix (rule_line r) [CHR 0x0D]"
    then have "CHR 0x0D \<in> set (drop (length (rule_line r) - 1) (rule_line r))" by (simp add: HasSuffix_def)
    then show False using rule_line_chars(3) [OF assms] by (meson in_set_dropD)
  qed
  then have trim: "TrimSuffix (rule_line r) [CHR 0x0D] = rule_line r" by (simp add: TrimSuffix_def)
  have "IndexByte (rule_line r) (CHR ''#'') = None"
    unfolding IndexByte_def index_where_None using rule_line_chars(1) [OF assms] by blast
  then have "uncomment (rule_line r) = rule_line r" by (simp add: uncomment_def)
  moreover have "tokenize (rule_line r) = rule_columns r"
    unfolding rule_line_def by (rule tokenize_Join) (use assms in \<open>simp add: plain_rule_def\<close>)
  ultimately show "tokenize (uncomment (TrimSuffix (rule_line r) [CHR 0x0D])) = rule_columns r"
    by (simp add: trim)
  show "confRule (rule_columns r) = Inr r"
    using assms by (cases r) (simp add: confRule_def rule_columns_def plain_rule_def parseOptions_def)
qed

text \<open>A pg_hba.conf of lines written with blanks between plain columns is read as exactly those rules, in
  that order, each with its address compiled.\<close>
theorem conf_roundtrip:
  assumes "list_all plain_rule rs" "rs \<noteq> []"
  shows "Parse_conf (Join (map rule_line rs) [CHR 0x0A]) = Inr (map compile rs)"
proof -
  have "SplitByte (Join (map rule_line rs) [CHR 0x0A]) (CHR 0x0A) = map rule_line rs"
    using assms rule_line_chars(2) by (intro SplitByte_join) (auto simp: list_all_iff)
  moreover have "parse_lines n (map rule_line rs) = Inr (map compile rs)" for n
    using assms(1)
  proof (induction rs arbitrary: n)
    case (Cons r rs)
    then have r: "plain_rule r" by simp
    have "rule_columns r \<noteq> []" by (simp add: rule_columns_def)
    then show ?case using Cons parse_rule_line [OF r] r by (simp add: plain_rule_def)
  qed simp
  ultimately show ?thesis by (simp add: Parse_conf_def)
qed

lemma conf_roundtrip_witness:
  "Parse_conf ''host all all 10.0.0.0/8 md5'' =
    Inr [compile \<lparr>r_type = ''host'', r_database = ''all'', r_user = ''all'', r_address = ''10.0.0.0/8'',
           r_method = ''md5'', r_options = Map.empty, r_cidr = None\<rparr>]"
  using conf_roundtrip [of "[\<lparr>r_type = ''host'', r_database = ''all'', r_user = ''all'', r_address = ''10.0.0.0/8'',
           r_method = ''md5'', r_options = Map.empty, r_cidr = None\<rparr>]"]
  by (simp add: plain_rule_def rule_columns_def rule_line_def plain_token_def hba_space_def ToLower_def
      to_lower_def is_upper_def)

text \<open>A quoted name keeps its meaning as a keyword: the quotes only group.\<close>

lemma quoted_all_matches_everything:
  "tokenize [CHR 0x22, CHR ''a'', CHR ''l'', CHR ''l'', CHR 0x22] = [''all''] \<and> matchDatabase ''all'' db"
proof -
  have "tokenize [CHR 0x22, CHR ''a'', CHR ''l'', CHR ''l'', CHR 0x22] = [''all'']" by code_simp
  moreover have "SplitByte ''all'' (CHR '','') = [''all'']" "ToLower (TrimSpace ''all'') = ''all''" by code_simp+
  ultimately show ?thesis by (simp add: matchDatabase_def Let_def)
qed

end
