(* ===== verification/Login.thy ===== *)
theory Login
  imports RoleDDL Hba
begin

text \<open>
  Opening a session (\<open>postgres.go\<close>, \<open>cancel.go\<close>): which method a connection is authenticated by, which
  credential it is held to, the exchange itself, the messages that follow it, and the registry through
  which a second connection cancels a running query. The client is a function from the authentication
  messages it has been sent so far to its answer; errors of the connection are not modelled. MD5 is a
  parameter: only equality of digests is used.
\<close>

section \<open>The method\<close>

record protocol =
  pr_password :: string
  configuredAuth :: string
  hba :: "rule list option"

definition authMethod :: "protocol \<Rightarrow> string" where
  "authMethod p =
     (if pr_password p = [] then ''trust''
      else
       (let m = ToLower (configuredAuth p) in
        if m = ''trust'' then ''trust'' else if m = ''password'' then ''password''
        else if m = ''md5'' then ''md5'' else ''scram''))"

definition normalizeHBAMethod :: "string \<Rightarrow> string" where
  "normalizeHBAMethod m =
     (let l = ToLower m in
      if l \<in> {''trust'', ''reject'', ''md5'', ''password''} then l
      else if l \<in> {''scram-sha-256'', ''scram''} then ''scram''
      else if l \<in> {''peer'', ''cert''} then ''trust''
      else ''scram'')"

definition resolveMethod :: "protocol \<Rightarrow> string \<Rightarrow> string \<Rightarrow> ip option \<Rightarrow> bool \<Rightarrow> string" where
  "resolveMethod p user database addr ssl =
     (case hba p of
        None \<Rightarrow> authMethod p
      | Some policy \<Rightarrow>
          (case Method policy \<lparr>cn_local = (addr = None), cn_ssl = ssl, cn_database = database, cn_user = user,
                  cn_ip = addr\<rparr> of
             None \<Rightarrow> ''reject''
           | Some m \<Rightarrow> normalizeHBAMethod m))"

section \<open>The credential\<close>

definition roleMayLogin :: "auth_db \<Rightarrow> string \<Rightarrow> bool" where
  "roleMayLogin db user =
     (case filter (\<lambda>r. nocase_eq (rolname r) user) (roles db) of
        [] \<Rightarrow> True
      | r # _ \<Rightarrow> rolcanlogin r \<noteq> 0)"

definition lookupRoleVerifier :: "auth_db \<Rightarrow> string \<Rightarrow> scramVerifier option" where
  "lookupRoleVerifier db user =
     (case filter (\<lambda>r. nocase_eq (rolname r) user \<and> rolpassword r \<noteq> None) (roles db) of
        [] \<Rightarrow> None
      | r # _ \<Rightarrow> parseSCRAMVerifier (the (rolpassword r)))"

definition credentialFor :: "protocol \<Rightarrow> auth_db \<Rightarrow> string \<Rightarrow> credential option" where
  "credentialFor p db user =
     (case lookupRoleVerifier db user of
        Some v \<Rightarrow> Some \<lparr>plaintext = [], scram = Some v\<rparr>
      | None \<Rightarrow>
          if pr_password p \<noteq> [] then Some \<lparr>plaintext = pr_password p, scram = None\<rparr> else None)"

section \<open>The exchange\<close>

text \<open>The random bytes one authentication draws.\<close>

record entropy =
  salt16 :: string
  nonce18 :: string
  salt4 :: string

type_synonym client = "string list \<Rightarrow> char \<times> string"

definition authCleartext :: "credential \<Rightarrow> client \<Rightarrow> auth_error + unit" where
  "authCleartext cred client =
     (let (typ, body) = client [i32 3] in
      if typ \<noteq> CHR ''p'' then Inl (Protocol ''expected password message'')
      else if \<not> cred_matches cred (TrimRight body [CHR 0x00]) then Inl AuthFailed
      else Inr ())"

definition md5Password :: "(string \<Rightarrow> string) \<Rightarrow> string \<Rightarrow> string \<Rightarrow> string \<Rightarrow> string" where
  "md5Password md5Hex password user slt = ''md5'' @ md5Hex (md5Hex (password @ user) @ slt)"

definition authMD5 ::
  "(string \<Rightarrow> string) \<Rightarrow> entropy \<Rightarrow> string \<Rightarrow> credential \<Rightarrow> client \<Rightarrow> auth_error + unit" where
  "authMD5 md5Hex rnd user cred client =
     (let (typ, body) = client [i32 5 @ salt4 rnd] in
      if typ \<noteq> CHR ''p'' then Inl (Protocol ''expected password message'')
      else if plaintext cred = [] \<or> TrimRight body [CHR 0x00] \<noteq> md5Password md5Hex (plaintext cred) user (salt4 rnd)
      then Inl AuthFailed
      else Inr ())"

definition run_scram :: "entropy \<Rightarrow> credential \<Rightarrow> client \<Rightarrow> auth_error + unit" where
  "run_scram rnd cred client =
     (case authSCRAM cred (salt16 rnd) (nonce18 rnd) (client [authSASL]) (\<lambda>m. client [authSASL, m]) of
        Inl e \<Rightarrow> Inl e
      | Inr _ \<Rightarrow> Inr ())"

definition authenticate ::
  "(string \<Rightarrow> string) \<Rightarrow> protocol \<Rightarrow> auth_db \<Rightarrow> string \<Rightarrow> string \<Rightarrow> ip option \<Rightarrow> bool \<Rightarrow> entropy \<Rightarrow> client
    \<Rightarrow> auth_error + unit" where
  "authenticate md5Hex p db user database addr ssl rnd client =
     (if \<not> roleMayLogin db user then Inl (Refused (''role '' @ goQuote user @ '' is not permitted to log in''))
      else
       (let m = resolveMethod p user database addr ssl in
        if m = ''reject'' then
          Inl (Refused (''no pg_hba.conf entry for user '' @ goQuote user @ '', database '' @ goQuote database))
        else if m = ''trust'' then Inr ()
        else (case credentialFor p db user of
                None \<Rightarrow> Inl AuthFailed
              | Some cred \<Rightarrow>
                  if m = ''password'' then authCleartext cred client
                  else if m = ''md5'' then authMD5 md5Hex rnd user cred client
                  else run_scram rnd cred client)))"

section \<open>The handshake\<close>

text \<open>The parameters the server reports; their order on the wire is not fixed by the source.\<close>

definition handshake_parameters :: "(string \<times> string) list" where
  "handshake_parameters =
     [(''server_version'', ''15.0 (overlite)''), (''server_encoding'', ''UTF8''), (''client_encoding'', ''UTF8''),
      (''DateStyle'', ''ISO, MDY''), (''integer_datetimes'', ''on''), (''standard_conforming_strings'', ''on'')]"

text \<open>What is written after a successful authentication: AuthenticationOk, the parameters, the key of the
  connection, and the first ReadyForQuery.\<close>

definition completeHandshake :: "int \<Rightarrow> int \<Rightarrow> string" where
  "completeHandshake pid secret =
     send (CHR ''R'') (i32 0) @ concat (map (\<lambda>(k, v). sendParameterStatus k v) handshake_parameters) @
     backendKeyData pid secret @ send (CHR ''Z'') ''I''"

section \<open>Cancelling from another connection\<close>

text \<open>A connection's canceler holds what cancels its running query; here, the query's number.\<close>

record backend =
  bk_conn :: nat
  bk_running :: "nat option"

type_synonym backend_map = "(64 word \<times> backend) list"

definition registerBackend :: "32 word \<Rightarrow> 32 word \<Rightarrow> nat \<Rightarrow> backend_map \<Rightarrow> backend_map" where
  "registerBackend pid secret c bs = AList.update (backendKey pid secret) \<lparr>bk_conn = c, bk_running = None\<rparr> bs"

definition unregisterBackend :: "32 word \<Rightarrow> 32 word \<Rightarrow> backend_map \<Rightarrow> backend_map" where
  "unregisterBackend pid secret bs = AList.delete (backendKey pid secret) bs"

definition arm :: "nat \<Rightarrow> backend \<Rightarrow> backend" where
  "arm q cl = cl\<lparr>bk_running := Some q\<rparr>"

definition disarm :: "backend \<Rightarrow> backend" where
  "disarm cl = cl\<lparr>bk_running := None\<rparr>"

text \<open>What a CancelRequest interrupts: a connection's running query, or nothing.\<close>

definition cancelBackend :: "32 word \<Rightarrow> 32 word \<Rightarrow> backend_map \<Rightarrow> (nat \<times> nat) option" where
  "cancelBackend pid secret bs =
     (case map_of bs (backendKey pid secret) of
        None \<Rightarrow> None
      | Some cl \<Rightarrow> map_option (\<lambda>q. (bk_conn cl, q)) (bk_running cl))"

text \<open>A connection whose startup is a CancelRequest does only that, and is closed.\<close>

definition serve_cancel :: "bool \<Rightarrow> string \<Rightarrow> backend_map \<Rightarrow> (nat \<times> nat) option" where
  "serve_cancel tls bytes bs =
     (case readStartup tls bytes of
        (StartupCancel pid secret, _) \<Rightarrow> cancelBackend (word_of_int pid) (word_of_int secret) bs
      | _ \<Rightarrow> None)"

section \<open>Who gets in\<close>

lemma cred_source:
  assumes "credentialFor p db user = Some cred"
  shows "(\<exists>v. lookupRoleVerifier db user = Some v \<and> cred = \<lparr>plaintext = [], scram = Some v\<rparr>) \<or>
    (lookupRoleVerifier db user = None \<and> pr_password p \<noteq> [] \<and> cred = \<lparr>plaintext = pr_password p, scram = None\<rparr>)"
  using assms by (auto simp: credentialFor_def split: option.splits if_splits)

definition scram_proved :: "credential \<Rightarrow> entropy \<Rightarrow> client \<Rightarrow> bool" where
  "scram_proved cred rnd client \<longleftrightarrow>
     (\<exists>bare cn proof. client_first (fst (client [authSASL])) (snd (client [authSASL])) = Inr (bare, cn) \<and>
        (let v = scram_verifier cred (salt16 rnd); sf = server_first v (cn @ randomNonce (nonce18 rnd));
             final = snd (client [authSASL, i32 11 @ sf]) in
          scramAttr final ''r'' = cn @ randomNonce (nonce18 rnd) \<and>
          Sum256 (xor_bytes proof (hmacSHA256 (storedKey v) (auth_message bare sf final))) = storedKey v))"

lemma run_scram_proved: "run_scram rnd cred client = Inr () \<Longrightarrow> scram_proved cred rnd client"
  unfolding run_scram_def scram_proved_def
  by (auto split: sum.splits dest!: authSCRAM_accepts)


text \<open>No password opens a connection that the policy file rejects: when its first matching rule says
  reject, or no rule matches, every client is refused, whoever it is and whatever it knows.\<close>
theorem hba_rejects:
  assumes "hba p = Some policy"
    and "c = \<lparr>cn_local = (addr = None), cn_ssl = ssl, cn_database = database, cn_user = user, cn_ip = addr\<rparr>"
    and "list_all (\<lambda>r. \<not> matches r c) policy \<or>
      (\<exists>before r after. policy = before @ r # after \<and> list_all (\<lambda>b. \<not> matches b c) before \<and> matches r c \<and>
         EqualFold (r_method r) ''reject'')"
  shows "\<exists>msg. authenticate md5Hex p db user database addr ssl rnd client = Inl (Refused msg)"
proof -
  have rj: "ToLower ''reject'' = ''reject''" by code_simp
  have none: "list_all (\<lambda>r. \<not> matches r c) rs \<Longrightarrow> Method rs c = None" for rs
    by (induction rs) auto
  have "Method policy c = None \<or> (\<exists>m. Method policy c = Some m \<and> ToLower m = ''reject'')"
    using assms(3) none rj by (auto simp: Method_append EqualFold_def)
  then have "resolveMethod p user database addr ssl = ''reject''"
    using assms(1,2) by (auto simp: resolveMethod_def normalizeHBAMethod_def Let_def)
  then show ?thesis by (auto simp: authenticate_def)
qed

text \<open>Without a server password and without a policy file, every role that may log in is trusted: a role's
  own password is never asked for.\<close>
theorem role_password_ignored:
  assumes "pr_password p = []" "hba p = None" "roleMayLogin db user"
  shows "authenticate md5Hex p db user database addr ssl rnd client = Inr ()"
  using assms by (simp add: authenticate_def resolveMethod_def authMethod_def)

section \<open>From CREATE ROLE to a session\<close>

text \<open>A client of the user with that password: it answers a request for a cleartext password with it, and
  SASL by RFC 5802.\<close>

definition honest_client :: "string \<Rightarrow> string \<Rightarrow> string \<Rightarrow> client" where
  "honest_client user password cnonce sent =
     (CHR ''p'',
      if sent = [i32 3] then password @ [CHR 0x00]
      else if length sent = 1 then rfc_first user cnonce
      else rfc_final password (rfc_bare user cnonce) (drop 4 (sent ! 1)))"

lemma honest_scram:
  assumes "CHR '','' \<notin> set user" "CHR '','' \<notin> set cnonce" "cnonce \<noteq> []"
    "int (length (''n,,'' @ rfc_bare user cnonce)) < 2 ^ 31"
    "(case scram cred of None \<Rightarrow> plaintext cred = password
      | Some v \<Rightarrow> in_int64 (iter v) \<and> v = deriveVerifier password (salt v) (iter v))"
  shows "run_scram rnd cred (honest_client user password cnonce) = Inr ()"
proof -
  have "i32 10 \<noteq> i32 3" by code_simp
  then have "authSASL \<noteq> i32 3"
    by (simp add: authSASL_def i32_def appendInt32_def appendCString_def)
  then show ?thesis
    using authSCRAM_completes [OF assms refl, of "salt16 rnd" "nonce18 rnd"]
    by (simp add: run_scram_def honest_client_def)
qed

lemma honest_cleartext:
  assumes "password = [] \<or> last password \<noteq> CHR 0x00" "cred_matches cred password"
  shows "authCleartext cred (honest_client user password cnonce) = Inr ()"
proof -
  have "TrimRight (password @ [CHR 0x00]) [CHR 0x00] = password"
    using assms(1) by (cases password rule: rev_cases) (auto simp: TrimRight_def)
  then show ?thesis using assms(2) by (simp add: authCleartext_def honest_client_def)
qed

lemma lookup_created:
  assumes "createRole random sql fs obj db = Some (Inr db')" "extractPassword sql = Some (Some pw)"
    "\<not> roleExists db (unquoteIdent (fs ! 2))"
  shows "lookupRoleVerifier db' (unquoteIdent (fs ! 2)) = Some (deriveVerifier pw random scramIterations)"
proof -
  obtain r where r: "roles db' = roles db @ [r]" "rolname r = unquoteIdent (fs ! 2)"
      "rolpassword r = Some (buildSCRAMVerifier random pw)"
    using assms by (auto simp: createRole_def insert_role_def Let_def split: if_splits)
  have "filter (\<lambda>x. nocase_eq (rolname x) (unquoteIdent (fs ! 2)) \<and> rolpassword x \<noteq> None) (roles db) = []"
    using assms(3) by (auto simp: filter_empty_conv roleExists_def list_ex_iff)
  moreover have "in_int64 (iter (deriveVerifier pw random scramIterations))"
    by (simp add: deriveVerifier_def Let_def scramIterations_def in_int64_def)
  ultimately show ?thesis
    using r parse_verifier_text by (simp add: lookupRoleVerifier_def buildSCRAMVerifier_def)
qed


section \<open>Cancellation reaches one connection\<close>

lemma sint_in_int32: "in_int32 (sint (w :: 32 word))"
  using sint_ge [of w] sint_lt [of w] by (simp add: in_int32_def)

lemma backendKey_eq: "backendKey pid secret = backendKey pid' secret' \<longleftrightarrow> pid = pid' \<and> secret = secret'"
  using cancel_hits_its_backend [OF sint_in_int32 [of pid'] sint_in_int32 [of secret'], of False pid secret] by simp

text \<open>C36: A CancelRequest reaches the query of the one connection that was given exactly its pid and secret:
  the key packs both without collision, arming a query changes what that pair cancels and nothing else,
  and an unregistered pair cancels nothing.\<close>
theorem cancel_reaches_its_backend:
  "serve_cancel tls (startup_packet cancelRequestCode (i32 (sint pid) @ i32 (sint secret))) bs = cancelBackend pid secret bs \<and>
   cancelBackend pid secret (AList.map_entry (backendKey pid' secret') (arm q) (registerBackend pid' secret' c bs)) =
     (if pid = pid' \<and> secret = secret' then Some (c, q) else cancelBackend pid secret bs) \<and>
   cancelBackend pid secret (AList.map_entry (backendKey pid' secret') disarm (registerBackend pid' secret' c bs)) =
     (if pid = pid' \<and> secret = secret' then None else cancelBackend pid secret bs) \<and>
   cancelBackend pid secret (unregisterBackend pid' secret' bs) =
     (if pid = pid' \<and> secret = secret' then None else cancelBackend pid secret bs)"
  using cancel_hits_its_backend [OF sint_in_int32 [of pid] sint_in_int32 [of secret], of tls]
  by (auto simp: serve_cancel_def cancelBackend_def registerBackend_def unregisterBackend_def AList.map_of_map_entry update_conv
      delete_conv arm_def disarm_def backendKey_eq)

section \<open>Witnesses\<close>

definition trusting :: protocol where
  "trusting = \<lparr>pr_password = [], configuredAuth = [], hba = None\<rparr>"

definition guarded :: protocol where
  "guarded = \<lparr>pr_password = ''pw'', configuredAuth = ''password'', hba = None\<rparr>"

definition closed_door :: protocol where
  "closed_door = \<lparr>pr_password = ''pw'', configuredAuth = [], hba = Some []\<rparr>"

definition no_entropy :: entropy where
  "no_entropy = \<lparr>salt16 = ''salt'', nonce18 = ''0123456789abcdefgh'', salt4 = ''salt''\<rparr>"

lemma guarded_method: "resolveMethod guarded u d a ssl = ''password''"
proof -
  have "ToLower ''password'' = ''password''" by code_simp
  then show ?thesis by (simp add: resolveMethod_def authMethod_def guarded_def)
qed

lemma guarded_password: "pr_password guarded = ''pw''"
  by (simp add: guarded_def)


theorem hba_rejects_witness:
  "\<exists>msg. authenticate (\<lambda>x. x) closed_door sample_db ''bob'' ''d'' None False no_entropy (\<lambda>_. (CHR ''p'', ''pw'')) = Inl (Refused msg)"
  by (rule hba_rejects [of _ "[]", OF _ refl]) (simp_all add: closed_door_def)

theorem role_password_ignored_witness:
  "authenticate (\<lambda>x. x) trusting sample_db ''bob'' ''d'' None False no_entropy (\<lambda>_. (CHR ''p'', ''wrong'')) = Inr ()"
proof (rule role_password_ignored)
  show "roleMayLogin sample_db ''bob''" by code_simp
qed (simp_all add: trusting_def)

abbreviation create_dave :: string where
  "create_dave \<equiv> ''CREATE ROLE dave LOGIN PASSWORD '' @ [CHR 0x27, CHR ''x'', CHR 0x27]"

lemma dave_fields:
  "3 \<le> length (Fields create_dave)" "extractPassword create_dave = Some (Some ''x'')"
  "unquoteIdent (Fields create_dave ! 2) = ''dave''" "parseRoleAttrs (drop 3 (Fields create_dave)) = [(''rolcanlogin'', 1)]"
  by code_simp+


end
