(* ===== verification/SessionUser.thy ===== *)
theory SessionUser
  imports Privileges Splitter
begin

text \<open>
  Session identity (\<open>session_user.go\<close>): the literals that replace current_user and its kin in a statement,
  and SET ROLE and SET SESSION AUTHORIZATION, which move the identity of \<open>Privileges\<close>. The caller has
  tested the statement with \<open>isSetRole\<close>, so its words are there to index.
\<close>

section \<open>The niladic functions\<close>

definition userLiteral :: "identity \<Rightarrow> string \<Rightarrow> string option" where
  "userLiteral s w =
     (if w = ''current_user'' \<or> w = ''current_role'' then Some (sqlStr (currentRole s))
      else if w = ''session_user'' then Some (sqlStr (sessionUser s))
      else None)"

text \<open>Past an optional empty pair of parentheses.\<close>

definition after_call :: "string \<Rightarrow> nat \<Rightarrow> nat" where
  "after_call sql j =
     (let k = skipSpaces sql j in
      if k < length sql \<and> sql ! k = CHR ''('' then
        (let m = skipSpaces sql (k + 1) in if m < length sql \<and> sql ! m = CHR '')'' then m + 1 else j)
      else j)"

lemma skipSpaces_ge: "j \<le> skipSpaces sql j"
  by (simp add: skipSpaces_def scan_while_ge)

lemma after_call_ge: "j \<le> after_call sql j"
  using skipSpaces_ge [of j sql] skipSpaces_ge [of "skipSpaces sql j + 1" sql]
  by (simp add: after_call_def Let_def)

lemma scan_ident_gt: "i < length sql \<Longrightarrow> isIdentStart (sql ! i) \<Longrightarrow> i < scan_while isIdentPart sql i"
  by (rule scan_while_gt) (simp_all add: isIdentPart_def)

function expand_from :: "identity \<Rightarrow> string \<Rightarrow> nat \<Rightarrow> string" where
  "expand_from s sql i =
     (if i < length sql then
        if sql ! i = CHR 0x27 then
          (let j = endOfStringLiteral sql i in Scanner.slice sql i j @ expand_from s sql j)
        else if \<not> isIdentStart (sql ! i) then (sql ! i) # expand_from s sql (i + 1)
        else
          (let qualified = (0 < i \<and> (sql ! (i - 1) = CHR ''.'' \<or> sql ! (i - 1) = CHR 0x22 \<or> isIdentPart (sql ! (i - 1))));
               j = scan_while isIdentPart sql i in
           (case userLiteral s (ToLower (Scanner.slice sql i j)) of
              Some lit \<Rightarrow>
                if qualified then Scanner.slice sql i j @ expand_from s sql j
                else lit @ expand_from s sql (after_call sql j)
            | None \<Rightarrow> Scanner.slice sql i j @ expand_from s sql j))
      else [])"
  by pat_completeness auto
termination
proof (relation "measure (\<lambda>(s, sql, i). length sql - i)", goal_cases)
  case (2 s sql i)
  then show ?case using endOfStringLiteral_bounds(1) [of i sql] by auto
next
  case (4 s sql i x lit)
  then show ?case using scan_ident_gt [of i sql] by auto
next
  case (5 s sql i x lit)
  then show ?case using scan_ident_gt [of i sql] by auto
next
  case (6 s sql i x lit)
  then show ?case
    using scan_ident_gt [of i sql] after_call_ge [of "scan_while isIdentPart sql i" sql]
    by (auto intro!: diff_less_mono2)
qed auto

declare expand_from.simps [simp del]

definition expandSessionUser :: "identity \<Rightarrow> string \<Rightarrow> string" where
  "expandSessionUser s sql =
     (let low = ToLower sql in
      if \<not> Contains low ''_user'' \<and> \<not> Contains low ''current_role'' then sql
      else expand_from s sql 0)"

section \<open>SET ROLE and SET SESSION AUTHORIZATION\<close>

fun roleTarget :: "string list \<Rightarrow> string" where
  "roleTarget [] = []"
| "roleTarget (t # toks) =
     (if EqualFold t ''to'' \<or> t = ''='' then roleTarget toks
      else
       (let u = TrimRight t '';'' in
        if 2 \<le> length u \<and> (hd u = CHR 0x27 \<or> hd u = CHR 0x22) then Scanner.slice u 1 (length u - 1) else u))"

definition canSetRole :: "auth_db \<Rightarrow> identity \<Rightarrow> string \<Rightarrow> bool" where
  "canSetRole db s target \<longleftrightarrow>
     EqualFold target (sessionUser s) \<or> EqualFold target (authUser s) \<or> roleBypasses db (sessionUser s) \<or>
     isMemberOf db (sessionUser s) target"

definition applySetRole :: "auth_db \<Rightarrow> string \<Rightarrow> identity \<Rightarrow> string option \<times> identity" where
  "applySetRole db sql s =
     (let f = Fields sql; reset = EqualFold (f ! 0) ''reset'' in
      if EqualFold (f ! 1) ''role'' then
        (if reset then (None, s\<lparr>currentRole := sessionUser s\<rparr>)
         else
          (let target = roleTarget (drop 2 f) in
           if target = [] \<or> EqualFold target ''none'' \<or> EqualFold target ''default''
           then (None, s\<lparr>currentRole := sessionUser s\<rparr>)
           else if \<not> roleExists db target then (Some (''role '' @ goQuote target @ '' does not exist''), s)
           else if \<not> canSetRole db s target then (Some (''permission denied to set role '' @ goQuote target), s)
           else (None, s\<lparr>currentRole := target\<rparr>)))
      else if reset then (None, s\<lparr>sessionUser := authUser s, currentRole := authUser s\<rparr>)
      else
       (let target = roleTarget (drop 3 f) in
        if target = [] \<or> EqualFold target ''default''
        then (None, s\<lparr>sessionUser := authUser s, currentRole := authUser s\<rparr>)
        else if \<not> roleBypasses db (authUser s) then (Some ''permission denied to set session authorization'', s)
        else if \<not> roleExists db target then (Some (''role '' @ goQuote target @ '' does not exist''), s)
        else (None, s\<lparr>sessionUser := target, currentRole := target\<rparr>)))"

section \<open>What identity a session can take\<close>

text \<open>A session that logged in as u, and the SET ROLE statements it runs while the role tables stay as they
  are. Role DDL clears the cache.\<close>

definition logged_in :: "string \<Rightarrow> identity" where
  "logged_in u = \<lparr>authUser = u, sessionUser = u, currentRole = u, bypassCache = None\<rparr>"

inductive identity_step :: "auth_db \<Rightarrow> identity \<Rightarrow> identity \<Rightarrow> bool" for db where
  set_role: "isSetRole sql \<Longrightarrow> identity_step db s (snd (applySetRole db sql s))"
| check: "identity_step db s (snd (checkPrivileges db sql s))"
| cleared: "identity_step db s (clearPrivCache s)"

inductive_simps identity_step_iff: "identity_step db s t"

text \<open>What a role without superuser may become: itself, or a role it belongs to.\<close>

definition identity_ok :: "auth_db \<Rightarrow> string \<Rightarrow> identity \<Rightarrow> bool" where
  "identity_ok db u s \<longleftrightarrow>
     authUser s = u \<and>
     (\<not> roleBypasses db u \<longrightarrow>
        sessionUser s = u \<and>
        (ToLower (currentRole s) = ToLower u \<or> (roleExists db (currentRole s) \<and> isMemberOf db u (currentRole s))))"

lemma privBypass_id [simp]:
  "authUser (snd (privBypass db s)) = authUser s" "sessionUser (snd (privBypass db s)) = sessionUser s"
  by (simp_all add: privBypass_def Let_def split: option.splits)

lemma checkPrivileges_id [simp]:
  "authUser (snd (checkPrivileges db sql s)) = authUser s"
  "sessionUser (snd (checkPrivileges db sql s)) = sessionUser s"
  "currentRole (snd (checkPrivileges db sql s)) = currentRole s"
proof -
  obtain x s' where p: "privBypass db s = (x, s')" by fastforce
  then have "authUser s' = authUser s" "sessionUser s' = sessionUser s" "currentRole s' = currentRole s"
    using privBypass_id [of db s] privBypass_role [of db s] by simp_all
  then show "authUser (snd (checkPrivileges db sql s)) = authUser s"
    "sessionUser (snd (checkPrivileges db sql s)) = sessionUser s"
    "currentRole (snd (checkPrivileges db sql s)) = currentRole s"
    using p by (cases x; simp add: checkPrivileges_def Let_def)+
qed

text \<open>The identities SET ROLE can leave the session with.\<close>

inductive role_move :: "auth_db \<Rightarrow> identity \<Rightarrow> identity \<Rightarrow> bool" for db s where
  stay: "role_move db s s"
| to_session: "role_move db s (s\<lparr>currentRole := sessionUser s\<rparr>)"
| to_login: "role_move db s (s\<lparr>sessionUser := authUser s, currentRole := authUser s\<rparr>)"
| to_role: "roleExists db t \<Longrightarrow> canSetRole db s t \<Longrightarrow> role_move db s (s\<lparr>currentRole := t\<rparr>)"
| to_user: "roleExists db t \<Longrightarrow> roleBypasses db (authUser s) \<Longrightarrow>
    role_move db s (s\<lparr>sessionUser := t, currentRole := t\<rparr>)"

lemma role_move_if:
  "(c \<Longrightarrow> role_move db s (snd x)) \<Longrightarrow> (\<not> c \<Longrightarrow> role_move db s (snd y)) \<Longrightarrow> role_move db s (snd (if c then x else y))"
  by simp

lemma applySetRole_moves: "role_move db s (snd (applySetRole db sql s))"
  unfolding applySetRole_def Let_def
  apply (intro role_move_if)
          apply (simp_all only: snd_conv not_not)
          apply (rule role_move.intros; assumption)+
  done

lemma applySetRole_ok: "identity_ok db u s \<Longrightarrow> identity_ok db u (snd (applySetRole db sql s))"
  using applySetRole_moves [of db s sql]
proof cases
  case (to_role t)
  then show "identity_ok db u s \<Longrightarrow> ?thesis"
    by (auto simp: identity_ok_def canSetRole_def EqualFold_def)
qed (auto simp: identity_ok_def)

lemma identity_step_ok: "identity_step db s t \<Longrightarrow> identity_ok db u s \<Longrightarrow> identity_ok db u t"
proof (induction rule: identity_step.induct)
  case (set_role sql s)
  then show ?case using applySetRole_ok by blast
qed (simp_all add: identity_ok_def clearPrivCache_def)

interpretation identity: invariant_system "\<lambda>s. s = logged_in u" "identity_step db" "identity_ok db u" for db u
proof
  fix s t
  show "identity_ok db u s" if "s = logged_in u" using that by (simp add: identity_ok_def logged_in_def)
  show "identity_ok db u t" if "identity_ok db u s" "identity_step db s t" using that identity_step_ok by blast
qed

text \<open>C6: However many SET ROLE, RESET ROLE and SET SESSION AUTHORIZATION statements a session runs, a role that
  is managed and no superuser keeps its session user and acts only as itself or as an existing role that it
  belongs to, directly or through other roles, with or without INHERIT.\<close>
theorem set_role_confined:
  assumes "(identity_step db)\<^sup>*\<^sup>* (logged_in u) s" "\<not> roleBypasses db u"
  shows "authUser s = u \<and> sessionUser s = u \<and>
    (ToLower (currentRole s) = ToLower u \<or>
     (roleExists db (currentRole s) \<and> (ToLower u, ToLower (currentRole s)) \<in> (set (member_edges db))\<^sup>*))"
  using identity.inv_reachable [OF refl assms(1)] assms(2) by (auto simp: identity_ok_def isMemberOf_iff)

definition crew_db :: auth_db where
  "crew_db = \<lparr>roles = [default_role ''bob'', default_role ''staff'', default_role ''boss''],
     memberships = [\<lparr>mb_member = ''bob'', mb_roleof = ''Staff'', mb_admin = 0\<rparr>], grants = [], owners = []\<rparr>"

lemma crew_moves:
  "applySetRole crew_db ''SET ROLE staff'' (logged_in ''bob'') = (None, (logged_in ''bob'')\<lparr>currentRole := ''staff''\<rparr>)"
  "fst (applySetRole crew_db ''SET ROLE boss'' (logged_in ''bob'')) \<noteq> None"
proof -
  have f: "Fields ''SET ROLE staff'' = [''SET'', ''ROLE'', ''staff'']" "Fields ''SET ROLE boss'' = [''SET'', ''ROLE'', ''boss'']"
    by code_simp+
  have w: "\<not> EqualFold ''SET'' ''reset''" "EqualFold ''ROLE'' ''role''"
    "\<not> EqualFold ''staff'' ''none''" "\<not> EqualFold ''staff'' ''default''" "\<not> EqualFold ''boss'' ''none''"
    "\<not> EqualFold ''boss'' ''default''" "roleTarget [''staff''] = ''staff''" "roleTarget [''boss''] = ''boss''"
    by code_simp+
  have r: "roleExists crew_db ''staff''" "roleExists crew_db ''boss''" "\<not> roleBypasses crew_db ''bob''"
    "isMemberOf crew_db ''bob'' ''staff''" "\<not> isMemberOf crew_db ''bob'' ''boss''"
    "\<not> EqualFold ''boss'' ''bob''"
    by code_simp+
  show "applySetRole crew_db ''SET ROLE staff'' (logged_in ''bob'') = (None, (logged_in ''bob'')\<lparr>currentRole := ''staff''\<rparr>)"
    using f w r by (simp add: applySetRole_def canSetRole_def logged_in_def)
  show "fst (applySetRole crew_db ''SET ROLE boss'' (logged_in ''bob'')) \<noteq> None"
    using f w r by (simp add: applySetRole_def canSetRole_def logged_in_def)
qed

theorem set_role_confined_witness:
  "sessionUser ((logged_in ''bob'')\<lparr>currentRole := ''staff''\<rparr>) = ''bob'' \<and>
   (''bob'', ''staff'') \<in> (set (member_edges crew_db))\<^sup>*"
proof -
  have "isSetRole ''SET ROLE staff''" "\<not> roleBypasses crew_db ''bob''" by code_simp+
  then have "(identity_step crew_db)\<^sup>*\<^sup>* (logged_in ''bob'') ((logged_in ''bob'')\<lparr>currentRole := ''staff''\<rparr>)"
    using identity_step.set_role [of "''SET ROLE staff''" crew_db "logged_in ''bob''"] crew_moves(1) by auto
  from set_role_confined [OF this \<open>\<not> roleBypasses crew_db ''bob''\<close>] show ?thesis
    by (simp add: ToLower_def to_lower_def is_upper_def)
qed

text \<open>Outside literals and qualified names, each form of the function becomes the role's literal.\<close>

lemma expand_examples:
  "expandSessionUser (logged_in ''bob'') ''select current_user(), t.current_user, session_user'' =
     ''select '' @ sqlStr ''bob'' @ '', t.current_user, '' @ sqlStr ''bob''"
  by code_simp

end
