(* ===== verification/Decimal.thy ===== *)
theory Decimal
  imports Complex_Main Values "HOL-Library.Multiset" "HOL-Library.List_Lexorder" "HOL-Library.Char_ord"
begin

text \<open>
  Exact numeric (\<open>engine/decimal.go\<close>): a numeric column holds decimal text, and arithmetic, aggregates,
  comparison and rounding go through exact rationals. \<open>math/big\<close> is modelled as far as it is used:
  \<open>Rat.SetString\<close> with all the notations it accepts, \<open>Rat.FloatString\<close> with its rounding; a
  \<open>big.Rat\<close> is a \<open>rat\<close>, whose numerator and denominator are those of \<open>quotient_of\<close>.
\<close>

section \<open>Reading a number\<close>

text \<open>\<open>nat.scan\<close> with base 0: the base is taken from a prefix, and underscores may separate digits. The
  state of the loop is what it carries from byte to byte.\<close>

record scan_state =
  sc_acc :: nat
  sc_count :: nat
  sc_point :: "nat option"
  sc_prev :: char
  sc_bad :: bool

definition digit_value :: "char \<Rightarrow> nat" where
  "digit_value c =
     (if is_digit c then code c - 48
      else if is_lower c then code c - 97 + 10
      else if is_upper c then code c - 65 + 10
      else 63)"

fun scan_digits :: "nat \<Rightarrow> bool \<Rightarrow> scan_state \<Rightarrow> string \<Rightarrow> scan_state \<times> string" where
  "scan_digits base fracOk st [] = (st, [])"
| "scan_digits base fracOk st (c # r) =
     (if c = CHR ''.'' \<and> fracOk then
        scan_digits base False
          (st\<lparr>sc_bad := sc_bad st \<or> sc_prev st = CHR ''_'', sc_prev := CHR ''.'', sc_point := Some (sc_count st)\<rparr>) r
      else if c = CHR ''_'' then
        scan_digits base fracOk (st\<lparr>sc_bad := sc_bad st \<or> sc_prev st \<noteq> CHR ''0'', sc_prev := CHR ''_''\<rparr>) r
      else if base \<le> digit_value c then (st, c # r)
      else scan_digits base fracOk
             (st\<lparr>sc_acc := base * sc_acc st + digit_value c, sc_count := sc_count st + 1, sc_prev := CHR ''0''\<rparr>) r)"

datatype number_prefix = NoPrefix | LetterPrefix | OctalPrefix

definition number_base :: "string \<Rightarrow> bool \<Rightarrow> nat \<times> number_prefix \<times> scan_state \<times> string" where
  "number_base s fracOk =
     (let st = (\<lambda>n p. \<lparr>sc_acc = 0, sc_count = n, sc_point = None, sc_prev = p, sc_bad = False\<rparr>) in
      case s of
        CHR ''0'' # r \<Rightarrow>
          (case r of
             [] \<Rightarrow> (10, NoPrefix, st 1 (CHR ''0''), [])
           | c # r' \<Rightarrow>
               if c = CHR ''b'' \<or> c = CHR ''B'' then (2, LetterPrefix, st 0 (CHR ''0''), r')
               else if c = CHR ''o'' \<or> c = CHR ''O'' then (8, LetterPrefix, st 0 (CHR ''0''), r')
               else if c = CHR ''x'' \<or> c = CHR ''X'' then (16, LetterPrefix, st 0 (CHR ''0''), r')
               else if \<not> fracOk then (8, OctalPrefix, st 0 (CHR ''0''), r)
               else (10, NoPrefix, st 1 (CHR ''0''), r))
      | _ \<Rightarrow> (10, NoPrefix, st 0 (CHR ''.''), s))"

text \<open>The value, the base, the digit count (negative: the digits after the point) and what is left.\<close>

definition nat_scan :: "string \<Rightarrow> bool \<Rightarrow> ((nat \<times> nat \<times> int) \<times> string) option" where
  "nat_scan s fracOk =
     (case number_base s fracOk of
        (base, pre, st0, r) \<Rightarrow>
          (case scan_digits base fracOk st0 r of
             (st, rest) \<Rightarrow>
               if sc_bad st \<or> sc_prev st = CHR ''_'' then None
               else if sc_count st = 0 then (if pre = OctalPrefix then Some ((0, 10, 1), rest) else None)
               else Some ((sc_acc st, base,
                   (case sc_point st of Some d \<Rightarrow> int d - int (sc_count st) | None \<Rightarrow> int (sc_count st))), rest)))"

definition scan_sign :: "string \<Rightarrow> bool \<times> string" where
  "scan_sign s =
     (case s of c # r \<Rightarrow> if c = CHR ''-'' then (True, r) else if c = CHR ''+'' then (False, r) else (False, s)
      | [] \<Rightarrow> (False, []))"

fun exp_digits :: "char \<Rightarrow> bool \<Rightarrow> string \<Rightarrow> string \<Rightarrow> string \<times> bool \<times> string" where
  "exp_digits prev bad ds [] = (rev ds, bad \<or> prev = CHR ''_'', [])"
| "exp_digits prev bad ds (c # r) =
     (if is_digit c then exp_digits (CHR ''0'') bad (c # ds) r
      else if c = CHR ''_'' then exp_digits (CHR ''_'') (bad \<or> prev \<noteq> CHR ''0'') ds r
      else (rev ds, bad \<or> prev = CHR ''_'', c # r))"

definition scan_exponent :: "string \<Rightarrow> ((int \<times> nat) \<times> string) option" where
  "scan_exponent s =
     (case s of
        [] \<Rightarrow> Some ((0, 10), [])
      | c # r \<Rightarrow>
          if c \<in> {CHR ''e'', CHR ''E'', CHR ''p'', CHR ''P''} then
            (let base = (if c = CHR ''e'' \<or> c = CHR ''E'' then 10 else 2); (neg, r') = scan_sign r in
             case exp_digits (CHR ''.'') False [] r' of
               (ds, bad, rest) \<Rightarrow>
                 if ds = [] \<or> bad then None
                 else (case ParseInt ((if neg then ''-'' else []) @ ds) of
                         None \<Rightarrow> None
                       | Some e \<Rightarrow> Some ((e, base), rest)))
          else Some ((0, 10), s))"

definition rpow :: "rat \<Rightarrow> int \<Rightarrow> rat" where
  "rpow x e = (if 0 \<le> e then x ^ nat e else inverse (x ^ nat (- e)))"

definition point_exponents :: "nat \<Rightarrow> int \<Rightarrow> int \<times> int" where
  "point_exponents base fcount =
     (if fcount < 0 then
        (if base = 10 then (fcount, fcount) else if base = 2 then (fcount, 0)
         else if base = 8 then (3 * fcount, 0) else if base = 16 then (4 * fcount, 0) else (0, 0))
      else (0, 0))"

text \<open>\<open>Int.SetString (s, 0)\<close>, for the numerator of a fraction.\<close>

definition Int_SetString :: "string \<Rightarrow> int option" where
  "Int_SetString s =
     (let (neg, r) = scan_sign s in
      case nat_scan r False of
        Some ((n, _), []) \<Rightarrow> Some (if neg then - int n else int n)
      | _ \<Rightarrow> None)"

definition Rat_SetString :: "string \<Rightarrow> rat option" where
  "Rat_SetString s =
     (if s = [] then None
      else
       (case CutByte s (CHR ''/'') of
          Some (a, q) \<Rightarrow>
            (case (Int_SetString a, nat_scan q False) of
               (Some n, Some ((d, _), [])) \<Rightarrow> if d = 0 then None else Some (of_int n / of_nat d)
             | _ \<Rightarrow> None)
        | None \<Rightarrow>
            (let (neg, r) = scan_sign s in
             case nat_scan r True of
               None \<Rightarrow> None
             | Some ((mant, base, fcount), r1) \<Rightarrow>
                 (case scan_exponent r1 of
                    None \<Rightarrow> None
                  | Some ((e, ebase), r2) \<Rightarrow>
                      if r2 \<noteq> [] then None
                      else if mant = 0 then Some 0
                      else
                       (let (p2, p5) = point_exponents base fcount;
                            exp5 = (if ebase = 10 then p5 + e else p5); exp2 = p2 + e in
                        if 1000000 < \<bar>exp5\<bar> then None
                        else if exp2 < - 10000000 \<or> 10000000 < exp2 then None
                        else Some ((if neg then - 1 else 1) * of_nat mant * rpow 5 exp5 * rpow 2 exp2))))))"

definition ratFromString :: "string \<Rightarrow> rat option" where
  "ratFromString s0 = (let s = TrimSpace s0 in if s = [] then None else Rat_SetString s)"

text \<open>The exact value of a double; of an infinity or a NaN, \<open>SetFloat64\<close> leaves zero.\<close>

definition float_rat :: "64 word \<Rightarrow> rat" where
  "float_rat w =
     (let e = uint (take_bit 11 (drop_bit 52 w)); m = uint (take_bit 52 w);
          s = (if bit w 63 then - 1 else 1) in
      if e = 2047 then 0
      else if e = 0 then s * of_int m * rpow 2 (- 1074)
      else s * of_int (m + 2 ^ 52) * rpow 2 (e - 1075))"

definition parseDec :: "core_value \<Rightarrow> rat option" where
  "parseDec v =
     (case v of
        VInt i \<Rightarrow> Some (of_int i)
      | VFloat w \<Rightarrow> Some (float_rat w)
      | VString s \<Rightarrow> ratFromString s
      | VBytes s \<Rightarrow> ratFromString s
      | _ \<Rightarrow> None)"

section \<open>Writing a number\<close>

text \<open>The number of digits of the denominator's factors.\<close>

function factorCount :: "nat \<Rightarrow> nat \<Rightarrow> nat" where
  "factorCount n p = (if 0 < n \<and> 1 < p \<and> n mod p = 0 then 1 + factorCount (n div p) p else 0)"
  by pat_completeness auto
termination by (relation "measure fst") auto

declare factorCount.simps [simp del]

function strip_factor :: "nat \<Rightarrow> nat \<Rightarrow> nat" where
  "strip_factor n p = (if 0 < n \<and> 1 < p \<and> n mod p = 0 then strip_factor (n div p) p else n)"
  by pat_completeness auto
termination by (relation "measure fst") auto

declare strip_factor.simps [simp del]

definition decimalDigits :: "rat \<Rightarrow> int" where
  "decimalDigits r =
     (let den = nat (snd (quotient_of r)); c2 = factorCount den 2; c5 = factorCount den 5 in
      if strip_factor (strip_factor den 2) 5 \<noteq> 1 then - 1 else int (max c2 c5))"

text \<open>\<open>Rat.FloatString\<close>: the last digit rounded to nearest, halves away from zero.\<close>

definition FloatString :: "rat \<Rightarrow> nat \<Rightarrow> string" where
  "FloatString x prec =
     (let (n, d) = quotient_of x in
      if d = 1 then FormatInt n @ (if 0 < prec then CHR ''.'' # replicate prec (CHR ''0'') else [])
      else
       (let a = nat \<bar>n\<bar>; dd = nat d; q = a div dd; p = 10 ^ prec;
            r0 = (a mod dd) * p; r = r0 div dd; r2 = r0 mod dd;
            r' = (if dd \<le> 2 * r2 then r + 1 else r);
            q2 = (if p \<le> r' then q + 1 else q); rr = (if p \<le> r' then r' - p else r');
            ds = nat_str rr in
        (if n < 0 then ''-'' else []) @ nat_str q2 @
        (if 0 < prec then CHR ''.'' # replicate (prec - length ds) (CHR ''0'') @ ds else [])))"

definition decString :: "rat \<Rightarrow> string" where
  "decString r =
     (if snd (quotient_of r) = 1 then FormatInt (fst (quotient_of r))
      else
       (let k = decimalDigits r; prec = (if k < 0 \<or> 20 < k then 20 else nat k); s = FloatString r prec in
        if Contains s ''.'' then TrimSuffix (TrimRight s ''0'') ''.'' else s))"

section \<open>Arithmetic and comparison\<close>

text \<open>A result is NULL when an operand is no number.\<close>

definition binDec :: "core_value \<Rightarrow> core_value \<Rightarrow> (rat \<Rightarrow> rat \<Rightarrow> rat) \<Rightarrow> core_value" where
  "binDec a b f =
     (case (parseDec a, parseDec b) of (Some x, Some y) \<Rightarrow> VString (decString (f x y)) | _ \<Rightarrow> VNull)"

definition dec_add :: "core_value \<Rightarrow> core_value \<Rightarrow> core_value" where "dec_add a b = binDec a b (+)"
definition dec_sub :: "core_value \<Rightarrow> core_value \<Rightarrow> core_value" where "dec_sub a b = binDec a b (-)"
definition dec_mul :: "core_value \<Rightarrow> core_value \<Rightarrow> core_value" where "dec_mul a b = binDec a b (*)"

definition dec_div :: "core_value \<Rightarrow> core_value \<Rightarrow> core_value" where
  "dec_div a b = (if parseDec b = Some 0 then VNull else binDec a b (/))"

definition dec_toStr :: "core_value \<Rightarrow> string" where
  "dec_toStr v = (case v of VString s \<Rightarrow> s | VBytes s \<Rightarrow> s | _ \<Rightarrow> [])"

definition compare :: "'a::linorder \<Rightarrow> 'a \<Rightarrow> int" where
  "compare x y = (if x < y then - 1 else if x = y then 0 else 1)"

definition decCmp :: "core_value \<Rightarrow> core_value \<Rightarrow> int" where
  "decCmp a b =
     (case (parseDec a, parseDec b) of
        (None, None) \<Rightarrow> compare (dec_toStr a) (dec_toStr b)
      | (None, Some _) \<Rightarrow> - 1
      | (Some _, None) \<Rightarrow> 1
      | (Some x, Some y) \<Rightarrow> compare x y)"

section \<open>Aggregates\<close>

record dec_sum =
  ds_acc :: "rat option"
  ds_any :: bool

definition decSum_init :: dec_sum where
  "decSum_init = \<lparr>ds_acc = None, ds_any = False\<rparr>"

definition decSum_step :: "dec_sum \<Rightarrow> core_value \<Rightarrow> dec_sum" where
  "decSum_step a v =
     (case parseDec v of
        None \<Rightarrow> a
      | Some r \<Rightarrow> a\<lparr>ds_acc := Some ((case ds_acc a of Some x \<Rightarrow> x | None \<Rightarrow> 0) + r), ds_any := True\<rparr>)"

definition decSum_inverse :: "dec_sum \<Rightarrow> core_value \<Rightarrow> dec_sum" where
  "decSum_inverse a v =
     (case (parseDec v, ds_acc a) of (Some r, Some x) \<Rightarrow> a\<lparr>ds_acc := Some (x - r)\<rparr> | _ \<Rightarrow> a)"

definition decSum_final :: "dec_sum \<Rightarrow> core_value" where
  "decSum_final a =
     (case ds_acc a of Some x \<Rightarrow> if ds_any a then VString (decString x) else VNull | None \<Rightarrow> VNull)"

record dec_agg =
  da_acc :: "rat option"
  da_n :: int
  da_avg :: bool
  sawStr :: bool
  sawFloat :: bool

definition decAgg_init :: "bool \<Rightarrow> dec_agg" where
  "decAgg_init avg = \<lparr>da_acc = None, da_n = 0, da_avg = avg, sawStr = False, sawFloat = False\<rparr>"

definition decAgg_step :: "dec_agg \<Rightarrow> core_value \<Rightarrow> dec_agg" where
  "decAgg_step a v =
     (if v = VNull then a
      else
       (let a1 = (case v of VString _ \<Rightarrow> a\<lparr>sawStr := True\<rparr> | VBytes _ \<Rightarrow> a\<lparr>sawStr := True\<rparr>
                  | VFloat _ \<Rightarrow> a\<lparr>sawFloat := True\<rparr> | _ \<Rightarrow> a) in
        case parseDec v of
          None \<Rightarrow> a1
        | Some r \<Rightarrow> a1\<lparr>da_acc := Some ((case da_acc a1 of Some x \<Rightarrow> x | None \<Rightarrow> 0) + r), da_n := da_n a1 + 1\<rparr>))"

definition decAgg_inverse :: "dec_agg \<Rightarrow> core_value \<Rightarrow> dec_agg" where
  "decAgg_inverse a v =
     (case (parseDec v, da_acc a) of
        (Some r, Some x) \<Rightarrow> a\<lparr>da_acc := Some (x - r), da_n := da_n a - 1\<rparr>
      | _ \<Rightarrow> a)"

text \<open>\<open>AggFloat q\<close> is the double nearest to \<open>q\<close>.\<close>

datatype agg_value = AggNull | AggInt int | AggFloat rat | AggText string

definition decAgg_value :: "dec_agg \<Rightarrow> agg_value" where
  "decAgg_value a =
     (case da_acc a of
        None \<Rightarrow> AggNull
      | Some acc \<Rightarrow>
          if da_n a = 0 then AggNull
          else
           (let res = (if da_avg a then acc / of_int (da_n a) else acc) in
            if sawStr a then AggText (decString res)
            else if da_avg a \<or> sawFloat a then AggFloat res
            else if snd (quotient_of res) = 1 \<and> in_int64 (fst (quotient_of res)) then AggInt (fst (quotient_of res))
            else AggText (decString res)))"

section \<open>Rounding\<close>

text \<open>A \<open>big.Float\<close> of the given precision: the nearest value, ties to even.\<close>

fun bit_length :: "nat \<Rightarrow> nat" where
  "bit_length n = (if n = 0 then 0 else 1 + bit_length (n div 2))"

declare bit_length.simps [simp del]

definition floor_log2 :: "rat \<Rightarrow> int" where
  "floor_log2 x =
     (let (n, d) = quotient_of x; e = int (bit_length (nat n)) - int (bit_length (nat d)) in
      if rpow 2 e \<le> x then e else e - 1)"

definition round_even :: "rat \<Rightarrow> int" where
  "round_even x =
     (let f = \<lfloor>x\<rfloor>; r = x - of_int f in
      if r < 1 / 2 then f else if 1 / 2 < r then f + 1 else if even f then f else f + 1)"

definition big_float :: "nat \<Rightarrow> rat \<Rightarrow> rat" where
  "big_float prec x =
     (if x = 0 then 0
      else
       (let e = floor_log2 \<bar>x\<bar>; u = rpow 2 (e + 1 - int prec) in
        sgn x * of_int (round_even (\<bar>x\<bar> / u)) * u))"

definition trunc_rat :: "rat \<Rightarrow> int" where
  "trunc_rat x = (if x < 0 then - \<lfloor>- x\<rfloor> else \<lfloor>x\<rfloor>)"

text \<open>\<open>Exp\<close> with a negative exponent and no modulus is 1.\<close>

definition decRound :: "rat \<Rightarrow> int \<Rightarrow> rat" where
  "decRound r scale =
     (let shift = (if 0 \<le> scale then 10 ^ nat scale else 1);
          f = big_float 200 (r * shift);
          half = (if f < 0 then - (1 / 2) else 1 / 2) in
      of_int (trunc_rat (big_float 200 (f + half))) / shift)"

definition dec_round :: "core_value \<Rightarrow> int \<Rightarrow> core_value" where
  "dec_round v scale = (case parseDec v of None \<Rightarrow> VNull | Some r \<Rightarrow> VString (decString (decRound r scale)))"

section \<open>Decimal text is read back\<close>

definition dval :: "nat \<Rightarrow> string \<Rightarrow> nat" where
  "dval a ds = foldl (\<lambda>a c. 10 * a + (code c - 48)) a ds"

lemma dval_append [simp]: "dval a (x @ y) = dval (dval a x) y"
  by (simp add: dval_def)

lemma dval_Nil [simp]: "dval a [] = a"
  by (simp add: dval_def)

lemma dval_shift: "dval a ds = a * 10 ^ length ds + dval 0 ds"
proof (induction ds rule: rev_induct)
  case (snoc c ds)
  then show ?case by (simp add: dval_def algebra_simps)
qed simp

lemma dval_zeros [simp]: "dval a (replicate n (CHR ''0'')) = a * 10 ^ n"
  by (induction n arbitrary: a) (simp_all add: dval_def)

lemma dval_nat_str: "dval 0 (nat_str n) = n"
proof -
  have d: "list_all is_digit ds \<Longrightarrow> digits_val a ds = Some (dval a ds)" for a ds
    by (induction ds arbitrary: a) (simp_all add: dval_def)
  show ?thesis using d [OF nat_str_digits [of n], of 0] by (simp add: digits_val_nat_str)
qed

lemma digit_value_digit: "is_digit c \<Longrightarrow> digit_value c = code c - 48 \<and> digit_value c < 10"
  by (auto simp: digit_value_def is_digit_def)

lemma digit_not_special:
  "is_digit c \<Longrightarrow> c \<noteq> CHR ''.'' \<and> c \<noteq> CHR ''_'' \<and> c \<noteq> CHR ''/'' \<and> c \<noteq> CHR ''-'' \<and> c \<noteq> CHR ''+'' \<and>
     c \<notin> {CHR ''b'', CHR ''B'', CHR ''o'', CHR ''O'', CHR ''x'', CHR ''X''}"
  by (auto simp: is_digit_def)

lemma scan_digits_run:
  assumes "list_all is_digit ds" "ds \<noteq> []"
  shows "scan_digits 10 fr st (ds @ r) =
    scan_digits 10 fr (st\<lparr>sc_acc := dval (sc_acc st) ds, sc_count := sc_count st + length ds, sc_prev := CHR ''0''\<rparr>) r"
  using assms
proof (induction ds arbitrary: st)
  case (Cons c ds)
  then have c: "digit_value c = code c - 48" "digit_value c < 10" "c \<noteq> CHR ''.''" "c \<noteq> CHR ''_''"
    using digit_value_digit [of c] digit_not_special [of c] by simp_all
  show ?case
  proof (cases "ds = []")
    case True
    then show ?thesis using c by (simp add: dval_def)
  next
    case False
    then show ?thesis using c Cons by (simp add: dval_def)
  qed
qed simp

lemma number_scan:
  assumes "list_all is_digit ds" "ds \<noteq> []"
    "r = [] \<or> hd r \<notin> {CHR ''b'', CHR ''B'', CHR ''o'', CHR ''O'', CHR ''x'', CHR ''X''}"
  shows "\<exists>pre st0 r0. number_base (ds @ r) True = (10, pre, st0, r0) \<and>
    scan_digits 10 True st0 r0 =
      scan_digits 10 True \<lparr>sc_acc = dval 0 ds, sc_count = length ds, sc_point = None, sc_prev = CHR ''0'', sc_bad = False\<rparr> r"
proof (cases "hd ds = CHR ''0''")
  case True
  then obtain ds' where ds: "ds = CHR ''0'' # ds'" using assms(2) by (cases ds) auto
  have nb: "number_base (ds @ r) True = (10, NoPrefix,
      \<lparr>sc_acc = 0, sc_count = 1, sc_point = None, sc_prev = CHR ''0'', sc_bad = False\<rparr>, ds' @ r)"
  proof (cases "ds' @ r")
    case Nil
    then show ?thesis using ds by (simp add: number_base_def)
  next
    case (Cons c r')
    then have "c \<notin> {CHR ''b'', CHR ''B'', CHR ''o'', CHR ''O'', CHR ''x'', CHR ''X''}"
      using assms ds digit_not_special by (cases ds') auto
    then show ?thesis using ds Cons by (simp add: number_base_def)
  qed
  show ?thesis
  proof (cases "ds' = []")
    case True
    then show ?thesis using nb ds by (simp add: dval_def)
  next
    case False
    then show ?thesis
      using nb ds assms(1) scan_digits_run [of ds' True _ r] by (simp add: dval_def)
  qed
next
  case False
  then obtain c ds' where ds: "ds = c # ds'" "c \<noteq> CHR ''0''" using assms(2) by (cases ds) auto
  then have "number_base (ds @ r) True = (10, NoPrefix,
      \<lparr>sc_acc = 0, sc_count = 0, sc_point = None, sc_prev = CHR ''.'', sc_bad = False\<rparr>, ds @ r)"
    by (simp add: number_base_def split: char.splits bool.splits)
  then show ?thesis using scan_digits_run [OF assms(1,2), of True _ r] by simp
qed

lemma nat_scan_plain:
  assumes "list_all is_digit I" "I \<noteq> []" "list_all is_digit F"
  shows "nat_scan (I @ (if F = [] then [] else CHR ''.'' # F)) True =
    Some ((dval 0 (I @ F), 10, if F = [] then int (length I) else - int (length F)), [])"
proof (cases "F = []")
  case True
  obtain pre st0 r0 where "number_base I True = (10, pre, st0, r0)"
    "scan_digits 10 True st0 r0 =
      (\<lparr>sc_acc = dval 0 I, sc_count = length I, sc_point = None, sc_prev = CHR ''0'', sc_bad = False\<rparr>, [])"
    using number_scan [OF assms(1,2), of "[]"] by auto
  then show ?thesis using True assms(2) by (simp add: nat_scan_def)
next
  case False
  obtain pre st0 r0 where nb: "number_base (I @ CHR ''.'' # F) True = (10, pre, st0, r0)"
    and sd: "scan_digits 10 True st0 r0 =
      scan_digits 10 True \<lparr>sc_acc = dval 0 I, sc_count = length I, sc_point = None, sc_prev = CHR ''0'', sc_bad = False\<rparr>
        (CHR ''.'' # F)"
    using number_scan [OF assms(1,2), of "CHR ''.'' # F"] by auto
  have "scan_digits 10 True st0 r0 =
      (\<lparr>sc_acc = dval 0 (I @ F), sc_count = length I + length F, sc_point = Some (length I), sc_prev = CHR ''0'', sc_bad = False\<rparr>, [])"
    unfolding sd using scan_digits_run [OF assms(3) False, of False _ "[]"] by simp
  then show ?thesis using False assms(2) nb by (simp add: nat_scan_def del: scan_digits.simps)
qed

lemma rpow_ten: "rpow 5 (- int k) * rpow 2 (- int k) = 1 / 10 ^ k"
proof (cases "k = 0")
  case False
  have "(5::rat) ^ k * 2 ^ k = 10 ^ k" using power_mult_distrib [of "5::rat" 2 k] by simp
  then show ?thesis using False by (simp add: rpow_def field_simps)
qed (simp add: rpow_def)

text \<open>Signed decimal text, with or without a fraction.\<close>

definition plain_text :: "bool \<Rightarrow> string \<Rightarrow> string \<Rightarrow> string" where
  "plain_text neg I F = (if neg then ''-'' else []) @ I @ (if F = [] then [] else CHR ''.'' # F)"

definition plain_value :: "bool \<Rightarrow> string \<Rightarrow> string \<Rightarrow> rat" where
  "plain_value neg I F = (if neg then - 1 else 1) * of_nat (dval 0 (I @ F)) / 10 ^ length F"

lemma read_plain:
  assumes "list_all is_digit I" "I \<noteq> []" "list_all is_digit F" "length F \<le> 1000000"
  shows "ratFromString (plain_text neg I F) = Some (plain_value neg I F)"
proof -
  have ends: "\<not> is_space (hd (plain_text neg I F))" "\<not> is_space (last (plain_text neg I F))"
    "plain_text neg I F \<noteq> []" and slash: "CHR ''/'' \<notin> set (plain_text neg I F)"
  proof -
    have sp: "is_digit c \<Longrightarrow> \<not> is_space c" for c by (auto simp: is_digit_def is_space_def)
    have dI: "is_digit (hd I)" "is_digit (last I)" and dF: "F \<noteq> [] \<Longrightarrow> is_digit (last F)"
      using assms(1-3) by (auto simp: list_all_iff)
    show "plain_text neg I F \<noteq> []" using assms(2) by (simp add: plain_text_def)
    show "\<not> is_space (hd (plain_text neg I F))"
      using assms(2) sp [OF dI(1)] by (simp add: plain_text_def hd_append is_space_def)
    show "\<not> is_space (last (plain_text neg I F))"
      using assms(2) sp [OF dI(2)] sp [OF dF] by (simp add: plain_text_def)
    show "CHR ''/'' \<notin> set (plain_text neg I F)"
      using assms(1,3) by (auto simp: plain_text_def list_all_iff is_digit_def)
  qed
  have trim: "TrimSpace (plain_text neg I F) = plain_text neg I F"
    using ends by (intro TrimSpace_id) simp
  have cut: "CutByte (plain_text neg I F) (CHR ''/'') = None"
    using slash by (auto simp: CutByte_def IndexByte_def index_where_None)
  have sign: "scan_sign (plain_text neg I F) = (neg, I @ (if F = [] then [] else CHR ''.'' # F))"
    using assms(1,2) digit_not_special by (cases I) (auto simp: scan_sign_def plain_text_def)
  let ?m = "dval 0 (I @ F)" and ?k = "- int (length F)"
  let ?fc = "if F = [] then int (length I) else - int (length F)"
  have ns: "nat_scan (I @ (if F = [] then [] else CHR ''.'' # F)) True = Some ((?m, 10, ?fc), [])"
    by (rule nat_scan_plain [OF assms(1-3)])
  have pe: "point_exponents 10 ?fc = (?k, ?k)" by (simp add: point_exponents_def)
  have b: "(1000000 < \<bar>?k\<bar>) = False" "(?k < - 10000000) = False" "(10000000 < ?k) = False"
    using assms(4) by simp_all
  have "Rat_SetString (plain_text neg I F) =
      (if ?m = 0 then Some 0 else Some ((if neg then - 1 else 1) * of_nat ?m * rpow 5 ?k * rpow 2 ?k))"
    unfolding Rat_SetString_def cut sign
    by (simp only: ends(3) if_False option.case prod.case Let_def ns scan_exponent_def list.case pe b simp_thms
        if_True refl add_0_right)
  also have "\<dots> = Some (plain_value neg I F)"
    using rpow_ten [of "length F"] by (simp add: plain_value_def mult.assoc)
  finally show ?thesis
    using ends(3) by (simp only: ratFromString_def Let_def trim if_False)
qed

section \<open>What is written is the value, to twenty places\<close>

lemma nat_str_length: "0 < k \<Longrightarrow> n < 10 ^ k \<Longrightarrow> length (nat_str n) \<le> k"
proof (induction k arbitrary: n)
  case (Suc k)
  show ?case
  proof (cases "n < 10")
    case True
    then show ?thesis by (subst nat_str.simps) simp
  next
    case False
    then have "0 < k" using Suc.prems by (cases k) auto
    moreover have "n div 10 < 10 ^ k" using Suc.prems by (simp add: less_mult_imp_div_less)
    ultimately have "length (nat_str (n div 10)) \<le> k" by (rule Suc.IH)
    then show ?thesis using False by (subst nat_str.simps) simp
  qed
qed simp

lemma quotient_of_pos: "quotient_of x = (n, d) \<Longrightarrow> 0 < d \<and> x = of_int n / of_int d"
  using quotient_of_denom_pos [of x] quotient_of_div [of x] by auto

text \<open>The numerator over \<open>10 ^ k\<close> after rounding.\<close>

definition scaled_half_up :: "nat \<Rightarrow> rat \<Rightarrow> nat" where
  "scaled_half_up k x = (case quotient_of x of (n, d) \<Rightarrow> (2 * nat \<bar>n\<bar> * 10 ^ k + nat d) div (2 * nat d))"

lemma half_up_split:
  fixes a dd p :: nat
  assumes "0 < dd" "0 < p"
  defines "r0 \<equiv> (a mod dd) * p"
  defines "r' \<equiv> (if dd \<le> 2 * (r0 mod dd) then r0 div dd + 1 else r0 div dd)"
  shows "(2 * a * p + dd) div (2 * dd) =
    (if p \<le> r' then a div dd + 1 else a div dd) * p + (if p \<le> r' then r' - p else r')"
    and "(if p \<le> r' then r' - p else r') < p"
proof -
  have m: "a mod dd < dd" using assms(1) by simp
  then have "r0 < dd * p" using assms(1,2) by (simp add: r0_def)
  then have lt: "r0 div dd < p" by (simp add: less_mult_imp_div_less mult.commute)
  have "r0 = dd * (r0 div dd) + r0 mod dd" by simp
  then have e: "2 * r0 + dd = (2 * (r0 mod dd) + dd) + (2 * dd) * (r0 div dd)" by linarith
  have "(2 * r0 + dd) div (2 * dd) = r0 div dd + (2 * (r0 mod dd) + dd) div (2 * dd)"
    unfolding e using assms(1) by (intro div_mult_self2) simp
  also have "(2 * (r0 mod dd) + dd) div (2 * dd) = (if dd \<le> 2 * (r0 mod dd) then 1 else 0)"
  proof -
    have "r0 mod dd < dd" using assms(1) by simp
    then show ?thesis by (auto simp: div_eq_0_iff intro!: div_nat_eqI)
  qed
  finally have r': "(2 * r0 + dd) div (2 * dd) = r'" by (simp add: r'_def)
  have "a * p = (a div dd * dd + a mod dd) * p" by simp
  then have "a * p = dd * (a div dd * p) + r0" unfolding r0_def by (metis distrib_right mult.assoc mult.commute)
  then have e2: "2 * a * p + dd = (2 * r0 + dd) + (2 * dd) * (a div dd * p)" by (simp add: mult.assoc)
  have "(2 * a * p + dd) div (2 * dd) = a div dd * p + (2 * r0 + dd) div (2 * dd)"
    unfolding e2 using assms(1) by (intro div_mult_self2) simp
  then have "(2 * a * p + dd) div (2 * dd) = a div dd * p + r'"
    using r' by simp
  then show "(2 * a * p + dd) div (2 * dd) =
    (if p \<le> r' then a div dd + 1 else a div dd) * p + (if p \<le> r' then r' - p else r')"
    by simp
  show "(if p \<le> r' then r' - p else r') < p"
    using lt assms(2) by (auto simp: r'_def)
qed

lemma FloatString_form:
  assumes "snd (quotient_of x) \<noteq> 1" "0 < k"
  shows "\<exists>I F. FloatString x k = plain_text (x < 0) I F \<and> list_all is_digit I \<and> I \<noteq> [] \<and> list_all is_digit F \<and>
    length F = k \<and> dval 0 (I @ F) = scaled_half_up k x"
proof -
  obtain n d where q: "quotient_of x = (n, d)" by fastforce
  have d: "0 < d" and x: "x = of_int n / of_int d" using quotient_of_pos [OF q] by auto
  have neg: "x < 0 \<longleftrightarrow> n < 0" using d by (simp add: x divide_less_0_iff)
  let ?a = "nat \<bar>n\<bar>" and ?dd = "nat d" and ?p = "10 ^ k :: nat"
  define r0 where "r0 = (?a mod ?dd) * ?p"
  define r' where "r' = (if ?dd \<le> 2 * (r0 mod ?dd) then r0 div ?dd + 1 else r0 div ?dd)"
  define q2 where "q2 = (if ?p \<le> r' then ?a div ?dd + 1 else ?a div ?dd)"
  define rr where "rr = (if ?p \<le> r' then r' - ?p else r')"
  have dd: "0 < ?dd" using d by simp
  have pp: "0 < ?p" by simp
  have split: "(2 * ?a * ?p + ?dd) div (2 * ?dd) = q2 * ?p + rr" "rr < ?p"
    by (rule half_up_split [OF dd pp, of ?a, folded r0_def, folded r'_def, folded q2_def rr_def])+
  let ?F = "replicate (k - length (nat_str rr)) (CHR ''0'') @ nat_str rr"
  have len: "length ?F = k" using nat_str_length [OF assms(2) split(2)] by simp
  have F: "list_all is_digit ?F" using nat_str_digits by (auto simp: list_all_iff is_digit_def)
  have "FloatString x k = plain_text (x < 0) (nat_str q2) ?F"
  proof -
    have "n \<noteq> 1 * n \<or> d \<noteq> 1" using assms(1) q by simp
    then have d1: "(d = 1) = False" by simp
    have F0: "(?F = []) = False" by simp
    show ?thesis
      unfolding FloatString_def q prod.case d1 if_False Let_def plain_text_def F0 neg
      unfolding r0_def [symmetric] r'_def [symmetric] q2_def [symmetric] rr_def [symmetric]
      using assms(2) by simp
  qed
  moreover have "dval 0 (nat_str q2 @ ?F) = scaled_half_up k x"
  proof -
    have "dval 0 (nat_str q2 @ ?F) = q2 * 10 ^ (k - length (nat_str rr)) * 10 ^ length (nat_str rr) + rr"
      using dval_shift [of "q2 * 10 ^ (k - length (nat_str rr))" "nat_str rr"] by (simp add: dval_nat_str)
    also have "\<dots> = q2 * ?p + rr"
      using nat_str_length [OF assms(2) split(2)] by (simp add: mult.assoc flip: power_add)
    finally show ?thesis using split(1) q by (simp add: scaled_half_up_def)
  qed
  ultimately show ?thesis using F len nat_str_digits by (intro exI [of _ "nat_str q2"] exI [of _ ?F]) simp
qed

lemma TrimRight_zeros: "s = [] \<or> last s \<noteq> CHR ''0'' \<Longrightarrow> TrimRight (s @ replicate m (CHR ''0'')) ''0'' = s"
proof -
  assume s: "s = [] \<or> last s \<noteq> CHR ''0''"
  have "dropWhile (\<lambda>c. c = CHR ''0'') (replicate m (CHR ''0'') @ rev s) = dropWhile (\<lambda>c. c = CHR ''0'') (rev s)"
    by (induction m) auto
  also have "\<dots> = rev s" using s by (cases s rule: rev_cases) auto
  finally show ?thesis by (simp add: TrimRight_def)
qed

lemma trim_zeros:
  assumes "list_all is_digit I" "I \<noteq> []" "F \<noteq> []" "list_all is_digit F"
  shows "\<exists>F' m. F = F' @ replicate m (CHR ''0'') \<and>
    TrimSuffix (TrimRight (plain_text neg I F) ''0'') ''.'' = plain_text neg I F'"
proof -
  define F' where "F' = rev (dropWhile (\<lambda>c. c = CHR ''0'') (rev F))"
  define m where "m = length (takeWhile (\<lambda>c. c = CHR ''0'') (rev F))"
  have "takeWhile (\<lambda>c. c = CHR ''0'') (rev F) = replicate m (CHR ''0'')"
    unfolding m_def by (rule replicate_eqI) (auto dest: set_takeWhileD)
  then have F: "F = F' @ replicate m (CHR ''0'')"
    unfolding F'_def by (metis rev_append rev_replicate rev_rev_ident takeWhile_dropWhile_id)
  have F'_last: "F' = [] \<or> last F' \<noteq> CHR ''0''"
    unfolding F'_def using hd_dropWhile [of "\<lambda>c. c = CHR ''0''" "rev F"] by (auto simp: last_rev)
  let ?pre = "(if neg then ''-'' else []) @ I @ CHR ''.'' # F'"
  have "plain_text neg I F = ?pre @ replicate m (CHR ''0'')"
    using F assms(3) by (simp add: plain_text_def)
  moreover have "TrimRight (?pre @ replicate m (CHR ''0'')) ''0'' = ?pre"
    using F'_last by (intro TrimRight_zeros) auto
  moreover have "TrimSuffix ?pre ''.'' = plain_text neg I F'"
  proof (cases "F' = []")
    case True
    then show ?thesis by (simp add: TrimSuffix_def HasSuffix_def plain_text_def)
  next
    case False
    have "HasSuffix ?pre ''.'' \<Longrightarrow> last ?pre = CHR ''.''"
      by (metis HasSuffix_def append_take_drop_id last_ConsL last_append list.distinct(1))
    moreover have "last ?pre = last F'" using False by simp
    moreover have "is_digit (last F')" using False F assms(4) by (simp add: list_all_iff)
    then have "last F' \<noteq> CHR ''.''" by (auto simp: is_digit_def)
    ultimately show ?thesis
      using False assms by (auto simp: TrimSuffix_def plain_text_def)
  qed
  ultimately show ?thesis using F by metis
qed

lemma plain_value_trim:
  "plain_value neg I (F @ replicate m (CHR ''0'')) = plain_value neg I F"
  by (simp add: plain_value_def power_add)

lemma read_FloatString:
  assumes "snd (quotient_of x) \<noteq> 1" "0 < k" "k \<le> 20"
  shows "ratFromString (TrimSuffix (TrimRight (FloatString x k) ''0'') ''.'') =
      Some ((if x < 0 then - 1 else 1) * of_nat (scaled_half_up k x) / 10 ^ k)"
    and "Contains (FloatString x k) ''.''"
proof -
  obtain I F where IF: "FloatString x k = plain_text (x < 0) I F" "list_all is_digit I" "I \<noteq> []"
    "list_all is_digit F" "length F = k" "dval 0 (I @ F) = scaled_half_up k x"
    using FloatString_form [OF assms(1,2)] by blast
  then have F: "F \<noteq> []" using assms(2) by auto
  obtain F' m where F': "F = F' @ replicate m (CHR ''0'')"
    "TrimSuffix (TrimRight (plain_text (x < 0) I F) ''0'') ''.'' = plain_text (x < 0) I F'"
    using trim_zeros [OF IF(2,3) F IF(4)] by blast
  have "ratFromString (plain_text (x < 0) I F') = Some (plain_value (x < 0) I F')"
    using IF(2-5) F'(1) assms(3) by (intro read_plain) auto
  also have "plain_value (x < 0) I F' = plain_value (x < 0) I F"
    using plain_value_trim F'(1) by metis
  finally show "ratFromString (TrimSuffix (TrimRight (FloatString x k) ''0'') ''.'') =
      Some ((if x < 0 then - 1 else 1) * of_nat (scaled_half_up k x) / 10 ^ k)"
    using IF F'(2) by (simp add: plain_value_def)
  have "FloatString x k = ((if x < 0 then ''-'' else []) @ I) @ ''.'' @ F"
    using IF(1) F by (simp add: plain_text_def)
  then show "Contains (FloatString x k) ''.''" unfolding Contains_iff by blast
qed

lemma quotient_near:
  fixes s A D P :: rat
  assumes "0 < D" "0 < P" "s * (2 * D) \<le> 2 * A * P + D" "2 * A * P + D < (s + 1) * (2 * D)"
  shows "\<bar>s / P - A / D\<bar> \<le> 1 / (2 * P)"
proof -
  have e: "s / P - A / D = (s * D - A * P) / (P * D)" using assms(1,2) by (simp add: field_simps)
  have "s * D - A * P \<le> D / 2" "- (D / 2) \<le> s * D - A * P" using assms(3,4) by (simp_all add: algebra_simps)
  then have "\<bar>s * D - A * P\<bar> \<le> D / 2" by linarith
  then have "\<bar>s * D - A * P\<bar> / (P * D) \<le> (D / 2) / (P * D)"
    using assms(1,2) by (intro divide_right_mono) simp_all
  also have "(D / 2) / (P * D) = 1 / (2 * P)" using assms(1) by simp
  finally show ?thesis using assms(1,2) by (simp add: e abs_divide abs_mult)
qed

lemma scaled_half_up_near: "\<bar>of_nat (scaled_half_up k x) / 10 ^ k - \<bar>x\<bar>\<bar> \<le> 1 / (2 * 10 ^ k)"
proof -
  obtain n d where q: "quotient_of x = (n, d)" by fastforce
  have d: "0 < d" and x: "x = of_int n / of_int d" using quotient_of_pos [OF q] by auto
  let ?N = "2 * nat \<bar>n\<bar> * 10 ^ k + nat d" and ?D = "2 * nat d"
  define s where "s = ?N div ?D"
  have D: "0 < ?D" using d by simp
  have up: "s * ?D \<le> ?N" unfolding s_def by simp
  have "?N = ?D * s + ?N mod ?D" unfolding s_def by simp
  then have lo: "?N < (s + 1) * ?D" using mod_less_divisor [OF D, of ?N] by (simp add: algebra_simps)
  have dq: "(of_nat (nat d) :: rat) = of_int d" "(of_nat (nat \<bar>n\<bar>) :: rat) = of_int \<bar>n\<bar>" using d by simp_all
  have up': "of_nat s * (2 * of_int d) \<le> 2 * of_int \<bar>n\<bar> * 10 ^ k + (of_int d :: rat)"
    using up [THEN of_nat_mono [where 'a = rat]] dq by simp
  have lo': "2 * of_int \<bar>n\<bar> * 10 ^ k + (of_int d :: rat) < (of_nat s + 1) * (2 * of_int d)"
    using lo [THEN of_nat_less_iff [where 'a = rat, THEN iffD2]] dq by (simp add: distrib_right)
  have ax: "\<bar>x\<bar> = of_int \<bar>n\<bar> / of_int d" using d by (simp add: x abs_divide)
  have d': "0 < (of_int d :: rat)" using d by simp
  have "\<bar>of_nat s / 10 ^ k - of_int \<bar>n\<bar> / (of_int d :: rat)\<bar> \<le> 1 / (2 * 10 ^ k)"
    using quotient_near [OF d' _ up' lo'] by simp
  then show ?thesis using q by (simp add: scaled_half_up_def s_def ax)
qed

lemma scaled_half_up_exact:
  assumes "quotient_of x = (n, d)" "nat d dvd 10 ^ k"
  shows "of_nat (scaled_half_up k x) / 10 ^ k = \<bar>x\<bar>"
proof -
  have d: "0 < d" and x: "x = of_int n / of_int d" using quotient_of_pos [OF assms(1)] by auto
  obtain m where m: "10 ^ k = nat d * m" using assms(2) by blast
  have "(2 * nat \<bar>n\<bar> * 10 ^ k + nat d) div (2 * nat d) = nat \<bar>n\<bar> * m"
  proof -
    have "2 * nat \<bar>n\<bar> * 10 ^ k + nat d = nat d + (2 * nat d) * (nat \<bar>n\<bar> * m)" using m by simp
    then show ?thesis using d by (simp only: div_mult_self2) simp
  qed
  then have s: "scaled_half_up k x = nat \<bar>n\<bar> * m" using assms(1) by (simp add: scaled_half_up_def)
  have "(10 ^ k :: rat) = of_nat (10 ^ k)" by simp
  also have "\<dots> = of_int d * of_nat m" unfolding m using d by simp
  finally have ten: "(10 ^ k :: rat) = of_int d * of_nat m" .
  have "m \<noteq> 0" using m by (metis mult_0_right power_not_zero zero_neq_numeral)
  then show ?thesis unfolding s ten using d by (simp add: x abs_divide)
qed

lemma factor_strip: "0 < n \<Longrightarrow> 1 < p \<Longrightarrow> n = p ^ factorCount n p * strip_factor n p \<and> 0 < strip_factor n p"
proof (induction n p rule: factorCount.induct)
  case (1 n p)
  show ?case
  proof (cases "n mod p = 0")
    case True
    then have n: "n = p * (n div p)" by (metis add_0_right mult_div_mod_eq)
    then have "0 < n div p" using 1(2) by (cases "n div p") auto
    then have "n div p = p ^ factorCount (n div p) p * strip_factor (n div p) p \<and> 0 < strip_factor (n div p) p"
      using 1 True by simp
    then show ?thesis
      using 1(2,3) True n by (subst factorCount.simps, subst (1 2) strip_factor.simps) (simp add: mult.assoc)
  next
    case False
    then show ?thesis
      using 1(2) by (subst factorCount.simps, subst (1 2) strip_factor.simps) simp
  qed
qed


lemma factorCount_strip:
  assumes "0 < n"
  shows "factorCount (strip_factor n 2) 5 = factorCount n 5"
  using assms
proof (induction n "2::nat" rule: strip_factor.induct)
  case (1 n)
  show ?case
  proof (cases "n mod 2 = 0")
    case True
    then obtain m where n: "n = 2 * m" by auto
    have five: "factorCount (2 * m) 5 = factorCount m 5" for m
    proof (induction m rule: less_induct)
      case (less m)
      have "(2 * m) mod 5 = 0 \<longleftrightarrow> m mod 5 = 0" by presburger
      moreover have "m mod 5 = 0 \<Longrightarrow> (2 * m) div 5 = 2 * (m div 5)" by presburger
      moreover have "0 < m \<Longrightarrow> m div 5 < m" by simp
      ultimately show ?case
        using less [of "m div 5"] factorCount.simps [of "2 * m" 5] factorCount.simps [of m 5]
        by (cases "0 < m \<and> m mod 5 = 0") simp_all
    qed
    have "strip_factor n 2 = strip_factor m 2"
      using n 1(2) by (subst strip_factor.simps) simp
    moreover have "factorCount (strip_factor (n div 2) 2) 5 = factorCount (n div 2) 5"
      using 1 True n by simp
    ultimately show ?thesis using five n by simp
  next
    case False
    then show ?thesis by (subst strip_factor.simps) simp
  qed
qed

lemma decimalDigits_dvd:
  assumes "quotient_of x = (n, d)" "0 \<le> decimalDigits x"
  shows "nat d dvd 10 ^ nat (decimalDigits x)"
proof -
  have d: "0 < nat d" using quotient_of_pos [OF assms(1)] by auto
  let ?c2 = "factorCount (nat d) 2" and ?c5 = "factorCount (nat d) 5"
  have rest: "strip_factor (strip_factor (nat d) 2) 5 = 1"
    and k: "nat (decimalDigits x) = max ?c2 ?c5"
    using assms by (auto simp: decimalDigits_def Let_def split: if_splits)
  have f2: "nat d = 2 ^ ?c2 * strip_factor (nat d) 2" "0 < strip_factor (nat d) 2"
    using factor_strip [OF d, of 2] by simp_all
  then have "strip_factor (nat d) 2 = 5 ^ ?c5"
    using factor_strip [of "strip_factor (nat d) 2" 5] rest factorCount_strip [OF d] by simp
  then have dd: "nat d = 2 ^ ?c2 * 5 ^ ?c5" using f2(1) by simp
  have "(10::nat) ^ max ?c2 ?c5 = 2 ^ max ?c2 ?c5 * 5 ^ max ?c2 ?c5"
    by (simp flip: power_mult_distrib)
  moreover have "(2::nat) ^ ?c2 * 5 ^ ?c5 dvd 2 ^ max ?c2 ?c5 * 5 ^ max ?c2 ?c5"
    by (intro mult_dvd_mono le_imp_power_dvd) simp_all
  ultimately show ?thesis using dd k by simp
qed

lemma decimalDigits_pos:
  assumes "snd (quotient_of x) \<noteq> 1" "0 \<le> decimalDigits x"
  shows "0 < nat (decimalDigits x)"
proof (rule ccontr)
  assume "\<not> ?thesis"
  then have "nat (snd (quotient_of x)) dvd 1"
    using decimalDigits_dvd [of x "fst (quotient_of x)" "snd (quotient_of x)"] assms(2) by simp
  then have "nat (snd (quotient_of x)) = 1" by simp
  then show False using assms(1) by simp
qed

lemma read_FormatInt: "ratFromString (FormatInt i) = Some (of_int i)"
proof -
  have "FormatInt i = plain_text (i < 0) (nat_str (nat \<bar>i\<bar>)) []"
    by (simp add: FormatInt_def plain_text_def)
  moreover have "ratFromString (plain_text (i < 0) (nat_str (nat \<bar>i\<bar>)) []) = Some (plain_value (i < 0) (nat_str (nat \<bar>i\<bar>)) [])"
    using nat_str_digits by (intro read_plain) simp_all
  moreover have "plain_value (i < 0) (nat_str (nat \<bar>i\<bar>)) [] = of_int i"
    by (simp add: plain_value_def dval_nat_str)
  ultimately show ?thesis by simp
qed

text \<open>The places a value is written with.\<close>

definition places :: "rat \<Rightarrow> nat" where
  "places r = (if decimalDigits r < 0 \<or> 20 < decimalDigits r then 20 else nat (decimalDigits r))"

lemma read_decString:
  "ratFromString (decString r) =
     Some (if snd (quotient_of r) = 1 then r
           else (if r < 0 then - 1 else 1) * of_nat (scaled_half_up (places r) r) / 10 ^ places r)"
proof (cases "snd (quotient_of r) = 1")
  case True
  obtain n d where q: "quotient_of r = (n, d)" by fastforce
  then have "r = of_int n" using True quotient_of_pos [OF q] by simp
  then show ?thesis using True q read_FormatInt by (simp add: decString_def)
next
  case False
  have k: "0 < places r" "places r \<le> 20"
    using decimalDigits_pos [OF False] by (auto simp: places_def)
  have "decString r = TrimSuffix (TrimRight (FloatString r (places r)) ''0'') ''.''"
    using False read_FloatString(2) [OF False k] by (simp add: decString_def places_def Let_def)
  then show ?thesis using read_FloatString(1) [OF False k] False by simp
qed

text \<open>C11: Numeric text is exact. A value that terminates within twenty decimal places is written so that
  reading the text gives back exactly that value; any other is written to twenty places, within half a
  unit of the last. So a numeric column stores and returns its values without loss, up to that scale.\<close>
theorem decString_exact:
  "(0 \<le> decimalDigits r \<and> decimalDigits r \<le> 20 \<longrightarrow> ratFromString (decString r) = Some r) \<and>
   (\<exists>q. ratFromString (decString r) = Some q \<and> \<bar>q - r\<bar> \<le> 1 / (2 * 10 ^ 20))"
proof -
  obtain n d where q: "quotient_of r = (n, d)" by fastforce
  have sgn: "(if r < 0 then - 1 else 1) * \<bar>r\<bar> = r" by simp
  have exact: "ratFromString (decString r) = Some r" if k: "0 \<le> decimalDigits r" "decimalDigits r \<le> 20"
  proof -
    have "of_nat (scaled_half_up (places r) r) / 10 ^ places r = \<bar>r\<bar>"
      using scaled_half_up_exact [OF q] decimalDigits_dvd [OF q k(1)] k by (simp add: places_def)
    then show ?thesis using read_decString [of r] sgn by (simp flip: times_divide_eq_right)
  qed
  show ?thesis
  proof (cases "snd (quotient_of r) = 1 \<or> (0 \<le> decimalDigits r \<and> decimalDigits r \<le> 20)")
    case True
    then have "ratFromString (decString r) = Some r" using exact read_decString [of r] by auto
    then show ?thesis by simp
  next
    case False
    let ?s = "of_nat (scaled_half_up 20 r) / 10 ^ 20 :: rat"
    have "ratFromString (decString r) = Some ((if r < 0 then - 1 else 1) * ?s)"
      using False read_decString [of r] by (auto simp: places_def)
    moreover have "\<bar>(if r < 0 then - 1 else 1) * ?s - r\<bar> = \<bar>?s - \<bar>r\<bar>\<bar>" by (auto simp: abs_if)
    then have "\<bar>(if r < 0 then - 1 else 1) * ?s - r\<bar> \<le> 1 / (2 * 10 ^ 20)"
      using scaled_half_up_near [of 20 r] by metis
    ultimately show ?thesis using exact by blast
  qed
qed

lemma decString_exact_witness: "ratFromString (decString (3 / 2)) = Some (3 / 2)"
proof -
  have "0 \<le> decimalDigits (3 / 2) \<and> decimalDigits (3 / 2) \<le> 20" by code_simp
  then show ?thesis using decString_exact [of "3 / 2"] by blast
qed

section \<open>The collation is an order\<close>

text \<open>What SQLite asks of a collating function.\<close>

locale collation =
  fixes cmp :: "'a \<Rightarrow> 'a \<Rightarrow> int"
  assumes flip: "cmp y x = - cmp x y"
    and le_trans: "cmp x y \<le> 0 \<Longrightarrow> cmp y z \<le> 0 \<Longrightarrow> cmp x z \<le> 0"
begin

lemma cmp_self: "cmp x x = 0"
  using flip [of x x] by simp

lemma eq_left: "cmp x y = 0 \<Longrightarrow> cmp y z \<le> 0 \<longleftrightarrow> cmp x z \<le> 0"
  using le_trans flip by (metis neg_equal_0_iff_equal order_refl)

lemma less_le_trans: "cmp x y < 0 \<Longrightarrow> cmp y z \<le> 0 \<Longrightarrow> cmp x z < 0"
  using le_trans flip by (smt (verit))

end

lemma compare_flip: "compare y x = - compare x y" for x y :: "'a::linorder"
  by (auto simp: compare_def)

lemma compare_le: "compare x y \<le> 0 \<longleftrightarrow> x \<le> y"
  by (auto simp: compare_def)

interpretation decimal: collation decCmp
proof
  show "decCmp y x = - decCmp x y" for x y
  proof (cases "parseDec x"; cases "parseDec y")
    fix a b assume "parseDec x = Some a" "parseDec y = Some b"
    then show ?thesis using compare_flip [of a b] by (simp add: decCmp_def)
  qed (use compare_flip [of "dec_toStr x" "dec_toStr y"] in \<open>simp_all add: decCmp_def\<close>)
  show "decCmp x z \<le> 0" if "decCmp x y \<le> 0" "decCmp y z \<le> 0" for x y z
    using that by (auto simp: decCmp_def compare_le split: option.split_asm option.split)
qed

text \<open>The DECIMAL collation is a total preorder on all values, numbers or not: comparing backwards
  negates the answer, equality is respected, and strict and non-strict comparisons chain. Numbers are
  ordered by their exact value whatever their spelling, and come after everything that is no number.\<close>
theorem decCmp_order:
  "decCmp b a = - decCmp a b \<and> (decCmp a b < 0 \<and> decCmp b c \<le> 0 \<longrightarrow> decCmp a c < 0) \<and>
   (decCmp a b = 0 \<longrightarrow> (decCmp b c \<le> 0 \<longleftrightarrow> decCmp a c \<le> 0)) \<and>
   (parseDec a = Some x \<and> parseDec b = Some y \<longrightarrow> (decCmp a b \<le> 0 \<longleftrightarrow> x \<le> y) \<and> (decCmp a b = 0 \<longleftrightarrow> x = y)) \<and>
   (parseDec a = None \<and> parseDec b = Some y \<longrightarrow> decCmp a b < 0)"
  using decimal.flip [of b a] decimal.less_le_trans [of a b c] decimal.eq_left [of a b c]
  by (auto simp: decCmp_def compare_def)

lemma decCmp_order_witness:
  "decCmp (VString ''9'') (VString ''1e1'') < 0 \<and> decCmp (VString ''1.50'') (VString ''3/2'') = 0"
proof -
  have "parseDec (VString ''9'') = Some 9 \<and> parseDec (VString ''1e1'') = Some 10 \<and>
    parseDec (VString ''1.50'') = Some (3 / 2) \<and> parseDec (VString ''3/2'') = Some (3 / 2)"
    by code_simp
  then show ?thesis
    using decCmp_order [of "VString ''9''" "VString ''1e1''" "VString ''1e1''" 9 10]
      decCmp_order [of "VString ''1.50''" "VString ''3/2''" "VString ''3/2''" "3 / 2" "3 / 2"]
    by (auto simp: decCmp_def compare_def)
qed

section \<open>Aggregates are exact\<close>

definition nums :: "core_value list \<Rightarrow> rat list" where
  "nums vs = List.map_filter parseDec vs"

lemma nums_simps [simp]:
  "nums [] = []" "nums (v # vs) = (case parseDec v of Some r \<Rightarrow> r # nums vs | None \<Rightarrow> nums vs)"
  "nums (xs @ ys) = nums xs @ nums ys"
  by (auto simp: nums_def map_filter_def split: option.split)

definition is_text :: "core_value \<Rightarrow> bool" where
  "is_text v = (case v of VString _ \<Rightarrow> True | VBytes _ \<Rightarrow> True | _ \<Rightarrow> False)"

definition is_float :: "core_value \<Rightarrow> bool" where
  "is_float v = (case v of VFloat _ \<Rightarrow> True | _ \<Rightarrow> False)"

lemma decAgg_steps:
  "foldl decAgg_step (decAgg_init avg) vs =
     \<lparr>da_acc = (if nums vs = [] then None else Some (sum_list (nums vs))), da_n = int (length (nums vs)),
      da_avg = avg, sawStr = (\<exists>v \<in> set vs. is_text v), sawFloat = (\<exists>v \<in> set vs. is_float v)\<rparr>"
proof (induction vs rule: rev_induct)
  case (snoc v vs)
  have "parseDec VNull = None" by (simp add: parseDec_def)
  then show ?case using snoc
    by (cases v) (auto simp: decAgg_step_def is_text_def is_float_def Let_def split: option.split)
qed (simp add: decAgg_init_def)

lemma decAgg_inverses:
  assumes "da_acc a = Some x \<or> nums vs = []"
  shows "foldl decAgg_inverse a vs =
    a\<lparr>da_acc := map_option (\<lambda>x. x - sum_list (nums vs)) (da_acc a), da_n := da_n a - int (length (nums vs))\<rparr>"
  using assms
proof (induction vs arbitrary: a x)
  case (Cons v vs)
  show ?case
  proof (cases "parseDec v")
    case None
    then show ?thesis using Cons by (simp add: decAgg_inverse_def)
  next
    case (Some r)
    then have "da_acc a = Some x" using Cons.prems by simp
    then show ?thesis using Some Cons.IH [of "decAgg_inverse a v" "x - r"] by (simp add: decAgg_inverse_def algebra_simps)
  qed
qed (simp add: option.map_ident)


lemma decAgg_sum:
  "decAgg_value (foldl decAgg_step (decAgg_init False) vs) =
     (if nums vs = [] then AggNull
      else if \<exists>v \<in> set vs. is_text v then AggText (decString (sum_list (nums vs)))
      else if \<exists>v \<in> set vs. is_float v then AggFloat (sum_list (nums vs))
      else if snd (quotient_of (sum_list (nums vs))) = 1 \<and> in_int64 (fst (quotient_of (sum_list (nums vs))))
      then AggInt (fst (quotient_of (sum_list (nums vs))))
      else AggText (decString (sum_list (nums vs))))"
  by (simp add: decAgg_steps decAgg_value_def Let_def)

text \<open>Only a multiset of the rows reaches the result.\<close>

lemma nums_perm: "mset xs = mset ys \<Longrightarrow> mset (nums xs) = mset (nums ys)"
proof (induction xs arbitrary: ys)
  case (Cons x xs)
  then obtain y1 y2 where ys: "ys = y1 @ x # y2" by (metis list.set_intros(1) set_mset_mset split_list)
  then have "mset xs = mset (y1 @ y2)" using Cons.prems by simp
  then have "mset (nums xs) = mset (nums (y1 @ y2))" by (rule Cons.IH)
  then show ?case using ys by (simp split: option.split)
qed simp

text \<open>The overridden \<open>sum\<close> and \<open>avg\<close> do not depend on the order in which the rows arrive, and over a
  numeric column they are the exact sum and the exact mean of the numbers in it, NULL when there is none;
  the mean and the sum of texts never go through floating point.\<close>
theorem aggregate_exact:
  assumes "mset xs = mset ys"
  shows "decAgg_value (foldl decAgg_step (decAgg_init avg) xs) =
      decAgg_value (foldl decAgg_step (decAgg_init avg) ys) \<and>
    ((\<exists>v \<in> set xs. is_text v) \<longrightarrow>
      decAgg_value (foldl decAgg_step (decAgg_init avg) xs) =
        (if nums ys = [] then AggNull
         else AggText (decString (if avg then sum_list (nums ys) / of_nat (length (nums ys)) else sum_list (nums ys)))))"
proof -
  have n: "mset (nums xs) = mset (nums ys)" by (rule nums_perm [OF assms])
  then have "sum_list (nums xs) = sum_list (nums ys)" by (metis sum_mset_sum_list)
  moreover have "length (nums xs) = length (nums ys)" using n by (rule mset_eq_length)
  moreover have "nums xs = [] \<longleftrightarrow> nums ys = []" using n by (metis mset_zero_iff)
  moreover have "set xs = set ys" using assms by (rule mset_eq_setD)
  ultimately show ?thesis by (auto simp: decAgg_steps decAgg_value_def Let_def)
qed

lemma aggregate_exact_witness:
  "decAgg_value (foldl decAgg_step (decAgg_init True) [VString ''1.5'', VNull, VString ''x'', VString ''2'']) =
     AggText (decString (7 / 4))"
proof -
  have n: "nums [VString ''2'', VString ''1.5'', VNull, VString ''x''] = [2, 3 / 2]" by code_simp
  have m: "mset [VString ''1.5'', VNull, VString ''x'', VString ''2''] = mset [VString ''2'', VString ''1.5'', VNull, VString ''x'']"
    by simp
  show ?thesis using aggregate_exact [OF m, THEN conjunct2, of True] n by (simp add: is_text_def del: nums_simps)
qed

text \<open>C40: A moving window is as good as a fresh aggregate: over a column of numeric text, taking out the rows
  that leave the frame gives what aggregating the rows that remain gives, without rounding error, NULL
  for an empty frame included.\<close>
theorem window_aggregate_exact:
  assumes "list_all (\<lambda>v. is_text v \<or> v = VNull) (xs @ ys)"
  shows "decAgg_value (foldl decAgg_inverse (foldl decAgg_step (decAgg_init avg) (xs @ ys)) xs) =
    decAgg_value (foldl decAgg_step (decAgg_init avg) ys)"
proof -
  let ?a = "foldl decAgg_step (decAgg_init avg) (xs @ ys)"
  have a: "?a = \<lparr>da_acc = (if nums (xs @ ys) = [] then None else Some (sum_list (nums (xs @ ys)))),
      da_n = int (length (nums (xs @ ys))), da_avg = avg, sawStr = (\<exists>v \<in> set (xs @ ys). is_text v),
      sawFloat = (\<exists>v \<in> set (xs @ ys). is_float v)\<rparr>" by (rule decAgg_steps)
  have "nums ys = [] \<or> (\<exists>v \<in> set ys. is_text v)"
  proof (rule disjCI)
    assume "\<not> (\<exists>v \<in> set ys. is_text v)"
    then have "\<forall>v \<in> set ys. v = VNull" using assms by (auto simp: list_all_iff)
    then show "nums ys = []" by (induction ys) (simp_all add: parseDec_def)
  qed
  moreover have "da_acc ?a = Some (sum_list (nums (xs @ ys))) \<or> nums xs = []" unfolding a by simp
  moreover have "foldl decAgg_inverse ?a xs =
      ?a\<lparr>da_acc := map_option (\<lambda>x. x - sum_list (nums xs)) (da_acc ?a), da_n := da_n ?a - int (length (nums xs))\<rparr>"
    by (rule decAgg_inverses [OF calculation(2)])
  ultimately show ?thesis
    unfolding a decAgg_steps [of avg ys] by (cases "nums ys = []") (auto simp: decAgg_value_def Let_def bex_Un)
qed

lemma window_aggregate_exact_witness:
  "decAgg_value (decAgg_inverse (decAgg_step (decAgg_step (decAgg_init False) (VString ''0.1'')) (VString ''0.2''))
     (VString ''0.1'')) = decAgg_value (decAgg_step (decAgg_init False) (VString ''0.2''))"
  using window_aggregate_exact [of "[VString ''0.1'']" "[VString ''0.2'']" False] by (simp add: is_text_def)

text \<open>\<open>dec_sum\<close> differs: once it has seen a number, a frame it has emptied again gives 0 and not NULL.\<close>

lemma decSum_empty_frame:
  "parseDec v = Some r \<Longrightarrow> decSum_final (decSum_inverse (decSum_step decSum_init v) v) = VString (decString 0)"
  by (simp add: decSum_init_def decSum_step_def decSum_inverse_def decSum_final_def)

lemma decSum_exact:
  "decSum_final (foldl decSum_step decSum_init vs) =
     (if nums vs = [] then VNull else VString (decString (sum_list (nums vs))))"
proof -
  have "foldl decSum_step decSum_init vs =
      \<lparr>ds_acc = (if nums vs = [] then None else Some (sum_list (nums vs))), ds_any = (nums vs \<noteq> [])\<rparr>"
    by (induction vs rule: rev_induct) (auto simp: decSum_init_def decSum_step_def split: option.split)
  then show ?thesis by (simp add: decSum_final_def)
qed


section \<open>The counting loops end\<close>

text \<open>The loops as the code has them, without a guard: on zero they would not end.\<close>

partial_function (option) factor_loop :: "nat \<Rightarrow> nat \<Rightarrow> nat \<Rightarrow> nat option" where
  "factor_loop m p c = (if m mod p = 0 then factor_loop (m div p) p (c + 1) else Some c)"

partial_function (option) strip_loop :: "nat \<Rightarrow> nat \<Rightarrow> nat option" where
  "strip_loop m p = (if m mod p = 0 then strip_loop (m div p) p else Some m)"

lemma factor_loop_total: "0 < m \<Longrightarrow> 1 < p \<Longrightarrow> factor_loop m p c = Some (c + factorCount m p)"
proof (induction m p arbitrary: c rule: factorCount.induct)
  case (1 m p)
  show ?case
  proof (cases "m mod p = 0")
    case True
    then have "0 < m div p" using 1(2,3) by (metis add_0_right gr0I mult_0_right mult_div_mod_eq)
    then show ?thesis
      using 1 True factor_loop.simps [of m p c] factorCount.simps [of m p] by simp
  qed (use 1 in \<open>simp add: factor_loop.simps [of m] factorCount.simps [of m]\<close>)
qed

lemma strip_loop_total: "0 < m \<Longrightarrow> 1 < p \<Longrightarrow> strip_loop m p = Some (strip_factor m p)"
proof (induction m p rule: strip_factor.induct)
  case (1 m p)
  show ?case
  proof (cases "m mod p = 0")
    case True
    then have "0 < m div p" using 1(2,3) by (metis add_0_right gr0I mult_0_right mult_div_mod_eq)
    then show ?thesis
      using 1 True strip_loop.simps [of m p] strip_factor.simps [of m p] by simp
  qed (use 1 in \<open>simp add: strip_loop.simps [of m] strip_factor.simps [of m]\<close>)
qed

text \<open>C39: Writing a number always ends: the unbounded division loops of \<open>decimalDigits\<close> and
  \<open>factorCount\<close>, which would spin for ever on a zero, return on the denominator of every rational,
  with the counts and the remaining factor the rendering uses.\<close>
theorem decimalDigits_loops_end:
  "factor_loop (nat (snd (quotient_of r))) 2 0 = Some (factorCount (nat (snd (quotient_of r))) 2) \<and>
   factor_loop (nat (snd (quotient_of r))) 5 0 = Some (factorCount (nat (snd (quotient_of r))) 5) \<and>
   Option.bind (strip_loop (nat (snd (quotient_of r))) 2) (\<lambda>rest. strip_loop rest 5) =
     Some (strip_factor (strip_factor (nat (snd (quotient_of r))) 2) 5)"
proof -
  let ?d = "nat (snd (quotient_of r))"
  have d: "0 < ?d" using quotient_of_denom_pos' [of r] by simp
  have "0 < strip_factor ?d 2" using factor_strip [OF d, of 2] by simp
  then show ?thesis
    using d by (simp add: factor_loop_total strip_loop_total)
qed

end
