(* ===== verification/Ranges.thy ===== *)
theory Ranges
  imports Decimal
begin

text \<open>
  Range values (\<open>engine/ranges.go\<close>): a range is stored as its text, \<open>[1,10)\<close>; constructors build the text,
  and containment and overlap parse it and compare the bounds as exact rationals. The last section gives
  the set of points a parsed range stands for, and shows the operators are membership, inclusion and
  intersection of those sets.
\<close>

section \<open>Building and parsing\<close>

definition ratPair :: "string \<Rightarrow> string \<Rightarrow> (rat \<times> rat) option" where
  "ratPair a b =
     (case (ratFromString a, ratFromString b) of (Some x, Some y) \<Rightarrow> Some (x, y) | _ \<Rightarrow> None)"

definition makeRange :: "string \<Rightarrow> string \<Rightarrow> string \<Rightarrow> string" where
  "makeRange lo hi bounds =
     (let (lb, ub) = (case bounds of [l, u] \<Rightarrow> ([l], [u]) | _ \<Rightarrow> (''['', '')'')) in
      if lo = hi \<and> \<not> (lb = ''['' \<and> ub = '']'') then ''empty''
      else if (case ratPair lo hi of Some (x, y) \<Rightarrow> y < x | None \<Rightarrow> False) then ''empty''
      else lb @ lo @ '','' @ hi @ ub)"

definition isRangeText :: "string \<Rightarrow> bool" where
  "isRangeText s =
     (if s = ''empty'' then True
      else if length s < 3 \<or> (hd s \<noteq> CHR ''['' \<and> hd s \<noteq> CHR ''('') then False
      else (last s = CHR '')'' \<or> last s = CHR '']'') \<and> Contains s '','')"

record rangeVal =
  empty :: bool
  lo :: string
  hi :: string
  loInc :: bool
  hiInc :: bool
  loInf :: bool
  hiInf :: bool

definition parseRange :: "string \<Rightarrow> rangeVal option" where
  "parseRange s =
     (if s = ''empty'' then
        Some \<lparr>empty = True, lo = [], hi = [], loInc = False, hiInc = False, loInf = False, hiInf = False\<rparr>
      else if \<not> isRangeText s then None
      else
       (let inner = butlast (tl s) in
        case CutByte inner (CHR '','') of
          None \<Rightarrow> None
        | Some (l0, h0) \<Rightarrow>
            (let l = TrimSpace l0; h = TrimSpace h0 in
             Some \<lparr>empty = False, lo = l, hi = h, loInc = (hd s = CHR ''[''), hiInc = (last s = CHR '']''),
               loInf = (l = []), hiInf = (h = [])\<rparr>)))"

section \<open>The operators\<close>

definition rangeContains :: "string \<Rightarrow> string \<Rightarrow> bool" where
  "rangeContains a x =
     (case parseRange a of
        None \<Rightarrow> False
      | Some r \<Rightarrow>
          if empty r then False
          else
           (case ratFromString x of
              None \<Rightarrow> False
            | Some xv \<Rightarrow>
                if \<not> loInf r \<and>
                   (case ratFromString (lo r) of None \<Rightarrow> True | Some lv \<Rightarrow> xv < lv \<or> (xv = lv \<and> \<not> loInc r))
                then False
                else if \<not> hiInf r \<and>
                   (case ratFromString (hi r) of None \<Rightarrow> True | Some hv \<Rightarrow> hv < xv \<or> (xv = hv \<and> \<not> hiInc r))
                then False
                else True))"

definition lowerCovers :: "rangeVal \<Rightarrow> rangeVal \<Rightarrow> bool" where
  "lowerCovers a b =
     (if loInf a then True
      else if loInf b then False
      else (case ratPair (lo a) (lo b) of
              None \<Rightarrow> False
            | Some (x, y) \<Rightarrow> if x < y then True else if x = y then loInc a \<or> \<not> loInc b else False))"

definition upperCovers :: "rangeVal \<Rightarrow> rangeVal \<Rightarrow> bool" where
  "upperCovers a b =
     (if hiInf a then True
      else if hiInf b then False
      else (case ratPair (hi a) (hi b) of
              None \<Rightarrow> False
            | Some (x, y) \<Rightarrow> if y < x then True else if x = y then hiInc a \<or> \<not> hiInc b else False))"

definition rangeContainsRange :: "string \<Rightarrow> string \<Rightarrow> bool" where
  "rangeContainsRange a b =
     (case (parseRange a, parseRange b) of
        (Some ra, Some rb) \<Rightarrow>
          if empty rb then True else if empty ra then False else lowerCovers ra rb \<and> upperCovers ra rb
      | _ \<Rightarrow> False)"

definition startsBeforeEnd :: "rangeVal \<Rightarrow> rangeVal \<Rightarrow> bool" where
  "startsBeforeEnd x y =
     (if loInf x \<or> hiInf y then True
      else (case ratPair (lo x) (hi y) of
              None \<Rightarrow> False
            | Some (l, h) \<Rightarrow> if l < h then True else if l = h then loInc x \<and> hiInc y else False))"

definition rangeOverlaps :: "string \<Rightarrow> string \<Rightarrow> bool" where
  "rangeOverlaps a b =
     (case (parseRange a, parseRange b) of
        (Some ra, Some rb) \<Rightarrow>
          if empty ra \<or> empty rb then False else startsBeforeEnd ra rb \<and> startsBeforeEnd rb ra
      | _ \<Rightarrow> False)"

section \<open>Points\<close>

definition above_lower :: "rangeVal \<Rightarrow> rat \<Rightarrow> bool" where
  "above_lower r x =
     (loInf r \<or> (case ratFromString (lo r) of Some l \<Rightarrow> l < x \<or> (l = x \<and> loInc r) | None \<Rightarrow> False))"

definition below_upper :: "rangeVal \<Rightarrow> rat \<Rightarrow> bool" where
  "below_upper r x =
     (hiInf r \<or> (case ratFromString (hi r) of Some h \<Rightarrow> x < h \<or> (x = h \<and> hiInc r) | None \<Rightarrow> False))"

definition points :: "rangeVal \<Rightarrow> rat set" where
  "points r = (if empty r then {} else {x. above_lower r x \<and> below_upper r x})"

text \<open>A range whose finite bounds are numbers.\<close>

definition numeric :: "rangeVal \<Rightarrow> bool" where
  "numeric r \<longleftrightarrow>
     (loInf r \<or> ratFromString (lo r) \<noteq> None) \<and> (hiInf r \<or> ratFromString (hi r) \<noteq> None)"

lemma rangeContains_iff:
  "rangeContains a x \<longleftrightarrow> (\<exists>r v. parseRange a = Some r \<and> ratFromString x = Some v \<and> v \<in> points r)"
proof (cases "parseRange a"; cases "ratFromString x")
  fix r v assume "parseRange a = Some r" "ratFromString x = Some v"
  then show ?thesis
    by (cases "ratFromString (lo r)"; cases "ratFromString (hi r)")
      (simp_all add: rangeContains_def points_def above_lower_def below_upper_def, linarith+)
qed (simp_all add: rangeContains_def)

lemma lowerCovers_iff:
  assumes "numeric a" "numeric b" "p \<in> points b" "\<not> empty a"
  shows "lowerCovers a b \<longleftrightarrow> (\<forall>x. above_lower b x \<longrightarrow> above_lower a x)"
proof
  assume "lowerCovers a b"
  then show "\<forall>x. above_lower b x \<longrightarrow> above_lower a x"
    by (auto simp: lowerCovers_def above_lower_def ratPair_def split: option.splits if_splits)
next
  assume sub: "\<forall>x. above_lower b x \<longrightarrow> above_lower a x"
  show "lowerCovers a b"
  proof (cases "loInf a")
    case False
    then obtain l where l: "ratFromString (lo a) = Some l" using assms(1) by (auto simp: numeric_def)
    have nb: "\<not> loInf b"
    proof
      assume "loInf b"
      then have "above_lower a (l - 1)" using sub [THEN spec, of "l - 1"] by (simp add: above_lower_def)
      then show False using False l by (simp add: above_lower_def)
    qed
    then obtain m where m: "ratFromString (lo b) = Some m" using assms(2) by (auto simp: numeric_def)
    have "\<not> m < l"
    proof
      assume "m < l"
      then have "above_lower a ((m + l) / 2)" using sub nb m by (simp add: above_lower_def)
      then show False using False l \<open>m < l\<close> by (auto simp: above_lower_def)
    qed
    moreover have "l = m \<Longrightarrow> loInc b \<Longrightarrow> loInc a" using sub False nb l m by (auto simp: above_lower_def)
    ultimately show ?thesis using False nb l m by (auto simp: lowerCovers_def ratPair_def)
  qed (simp add: lowerCovers_def)
qed

lemma upperCovers_iff:
  assumes "numeric a" "numeric b" "p \<in> points b" "\<not> empty a"
  shows "upperCovers a b \<longleftrightarrow> (\<forall>x. below_upper b x \<longrightarrow> below_upper a x)"
proof
  assume "upperCovers a b"
  then show "\<forall>x. below_upper b x \<longrightarrow> below_upper a x"
    by (auto simp: upperCovers_def below_upper_def ratPair_def split: option.splits if_splits)
next
  assume sub: "\<forall>x. below_upper b x \<longrightarrow> below_upper a x"
  show "upperCovers a b"
  proof (cases "hiInf a")
    case False
    then obtain h where h: "ratFromString (hi a) = Some h" using assms(1) by (auto simp: numeric_def)
    have nb: "\<not> hiInf b"
    proof
      assume "hiInf b"
      then have "below_upper a (h + 1)" using sub [THEN spec, of "h + 1"] by (simp add: below_upper_def)
      then show False using False h by (simp add: below_upper_def)
    qed
    then obtain m where m: "ratFromString (hi b) = Some m" using assms(2) by (auto simp: numeric_def)
    have "\<not> h < m"
    proof
      assume "h < m"
      then have "below_upper a ((m + h) / 2)" using sub nb m by (simp add: below_upper_def)
      then show False using False h \<open>h < m\<close> by (auto simp: below_upper_def)
    qed
    moreover have "h = m \<Longrightarrow> hiInc b \<Longrightarrow> hiInc a" using sub False nb h m by (auto simp: below_upper_def)
    ultimately show ?thesis using False nb h m by (auto simp: upperCovers_def ratPair_def)
  qed (simp add: upperCovers_def)
qed


lemma above_lower_mono: "above_lower r x \<Longrightarrow> x \<le> y \<Longrightarrow> above_lower r y"
  by (auto simp: above_lower_def split: option.splits)

lemma below_upper_mono: "below_upper r y \<Longrightarrow> x \<le> y \<Longrightarrow> below_upper r x"
  by (auto simp: below_upper_def split: option.splits)

lemma points_subset:
  assumes "p \<in> points b" "\<not> empty a"
  shows "points b \<subseteq> points a \<longleftrightarrow>
    (\<forall>x. above_lower b x \<longrightarrow> above_lower a x) \<and> (\<forall>x. below_upper b x \<longrightarrow> below_upper a x)"
proof
  assume sub: "points b \<subseteq> points a"
  have b: "\<not> empty b" "above_lower b p" "below_upper b p" using assms(1) by (auto simp: points_def split: if_splits)
  have a: "above_lower a p" "below_upper a p" using sub assms by (auto simp: points_def)
  have "above_lower a x" if "above_lower b x" for x
    using that a b sub assms(2) above_lower_mono [of a p x] below_upper_mono [of b p x]
    by (cases "p \<le> x") (auto simp: points_def)
  moreover have "below_upper a x" if "below_upper b x" for x
    using that a b sub assms(2) below_upper_mono [of a p x] above_lower_mono [of b p x]
    by (cases "x \<le> p") (auto simp: points_def)
  ultimately show "(\<forall>x. above_lower b x \<longrightarrow> above_lower a x) \<and> (\<forall>x. below_upper b x \<longrightarrow> below_upper a x)" by blast
qed (use assms in \<open>auto simp: points_def\<close>)

lemma startsBeforeEnd_witness_point:
  assumes "numeric x" "numeric y" "startsBeforeEnd x y"
  shows "\<exists>q. above_lower x q \<and> below_upper y q"
proof (cases "loInf x \<or> hiInf y")
  case True
  have "\<exists>q. below_upper y q"
  proof (cases "hiInf y")
    case False
    then obtain h where "ratFromString (hi y) = Some h" using assms(2) by (auto simp: numeric_def)
    then have "below_upper y (h - 1)" by (simp add: below_upper_def)
    then show ?thesis ..
  qed (simp add: below_upper_def)
  moreover have "\<exists>q. above_lower x q"
  proof (cases "loInf x")
    case False
    then obtain l where "ratFromString (lo x) = Some l" using assms(1) by (auto simp: numeric_def)
    then have "above_lower x (l + 1)" by (simp add: above_lower_def)
    then show ?thesis ..
  qed (simp add: above_lower_def)
  ultimately show ?thesis using True by (auto simp: above_lower_def below_upper_def)
next
  case False
  then obtain l h where lh: "ratFromString (lo x) = Some l" "ratFromString (hi y) = Some h"
    using assms(1,2) by (auto simp: numeric_def)
  then have "l < h \<or> (l = h \<and> loInc x \<and> hiInc y)"
    using assms(3) False by (auto simp: startsBeforeEnd_def ratPair_def split: if_splits)
  then show ?thesis
  proof
    assume "l < h"
    then show ?thesis using lh dense [of l h] by (auto simp: above_lower_def below_upper_def)
  qed (use lh in \<open>auto simp: above_lower_def below_upper_def\<close>)
qed

lemma startsBeforeEnd_point:
  assumes "numeric x" "numeric y"
  shows "startsBeforeEnd x y \<longleftrightarrow> (\<exists>q. above_lower x q \<and> below_upper y q)"
proof
  assume "\<exists>q. above_lower x q \<and> below_upper y q"
  then show "startsBeforeEnd x y"
    by (auto simp: startsBeforeEnd_def above_lower_def below_upper_def ratPair_def split: option.splits)
qed (rule startsBeforeEnd_witness_point [OF assms])

text \<open>Convex sets on a line: pairwise meetings give a common point.\<close>

lemma convex_meet:
  assumes "above_lower a p" "below_upper a p" "above_lower b q" "below_upper b q"
    "above_lower a u" "below_upper b u" "above_lower b v" "below_upper a v"
  shows "\<exists>x. above_lower a x \<and> below_upper a x \<and> above_lower b x \<and> below_upper b x"
proof -
  have lower: "above_lower r (max x y)" if "above_lower r x \<or> above_lower r y" for r x y
    using that above_lower_mono by (metis max.cobounded1 max.cobounded2)
  have upper: "below_upper r (min x y)" if "below_upper r x \<or> below_upper r y" for r x y
    using that below_upper_mono by (metis min.cobounded1 min.cobounded2)
  let ?l = "max (min p u) (min q v)"
  have "above_lower a (min p u)" "above_lower b (min q v)"
    using assms by (simp_all add: min_def)
  moreover have "below_upper a (min p u)" "below_upper b (min p u)" "below_upper a (min q v)" "below_upper b (min q v)"
    using upper assms by blast+
  moreover have "above_lower a ?l" "above_lower b ?l"
    using lower [of a "min p u" "min q v"] lower [of b "min p u" "min q v"] calculation(1,2) by blast+
  moreover have "?l = min p u \<or> ?l = min q v" by (simp add: max_def)
  ultimately show ?thesis by metis
qed




section \<open>Constructors\<close>

lemma TrimSpace_idem: "TrimSpace (TrimSpace s) = TrimSpace s"
proof (rule TrimSpace_id)
  have "\<not> is_space (last t)" if "t = rev (dropWhile is_space (rev u))" "t \<noteq> []" for t u
    using that hd_dropWhile [of is_space "rev u"] by (auto simp: last_rev)
  moreover have "\<not> is_space (hd (rev (dropWhile is_space (rev u))))"
    if "u = [] \<or> \<not> is_space (hd u)" "rev (dropWhile is_space (rev u)) \<noteq> []" for u
  proof -
    obtain d where "u = rev (dropWhile is_space (rev u)) @ d"
      using takeWhile_dropWhile_id [of is_space "rev u"] by (metis rev_append rev_rev_ident)
    then show ?thesis using that by (metis append_is_Nil_conv hd_append2)
  qed
  moreover have "dropWhile is_space s = [] \<or> \<not> is_space (hd (dropWhile is_space s))" using hd_dropWhile by blast
  ultimately show "TrimSpace s = [] \<or> \<not> is_space (hd (TrimSpace s)) \<and> \<not> is_space (last (TrimSpace s))"
    unfolding TrimSpace_def by blast
qed

lemma ratFromString_trim [simp]: "ratFromString (TrimSpace s) = ratFromString s"
  by (simp add: ratFromString_def TrimSpace_idem)

lemma number_not_blank: "ratFromString s = Some v \<Longrightarrow> TrimSpace s \<noteq> [] \<and> s \<noteq> []"
  by (auto simp: ratFromString_def TrimSpace_def Let_def split: if_splits)

lemma parse_range_text:
  assumes "c \<in> {CHR ''['', CHR ''(''}" "d \<in> {CHR '']'', CHR '')''}" "CHR '','' \<notin> set l" "l @ h \<noteq> []"
  shows "parseRange ([c] @ l @ '','' @ h @ [d]) =
    Some \<lparr>empty = False, lo = TrimSpace l, hi = TrimSpace h, loInc = (c = CHR ''[''), hiInc = (d = CHR '']''),
      loInf = (TrimSpace l = []), hiInf = (TrimSpace h = [])\<rparr>"
proof -
  let ?s = "[c] @ l @ '','' @ h @ [d]"
  have "?s = [c] @ l @ '','' @ (h @ [d])" by simp
  then have c: "Contains ?s '',''" unfolding Contains_iff by (metis append.assoc)
  have e: "?s \<noteq> ''empty''" using assms(1) by auto
  have len: "\<not> length ?s < 3" using assms(4) by (cases l; cases h) simp_all
  have t: "isRangeText ?s" using e len c assms(1,2) unfolding isRangeText_def by auto
  have "butlast (tl ?s) = l @ CHR '','' # h" by (simp add: butlast_append)
  then have "CutByte (butlast (tl ?s)) (CHR '','') = Some (l, h)"
    using assms(3) by (simp add: CutByte_def IndexByte_mid)
  then show ?thesis unfolding parseRange_def using e t by (simp add: Let_def)
qed

text \<open>A range built from two numbers holds exactly the numbers between them, the bounds included as
  the bound characters say; bounds that cross, or are the same text without both being included, hold
  nothing.\<close>
theorem makeRange_contains:
  assumes "ratFromString l = Some x" "ratFromString h = Some y" "ratFromString e = Some v"
    "CHR '','' \<notin> set l" "lb \<in> {CHR ''['', CHR ''(''}" "ub \<in> {CHR '']'', CHR '')''}"
  shows "rangeContains (makeRange l h [lb, ub]) e \<longleftrightarrow>
    (if lb = CHR ''['' then x \<le> v else x < v) \<and> (if ub = CHR '']'' then v \<le> y else v < y)"
proof -
  have em: "\<not> rangeContains ''empty'' e" by (simp add: rangeContains_def parseRange_def)
  have ne: "TrimSpace l \<noteq> []" "TrimSpace h \<noteq> []" "l @ h \<noteq> []" using assms(1,2) number_not_blank by auto
  consider (same) "l = h" "\<not> (lb = CHR ''['' \<and> ub = CHR '']'')" | (crossed) "\<not> (l = h \<and> \<not> (lb = CHR ''['' \<and> ub = CHR '']''))" "y < x"
    | (plain) "\<not> (l = h \<and> \<not> (lb = CHR ''['' \<and> ub = CHR '']''))" "\<not> y < x" by blast
  then show ?thesis
  proof cases
    case same
    then have "makeRange l h [lb, ub] = ''empty''" by (simp add: makeRange_def)
    then show ?thesis using em same assms(1,2) by auto
  next
    case crossed
    then have "makeRange l h [lb, ub] = ''empty''" using assms(1,2) by (auto simp: makeRange_def ratPair_def)
    then show ?thesis using em crossed by auto
  next
    case plain
    then have "makeRange l h [lb, ub] = [lb] @ l @ '','' @ h @ [ub]"
      using assms(1,2) by (auto simp: makeRange_def ratPair_def)
    then show ?thesis
      using parse_range_text [OF assms(5,6,4) ne(3)] ne assms(1-3)
      by (auto simp: rangeContains_iff points_def above_lower_def below_upper_def)
  qed
qed

lemma makeRange_contains_witness:
  "rangeContains (makeRange ''1'' ''2.5'' ''[)'') ''1.0'' \<and> \<not> rangeContains (makeRange ''1'' ''2.5'' ''[)'') ''5/2''"
proof -
  have n: "ratFromString ''1'' = Some 1" "ratFromString ''2.5'' = Some (5 / 2)" "ratFromString ''1.0'' = Some 1"
    "ratFromString ''5/2'' = Some (5 / 2)" by code_simp+
  show ?thesis
    using makeRange_contains [OF n(1,2,3), of "CHR ''[''" "CHR '')''"]
      makeRange_contains [OF n(1,2,4), of "CHR ''[''" "CHR '')''"] by simp
qed

text \<open>Two unbounded ends compare equal as text, so the constructor turns the range of everything into the
  empty one; bounds equal as numbers but not as text give a range without points that is not marked
  empty; bounds that are no numbers, dates for one, contain nothing.\<close>

lemma makeRange_unbounded: "makeRange [] [] ''[)'' = ''empty''"
  by code_simp

lemma makeRange_pointless: "makeRange ''1'' ''1.0'' ''()'' = ''(1,1.0)'' \<and> \<not> rangeContainsRange ''[2,3]'' ''(1,1.0)''"
  by code_simp

lemma date_range_contains_nothing: "\<not> rangeContains ''[2024-01-01,2024-12-31)'' ''2024-06-01''"
  by code_simp

end
