(* ===== verification/CopyText.thy ===== *)
theory CopyText
  imports SessionProps
begin

text \<open>
  COPY (\<open>protocol/postgres/copy.go\<close>): reading the statement, the text and CSV formats in both directions,
  and the sub-protocol with its load in one transaction. \<open>encoding/csv\<close> is modelled as far as it is
  used: the writer's quoting, and the reader byte by byte over text whose line ends it has normalised.
  A delimiter is an ASCII byte. What \<open>fmt.Sprint\<close> prints of a float or a time is an argument,
  \<open>sprint\<close>. The engine is the \<open>'d handlers\<close> of the session; the messages that follow the statement are
  the list \<open>inp\<close>, at whose end reading fails.
\<close>

section \<open>The statement\<close>

record copyStmt =
  cs_table :: string
  cs_columns :: "string list"
  cs_query :: string
  fromStdin :: bool
  csv :: bool
  delimiter :: char
  null :: string
  header :: bool

text \<open>The class \<open>\s\<close> of Go's regular expressions has no vertical tab.\<close>

definition re_space :: "char \<Rightarrow> bool" where
  "re_space c \<longleftrightarrow> c \<in> {CHR '' '', CHR 0x09, CHR 0x0A, CHR 0x0C, CHR 0x0D}"

definition spaces1 :: "string \<Rightarrow> string option" where
  "spaces1 s = (if s \<noteq> [] \<and> re_space (hd s) then Some (dropWhile re_space s) else None)"

definition match_fold :: "string \<Rightarrow> string \<Rightarrow> string option" where
  "match_fold kw s = (if EqualFold (take (length kw) s) kw then Some (drop (length kw) s) else None)"

text \<open>\<open>(FROM\s+STDIN|TO\s+STDOUT)\s*(.*)$\<close>: which of the two, and the options.\<close>

definition match_direction :: "string \<Rightarrow> (bool \<times> string) option" where
  "match_direction s =
     (let pair = (\<lambda>a z. Option.bind (Option.bind (match_fold a s) spaces1) (match_fold z)) in
      case pair ''FROM'' ''STDIN'' of
        Some r \<Rightarrow> Some (True, dropWhile re_space r)
      | None \<Rightarrow>
          (case pair ''TO'' ''STDOUT'' of
             Some r \<Rightarrow> Some (False, dropWhile re_space r)
           | None \<Rightarrow> None))"

text \<open>\<open>(.*?)\s+\<close> before it: the shortest target that works.\<close>

fun find_target :: "string \<Rightarrow> (string \<times> bool \<times> string) option" where
  "find_target s =
     (case Option.bind (spaces1 s) match_direction of
        Some (from, opts) \<Rightarrow> Some ([], from, opts)
      | None \<Rightarrow>
          (case s of
             [] \<Rightarrow> None
           | c # r \<Rightarrow> map_option (\<lambda>(t, d). (c # t, d)) (find_target r)))"

declare find_target.simps [simp del]

text \<open>The white space after COPY is taken greedily and given back one byte at a time.\<close>

fun give_back :: "string \<Rightarrow> string \<Rightarrow> (string \<times> bool \<times> string) option" where
  "give_back [] s = None"
| "give_back (c # w) s =
     (case find_target s of Some m \<Rightarrow> Some m | None \<Rightarrow> if w = [] then None else give_back w (c # s))"

definition match_copy :: "string \<Rightarrow> (string \<times> bool \<times> string) option" where
  "match_copy sql =
     (case match_fold ''COPY'' (dropWhile re_space sql) of
        None \<Rightarrow> None
      | Some r \<Rightarrow> give_back (rev (takeWhile re_space r)) (dropWhile re_space r))"

text \<open>\<open>delimiter\s+'(.)'\<close> and \<open>null\s+'([^']*)'\<close>, at the first place they match.\<close>

definition match_delimiter :: "string \<Rightarrow> char option" where
  "match_delimiter s =
     (case Option.bind (match_fold ''delimiter'' s) spaces1 of
        Some (q # c # q' # _) \<Rightarrow>
          if q = CHR 0x27 \<and> q' = CHR 0x27 \<and> c \<noteq> CHR 0x0A then Some c else None
      | _ \<Rightarrow> None)"

definition match_null :: "string \<Rightarrow> string option" where
  "match_null s =
     (case Option.bind (match_fold ''null'' s) spaces1 of
        Some (q # r) \<Rightarrow>
          if q = CHR 0x27 \<and> CHR 0x27 \<in> set r then Some (takeWhile (\<lambda>c. c \<noteq> CHR 0x27) r) else None
      | _ \<Rightarrow> None)"

fun first_match :: "(string \<Rightarrow> 'a option) \<Rightarrow> string \<Rightarrow> 'a option" where
  "first_match p [] = p []"
| "first_match p (c # s) = (case p (c # s) of Some x \<Rightarrow> Some x | None \<Rightarrow> first_match p s)"

definition parseCopyOptions :: "copyStmt \<Rightarrow> string \<Rightarrow> copyStmt" where
  "parseCopyOptions cs0 opts =
     (let low = ToLower opts;
          cs1 = (if Contains low ''csv'' then cs0\<lparr>csv := True, delimiter := CHR '','', null := []\<rparr> else cs0);
          cs2 = (if Contains low ''header'' then cs1\<lparr>header := True\<rparr> else cs1);
          cs3 = (case first_match match_delimiter opts of Some d \<Rightarrow> cs2\<lparr>delimiter := d\<rparr> | None \<Rightarrow> cs2) in
      case first_match match_null opts of Some n \<Rightarrow> cs3\<lparr>null := n\<rparr> | None \<Rightarrow> cs3)"

definition parseCopy :: "string \<Rightarrow> copyStmt option" where
  "parseCopy sql =
     (case match_copy sql of
        None \<Rightarrow> None
      | Some (t, from, opts) \<Rightarrow>
          (let target = TrimSpace t;
               cs0 = \<lparr>cs_table = [], cs_columns = [], cs_query = [], fromStdin = from, csv = False,
                      delimiter = CHR 0x09, null = [CHR 0x5C, CHR ''N''], header = False\<rparr>;
               cs = (if HasPrefix target ''('' then
                       cs0\<lparr>cs_query := TrimSpace (TrimSuffix (TrimPrefix target ''('') '')'')\<rparr>
                     else (case IndexByte target (CHR ''('') of
                             Some i \<Rightarrow>
                               (let cols = TrimSuffix (TrimSpace (drop (i + 1) target)) '')'' in
                                cs0\<lparr>cs_table := TrimSpace (take i target),
                                    cs_columns := map (\<lambda>c. unquoteIdent (TrimSpace c)) (SplitByte cols (CHR '',''))\<rparr>)
                           | None \<Rightarrow> cs0\<lparr>cs_table := target\<rparr>)) in
           Some (parseCopyOptions cs opts)))"

section \<open>Writing\<close>

definition escapeCopyText :: "string \<Rightarrow> string" where
  "escapeCopyText s =
     concat (map (\<lambda>c.
        if c = CHR 0x5C then [CHR 0x5C, CHR 0x5C]
        else if c = CHR 0x09 then [CHR 0x5C, CHR ''t'']
        else if c = CHR 0x0A then [CHR 0x5C, CHR ''n'']
        else if c = CHR 0x0D then [CHR 0x5C, CHR ''r'']
        else [c]) s)"

definition validDelim :: "char \<Rightarrow> bool" where
  "validDelim d \<longleftrightarrow> d \<notin> {CHR 0x00, CHR 0x22, CHR 0x0D, CHR 0x0A}"

definition fieldNeedsQuotes :: "char \<Rightarrow> string \<Rightarrow> bool" where
  "fieldNeedsQuotes d f =
     (if f = [] then False
      else if f = [CHR 0x5C, CHR ''.''] then True
      else if \<exists>c \<in> set f. c \<in> {CHR 0x0A, CHR 0x0D, CHR 0x22, d} then True
      else is_space (hd f))"

definition csv_field :: "char \<Rightarrow> string \<Rightarrow> string" where
  "csv_field d f =
     (if \<not> fieldNeedsQuotes d f then f else CHR 0x22 # ReplaceByte f (CHR 0x22) [CHR 0x22, CHR 0x22] @ [CHR 0x22])"

text \<open>The writer's error, and with it everything it would have written, is dropped.\<close>

definition csvLine :: "string list \<Rightarrow> char \<Rightarrow> string" where
  "csvLine fs d = (if validDelim d then Join (map (csv_field d) fs) [d] @ [CHR 0x0A] else [])"

definition w_line :: "copyStmt \<Rightarrow> string list \<Rightarrow> string" where
  "w_line cs fs =
     (if csv cs then csvLine fs (delimiter cs)
      else Join (map escapeCopyText fs) [delimiter cs] @ [CHR 0x0A])"

definition valueToText :: "(core_value \<Rightarrow> string) \<Rightarrow> core_value \<Rightarrow> string" where
  "valueToText sprint v =
     (case v of
        VBytes x \<Rightarrow> x
      | VBool x \<Rightarrow> if x then ''t'' else ''f''
      | VString x \<Rightarrow> x
      | VInt i \<Rightarrow> FormatInt i
      | VNull \<Rightarrow> ''<nil>''
      | _ \<Rightarrow> sprint v)"

definition cell_text :: "(core_value \<Rightarrow> string) \<Rightarrow> copyStmt \<Rightarrow> core_value \<Rightarrow> string" where
  "cell_text sprint cs v = (if v = VNull then null cs else valueToText sprint v)"

definition w_row :: "(core_value \<Rightarrow> string) \<Rightarrow> copyStmt \<Rightarrow> core_value list \<Rightarrow> string" where
  "w_row sprint cs cells = w_line cs (map (cell_text sprint cs) cells)"

section \<open>Reading\<close>

fun unescapeCopyText :: "string \<Rightarrow> string" where
  "unescapeCopyText [] = []"
| "unescapeCopyText [c] = [c]"
| "unescapeCopyText (c # x # s) =
     (if c = CHR 0x5C then
        (if x = CHR ''t'' then CHR 0x09 else if x = CHR ''n'' then CHR 0x0A
         else if x = CHR ''r'' then CHR 0x0D else x) # unescapeCopyText s
      else c # unescapeCopyText (x # s))"

text \<open>A field equal to the NULL text is NULL.\<close>

definition read_field :: "copyStmt \<Rightarrow> string \<Rightarrow> core_value" where
  "read_field cs f = (if f = null cs then VNull else VString (unescapeCopyText f))"

fun text_rows :: "copyStmt \<Rightarrow> nat \<Rightarrow> nat \<Rightarrow> string list \<Rightarrow> string + core_value list list" where
  "text_rows cs numCols i [] = Inr []"
| "text_rows cs numCols i (line # ls) =
     (if line = [CHR 0x5C, CHR ''.''] then Inr []
      else
       (let fs = SplitByte line (delimiter cs) in
        if length fs \<noteq> numCols then
          Inl (''COPY row '' @ nat_str (i + 1) @ '' has '' @ nat_str (length fs) @ '' fields, expected '' @ nat_str numCols)
        else (case text_rows cs numCols (i + 1) ls of
                Inl e \<Rightarrow> Inl e
              | Inr rows \<Rightarrow> Inr (map (read_field cs) fs # rows))))"

text \<open>The CSV reader: line ends normalised, then one record at a time.\<close>

fun crlf :: "string \<Rightarrow> string" where
  "crlf [] = []"
| "crlf [c] = (if c = CHR 0x0D then [] else [c])"
| "crlf (c # x # s) = (if c = CHR 0x0D \<and> x = CHR 0x0A then crlf (x # s) else c # crlf (x # s))"

datatype csv_error = BareQuote | BadQuote | FieldCount | InvalidDelim

datatype field_end = NextField | EndRecord

text \<open>After an opening quote: the field, how it ended, and the rest.\<close>

fun quoted_field :: "char \<Rightarrow> string \<Rightarrow> (string \<times> field_end \<times> string) option" where
  "quoted_field d [] = None"
| "quoted_field d (c # s) =
     (if c \<noteq> CHR 0x22 then map_option (\<lambda>(f, r). (c # f, r)) (quoted_field d s)
      else (case s of
              [] \<Rightarrow> Some ([], EndRecord, [])
            | x # r \<Rightarrow>
                if x = CHR 0x22 then map_option (\<lambda>(f, r). (CHR 0x22 # f, r)) (quoted_field d r)
                else if x = d then Some ([], NextField, r)
                else if x = CHR 0x0A then Some ([], EndRecord, r)
                else None))"

definition one_field :: "char \<Rightarrow> string \<Rightarrow> csv_error + (string \<times> field_end \<times> string)" where
  "one_field d s =
     (if s \<noteq> [] \<and> hd s = CHR 0x22 then
        (case quoted_field d (tl s) of None \<Rightarrow> Inl BadQuote | Some m \<Rightarrow> Inr m)
      else
       (let f = takeWhile (\<lambda>c. c \<noteq> d \<and> c \<noteq> CHR 0x0A) s; r = dropWhile (\<lambda>c. c \<noteq> d \<and> c \<noteq> CHR 0x0A) s in
        if CHR 0x22 \<in> set f then Inl BareQuote
        else Inr (f, (if r \<noteq> [] \<and> hd r = d then NextField else EndRecord), tl r)))"


lemma quoted_field_shorter: "quoted_field d s = Some (f, k, r) \<Longrightarrow> length r < length s"
proof (induction d s arbitrary: f k r rule: quoted_field.induct)
  case (2 d c s)
  show ?case
  proof (cases "c = CHR 0x22")
    case False
    then obtain f' where "quoted_field d s = Some (f', k, r)" using 2(3) by auto
    then show ?thesis using 2(1) [OF False] by fastforce
  next
    case True
    show ?thesis
    proof (cases s)
      case (Cons x s')
      show ?thesis
      proof (cases "x = CHR 0x22")
        case True': True
        then obtain f' where "quoted_field d s' = Some (f', k, r)" using 2(3) True Cons by auto
        then show ?thesis using 2(2) [OF _ Cons True'] True Cons by fastforce
      qed (use 2(3) True Cons in \<open>auto split: if_splits\<close>)
    qed (use 2(3) True in auto)
  qed
qed simp

lemma one_field_shorter: "one_field d s = Inr (f, NextField, r) \<Longrightarrow> length r < length s"
proof -
  assume a: "one_field d s = Inr (f, NextField, r)"
  show ?thesis
  proof (cases "s \<noteq> [] \<and> hd s = CHR 0x22")
    case True
    then have "quoted_field d (tl s) = Some (f, NextField, r)"
      using a by (auto simp: one_field_def split: option.splits)
    then show ?thesis using quoted_field_shorter [of d "tl s"] True by (cases s) auto
  next
    case False
    let ?r = "dropWhile (\<lambda>c. c \<noteq> d \<and> c \<noteq> CHR 0x0A) s"
    have "?r \<noteq> [] \<and> r = tl ?r" using a False by (auto simp: one_field_def Let_def split: if_splits)
    then have "length r < length ?r" by (cases ?r) auto
    also have "\<dots> \<le> length s" by (rule length_dropWhile_le)
    finally show ?thesis .
  qed
qed

function csv_fields :: "char \<Rightarrow> string \<Rightarrow> csv_error + (string list \<times> string)" where
  "csv_fields d s =
     (case one_field d s of
        Inl e \<Rightarrow> Inl e
      | Inr (f, EndRecord, r) \<Rightarrow> Inr ([f], r)
      | Inr (f, NextField, r) \<Rightarrow> (case csv_fields d r of Inl e \<Rightarrow> Inl e | Inr (fs, r') \<Rightarrow> Inr (f # fs, r')))"
  by pat_completeness auto
termination by (relation "measure (length \<circ> snd)") (auto dest: one_field_shorter)

declare csv_fields.simps [simp del]

lemma one_field_rest: "one_field d s = Inr (f, k, r) \<Longrightarrow> s \<noteq> [] \<Longrightarrow> length r < length s"
proof (cases k)
  case EndRecord
  assume a: "one_field d s = Inr (f, k, r)" "s \<noteq> []"
  show ?thesis
  proof (cases "hd s = CHR 0x22")
    case True
    then have "quoted_field d (tl s) = Some (f, k, r)"
      using a by (auto simp: one_field_def split: option.splits)
    then show ?thesis using quoted_field_shorter [of d "tl s"] a(2) by (cases s) auto
  next
    case False
    let ?r = "dropWhile (\<lambda>c. c \<noteq> d \<and> c \<noteq> CHR 0x0A) s"
    have r: "r = tl ?r" using a False by (auto simp: one_field_def Let_def split: if_splits)
    have "length ?r \<le> length s" by (rule length_dropWhile_le)
    then show ?thesis using a(2) r by (cases ?r) auto
  qed
qed (use one_field_shorter in blast)

lemma csv_fields_shorter: "csv_fields d s = Inr (fs, r) \<Longrightarrow> s \<noteq> [] \<Longrightarrow> length r < length s"
proof (induction d s arbitrary: fs r rule: csv_fields.induct)
  case (1 d s)
  obtain f k r1 where o: "one_field d s = Inr (f, k, r1)"
    using 1(2) by (subst (asm) csv_fields.simps) (auto split: sum.splits)
  then have l: "length r1 < length s" using 1(3) one_field_rest by blast
  show ?case
  proof (cases k)
    case EndRecord
    then show ?thesis using 1(2) o l by (subst (asm) csv_fields.simps) simp
  next
    case NextField
    then obtain fs' where c: "csv_fields d r1 = Inr (fs', r)"
      using 1(2) o by (subst (asm) csv_fields.simps) (auto split: sum.splits)
    show ?thesis
    proof (cases "r1 = []")
      case True
      then have "csv_fields d r1 = Inr ([[]], [])" by (simp add: csv_fields.simps [of d "[]"] one_field_def)
      then show ?thesis using c l by auto
    next
      case False
      then have "length r < length r1" using 1(1) o NextField c by blast
      then show ?thesis using l by simp
    qed
  qed
qed

text \<open>\<open>ReadAll\<close>, empty lines skipped; \<open>FieldsPerRecord\<close> of zero takes its value from the first record.\<close>

function csv_records :: "char \<Rightarrow> nat \<Rightarrow> string \<Rightarrow> csv_error + string list list" where
  "csv_records d per s0 =
     (let s = dropWhile (\<lambda>c. c = CHR 0x0A) s0 in
      if s = [] then Inr []
      else
       (case csv_fields d s of
          Inl e \<Rightarrow> Inl e
        | Inr (fs, r) \<Rightarrow>
            if per \<noteq> 0 \<and> length fs \<noteq> per then Inl FieldCount
            else (case csv_records d (if per = 0 then length fs else per) r of
                    Inl e \<Rightarrow> Inl e
                  | Inr recs \<Rightarrow> Inr (fs # recs))))"
  by pat_completeness auto
termination
proof (relation "measure (\<lambda>(d, per, s). length s)", goal_cases)
  case (2 d per s0 s m fs r)
  then have "length r < length s" using csv_fields_shorter by blast
  also have "\<dots> \<le> length s0" unfolding 2(1) by (rule length_dropWhile_le)
  finally show ?case by simp
qed simp

declare csv_records.simps [simp del]

datatype copy_error = TextError string | CsvError csv_error | EngineError string

definition parseCSV :: "copyStmt \<Rightarrow> nat \<Rightarrow> string \<Rightarrow> copy_error + core_value list list" where
  "parseCSV cs numCols text =
     (if \<not> validDelim (delimiter cs) then Inl (CsvError InvalidDelim)
      else
       (case csv_records (delimiter cs) numCols (crlf text) of
          Inl e \<Rightarrow> Inl (CsvError e)
        | Inr recs \<Rightarrow>
            Inr (map (map (\<lambda>f. if f = null cs then VNull else VString f)) (if header cs then tl recs else recs))))"

definition parseCopyData :: "copyStmt \<Rightarrow> nat \<Rightarrow> string \<Rightarrow> copy_error + core_value list list" where
  "parseCopyData cs numCols data =
     (let text = TrimRight data [CHR 0x0A] in
      if text = [] then Inr []
      else if csv cs then parseCSV cs numCols text
      else (case text_rows cs numCols 0 (SplitByte text (CHR 0x0A)) of
              Inl e \<Rightarrow> Inl (TextError e)
            | Inr rows \<Rightarrow> Inr rows))"

section \<open>The sub-protocol\<close>

definition quoteCols :: "string list \<Rightarrow> string" where
  "quoteCols cols = Join (map (\<lambda>c. CHR 0x22 # c @ [CHR 0x22]) cols) '', ''"

definition placeholders :: "nat \<Rightarrow> string" where
  "placeholders n = Join (replicate n ''?'') '', ''"

text \<open>The body of the CopyInResponse and CopyOutResponse messages: all columns are text.\<close>

definition copy_response_body :: "nat \<Rightarrow> string" where
  "copy_response_body n = CHR 0x00 # appendInt16 [] (int n) @ concat (replicate n (appendInt16 [] 0))"

definition copyOut ::
    "'d handlers \<Rightarrow> (core_value \<Rightarrow> string) \<Rightarrow> bool \<Rightarrow> copyStmt \<Rightarrow> 'd \<Rightarrow> copy_reply list \<times> 'd" where
  "copyOut H sprint in_tx cs d =
     (let query = (if cs_query cs = [] then
            ''SELECT '' @ (if cs_columns cs = [] then ''*'' else quoteCols (cs_columns cs)) @ '' FROM '' @ cs_table cs
          else cs_query cs) in
      case h_exec H d in_tx (h_dialect H query) [] of
        (Inl e, d') \<Rightarrow> ([CError ''42000'' e], d')
      | (Inr rs, d') \<Rightarrow>
          ([COut (length (Columns rs))] @
           (if header cs then [CData (w_line cs (map col_name (Columns rs)))] else []) @
           map (\<lambda>row. CData (w_row sprint cs row)) (Rows rs) @
           [CDone, CTag (''COPY '' @ nat_str (length (Rows rs)))], d'))"

text \<open>Running the INSERT for each row, to the first that fails.\<close>

fun exec_rows ::
    "('d \<Rightarrow> core_value list \<Rightarrow> (string + result_set) \<times> 'd) \<Rightarrow> core_value list list \<Rightarrow> 'd \<Rightarrow> string option \<times> 'd" where
  "exec_rows ex [] d = (None, d)"
| "exec_rows ex (row # rows) d =
     (case ex d row of (Inl e, d') \<Rightarrow> (Some e, d') | (Inr _, d') \<Rightarrow> exec_rows ex rows d')"

definition copy_insert_sql :: "'d handlers \<Rightarrow> copyStmt \<Rightarrow> string list \<Rightarrow> string" where
  "copy_insert_sql H cs cols =
     ''INSERT INTO '' @ h_dialect H (cs_table cs) @ '' ('' @ quoteCols cols @ '') VALUES ('' @
       placeholders (length cols) @ '')''"

definition copyInsert ::
    "'d handlers \<Rightarrow> bool \<Rightarrow> copyStmt \<Rightarrow> string list \<Rightarrow> string \<Rightarrow> 'd \<Rightarrow> (copy_error + nat) \<times> 'd" where
  "copyInsert H in_tx cs cols data d =
     (case parseCopyData cs (length cols) data of
        Inl e \<Rightarrow> (Inl e, d)
      | Inr rows \<Rightarrow>
          (let ex = (\<lambda>d row. h_exec H d True (copy_insert_sql H cs cols) row) in
           if in_tx then
             (case exec_rows ex rows d of
                (Some e, d') \<Rightarrow> (Inl (EngineError e), d')
              | (None, d') \<Rightarrow> (Inr (length rows), d'))
           else
             (case h_begin H d of
                (Some e, d1) \<Rightarrow> (Inl (EngineError e), d1)
              | (None, d1) \<Rightarrow>
                  (case exec_rows ex rows d1 of
                     (Some e, d2) \<Rightarrow> (Inl (EngineError e), snd (h_rollback H d2))
                   | (None, d2) \<Rightarrow>
                       (case h_commit H d2 of
                          (Some e, d3) \<Rightarrow> (Inl (EngineError e), d3)
                        | (None, d3) \<Rightarrow> (Inr (length rows), d3))))))"


text \<open>The data up to CopyDone, or what stopped it.\<close>

datatype copy_input = Received string | Failed string | Unexpected | Lost

fun copy_receive :: "string \<Rightarrow> (char \<times> string) list \<Rightarrow> copy_input \<times> (char \<times> string) list" where
  "copy_receive data [] = (Lost, [])"
| "copy_receive data ((typ, body) # inp) =
     (if typ = CHR ''d'' then copy_receive (data @ body) inp
      else if typ = CHR ''c'' then (Received data, inp)
      else if typ = CHR ''f'' then (Failed body, inp)
      else (Unexpected, inp))"

text \<open>The text of an error. A CSV error's message also gives the line and column, left out here.\<close>

fun copy_error_text :: "copy_error \<Rightarrow> string" where
  "copy_error_text (TextError e) = e"
| "copy_error_text (EngineError e) = e"
| "copy_error_text (CsvError BareQuote) = ''bare '' @ [CHR 0x22] @ '' in non-quoted-field''"
| "copy_error_text (CsvError BadQuote) = ''extraneous or missing '' @ [CHR 0x22] @ '' in quoted-field''"
| "copy_error_text (CsvError FieldCount) = ''wrong number of fields''"
| "copy_error_text (CsvError InvalidDelim) = ''csv: invalid field or comment delimiter''"

record 'd copy_outcome =
  co_replies :: "copy_reply list"
  co_aborts :: bool
  co_lost :: bool
  co_rest :: "(char \<times> string) list"
  co_env :: 'd

definition copy_columns :: "'d handlers \<Rightarrow> copyStmt \<Rightarrow> 'd \<Rightarrow> (string + string list) \<times> 'd" where
  "copy_columns H cs d =
     (if cs_columns cs \<noteq> [] then (Inr (cs_columns cs), d)
      else (case h_describe H d False (''SELECT * FROM '' @ h_dialect H (cs_table cs)) [] of
              (Inl e, d') \<Rightarrow> (Inl e, d')
            | (Inr None, d') \<Rightarrow> (Inr [], d')
            | (Inr (Some cols), d') \<Rightarrow> (Inr (map col_name cols), d')))"

definition copyIn :: "'d handlers \<Rightarrow> bool \<Rightarrow> copyStmt \<Rightarrow> (char \<times> string) list \<Rightarrow> 'd \<Rightarrow> 'd copy_outcome" where
  "copyIn H in_tx cs inp d =
     (case copy_columns H cs d of
        (Inl e, d1) \<Rightarrow>
          \<lparr>co_replies = [CError ''42000'' e], co_aborts = False, co_lost = False, co_rest = inp, co_env = d1\<rparr>
      | (Inr cols, d1) \<Rightarrow>
          (let out = (\<lambda>rs ab lost r d. \<lparr>co_replies = CIn (length cols) # rs, co_aborts = ab, co_lost = lost,
                                         co_rest = r, co_env = d\<rparr>) in
           case copy_receive [] inp of
             (Lost, r) \<Rightarrow> out [] False True r d1
           | (Failed body, r) \<Rightarrow>
               out [CError ''57014'' (''COPY from stdin failed: '' @ TrimRight body [CHR 0x00])] False False r d1
           | (Unexpected, r) \<Rightarrow> out [CError ''08P01'' ''unexpected message during COPY''] False False r d1
           | (Received data, r) \<Rightarrow>
               (case copyInsert H in_tx cs cols data d1 of
                  (Inl e, d2) \<Rightarrow> out [CError ''42000'' (copy_error_text e)] in_tx False r d2
                | (Inr n, d2) \<Rightarrow> out [CTag (''COPY '' @ nat_str n)] False False r d2)))"

definition handleCopy ::
    "'d handlers \<Rightarrow> (core_value \<Rightarrow> string) \<Rightarrow> bool \<Rightarrow> copyStmt \<Rightarrow> (char \<times> string) list \<Rightarrow> 'd \<Rightarrow> 'd copy_outcome" where
  "handleCopy H sprint in_tx cs inp d =
     (if fromStdin cs then copyIn H in_tx cs inp d
      else (case copyOut H sprint in_tx cs d of
              (rs, d') \<Rightarrow> \<lparr>co_replies = rs, co_aborts = False, co_lost = False, co_rest = inp, co_env = d'\<rparr>))"

section \<open>Every row fits the columns\<close>

lemma in_set_tlD: "x \<in> set (tl xs) \<Longrightarrow> x \<in> set xs"
  by (cases xs) auto

lemma text_rows_width:
  "text_rows cs n i ls = Inr rows \<Longrightarrow> list_all (\<lambda>row. length row = n) rows"
  by (induction cs n i ls arbitrary: rows rule: text_rows.induct)
    (auto simp: Let_def split: if_splits sum.splits)

lemma csv_records_width:
  "csv_records d n s = Inr recs \<Longrightarrow> 0 < n \<Longrightarrow> list_all (\<lambda>fs. length fs = n) recs"
proof (induction d n s arbitrary: recs rule: csv_records.induct)
  case (1 d n s)
  let ?s = "dropWhile (\<lambda>c. c = CHR 0x0A) s"
  show ?case
  proof (cases "?s = []")
    case True
    then show ?thesis using 1(2) by (simp add: csv_records.simps [of d n s])
  next
    case False
    then obtain fs r where f: "csv_fields d ?s = Inr (fs, r)" "length fs = n"
      using 1(2,3) csv_records.simps [of d n s] by (auto simp: Let_def split: sum.splits if_splits)
    then obtain recs' where "csv_records d n r = Inr recs'" "recs = fs # recs'"
      using 1(2,3) False csv_records.simps [of d n s] by (auto simp: Let_def split: sum.splits if_splits)
    then show ?thesis using 1(1) [OF refl False f(1)] f(2) 1(3) by simp
  qed
qed

text \<open>C24: Whatever bytes a client sends, in either format, the rows handed to the INSERT all have exactly as
  many values as there are columns, so each fits its placeholders; data that does not divide that way is
  refused as a whole before anything is inserted.\<close>
theorem copy_rows_fit:
  assumes "parseCopyData cs numCols data = Inr rows" "0 < numCols"
  shows "list_all (\<lambda>row. length row = numCols) rows"
proof (cases "csv cs")
  case csv: True
  show ?thesis
  proof (cases "TrimRight data [CHR 0x0A] = []")
    case False
    then obtain recs where recs: "csv_records (delimiter cs) numCols (crlf (TrimRight data [CHR 0x0A])) = Inr recs"
      "rows = map (map (\<lambda>f. if f = null cs then VNull else VString f)) (if header cs then tl recs else recs)"
      using assms(1) csv by (auto simp: parseCopyData_def parseCSV_def Let_def split: if_splits sum.splits)
    then have "list_all (\<lambda>fs. length fs = numCols) recs" using csv_records_width assms(2) by blast
    then show ?thesis by (auto simp: recs(2) list_all_iff dest: in_set_tlD)
  qed (use assms(1) in \<open>simp add: parseCopyData_def\<close>)
next
  case False
  then show ?thesis
    using assms text_rows_width
    by (auto simp: parseCopyData_def Let_def split: if_splits sum.splits)
qed


lemma copy_rows_fit_witness:
  "list_all (\<lambda>row. length row = 2)
     [[VString ''1'', VString (''a'' @ [CHR 0x09] @ ''b'')], [VString ''2'', VNull]]"
proof -
  let ?cs = "the (parseCopy ''COPY t FROM STDIN'')"
  have "parseCopyData ?cs 2 (''1'' @ [CHR 0x09] @ ''a'' @ [CHR 0x5C] @ ''tb'' @ [CHR 0x0A] @ ''2'' @ [CHR 0x09, CHR 0x5C, CHR ''N'', CHR 0x0A]) =
    Inr [[VString ''1'', VString (''a'' @ [CHR 0x09] @ ''b'')], [VString ''2'', VNull]]"
    by code_simp
  then show ?thesis using copy_rows_fit [of ?cs 2] by simp
qed

section \<open>The text format is read back\<close>

lemma escapeCopyText_Nil [simp]: "escapeCopyText [] = []"
  by (simp add: escapeCopyText_def)

lemma escapeCopyText_Cons:
  "escapeCopyText (c # s) =
     (if c = CHR 0x5C then [CHR 0x5C, CHR 0x5C]
        else if c = CHR 0x09 then [CHR 0x5C, CHR ''t'']
        else if c = CHR 0x0A then [CHR 0x5C, CHR ''n'']
        else if c = CHR 0x0D then [CHR 0x5C, CHR ''r'']
        else [c]) @ escapeCopyText s"
  by (simp add: escapeCopyText_def)

lemma unescape_plain: "c \<noteq> CHR 0x5C \<Longrightarrow> unescapeCopyText (c # s) = c # unescapeCopyText s"
  by (cases s) simp_all

lemma unescape_escape [simp]: "unescapeCopyText (escapeCopyText s) = s"
  by (induction s) (simp_all add: escapeCopyText_Cons unescape_plain)

text \<open>A text in which each backslash starts an escape of the writer.\<close>

fun well_escaped :: "string \<Rightarrow> bool" where
  "well_escaped [] = True"
| "well_escaped [c] = (c \<noteq> CHR 0x5C)"
| "well_escaped (c # x # s) =
     (if c = CHR 0x5C then x \<in> {CHR 0x5C, CHR ''t'', CHR ''n'', CHR ''r''} \<and> well_escaped s
      else well_escaped (x # s))"

lemma well_escaped_plain: "c \<noteq> CHR 0x5C \<Longrightarrow> well_escaped (c # s) = well_escaped s"
  by (cases s) simp_all

lemma well_escaped_escape: "well_escaped (escapeCopyText s)"
  by (induction s) (simp_all add: escapeCopyText_Cons well_escaped_plain)

lemma well_escaped_append: "well_escaped x \<Longrightarrow> well_escaped (x @ y) = well_escaped y"
  by (induction x rule: well_escaped.induct) (auto simp: well_escaped_plain)

lemma escape_clean: "CHR 0x09 \<notin> set (escapeCopyText s) \<and> CHR 0x0A \<notin> set (escapeCopyText s)"
  by (induction s) (simp_all add: escapeCopyText_Cons)

lemma well_escaped_Join:
  "list_all well_escaped ws \<Longrightarrow> d \<noteq> CHR 0x5C \<Longrightarrow> well_escaped (Join ws [d])"
  by (induction ws "[d]" rule: Join.induct) (simp_all add: well_escaped_append well_escaped_plain)

text \<open>The text a line holds when its fields are \<open>fs\<close>, in the default format.\<close>

definition plain_line :: "string list \<Rightarrow> string" where
  "plain_line fs = Join (map escapeCopyText fs) [CHR 0x09]"

definition default_copy :: "copyStmt \<Rightarrow> bool" where
  "default_copy cs \<longleftrightarrow> \<not> csv cs \<and> delimiter cs = CHR 0x09 \<and> null cs = [CHR 0x5C, CHR ''N'']"

lemma plain_line_fields: "fs \<noteq> [] \<Longrightarrow> SplitByte (plain_line fs) (CHR 0x09) = map escapeCopyText fs"
  unfolding plain_line_def using escape_clean by (intro SplitByte_join) auto

lemma plain_line_escaped: "well_escaped (plain_line fs)"
  unfolding plain_line_def using well_escaped_escape by (intro well_escaped_Join) (auto simp: list_all_iff)

lemma set_Join: "set (Join ws d) \<subseteq> \<Union> (set ` set ws) \<union> set d"
  by (induction ws d rule: Join.induct) auto

lemma plain_line_no_newline: "CHR 0x0A \<notin> set (plain_line fs)"
  unfolding plain_line_def using set_Join [of "map escapeCopyText fs" "[CHR 0x09]"] escape_clean by auto

lemma read_field_escape: "default_copy cs \<Longrightarrow> read_field cs (escapeCopyText f) = VString f"
proof -
  assume cs: "default_copy cs"
  have "escapeCopyText f \<noteq> null cs" using well_escaped_escape [of f] cs by (auto simp: default_copy_def)
  then show ?thesis by (simp add: read_field_def)
qed

lemma text_rows_lines:
  assumes "default_copy cs" "list_all (\<lambda>fs. length fs = n) fss" "0 < n"
  shows "text_rows cs n i (map plain_line fss) = Inr (map (map VString) fss)"
  using assms(2)
proof (induction fss arbitrary: i)
  case (Cons fs fss)
  have "plain_line fs \<noteq> [CHR 0x5C, CHR ''.'']" using plain_line_escaped [of fs] by auto
  moreover have "fs \<noteq> []" using Cons.prems assms(3) by auto
  ultimately show ?case
    using Cons assms(1) plain_line_fields [of fs] read_field_escape [OF assms(1)]
    by (simp add: default_copy_def comp_def)
qed simp

lemma concat_lines: "ls \<noteq> [] \<Longrightarrow> concat (map (\<lambda>l. l @ [c]) ls) = Join ls [c] @ [c]"
  by (induction ls "[c]" rule: Join.induct) simp_all

lemma Join_last: "ls \<noteq> [] \<Longrightarrow> last ls \<noteq> [] \<Longrightarrow> last (Join ls d) = last (last ls) \<and> Join ls d \<noteq> []"
  by (induction ls d rule: Join.induct) (simp_all split: if_splits)

lemma TrimRight_one: "s \<noteq> [] \<Longrightarrow> last s \<notin> set cs \<Longrightarrow> c \<in> set cs \<Longrightarrow> TrimRight (s @ [c]) cs = s"
  using TrimRight_id [of s cs] by (simp add: TrimRight_def)


lemma text_data_roundtrip:
  assumes cs: "default_copy cs" and n: "0 < n" and width: "list_all (\<lambda>fs. length fs = n) fss"
    and last: "fss \<noteq> []" "last fss \<noteq> [[]]"
  shows "parseCopyData cs n (concat (map (w_line cs) fss)) = Inr (map (map VString) fss)"
proof -
  have line: "w_line cs = (\<lambda>fs. plain_line fs @ [CHR 0x0A])"
    using cs by (intro ext) (simp add: w_line_def default_copy_def plain_line_def)
  have data: "concat (map (w_line cs) fss) = Join (map plain_line fss) [CHR 0x0A] @ [CHR 0x0A]"
    using concat_lines [of "map plain_line fss" "CHR 0x0A"] last(1) by (simp add: line comp_def)
  have "plain_line (last fss) \<noteq> []"
  proof
    assume "plain_line (last fss) = []"
    moreover have "length (last fss) = n" using width last(1) by (simp add: list_all_iff)
    then have "last fss \<noteq> []" using n by auto
    ultimately have "map escapeCopyText (last fss) = [[]]" using plain_line_fields [of "last fss"] by simp
    then obtain f where f: "last fss = [f]" "escapeCopyText f = []" by (auto simp: map_eq_Cons_conv)
    then have "f = []" using unescape_escape [of f] by simp
    then show False using f last(2) by simp
  qed
  then have ne: "last (map plain_line fss) \<noteq> []" "map plain_line fss \<noteq> []" using last(1) by (simp_all add: last_map)
  have "CHR 0x0A \<noteq> last (Join (map plain_line fss) [CHR 0x0A])"
    using Join_last [OF ne(2,1), of "[CHR 0x0A]"] ne plain_line_no_newline [of "last fss"] last(1)
    by (metis last_in_set last_map)
  then have trim: "TrimRight (concat (map (w_line cs) fss)) [CHR 0x0A] = Join (map plain_line fss) [CHR 0x0A]"
    "Join (map plain_line fss) [CHR 0x0A] \<noteq> []"
    using Join_last [OF ne(2,1), of "[CHR 0x0A]"] by (simp_all add: data TrimRight_one)
  have "SplitByte (Join (map plain_line fss) [CHR 0x0A]) (CHR 0x0A) = map plain_line fss"
    using plain_line_no_newline last(1) by (intro SplitByte_join) auto
  then show ?thesis
    using cs trim text_rows_lines [OF cs width n] by (simp add: parseCopyData_def Let_def default_copy_def)
qed



text \<open>What is lost: a NULL collides with the text of its own marker; a delimiter other than the tab is not
  escaped; trailing empty rows of a single column are dropped.\<close>

lemma null_and_marker_collide:
  "w_row sprint cs [VNull] = w_row sprint cs [VString (null cs)]"
  by (simp add: w_row_def cell_text_def valueToText_def)

lemma delimiter_not_escaped:
  "case parseCopy (''COPY t TO STDOUT WITH (DELIMITER '' @ [CHR 0x27, CHR '','', CHR 0x27] @ '')'') of
     Some cs \<Rightarrow> w_row (\<lambda>v. []) cs [VString ''a,b''] = w_row (\<lambda>v. []) cs [VString ''a'', VString ''b'']
   | None \<Rightarrow> False"
  by code_simp

lemma trailing_empty_lost:
  "parseCopyData (the (parseCopy ''COPY t TO STDOUT'')) 1
     (concat (map (w_row (\<lambda>v. []) (the (parseCopy ''COPY t TO STDOUT''))) [[VString ''a''], [VString []]])) =
   Inr [[VString ''a'']]"
  by code_simp


section \<open>CSV is read back\<close>

definition field_tail :: "char \<Rightarrow> string \<Rightarrow> bool" where
  "field_tail d t \<longleftrightarrow> t = [] \<or> hd t = d \<or> hd t = CHR 0x0A"

definition tail_kind :: "char \<Rightarrow> string \<Rightarrow> field_end" where
  "tail_kind d t = (if t \<noteq> [] \<and> hd t = d then NextField else EndRecord)"

lemma quoted_field_doubled:
  assumes "validDelim d" "field_tail d t"
  shows "quoted_field d (ReplaceByte f (CHR 0x22) [CHR 0x22, CHR 0x22] @ CHR 0x22 # t) = Some (f, tail_kind d t, tl t)"
proof (induction f)
  case Nil
  then show ?case
    using assms by (cases t) (auto simp: ReplaceByte_def field_tail_def tail_kind_def validDelim_def)
qed (simp add: ReplaceByte_def)

lemma one_field_csv:
  assumes "validDelim d" "field_tail d t"
  shows "one_field d (csv_field d f @ t) = Inr (f, tail_kind d t, tl t)"
proof (cases "fieldNeedsQuotes d f")
  case True
  then show ?thesis
    using quoted_field_doubled [OF assms, of f] by (simp add: csv_field_def one_field_def)
next
  case False
  then have f: "\<forall>c \<in> set f. c \<notin> {CHR 0x0A, CHR 0x0D, CHR 0x22, d}"
    by (auto simp: fieldNeedsQuotes_def split: if_splits)
  have hd: "\<not> (f @ t \<noteq> [] \<and> hd (f @ t) = CHR 0x22)"
    using f assms by (cases f; cases t) (auto simp: field_tail_def validDelim_def)
  have "takeWhile (\<lambda>c. c \<noteq> d \<and> c \<noteq> CHR 0x0A) (f @ t) = f" "dropWhile (\<lambda>c. c \<noteq> d \<and> c \<noteq> CHR 0x0A) (f @ t) = t"
    using f assms(2) by (cases t; auto simp: field_tail_def takeWhile_append dropWhile_append)+
  note scan = this
  have q: "CHR 0x22 \<notin> set f" "csv_field d f = f" using f False by (auto simp: csv_field_def)
  show ?thesis
    unfolding q(2) one_field_def Let_def scan if_not_P [OF hd] if_not_P [OF q(1)] by (simp add: tail_kind_def)
qed

definition csv_content :: "char \<Rightarrow> string list \<Rightarrow> string" where
  "csv_content d fs = Join (map (csv_field d) fs) [d]"

lemma csv_fields_content:
  assumes "validDelim d" "t = [] \<or> hd t = CHR 0x0A" "fs \<noteq> []"
  shows "csv_fields d (csv_content d fs @ t) = Inr (fs, tl t)"
  using assms(3)
proof (induction fs)
  case (Cons f fs)
  show ?case
  proof (cases fs)
    case Nil
    have "field_tail d t" "tail_kind d t = EndRecord"
      using assms by (auto simp: field_tail_def tail_kind_def validDelim_def)
    then show ?thesis
      using one_field_csv [OF assms(1), of t f] Nil by (simp add: csv_content_def csv_fields.simps [of d "csv_field d f @ t"])
  next
    case (Cons g gs)
    let ?t = "d # csv_content d fs @ t"
    have c: "csv_content d (f # fs) @ t = csv_field d f @ ?t" using Cons by (simp add: csv_content_def)
    have "field_tail d ?t" "tail_kind d ?t = NextField" by (simp_all add: field_tail_def tail_kind_def)
    then have "one_field d (csv_field d f @ ?t) = Inr (f, NextField, csv_content d fs @ t)"
      using one_field_csv [OF assms(1), of ?t f] by simp
    then show ?thesis
      using Cons.IH Cons unfolding c csv_fields.simps [of d "csv_field d f @ ?t"] by simp
  qed
qed simp

definition clean_ends :: "string \<Rightarrow> bool" where
  "clean_ends s \<longleftrightarrow> s = [] \<or> (hd s \<noteq> CHR 0x0A \<and> last s \<noteq> CHR 0x0A)"

lemma csv_field_ends: "clean_ends (csv_field d f)"
proof (cases "fieldNeedsQuotes d f")
  case False
  then have "\<forall>c \<in> set f. c \<noteq> CHR 0x0A" by (auto simp: fieldNeedsQuotes_def split: if_splits)
  then show ?thesis using False hd_in_set last_in_set by (fastforce simp: csv_field_def clean_ends_def)
qed (simp add: csv_field_def clean_ends_def)

lemma Join_ends:
  "list_all clean_ends ws \<Longrightarrow> d \<noteq> CHR 0x0A \<Longrightarrow> clean_ends (Join ws [d])"
proof (induction ws "[d]" rule: Join.induct)
  case (3 s t ts)
  then show ?case by (cases s) (auto simp: clean_ends_def)
qed (simp_all add: clean_ends_def)

lemma Join_Nil: "Join ws [d] = [] \<longleftrightarrow> ws = [] \<or> ws = [[]]"
  by (induction ws "[d]" rule: Join.induct) auto

lemma csv_content_ends: "validDelim d \<Longrightarrow> clean_ends (csv_content d fs)"
  using csv_field_ends by (auto simp: csv_content_def validDelim_def list_all_iff intro!: Join_ends)

lemma csv_field_Nil: "csv_field d f = [] \<longleftrightarrow> f = []"
  by (auto simp: csv_field_def fieldNeedsQuotes_def)

lemma csv_content_ne: "fs \<noteq> [] \<Longrightarrow> fs \<noteq> [[]] \<Longrightarrow> csv_content d fs \<noteq> []"
  by (auto simp: csv_content_def Join_Nil csv_field_Nil map_eq_Cons_conv)

lemma csv_records_content:
  assumes "validDelim d" "0 < n" "list_all (\<lambda>fs. length fs = n \<and> fs \<noteq> [[]]) fss"
  shows "csv_records d n (Join (map (csv_content d) fss) [CHR 0x0A]) = Inr fss"
  using assms(3)
proof (induction fss)
  case Nil
  then show ?case by (simp add: csv_records.simps [of d n "[]"])
next
  case (Cons fs fss)
  let ?c = "csv_content d fs"
  have fs: "fs \<noteq> []" "length fs = n" using Cons.prems assms(2) by auto
  have c: "?c \<noteq> []" "hd ?c \<noteq> CHR 0x0A"
    using csv_content_ne [of fs d] fs Cons.prems csv_content_ends [OF assms(1), of fs] by (auto simp: clean_ends_def)
  define t where "t = (if fss = [] then [] else CHR 0x0A # Join (map (csv_content d) fss) [CHR 0x0A])"
  have j: "Join (map (csv_content d) (fs # fss)) [CHR 0x0A] = ?c @ t" by (cases fss) (simp_all add: t_def)
  have s: "dropWhile (\<lambda>c. c = CHR 0x0A) (?c @ t) = ?c @ t" using c by (cases ?c) simp_all
  have "csv_fields d (?c @ t) = Inr (fs, tl t)"
    by (rule csv_fields_content [OF assms(1) _ fs(1)]) (simp add: t_def)
  moreover have "csv_records d n (tl t) = Inr fss" using Cons by (cases fss) (simp_all add: t_def)
  ultimately show ?case
    using fs c assms(2) unfolding j by (simp add: csv_records.simps [of d n "?c @ t"] s)
qed

lemma crlf_id: "CHR 0x0D \<notin> set s \<Longrightarrow> crlf s = s"
  by (induction s rule: crlf.induct) auto





section \<open>A load is all or nothing\<close>

lemma exec_rows_stable:
  "\<forall>d row. P d \<longrightarrow> P (snd (ex d row)) \<Longrightarrow> P d \<Longrightarrow> P (snd (exec_rows ex rows d))"
proof (induction rows arbitrary: d)
  case (Cons row rows)
  then have "P (snd (ex d row))" by blast
  then show ?case using Cons by (cases "ex d row") (auto split: sum.split)
qed simp

text \<open>What is assumed of the engine: looking at a table's columns changes nothing, work in a transaction
  stays in it, and a rollback, or a commit that fails, restores what was there.\<close>

definition transactional :: "'d handlers \<Rightarrow> ('d \<Rightarrow> 'x) \<Rightarrow> ('d \<Rightarrow> bool) \<Rightarrow> 'x \<Rightarrow> bool" where
  "transactional H data P x \<longleftrightarrow>
     (\<forall>d q. data d = x \<longrightarrow> data (snd (h_describe H d False q [])) = x) \<and>
     (\<forall>d. data d = x \<longrightarrow> (case h_begin H d of (None, d1) \<Rightarrow> P d1 | (Some e, d1) \<Rightarrow> data d1 = x)) \<and>
     (\<forall>d q ps. P d \<longrightarrow> P (snd (h_exec H d True q ps))) \<and>
     (\<forall>d. P d \<longrightarrow> data (snd (h_rollback H d)) = x) \<and>
     (\<forall>d. P d \<and> fst (h_commit H d) \<noteq> None \<longrightarrow> data (snd (h_commit H d)) = x)"

lemma copyInsert_cases:
  assumes t: "transactional H data P x" and d: "data d = x"
    and run: "copyInsert H False cs cols input d = (res, d')"
  shows "(\<exists>e. res = Inl e \<and> data d' = x) \<or>
    (\<exists>rows d1 d2. parseCopyData cs (length cols) input = Inr rows \<and> res = Inr (length rows) \<and>
       h_begin H d = (None, d1) \<and> h_commit H d2 = (None, d') \<and>
       exec_rows (\<lambda>d row. h_exec H d True (copy_insert_sql H cs cols) row) rows d1 = (None, d2))"
proof (cases "parseCopyData cs (length cols) input")
  case (Inl e)
  then show ?thesis using run d by (auto simp: copyInsert_def)
next
  case (Inr rows)
  define ex where "ex = (\<lambda>d row. h_exec H d True (copy_insert_sql H cs cols) row)"
  note run' = run [unfolded copyInsert_def Inr Let_def, simplified, folded ex_def]
  show ?thesis
  proof (cases "h_begin H d")
    case (Pair b d1)
    show ?thesis
    proof (cases b)
      case (Some e)
      then have "data d1 = x" using t d Pair by (force simp: transactional_def)
      then show ?thesis using run' Pair Some by auto
    next
      case None
      then have p: "P d1" using t d Pair by (force simp: transactional_def)
      obtain r d2 where e: "exec_rows ex rows d1 = (r, d2)" by fastforce
      have "\<forall>d row. P d \<longrightarrow> P (snd (ex d row))" using t by (simp add: transactional_def ex_def)
      then have p2: "P d2" using exec_rows_stable [of P ex d1 rows] p e by simp
      show ?thesis
      proof (cases r)
        case (Some e')
        then have "d' = snd (h_rollback H d2)" "res = Inl (EngineError e')" using run' Pair None e by simp_all
        then show ?thesis using t p2 by (simp add: transactional_def)
      next
        case r: None
        obtain c d3 where c: "h_commit H d2 = (c, d3)" by fastforce
        then have "c \<noteq> None \<Longrightarrow> data d3 = x" using t p2 by (force simp: transactional_def)
        then show ?thesis
          using run' Pair None e r c Inr by (cases c) (auto simp: ex_def)
      qed
    qed
  qed
qed




section \<open>COPY runs before the privilege check\<close>

lemma first_of_shadow: "(\<And>st. fst (a st)) \<Longrightarrow> first_of (xs @ a # ys) st = first_of (xs @ a # zs) st"
proof (induction xs arbitrary: st)
  case Nil
  then have "fst (a st)" by blast
  then show ?case by (cases "a st") simp
next
  case (Cons x xs)
  then show ?case by (cases "x st") (simp split: bool.split)
qed

lemma alternatives_before_copy:
  fixes H :: "'d handlers" and f :: "'d \<Rightarrow> string \<Rightarrow> string option \<times> 'd"
  defines "H' \<equiv> H\<lparr>h_checkPrivileges := f\<rparr>"
  shows "sq_txControl H' = sq_txControl H" "sq_schemaDDL H' = sq_schemaDDL H" "sq_savepoint H' = sq_savepoint H"
    "sq_roleDDL H' = sq_roleDDL H" "sq_grant H' = sq_grant H" "sq_rlsDDL H' = sq_rlsDDL H"
    "sq_alterTable H' = sq_alterTable H" "sq_listenNotify H' = sq_listenNotify H" "sq_seqDDL H' = sq_seqDDL H"
    "sq_typeDDL H' = sq_typeDDL H" "sq_comment H' = sq_comment H" "sq_setRole H' = sq_setRole H"
    "sq_sqlPrepare H' = sq_sqlPrepare H" "sq_copy H' = sq_copy H"
proof -
  have same: "h_begin H' = h_begin H"
    "h_commit H' = h_commit H"
    "h_rollback H' = h_rollback H"
    "h_exec H' = h_exec H"
    "h_releaseTx H' = h_releaseTx H"
    "h_schemaDDL H' = h_schemaDDL H"
    "h_roleDDL H' = h_roleDDL H"
    "h_clearPrivCache H' = h_clearPrivCache H"
    "h_grant H' = h_grant H"
    "h_rlsDDL H' = h_rlsDDL H"
    "h_alterTable H' = h_alterTable H"
    "h_listenNotify H' = h_listenNotify H"
    "h_seqDDL H' = h_seqDDL H"
    "h_typeDDL H' = h_typeDDL H"
    "h_comment H' = h_comment H"
    "h_setRole H' = h_setRole H"
    "h_copy H' = h_copy H"
    "h_rewrite H' = h_rewrite H"
    "h_rlsInsert H' = h_rlsInsert H"
    "h_recordOwnership H' = h_recordOwnership H"
    "h_columnDefaults H' = h_columnDefaults H"
    "h_canceled H' = h_canceled H"
    "h_oid H' = h_oid H"
    "h_dialect H' = h_dialect H"
    by (simp_all add: H'_def)
  show "sq_txControl H' = sq_txControl H" "sq_schemaDDL H' = sq_schemaDDL H" "sq_savepoint H' = sq_savepoint H"
    "sq_roleDDL H' = sq_roleDDL H" "sq_grant H' = sq_grant H" "sq_rlsDDL H' = sq_rlsDDL H"
    "sq_alterTable H' = sq_alterTable H" "sq_listenNotify H' = sq_listenNotify H" "sq_seqDDL H' = sq_seqDDL H"
    "sq_typeDDL H' = sq_typeDDL H" "sq_comment H' = sq_comment H" "sq_setRole H' = sq_setRole H"
    "sq_sqlPrepare H' = sq_sqlPrepare H" "sq_copy H' = sq_copy H"
    unfolding sq_txControl_def [abs_def] applyTxControl_def endTx_def sq_schemaDDL_def [abs_def]
      sq_savepoint_def [abs_def] trySavepoint_def sq_roleDDL_def [abs_def] sq_grant_def [abs_def]
      sq_rlsDDL_def [abs_def] sq_alterTable_def [abs_def] sq_listenNotify_def [abs_def] sq_seqDDL_def [abs_def]
      sq_typeDDL_def [abs_def] sq_comment_def [abs_def] sq_setRole_def [abs_def] sq_copy_def [abs_def]
      sq_sqlPrepare_def [abs_def] handleExecuteSQL_def exec_code_def result_msgs_def result_oids_def same
    by (rule refl)+
qed

text \<open>A statement recognised as COPY is answered the same whatever the privilege check would say.\<close>

lemma copy_skips_privileges:
  assumes "\<And>d b. fst (h_copy H d b q) \<noteq> None"
  shows "first_of (simple_alternatives (H\<lparr>h_checkPrivileges := f\<rparr>) q) st = first_of (simple_alternatives H q) st"
proof -
  have "fst (sq_copy H q st)" for st
    using assms [of "env st" "in_transaction st"] by (auto simp: sq_copy_def split: prod.split option.split)
  note shadow = first_of_shadow [of "sq_copy H q", OF this]
  let ?xs = "[sq_txControl H q, sq_schemaDDL H q, sq_savepoint H q, sq_abortedGuard,
      sq_roleDDL H q, sq_grant H q, sq_rlsDDL H q, sq_alterTable H q, sq_listenNotify H q, sq_seqDDL H q,
      sq_typeDDL H q, sq_comment H q, sq_setRole H q, sq_sqlPrepare H q]"
  have split: "\<exists>ys. simple_alternatives H' q = ?xs @ sq_copy H q # ys"
    if "H' = H \<or> H' = H\<lparr>h_checkPrivileges := f\<rparr>" for H'
    using that by (auto simp: simple_alternatives_def alternatives_before_copy)
  obtain ys zs where "simple_alternatives H q = ?xs @ sq_copy H q # ys"
    "simple_alternatives (H\<lparr>h_checkPrivileges := f\<rparr>) q = ?xs @ sq_copy H q # zs"
    using split [of H] split [of "H\<lparr>h_checkPrivileges := f\<rparr>"] by blast
  then show ?thesis by (simp only: shadow [of ?xs ys st zs])
qed

end
