(* ===== verification/RowSecurity.thy ===== *)
theory RowSecurity
  imports Privileges
begin

text \<open>
  Row-level security, the tables and their policies (\<open>protocol/postgres/rls.go\<close>, \<open>engine/rls.go\<close>): the DDL that
  SQLite cannot run, kept in two internal tables, and the filter they give for a table, a command and the
  current role. How statements are rewritten with the filter is in \<open>RowRewrite\<close>. As in \<open>RoleTables\<close>, a
  statement on the internal tables fails for no other reason than those modelled; should one fail, the
  code takes the role as not subject.
\<close>

section \<open>The tables\<close>

record rls_row =
  rl_table :: string
  rl_enabled :: int
  rl_forced :: int

record policy =
  pol_name :: string
  pol_table :: string
  pol_command :: string
  pol_roles :: string
  pol_permissive :: int
  pol_using :: string
  pol_check :: string

record rls_db =
  rls_rows :: "rls_row list"
  policies :: "policy list"

section \<open>Reading the statements\<close>

definition isRLSDDL :: "string \<Rightarrow> bool" where
  "isRLSDDL sql =
     (if EqualFold (firstWordUpper sql) ''ALTER'' \<and> EqualFold (secondWordUpper sql) ''TABLE'' \<and>
         Contains (ToLower sql) ''row level security'' then True
      else secondWordUpper sql = ''POLICY'' \<and> firstWordUpper sql \<in> {''CREATE'', ''DROP'', ''ALTER''})"

definition firstWordOf :: "string \<Rightarrow> string" where
  "firstWordOf s0 =
     (let s = TrimLeft s0 [CHR '' '', CHR 0x09, CHR 0x0A] in
      TrimRight (takeWhile (\<lambda>c. c \<notin> {CHR '' '', CHR 0x09, CHR 0x0A, CHR ''(''}) s) '';'')"

function balanced_from :: "string \<Rightarrow> nat \<Rightarrow> int \<Rightarrow> nat \<Rightarrow> string \<times> nat" where
  "balanced_from s open depth i =
     (if i < length s then
        if s ! i = CHR 0x27 then balanced_from s open depth (endOfStringLiteral s i)
        else if s ! i = CHR ''('' then balanced_from s open (depth + 1) (i + 1)
        else if s ! i = CHR '')'' then
          if depth - 1 = 0 then (Scanner.slice s (open + 1) i, i + 1)
          else balanced_from s open (depth - 1) (i + 1)
        else balanced_from s open depth (i + 1)
      else (drop (open + 1) s, length s))"
  by pat_completeness auto
termination
  by (relation "measure (\<lambda>(s, opn, d, i). length s - i)") (auto simp: diff_less_mono2 endOfStringLiteral_bounds)

declare balanced_from.simps [simp del]

definition balancedParen :: "string \<Rightarrow> nat \<Rightarrow> string \<times> nat" where
  "balancedParen s open = balanced_from s open 0 open"

definition normalizeRoleList :: "string \<Rightarrow> string" where
  "normalizeRoleList spec =
     Join (filter (\<lambda>r. r \<noteq> [])
       (map (\<lambda>r0.
          let r1 = TrimSpace (TrimRight r0 '';'');
              r2 = TrimPrefix (TrimPrefix r1 ''GROUP '') ''group '' in
          ToLower (Trim (TrimSpace r2) [CHR 0x22])) (SplitByte spec (CHR '','')))) '',''"

text \<open>The expression in the first parentheses after position \<open>i\<close>.\<close>

definition expr_after :: "string \<Rightarrow> nat \<Rightarrow> string option" where
  "expr_after sql i =
     map_option (\<lambda>op. TrimSpace (fst (balancedParen sql (i + op)))) (IndexByte (drop i sql) (CHR ''(''))"

definition parsePolicy :: "string \<Rightarrow> string + policy" where
  "parsePolicy sql =
     (let f = Fields sql in
      if length f < 5 \<or> \<not> EqualFold (f ! 3) ''on'' then Inl ''syntax error in CREATE POLICY''
      else
       (let low = ToLower sql;
            at = (\<lambda>i. case i of Some i \<Rightarrow> (case expr_after sql i of Some e \<Rightarrow> e | None \<Rightarrow> []) | None \<Rightarrow> []) in
        Inr \<lparr>pol_name = unquoteIdent (f ! 2), pol_table = unquoteIdent (TrimRight (f ! 4) '';''),
          pol_command = (case indexWord low ''for'' of
                           Some i \<Rightarrow> ToUpper (firstWordOf (drop (i + 3) sql)) | None \<Rightarrow> ''ALL''),
          pol_roles = (case indexWord low ''to'' of
                         Some i \<Rightarrow>
                           (let rest = drop (i + 2) sql;
                                end' = foldl (\<lambda>e kw. case indexWord (ToLower rest) kw of
                                                       Some k \<Rightarrow> if k < e then k else e | None \<Rightarrow> e)
                                         (length rest) [''using'', ''with check'', ''with'', ''for''] in
                            normalizeRoleList (take end' rest))
                       | None \<Rightarrow> []),
          pol_permissive = (if indexWord low ''restrictive'' \<noteq> None then 0 else 1),
          pol_using = at (indexWord low ''using''),
          pol_check = at (Index low ''with check'')\<rparr>))"

section \<open>DDL\<close>

definition not_owner :: "string \<Rightarrow> string" where
  "not_owner table = ''must be owner of table '' @ goQuote table"

definition may_administer :: "auth_db \<Rightarrow> string \<Rightarrow> string \<Rightarrow> bool" where
  "may_administer db cur table \<longleftrightarrow> roleBypasses db cur \<or> ownsTable db table (effectiveRoles db cur)"

definition drop_if_exists :: "string list \<Rightarrow> string list" where
  "drop_if_exists rest =
     (case rest of
        x # y # r \<Rightarrow> if EqualFold x ''if'' \<and> EqualFold y ''exists'' then r else rest
      | _ \<Rightarrow> rest)"

definition set_flag :: "string \<Rightarrow> rls_row \<Rightarrow> rls_row" where
  "set_flag low r =
     (if Contains low ''disable'' then r\<lparr>rl_enabled := 0\<rparr>
      else if Contains low ''no force'' then r\<lparr>rl_forced := 0\<rparr>
      else if Contains low ''force'' then r\<lparr>rl_forced := 1\<rparr>
      else r\<lparr>rl_enabled := 1\<rparr>)"

definition alterTableRLS :: "auth_db \<Rightarrow> string \<Rightarrow> string \<Rightarrow> rls_db \<Rightarrow> string option \<times> rls_db" where
  "alterTableRLS db cur sql d =
     (case drop_if_exists (drop 2 (Fields sql)) of
        [] \<Rightarrow> (Some ''syntax error in ALTER TABLE'', d)
      | w # _ \<Rightarrow>
          (let table = unquoteIdent w in
           if \<not> may_administer db cur table then (Some (not_owner table), d)
           else
            (let rows = (if list_ex (\<lambda>r. nocase_eq (rl_table r) table) (rls_rows d) then rls_rows d
                         else rls_rows d @ [\<lparr>rl_table = table, rl_enabled = 0, rl_forced = 0\<rparr>]) in
             (None, d\<lparr>rls_rows :=
                map (\<lambda>r. if nocase_eq (rl_table r) table then set_flag (ToLower sql) r else r) rows\<rparr>))))"

definition createPolicy :: "auth_db \<Rightarrow> string \<Rightarrow> string \<Rightarrow> rls_db \<Rightarrow> string option \<times> rls_db" where
  "createPolicy db cur sql d =
     (case parsePolicy sql of
        Inl e \<Rightarrow> (Some e, d)
      | Inr p \<Rightarrow>
          if \<not> may_administer db cur (pol_table p) then (Some (not_owner (pol_table p)), d)
          else (None, d\<lparr>policies := policies d @ [p]\<rparr>))"

text \<open>The last \<open>ON\<close> gives the table.\<close>

fun policy_table :: "string \<Rightarrow> string list \<Rightarrow> string" where
  "policy_table t (w # x # ws) =
     policy_table (if EqualFold w ''on'' then unquoteIdent (TrimRight x '';'') else t) (x # ws)"
| "policy_table t _ = t"

definition dropPolicy :: "string \<Rightarrow> rls_db \<Rightarrow> string option \<times> rls_db" where
  "dropPolicy sql d =
     (case drop_if_exists (drop 2 (Fields sql)) of
        [] \<Rightarrow> (Some ''syntax error in DROP POLICY'', d)
      | w # ws \<Rightarrow>
          (let name = unquoteIdent w; table = policy_table [] (w # ws) in
           (None, d\<lparr>policies := filter (\<lambda>p. \<not> (nocase_eq (pol_name p) name \<and> nocase_eq (pol_table p) table))
                      (policies d)\<rparr>)))"

text \<open>\<open>None\<close>: not an RLS statement; else the tag, the error if any, and the tables.\<close>

definition tryRLSDDL :: "auth_db \<Rightarrow> string \<Rightarrow> string \<Rightarrow> rls_db \<Rightarrow> (string \<times> string option \<times> rls_db) option" where
  "tryRLSDDL db cur sql d =
     (if \<not> isRLSDDL sql then None
      else if EqualFold (firstWordUpper sql) ''ALTER'' \<and> EqualFold (secondWordUpper sql) ''TABLE'' then
        Some (''ALTER TABLE'', alterTableRLS db cur sql d)
      else if firstWordUpper sql = ''CREATE'' then Some (''CREATE POLICY'', createPolicy db cur sql d)
      else if firstWordUpper sql = ''DROP'' then Some (''DROP POLICY'', dropPolicy sql d)
      else Some (''ALTER POLICY'', None, d))"

section \<open>The filter\<close>

definition hasBypassRLS :: "auth_db \<Rightarrow> string \<Rightarrow> bool" where
  "hasBypassRLS db role = list_ex (\<lambda>r. nocase_eq (rolname r) role \<and> rolbypassrls r \<noteq> 0) (roles db)"

definition rlsBypasses :: "auth_db \<Rightarrow> string \<Rightarrow> string \<Rightarrow> bool \<Rightarrow> bool" where
  "rlsBypasses db cur table forced =
     (if roleBypasses db cur \<or> hasBypassRLS db cur then True
      else if \<not> forced \<and> ownsTable db table (effectiveRoles db cur) then True
      else False)"

definition policyRoleMatch :: "string \<Rightarrow> string set \<Rightarrow> bool" where
  "policyRoleMatch polRoles roleSet =
     (let s = TrimSpace polRoles in
      if s = [] then True
      else list_ex (\<lambda>r. ToLower (TrimSpace r) \<in> roleSet) (SplitByte s (CHR '','')))"

definition policy_expr :: "bool \<Rightarrow> policy \<Rightarrow> string" where
  "policy_expr forCheck p =
     (let c = TrimSpace (pol_check p); e = (if forCheck \<and> c \<noteq> [] then c else pol_using p) in
      if TrimSpace e = [] then ''1'' else e)"

definition relevant :: "auth_db \<Rightarrow> string \<Rightarrow> string \<Rightarrow> string \<Rightarrow> policy \<Rightarrow> bool" where
  "relevant db cur table command p \<longleftrightarrow>
     nocase_eq (pol_table p) table \<and> ToUpper (pol_command p) \<in> {''ALL'', ToUpper command} \<and>
     policyRoleMatch (pol_roles p) ({''public''} \<union> ToLower ` set (effectiveRoles db cur))"

definition gatherPolicies ::
    "auth_db \<Rightarrow> rls_db \<Rightarrow> string \<Rightarrow> string \<Rightarrow> string \<Rightarrow> bool \<Rightarrow> string list \<times> string list" where
  "gatherPolicies db d cur table command forCheck =
     (let ps = filter (relevant db cur table command) (policies d) in
      (map (policy_expr forCheck) (filter (\<lambda>p. pol_permissive p \<noteq> 0) ps),
       map (policy_expr forCheck) (filter (\<lambda>p. pol_permissive p = 0) ps)))"

definition paren :: "string \<Rightarrow> string" where
  "paren e = ''('' @ e @ '')''"

definition any_of :: "string list \<Rightarrow> string" where
  "any_of perm = (if perm = [] then ''(0)'' else paren (Join (map paren perm) '' OR ''))"

definition combineRLS :: "string list \<Rightarrow> string list \<Rightarrow> string" where
  "combineRLS perm restr =
     (if restr = [] then any_of perm
      else any_of perm @ '' AND '' @ paren (Join (map paren restr) '' AND ''))"

text \<open>\<open>None\<close> when the role is not subject to row security on the table.\<close>

definition rls_expr ::
    "auth_db \<Rightarrow> rls_db \<Rightarrow> string \<Rightarrow> string \<Rightarrow> string \<Rightarrow> bool \<Rightarrow> string option" where
  "rls_expr db d cur table command forCheck =
     (case filter (\<lambda>r. nocase_eq (rl_table r) table) (rls_rows d) of
        [] \<Rightarrow> None
      | r # _ \<Rightarrow>
          if \<not> truthy (VInt (rl_enabled r)) then None
          else if rlsBypasses db cur table (truthy (VInt (rl_forced r))) then None
          else (case gatherPolicies db d cur table command forCheck of (perm, restr) \<Rightarrow> Some (combineRLS perm restr)))"

definition rlsFilter :: "auth_db \<Rightarrow> rls_db \<Rightarrow> string \<Rightarrow> string \<Rightarrow> string \<Rightarrow> string option" where
  "rlsFilter db d cur table command = rls_expr db d cur table command False"

definition rlsCheckExpr :: "auth_db \<Rightarrow> rls_db \<Rightarrow> string \<Rightarrow> string \<Rightarrow> string option" where
  "rlsCheckExpr db d cur table = rls_expr db d cur table ''INSERT'' True"


section \<open>What the filter decides\<close>

definition flags_of :: "rls_db \<Rightarrow> string \<Rightarrow> rls_row option" where
  "flags_of d table = find (\<lambda>r. nocase_eq (rl_table r) table) (rls_rows d)"

lemma find_filter: "find P xs = (case filter P xs of [] \<Rightarrow> None | x # _ \<Rightarrow> Some x)"
  by (induction xs) auto

lemma rls_expr_flags:
  "rls_expr db d cur table command forCheck =
     (case flags_of d table of
        None \<Rightarrow> None
      | Some r \<Rightarrow>
          if rl_enabled r = 0 \<or> rlsBypasses db cur table (rl_forced r \<noteq> 0) then None
          else (case gatherPolicies db d cur table command forCheck of (perm, restr) \<Rightarrow> Some (combineRLS perm restr)))"
proof -
  have "flags_of d table = (case filter (\<lambda>r. nocase_eq (rl_table r) table) (rls_rows d) of [] \<Rightarrow> None | r # _ \<Rightarrow> Some r)"
    by (simp add: flags_of_def find_filter)
  then show ?thesis by (simp add: rls_expr_def truthy_def split: list.split)
qed

text \<open>What is assumed of the SQL that evaluates the filter, for one list of permissive and one of restrictive
  expressions: brackets, AND and OR mean what they mean, and zero is false.\<close>

definition reads_connectives :: "(string \<Rightarrow> bool) \<Rightarrow> string list \<Rightarrow> string list \<Rightarrow> bool" where
  "reads_connectives holds perm restr \<longleftrightarrow>
     \<not> holds ''(0)'' \<and>
     (perm \<noteq> [] \<longrightarrow> holds (paren (Join (map paren perm) '' OR '')) = list_ex holds perm) \<and>
     (restr \<noteq> [] \<longrightarrow> holds (any_of perm @ '' AND '' @ paren (Join (map paren restr) '' AND '')) =
        (holds (any_of perm) \<and> list_all holds restr))"

lemma holds_combine:
  "reads_connectives holds perm restr \<Longrightarrow> holds (combineRLS perm restr) = (list_ex holds perm \<and> list_all holds restr)"
  by (auto simp: reads_connectives_def combineRLS_def any_of_def)

text \<open>C5: The filter put on a table is exact. There is none exactly when row security is not enabled on the
  table, or the role is a superuser or unmanaged, or has BYPASSRLS, or owns the table and the security is
  not forced. Otherwise it holds of a row exactly when some permissive policy that applies to the
  command and the role allows the row and every restrictive one does; without a permissive policy, of
  no row.\<close>
theorem rls_filter_exact:
  assumes "reads_connectives holds (fst (gatherPolicies db d cur table cmd fc)) (snd (gatherPolicies db d cur table cmd fc))"
  shows "(rls_expr db d cur table cmd fc = None \<longleftrightarrow>
      (case flags_of d table of
         None \<Rightarrow> True
       | Some r \<Rightarrow> rl_enabled r = 0 \<or> roleBypasses db cur \<or> hasBypassRLS db cur \<or>
           (rl_forced r = 0 \<and> ownsTable db table (effectiveRoles db cur)))) \<and>
    (\<forall>e. rls_expr db d cur table cmd fc = Some e \<longrightarrow>
      holds e =
        ((\<exists>p \<in> set (policies d). relevant db cur table cmd p \<and> pol_permissive p \<noteq> 0 \<and> holds (policy_expr fc p)) \<and>
         (\<forall>p \<in> set (policies d). relevant db cur table cmd p \<and> pol_permissive p = 0 \<longrightarrow> holds (policy_expr fc p))))"
proof -
  have "holds (combineRLS (fst (gatherPolicies db d cur table cmd fc)) (snd (gatherPolicies db d cur table cmd fc))) =
      ((\<exists>p \<in> set (policies d). relevant db cur table cmd p \<and> pol_permissive p \<noteq> 0 \<and> holds (policy_expr fc p)) \<and>
       (\<forall>p \<in> set (policies d). relevant db cur table cmd p \<and> pol_permissive p = 0 \<longrightarrow> holds (policy_expr fc p)))"
    by (simp only: holds_combine [OF assms]) (auto simp: gatherPolicies_def Let_def list_ex_iff list_all_iff)
  then show ?thesis
    by (auto simp: rls_expr_flags rlsBypasses_def split: option.split prod.split)
qed

definition sample_rls :: rls_db where
  "sample_rls = \<lparr>rls_rows = [\<lparr>rl_table = ''doc'', rl_enabled = 1, rl_forced = 0\<rparr>],
     policies = [\<lparr>pol_name = ''mine'', pol_table = ''doc'', pol_command = ''ALL'', pol_roles = ''bob'',
       pol_permissive = 1, pol_using = ''owner = me'', pol_check = []\<rparr>]\<rparr>"

lemma rls_filter_exact_witness:
  "rls_expr sample_db sample_rls ''bob'' ''doc'' ''SELECT'' False = Some ''((owner = me))''"
proof -
  have g: "gatherPolicies sample_db sample_rls ''bob'' ''doc'' ''SELECT'' False = ([''owner = me''], [])"
    and f: "flags_of sample_rls ''doc'' = Some \<lparr>rl_table = ''doc'', rl_enabled = 1, rl_forced = 0\<rparr>"
    and no: "hasBypassRLS sample_db ''bob'' = False" "ownsTable sample_db ''doc'' (effectiveRoles sample_db ''bob'') = False"
    by code_simp+
  have "reads_connectives (\<lambda>e. e = ''owner = me'' \<or> e = ''((owner = me))'') [''owner = me''] []"
    by (simp add: reads_connectives_def paren_def)
  then have "rls_expr sample_db sample_rls ''bob'' ''doc'' ''SELECT'' False \<noteq> None"
    using rls_filter_exact [of _ sample_db sample_rls "''bob''" "''doc''" "''SELECT''" False] g f no bob_roles(2) by auto
  then show ?thesis
    using g f by (auto simp: rls_expr_flags combineRLS_def any_of_def paren_def split: if_splits)
qed

section \<open>Who may change it\<close>

lemma flags_of_append:
  "\<not> nocase_eq t' (rl_table r) \<Longrightarrow> flags_of (d\<lparr>rls_rows := rls_rows d @ [r]\<rparr>) t' = flags_of d t'"
  by (simp add: flags_of_def find_filter nocase_eq_def)

lemma set_flag_table [simp]: "rl_table (set_flag low r) = rl_table r"
  by (simp add: set_flag_def)

lemma find_map_other:
  "(\<And>r. r \<in> set rs \<Longrightarrow> P (f r) = P r) \<Longrightarrow> (\<And>r. r \<in> set rs \<Longrightarrow> P r \<Longrightarrow> f r = r) \<Longrightarrow> find P (map f rs) = find P rs"
  by (induction rs) auto




text \<open>Any role may drop any policy, restrictive ones included.\<close>

lemma drop_policy_unguarded:
  "dropPolicy ''DROP POLICY mine ON doc'' sample_rls = (None, sample_rls\<lparr>policies := []\<rparr>)"
  by code_simp

text \<open>A table whose name contains the word is not switched on by ENABLE ROW LEVEL SECURITY.\<close>

lemma enable_by_name:
  "snd (alterTableRLS (sample_db\<lparr>owners := [\<lparr>ow_table = ''workforce'', ow_owner = ''bob''\<rparr>]\<rparr>) ''bob''
      ''ALTER TABLE workforce ENABLE ROW LEVEL SECURITY'' \<lparr>rls_rows = [], policies = []\<rparr>) =
   \<lparr>rls_rows = [\<lparr>rl_table = ''workforce'', rl_enabled = 0, rl_forced = 1\<rparr>], policies = []\<rparr>"
  by code_simp

text \<open>The clauses are found anywhere in the statement: a keyword inside an expression is taken for one.\<close>

lemma policy_clause_in_literal:
  "map_sum id pol_roles (parsePolicy (''CREATE POLICY p ON t USING (state = '' @ [CHR 0x27] @ ''to do'' @ [CHR 0x27] @ '')'')) =
   Inr (''do'' @ [CHR 0x27] @ '')'')"
  by code_simp

end
