(* ===== verification/RowRewrite.thy ===== *)
theory RowRewrite
  imports RowSecurity SessionUser SessionProps Decimal
begin

text \<open>
  Row-level security, the enforcement (\<open>protocol/postgres/rls.go\<close>): a SELECT has each secured table of its FROM
  clauses replaced by a filtered subquery, an UPDATE or DELETE gets the filter in its WHERE clause, and
  the rows of an INSERT are counted against the WITH CHECK filter before it runs, those of an upsert
  looked at after it has run inside a savepoint. The statement is never parsed: a scan into words and
  punctuation is all there is. The last section shows where that scan does not see a table.
\<close>

section \<open>Tokens\<close>

record sqlTok =
  tk_text :: string
  tk_start :: nat
  tk_end :: nat
  tk_kind :: char

text \<open>The loop over an identifier is that of \<open>scanWords\<close>.\<close>

function rlsTokens_from :: "string \<Rightarrow> nat \<Rightarrow> sqlTok list" where
  "rlsTokens_from sql i =
     (if i < length sql then
        let c = sql ! i in
        if c = CHR 0x27 then rlsTokens_from sql (endOfStringLiteral sql i)
        else if c = CHR '' '' \<or> c = CHR 0x09 \<or> c = CHR 0x0A \<or> c = CHR 0x0D then rlsTokens_from sql (i + 1)
        else if c = CHR ''('' \<or> c = CHR '')'' \<or> c = CHR '','' then
          \<lparr>tk_text = [c], tk_start = i, tk_end = i + 1, tk_kind = c\<rparr> # rlsTokens_from sql (i + 1)
        else if c = CHR 0x22 \<or> isIdentStart c then
          (let j = fst (word_end sql False i) in
           \<lparr>tk_text = Scanner.slice sql i j, tk_start = i, tk_end = j, tk_kind = CHR ''w''\<rparr> # rlsTokens_from sql j)
        else \<lparr>tk_text = [c], tk_start = i, tk_end = i + 1, tk_kind = CHR ''o''\<rparr> # rlsTokens_from sql (i + 1)
      else [])"
  by pat_completeness auto
termination
proof (relation "measure (\<lambda>(s, i). length s - i)", goal_cases)
  case (2 sql i c)
  then show ?case using endOfStringLiteral_bounds(1) [of i sql] by auto
next
  case (5 sql i c j)
  then show ?case using word_end_starts [of i sql] by auto
qed auto

declare rlsTokens_from.simps [simp del]

definition rlsTokens :: "string \<Rightarrow> sqlTok list" where
  "rlsTokens sql = rlsTokens_from sql 0"

definition rlsAliasStop :: "string list" where
  "rlsAliasStop = [''on'', ''using'', ''where'', ''group'', ''order'', ''having'', ''limit'', ''join'', ''inner'',
     ''left'', ''right'', ''full'', ''cross'', ''natural'', ''union'', ''except'', ''intersect'', ''window'',
     ''returning'', ''set'']"

definition aliasFollows :: "sqlTok list \<Rightarrow> bool" where
  "aliasFollows rest =
     (case rest of
        [] \<Rightarrow> False
      | t # _ \<Rightarrow>
          if tk_kind t \<noteq> CHR ''w'' then False
          else (let w = ToLower (tk_text t) in if w = ''as'' then True else w \<notin> set rlsAliasStop))"

definition bareAlias :: "string \<Rightarrow> string" where
  "bareAlias text =
     Trim (case LastIndexByte text (CHR ''.'') of Some i \<Rightarrow> drop (i + 1) text | None \<Rightarrow> text) [CHR 0x22]"

definition bareTableName :: "string \<Rightarrow> string" where
  "bareTableName text =
     (let t = bareAlias text; low = ToLower t in
      if HasPrefix low ''pg_'' \<or> HasPrefix low ''sqlite_'' \<or> HasPrefix low ''_overlite'' \<or> low = ''information_schema''
      then [] else t)"

section \<open>Reads\<close>

definition clause_words :: "string list" where
  "clause_words = [''where'', ''group'', ''having'', ''order'', ''limit'', ''window'', ''union'', ''except'',
     ''intersect'', ''on'', ''using'', ''returning'', ''set'', ''values'']"

text \<open>The filtered subquery a table reference is replaced by.\<close>

definition wrapped :: "string \<Rightarrow> string \<Rightarrow> sqlTok list \<Rightarrow> string" where
  "wrapped text e rest =
     ''(SELECT * FROM '' @ text @ '' WHERE '' @ e @ '')'' @ (if aliasFollows rest then [] else '' AS '' @ bareAlias text)"

fun wrap_reps :: "(string \<Rightarrow> string option) \<Rightarrow> bool \<Rightarrow> bool \<Rightarrow> sqlTok list \<Rightarrow> (nat \<times> nat \<times> string) list" where
  "wrap_reps flt inFrom expect [] = []"
| "wrap_reps flt inFrom expect (t # ts) =
     (if tk_kind t = CHR ''w'' then
        let w = ToLower (tk_text t) in
        if w = ''from'' then wrap_reps flt True True ts
        else if w = ''join'' then wrap_reps flt inFrom True ts
        else if w = ''only'' \<or> w = ''lateral'' then wrap_reps flt inFrom expect ts
        else if w \<in> set clause_words then wrap_reps flt False False ts
        else if expect then
          (case (if bareTableName (tk_text t) = [] then None else flt (bareTableName (tk_text t))) of
             Some e \<Rightarrow> (tk_start t, tk_end t, wrapped (tk_text t) e ts) # wrap_reps flt inFrom False ts
           | None \<Rightarrow> wrap_reps flt inFrom False ts)
        else wrap_reps flt inFrom expect ts
      else if tk_kind t = CHR ''('' then wrap_reps flt inFrom False ts
      else if tk_kind t = CHR '','' then wrap_reps flt inFrom (inFrom \<or> expect) ts
      else wrap_reps flt inFrom expect ts)"

fun splice :: "string \<Rightarrow> nat \<Rightarrow> (nat \<times> nat \<times> string) list \<Rightarrow> string" where
  "splice sql prev [] = drop prev sql"
| "splice sql prev ((i, j, text) # reps) = Scanner.slice sql prev i @ text @ splice sql j reps"

definition wrapRLSSelect :: "(string \<Rightarrow> string option) \<Rightarrow> string \<Rightarrow> string" where
  "wrapRLSSelect flt sql =
     (let reps = wrap_reps flt False False (rlsTokens sql) in if reps = [] then sql else splice sql 0 reps)"

section \<open>Writes\<close>

text \<open>The two scans share their cases; what they ask of a word at depth zero is the argument.\<close>

function topLevel_from :: "(string \<Rightarrow> nat \<Rightarrow> nat \<Rightarrow> bool) \<Rightarrow> string \<Rightarrow> nat \<Rightarrow> nat \<Rightarrow> nat option" where
  "topLevel_from found s depth i =
     (if i < length s then
        let c = s ! i in
        if c = CHR 0x27 then topLevel_from found s depth (endOfStringLiteral s i)
        else if c = CHR 0x22 then
          (let k = i + 1 + length (takeWhile (\<lambda>c. c \<noteq> CHR 0x22) (drop (i + 1) s)) in
           topLevel_from found s depth (if k < length s then k + 1 else k))
        else if c = CHR ''('' then topLevel_from found s (depth + 1) (i + 1)
        else if c = CHR '')'' then topLevel_from found s (if 0 < depth then depth - 1 else depth) (i + 1)
        else if depth = 0 \<and> isIdentStart c then
          (let j = scan_while isIdentPart s i in
           if found s i j then Some i else topLevel_from found s depth j)
        else topLevel_from found s depth (i + 1)
      else None)"
  by pat_completeness auto
termination
proof (relation "measure (\<lambda>(f, s, d, i). length s - i)", goal_cases)
  case (2 found s depth i c)
  then show ?case using endOfStringLiteral_bounds(1) [of i s] by auto
next
  case (6 found s depth i c j)
  then have "isIdentPart (s ! i)" by (simp add: isIdentPart_def)
  then show ?case using 6 scan_while_gt [of i s isIdentPart] by auto
qed auto

declare topLevel_from.simps [simp del]


definition topLevelKeyword :: "string \<Rightarrow> string \<Rightarrow> nat option" where
  "topLevelKeyword s kw = topLevel_from (\<lambda>s i j. EqualFold (Scanner.slice s i j) kw) s 0 0"

definition topLevelOnConflict :: "string \<Rightarrow> nat option" where
  "topLevelOnConflict s =
     topLevel_from (\<lambda>s i j. EqualFold (Scanner.slice s i j) ''on'' \<and>
       (let k = skipSpaces s j in EqualFold (Scanner.slice s k (scan_while isIdentPart s k)) ''conflict'')) s 0 0"

text \<open>The bytes trimmed from the end of a statement.\<close>

definition stmt_end :: string where
  "stmt_end = [CHR '';'', CHR '' '', CHR 0x09, CHR 0x0A]"

definition add_condition :: "string \<Rightarrow> string \<Rightarrow> string" where
  "add_condition e body =
     (case topLevelKeyword body ''where'' of
        Some w \<Rightarrow>
          (let after = w + 5; cond = TrimSpace (drop after body) in
           take after body @ '' (('' @ e @ '') AND ('' @ cond @ ''))'')
      | None \<Rightarrow> TrimRight body [CHR '' '', CHR 0x09, CHR 0x0A] @ '' WHERE ('' @ e @ '')'')"

definition injectRLSWhere :: "(string \<Rightarrow> string \<Rightarrow> string option) \<Rightarrow> string \<Rightarrow> string \<Rightarrow> string" where
  "injectRLSWhere flt sql command =
     (case tablesAfter sql [if command = ''DELETE'' then ''from'' else ''update''] command of
        [] \<Rightarrow> sql
      | tp # _ \<Rightarrow>
          (case flt (tp_table tp) command of
             None \<Rightarrow> sql
           | Some e \<Rightarrow>
               (let body0 = TrimRight sql stmt_end; semi = drop (length body0) sql;
                    (body, ret) = (case topLevelKeyword body0 ''returning'' of
                                     Some ri \<Rightarrow> (take ri body0, drop ri body0) | None \<Rightarrow> (body0, []));
                    body' = add_condition e body in
                body' @ (if ret \<noteq> [] then '' '' @ TrimSpace ret else []) @ semi)))"

definition applyRLS :: "(string \<Rightarrow> string \<Rightarrow> string option) \<Rightarrow> string \<Rightarrow> string" where
  "applyRLS flt sql =
     (let w = firstWordUpper sql in
      if w \<in> {''SELECT'', ''WITH'', ''TABLE'', ''VALUES''} then wrapRLSSelect (\<lambda>t. flt t ''SELECT'') sql
      else if w = ''UPDATE'' then injectRLSWhere flt sql ''UPDATE''
      else if w = ''DELETE'' then injectRLSWhere flt sql ''DELETE''
      else if w = ''INSERT'' then wrapRLSSelect (\<lambda>t. flt t ''SELECT'') sql
      else sql)"

section \<open>Inserts\<close>

text \<open>The column list in parentheses: its names, and the tokens after it.\<close>

fun insert_columns :: "int \<Rightarrow> sqlTok list \<Rightarrow> string list \<times> sqlTok list" where
  "insert_columns depth [] = ([], [])"
| "insert_columns depth (t # ts) =
     (let depth' = (if tk_kind t = CHR ''('' then depth + 1 else if tk_kind t = CHR '')'' then depth - 1 else depth);
          col = (if tk_kind t = CHR ''w'' \<and> depth = 1 then [tk_text t] else []) in
      if depth' = 0 then (col, ts)
      else (case insert_columns depth' ts of (cols, rest) \<Rightarrow> (col @ cols, rest)))"

fun insert_target :: "sqlTok list \<Rightarrow> string \<times> string list \<times> nat option" where
  "insert_target (t # n # ts) =
     (if tk_kind t = CHR ''w'' \<and> EqualFold (tk_text t) ''into'' then
        (let (cols, rest) = (case ts of
               p # _ \<Rightarrow> if tk_kind p = CHR ''('' then insert_columns 0 ts else ([], ts) | [] \<Rightarrow> ([], [])) in
         (tk_text n, cols, case rest of [] \<Rightarrow> None | s # _ \<Rightarrow> Some (tk_start s)))
      else insert_target (n # ts))"
| "insert_target _ = ([], [], None)"

definition parseInsert :: "string \<Rightarrow> string \<times> string list \<times> nat option" where
  "parseInsert sql = insert_target (rlsTokens sql)"

definition hasDoUpdate :: "string \<Rightarrow> bool" where
  "hasDoUpdate sql =
     (let low = ToLower sql in
      case topLevelOnConflict low of Some c \<Rightarrow> Contains (drop c low) ''do update'' | None \<Rightarrow> False)"

definition toInt :: "core_value \<Rightarrow> int" where
  "toInt v = (case v of VInt x \<Rightarrow> x | VFloat w \<Rightarrow> trunc_rat (float_rat w) | _ \<Rightarrow> 0)"

text \<open>The names and default expressions of a table's columns, as the rows of \<open>pragma_table_info\<close> give them;
  \<open>sprint\<close> is how \<open>fmt.Sprint\<close> prints a float.\<close>

definition default_text :: "(core_value \<Rightarrow> string) \<Rightarrow> core_value \<Rightarrow> string" where
  "default_text sprint v =
     (case v of
        VString s \<Rightarrow> if s \<noteq> [] then s else ''NULL''
      | VBytes s \<Rightarrow> if s \<noteq> [] then s else ''NULL''
      | VInt i \<Rightarrow> FormatInt i
      | VFloat _ \<Rightarrow> sprint v
      | _ \<Rightarrow> ''NULL'')"

definition tableColumns :: "'d handlers \<Rightarrow> bool \<Rightarrow> string \<Rightarrow> 'd \<Rightarrow> string list \<times> 'd" where
  "tableColumns H tx table d =
     (case h_exec H d tx (''SELECT name FROM pragma_table_info('' @ sqlStr table @ '')'') [] of
        (Inl e, d') \<Rightarrow> ([], d')
      | (Inr rs, d') \<Rightarrow> (filter (\<lambda>n. n \<noteq> []) (map (\<lambda>row. asString (hd row)) (Rows rs)), d'))"

definition tableDefaults ::
    "'d handlers \<Rightarrow> (core_value \<Rightarrow> string) \<Rightarrow> bool \<Rightarrow> string \<Rightarrow> 'd \<Rightarrow> (string list \<times> string list) \<times> 'd" where
  "tableDefaults H sprint tx table d =
     (case h_exec H d tx (''SELECT name, dflt_value FROM pragma_table_info('' @ sqlStr table @ '')'') [] of
        (Inl e, d') \<Rightarrow> (([], []), d')
      | (Inr rs, d') \<Rightarrow>
          (let rows = filter (\<lambda>row. asString (hd row) \<noteq> []) (Rows rs) in
           ((map (\<lambda>row. asString (hd row)) rows, map (\<lambda>row. default_text sprint (row ! 1)) rows), d')))"

definition rls_violation :: "string \<Rightarrow> string" where
  "rls_violation table = ''new row violates row-level security policy for table '' @ goQuote table"


record rls_ctx =
  rx_auth :: auth_db
  rx_rls :: rls_db
  rx_id :: identity

definition read_filter :: "rls_ctx \<Rightarrow> string \<Rightarrow> string \<Rightarrow> string option" where
  "read_filter x = (\<lambda>table command. rlsFilter (rx_auth x) (rx_rls x) (currentRole (rx_id x)) table command)"

definition source_cte :: "rls_ctx \<Rightarrow> string list \<Rightarrow> string \<Rightarrow> string" where
  "source_cte x cols source =
     ''WITH _rls_src ('' @ Join cols '', '' @ '') AS ('' @
       wrapRLSSelect (\<lambda>t. read_filter x t ''SELECT'') source @ '') ''"

text \<open>The two counts: the rows the source yields, and those of them the filter holds for. A count that
  cannot be taken lets the statement through.\<close>

definition rls_count_check ::
    "'d handlers \<Rightarrow> rls_ctx \<Rightarrow> bool \<Rightarrow> string \<Rightarrow> string \<Rightarrow> string list \<Rightarrow> string \<Rightarrow> core_value list \<Rightarrow> 'd \<Rightarrow>
     (string + result_set) option \<times> 'd" where
  "rls_count_check H x tx bare e cols source ps d =
     (let cte = source_cte x cols source in
      case h_exec H d tx (h_dialect H (cte @ ''SELECT count(*) FROM _rls_src'')) ps of
        (Inl _, d1) \<Rightarrow> (None, d1)
      | (Inr prov, d1) \<Rightarrow>
          if Rows prov = [] then (None, d1)
          else
           (case h_exec H d1 tx
                   (h_dialect H (expandSessionUser (rx_id x) (cte @ ''SELECT count(*) FROM _rls_src WHERE '' @ e))) ps of
              (Inl _, d2) \<Rightarrow> (None, d2)
            | (Inr pass, d2) \<Rightarrow>
                if Rows pass = [] then (None, d2)
                else if toInt (hd (hd (Rows pass))) < toInt (hd (hd (Rows prov))) then
                  (Some (Inl (rls_violation bare)), d2)
                else (None, d2)))"

definition release_savepoint :: "'d handlers \<Rightarrow> bool \<Rightarrow> 'd \<Rightarrow> 'd" where
  "release_savepoint H tx d = snd (h_exec H d tx ''RELEASE _rls_up'' [])"

definition undo_savepoint :: "'d handlers \<Rightarrow> bool \<Rightarrow> 'd \<Rightarrow> 'd" where
  "undo_savepoint H tx d = release_savepoint H tx (snd (h_exec H d tx ''ROLLBACK TO _rls_up'' []))"

definition rlsCheckUpsert ::
    "'d handlers \<Rightarrow> rls_ctx \<Rightarrow> bool \<Rightarrow> string \<Rightarrow> core_value list \<Rightarrow> string \<Rightarrow> 'd \<Rightarrow> (string + result_set) option \<times> 'd" where
  "rlsCheckUpsert H x tx sql ps bare d =
     (let (perm, restr) = gatherPolicies (rx_auth x) (rx_rls x) (currentRole (rx_id x)) bare ''UPDATE'' True;
          body0 = TrimRight sql stmt_end;
          (body, clientRet) = (case topLevelKeyword body0 ''returning'' of
             Some ri \<Rightarrow> (take ri body0, TrimSpace (drop (ri + 9) body0)) | None \<Rightarrow> (body0, []));
          ret0 = paren (combineRLS perm restr) @ '' AS _rls_ok'';
          ret = (if clientRet \<noteq> [] then clientRet @ '', '' @ ret0 else ret0) in
      case h_rewrite H d (body @ '' RETURNING '' @ ret) [] of
        (Inl e, d1) \<Rightarrow> (Some (Inl e), d1)
      | (Inr q, d1) \<Rightarrow>
          (case h_exec H d1 tx ''SAVEPOINT _rls_up'' [] of
             (Inl _, d2) \<Rightarrow> (None, d2)
           | (Inr _, d2) \<Rightarrow>
               (case h_exec H d2 tx q ps of
                  (Inl e, d3) \<Rightarrow> (Some (Inl e), undo_savepoint H tx d3)
                | (Inr rs, d3) \<Rightarrow>
                    (let okCol = length (Columns rs) - 1 in
                     if list_ex (\<lambda>row. Columns rs = [] \<or> \<not> truthy (row ! okCol)) (Rows rs) then
                       (Some (Inl (rls_violation bare)), undo_savepoint H tx d3)
                     else
                       (Some (Inr \<lparr>IsQuery = (clientRet \<noteq> []),
                          Columns = (if clientRet \<noteq> [] then take okCol (Columns rs) else []),
                          Rows = (if clientRet \<noteq> [] then map (take okCol) (Rows rs) else []),
                          RowsAffected = int (length (Rows rs)), Command = ''INSERT''\<rparr>),
                        release_savepoint H tx d3)))))"

text \<open>The source of the rows: what follows the target, up to ON CONFLICT or RETURNING.\<close>

definition insert_source :: "string \<Rightarrow> nat \<Rightarrow> string" where
  "insert_source sql start =
     (let s = TrimRight (drop start sql) stmt_end;
          cut = (case topLevelKeyword s ''returning'' of Some ri \<Rightarrow> min ri (length s) | None \<Rightarrow> length s);
          cut' = (case topLevelOnConflict s of Some ci \<Rightarrow> min ci cut | None \<Rightarrow> cut) in
      TrimRight (take cut' s) stmt_end)"

definition tryRLSInsert ::
    "'d handlers \<Rightarrow> (core_value \<Rightarrow> string) \<Rightarrow> rls_ctx \<Rightarrow> bool \<Rightarrow> string \<Rightarrow> core_value list \<Rightarrow> 'd \<Rightarrow>
     (string + result_set) option \<times> 'd" where
  "tryRLSInsert H sprint x tx sql ps d =
     (if firstWordUpper sql \<noteq> ''INSERT'' then (None, d)
      else
       (case parseInsert sql of
          (target, cols0, start) \<Rightarrow>
            if target = [] \<or> start = None then (None, d)
            else
             (let bare = bareTableName target in
              case rlsCheckExpr (rx_auth x) (rx_rls x) (currentRole (rx_id x)) bare of
                None \<Rightarrow> (None, d)
              | Some e \<Rightarrow>
                  if hasDoUpdate sql then rlsCheckUpsert H x tx sql ps bare d
                  else
                   (let source = insert_source sql (the start);
                        low = ToLower (TrimSpace source);
                        deny = (if e = ''(0)'' then Some (Inl (rls_violation bare)) else None) in
                    if HasPrefix low ''default'' then
                      (case tableDefaults H sprint tx bare d of
                         ((dcols, defs), d1) \<Rightarrow>
                           if dcols = [] then (deny, d1)
                           else rls_count_check H x tx bare e dcols (''SELECT '' @ Join defs '', '') ps d1)
                    else if HasPrefix low ''overriding'' then (deny, d)
                    else
                     (let (cols, d1) = (if cols0 = [] then tableColumns H tx bare d else (cols0, d)) in
                      if cols = [] then (None, d1)
                      else rls_count_check H x tx bare e cols source ps d1)))))"


section \<open>Reads: only secured tables change\<close>

fun tok_chain :: "string \<Rightarrow> nat \<Rightarrow> sqlTok list \<Rightarrow> bool" where
  "tok_chain sql i [] = True"
| "tok_chain sql i (t # ts) =
     (i \<le> tk_start t \<and> tk_start t < tk_end t \<and> tk_end t \<le> length sql \<and>
      tk_text t = Scanner.slice sql (tk_start t) (tk_end t) \<and> tok_chain sql (tk_end t) ts)"

lemma tok_chain_mono: "tok_chain sql j ts \<Longrightarrow> i \<le> j \<Longrightarrow> tok_chain sql i ts"
  by (cases ts) auto

lemma word_end_le: "j \<le> length sql \<Longrightarrow> fst (word_end sql quoted j) \<le> length sql"
proof (induction sql quoted j rule: word_end.induct)
  case (1 sql quoted j)
  show ?case
  proof (cases "j < length sql")
    case True
    let ?k = "j + 1 + length (takeWhile (\<lambda>c. c \<noteq> CHR 0x22) (drop (j + 1) sql))"
    have "?k \<le> length sql"
      using True length_takeWhile_le [of "\<lambda>c. c \<noteq> CHR 0x22" "drop (j + 1) sql"] by simp
    then show ?thesis using 1 True by (subst word_end.simps) (auto simp: Let_def)
  qed (use 1 in \<open>simp add: word_end.simps [of sql]\<close>)
qed

lemma slice_one: "i < length s \<Longrightarrow> Scanner.slice s i (i + 1) = [s ! i]"
  by (simp add: Scanner.slice_def take_Suc_conv_app_nth hd_drop_conv_nth take_Suc Cons_nth_drop_Suc [symmetric])

lemma rlsTokens_from_chain: "tok_chain sql i (rlsTokens_from sql i)"
proof (induction sql i rule: rlsTokens_from.induct)
  case (1 sql i)
  show ?case
  proof (cases "i < length sql")
    case True
    let ?c = "sql ! i"
    consider (lit) "?c = CHR 0x27" | (blank) "?c \<noteq> CHR 0x27" "?c = CHR '' '' \<or> ?c = CHR 0x09 \<or> ?c = CHR 0x0A \<or> ?c = CHR 0x0D"
      | (punct) "?c \<noteq> CHR 0x27" "\<not> (?c = CHR '' '' \<or> ?c = CHR 0x09 \<or> ?c = CHR 0x0A \<or> ?c = CHR 0x0D)"
          "?c = CHR ''('' \<or> ?c = CHR '')'' \<or> ?c = CHR '',''"
      | (word) "?c \<noteq> CHR 0x27" "\<not> (?c = CHR '' '' \<or> ?c = CHR 0x09 \<or> ?c = CHR 0x0A \<or> ?c = CHR 0x0D)"
          "\<not> (?c = CHR ''('' \<or> ?c = CHR '')'' \<or> ?c = CHR '','')" "?c = CHR 0x22 \<or> isIdentStart ?c"
      | (other) "?c \<noteq> CHR 0x27" "\<not> (?c = CHR '' '' \<or> ?c = CHR 0x09 \<or> ?c = CHR 0x0A \<or> ?c = CHR 0x0D)"
          "\<not> (?c = CHR ''('' \<or> ?c = CHR '')'' \<or> ?c = CHR '','')" "\<not> (?c = CHR 0x22 \<or> isIdentStart ?c)" by blast
    then show ?thesis
    proof cases
      case lit
      then have "tok_chain sql (endOfStringLiteral sql i) (rlsTokens_from sql (endOfStringLiteral sql i))"
        using 1(1) True by blast
      then have "tok_chain sql i (rlsTokens_from sql (endOfStringLiteral sql i))"
        using endOfStringLiteral_bounds(1) [OF True] by (auto intro: tok_chain_mono)
      then show ?thesis using True lit rlsTokens_from.simps [of sql i] by simp
    next
      case blank
      then have "tok_chain sql (i + 1) (rlsTokens_from sql (i + 1))" using 1(2) True by blast
      then have "tok_chain sql i (rlsTokens_from sql (i + 1))" by (auto intro: tok_chain_mono)
      then show ?thesis using True blank rlsTokens_from.simps [of sql i] by (simp add: Let_def)
    next
      case punct
      then have "tok_chain sql (i + 1) (rlsTokens_from sql (i + 1))" using 1(3) True by blast
      then show ?thesis using True punct rlsTokens_from.simps [of sql i] slice_one [OF True] by (simp add: Let_def)
    next
      case word
      let ?j = "fst (word_end sql False i)"
      have "tok_chain sql ?j (rlsTokens_from sql ?j)" using 1(4) True word by blast
      moreover have "i < ?j" "?j \<le> length sql"
        using word_end_starts [OF True] word(4) word_end_le [of i sql False] True by auto
      ultimately show ?thesis using True word rlsTokens_from.simps [of sql i] by (simp add: Let_def)
    next
      case other
      then have "tok_chain sql (i + 1) (rlsTokens_from sql (i + 1))" using 1(5) True by blast
      then show ?thesis using True other rlsTokens_from.simps [of sql i] slice_one [OF True] by (simp add: Let_def)
    qed
  qed (simp add: rlsTokens_from.simps [of sql i])
qed

lemma rlsTokens_chain: "tok_chain sql 0 (rlsTokens sql)"
  by (simp add: rlsTokens_def rlsTokens_from_chain)

text \<open>A replacement: it puts the filtered subquery where a secured table's name stands.\<close>

definition secured_by :: "(string \<Rightarrow> string option) \<Rightarrow> string \<Rightarrow> string \<Rightarrow> bool" where
  "secured_by flt orig new \<longleftrightarrow>
     (\<exists>e rest. bareTableName orig \<noteq> [] \<and> flt (bareTableName orig) = Some e \<and> new = wrapped orig e rest)"

fun rep_chain :: "(string \<Rightarrow> string option) \<Rightarrow> string \<Rightarrow> nat \<Rightarrow> (nat \<times> nat \<times> string) list \<Rightarrow> bool" where
  "rep_chain flt sql i [] = True"
| "rep_chain flt sql i ((k, j, new) # reps) =
     (i \<le> k \<and> k < j \<and> j \<le> length sql \<and> secured_by flt (Scanner.slice sql k j) new \<and> rep_chain flt sql j reps)"

lemma rep_chain_mono: "rep_chain flt sql j reps \<Longrightarrow> i \<le> j \<Longrightarrow> rep_chain flt sql i reps"
  by (cases reps) auto

lemma wrap_reps_chain:
  "tok_chain sql i toks \<Longrightarrow> rep_chain flt sql i (wrap_reps flt inFrom expect toks)"
proof (induction toks arbitrary: i inFrom expect)
  case (Cons t ts)
  have rest: "rep_chain flt sql i (wrap_reps flt f x ts)" for f x
  proof -
    have "rep_chain flt sql (tk_end t) (wrap_reps flt f x ts)" using Cons by simp
    then show ?thesis by (rule rep_chain_mono) (use Cons.prems in simp)
  qed
  show ?case
  proof (cases "\<exists>e. wrap_reps flt inFrom expect (t # ts) =
      (tk_start t, tk_end t, wrapped (tk_text t) e ts) # wrap_reps flt inFrom False ts \<and>
      bareTableName (tk_text t) \<noteq> [] \<and> flt (bareTableName (tk_text t)) = Some e")
    case True
    then obtain e where e: "wrap_reps flt inFrom expect (t # ts) =
        (tk_start t, tk_end t, wrapped (tk_text t) e ts) # wrap_reps flt inFrom False ts"
      "bareTableName (tk_text t) \<noteq> []" "flt (bareTableName (tk_text t)) = Some e" by blast
    have t: "i \<le> tk_start t" "tk_start t < tk_end t" "tk_end t \<le> length sql"
      "tk_text t = Scanner.slice sql (tk_start t) (tk_end t)" "tok_chain sql (tk_end t) ts"
      using Cons.prems by simp_all
    have "secured_by flt (Scanner.slice sql (tk_start t) (tk_end t)) (wrapped (tk_text t) e ts)"
      using e(2,3) unfolding t(4) [symmetric] secured_by_def by blast
    then show ?thesis using t(1-3) Cons.IH [OF t(5)] unfolding e(1) rep_chain.simps by blast
  next
    case False
    then have "\<exists>f x. wrap_reps flt inFrom expect (t # ts) = wrap_reps flt f x ts"
      by (auto simp: Let_def split: option.splits if_splits)
    then show ?thesis using rest by metis
  qed
qed simp

lemma slice_join: "i \<le> j \<Longrightarrow> j \<le> length s \<Longrightarrow> Scanner.slice s i j @ drop j s = drop i s"
  by (simp add: Scanner.slice_def) (metis append_take_drop_id drop_drop le_add_diff_inverse2 add.commute)

lemma splice_segments:
  assumes "rep_chain flt sql i reps" "i \<le> length sql"
  shows "\<exists>segs. drop i sql = concat (map fst segs) \<and> splice sql i reps = concat (map snd segs) \<and>
    (\<forall>(orig, new) \<in> set segs. orig = new \<or> secured_by flt orig new)"
  using assms
proof (induction reps arbitrary: i)
  case Nil
  show ?case by (rule exI [of _ "[(drop i sql, drop i sql)]"]) simp
next
  case (Cons rep reps)
  obtain k j new where rep: "rep = (k, j, new)" by (metis prod_cases3)
  then have o: "i \<le> k" "k < j" "j \<le> length sql" "secured_by flt (Scanner.slice sql k j) new" "rep_chain flt sql j reps"
    using Cons.prems(1) by auto
  obtain segs where segs: "drop j sql = concat (map fst segs)" "splice sql j reps = concat (map snd segs)"
      "\<forall>(orig, new) \<in> set segs. orig = new \<or> secured_by flt orig new"
    using Cons.IH [OF o(5,3)] by blast
  have "drop i sql = Scanner.slice sql i k @ Scanner.slice sql k j @ drop j sql"
    using slice_join [of i k sql] slice_join [of k j sql] o by simp
  then show ?case
    using segs o(4) rep
    by (intro exI [of _ "(Scanner.slice sql i k, Scanner.slice sql i k) # (Scanner.slice sql k j, new) # segs"]) auto
qed

lemma wrap_reps_step: "\<exists>pre f x. wrap_reps flt inFrom expect (t # ts) = pre @ wrap_reps flt f x ts"
proof (cases "\<exists>r. wrap_reps flt inFrom expect (t # ts) = r # wrap_reps flt inFrom False ts")
  case True
  then show ?thesis by (metis append_Cons append_Nil)
next
  case False
  then have "\<exists>f x. wrap_reps flt inFrom expect (t # ts) = wrap_reps flt f x ts"
    by (auto simp: Let_def split: option.splits if_splits)
  then show ?thesis by (metis append_Nil)
qed

lemma wrap_reps_after: "\<exists>pre f x. wrap_reps flt inFrom expect (xs @ ys) = pre @ wrap_reps flt f x ys"
proof (induction xs arbitrary: inFrom expect)
  case (Cons t xs)
  obtain pre f x where "wrap_reps flt inFrom expect ((t # xs) @ ys) = pre @ wrap_reps flt f x (xs @ ys)"
    using wrap_reps_step by (metis append_Cons)
  then show ?case using Cons.IH by (metis append.assoc)
qed (metis append_Nil)





section \<open>Inserts: every new row is checked\<close>

lemma filter_less: "length (filter P xs) < length xs \<longleftrightarrow> \<not> list_all P xs"
proof -
  have "length (filter P xs) = length xs \<longleftrightarrow> list_all P xs"
    by (metis Ball_set filter_True filter_id_conv length_filter_less less_irrefl)
  then show ?thesis using length_filter_le [of P xs] by linarith
qed


definition sample_ctx :: rls_ctx where
  "sample_ctx = \<lparr>rx_auth = sample_db, rx_rls = sample_rls, rx_id = bob\<rparr>"


section \<open>Upserts: rolled back unless every row passes\<close>

text \<open>What is assumed of savepoints: expanding the statement and setting a savepoint change no data, what
  runs after it stays behind it, and rolling back to it and releasing it restores the data.\<close>

definition savepoints_restore :: "'d handlers \<Rightarrow> bool \<Rightarrow> ('d \<Rightarrow> 'x) \<Rightarrow> ('d \<Rightarrow> bool) \<Rightarrow> 'x \<Rightarrow> bool" where
  "savepoints_restore H tx data P v \<longleftrightarrow>
     (\<forall>d q ps. data d = v \<longrightarrow> data (snd (h_rewrite H d q ps)) = v) \<and>
     (\<forall>d. data d = v \<longrightarrow> (case h_exec H d tx ''SAVEPOINT _rls_up'' [] of
        (Inl e, d') \<Rightarrow> data d' = v | (Inr r, d') \<Rightarrow> P d')) \<and>
     (\<forall>d q ps. P d \<longrightarrow> P (snd (h_exec H d tx q ps))) \<and>
     (\<forall>d. P d \<longrightarrow> data (undo_savepoint H tx d) = v)"



definition savepoint_handlers :: "(string list \<times> string list) handlers" where
  "savepoint_handlers = sample_handlers\<lparr>h_exec := \<lambda>d tx q ps.
     if q = ''SAVEPOINT _rls_up'' \<or> q = ''RELEASE _rls_up'' then (Inr (command_result q), d)
     else if q = ''ROLLBACK TO _rls_up'' then (Inr (command_result q), (fst d, fst d))
     else (Inl ''UNIQUE constraint failed'', (fst d, snd d @ [q]))\<rparr>"


section \<open>Where the scan does not see a table\<close>

text \<open>A word in a comment takes the place of the table; a table in parentheses, and one after a comma that
  follows ON or USING, are not looked at; an UPDATE does not filter what it reads, and WITH in front of
  it leaves its target alone.\<close>

lemma reads_unfiltered:
  defines "flt \<equiv> (\<lambda>t. \<lambda>c. if t = ''doc'' then Some ''(0)'' else None)"
  shows "applyRLS flt ''SELECT * FROM /* x */ doc'' = ''SELECT * FROM /* x */ doc''"
    "applyRLS flt ''SELECT * FROM (doc)'' = ''SELECT * FROM (doc)''"
    "applyRLS flt ''SELECT * FROM a JOIN c ON a.x = c.x, doc'' = ''SELECT * FROM a JOIN c ON a.x = c.x, doc''"
    "applyRLS flt ''UPDATE mine SET v = (SELECT v FROM doc)'' = ''UPDATE mine SET v = (SELECT v FROM doc)''"
    "applyRLS flt ''WITH a AS (SELECT 1) UPDATE doc SET v = 1'' = ''WITH a AS (SELECT 1) UPDATE doc SET v = 1''"
    "applyRLS flt ''REPLACE INTO doc VALUES (1)'' = ''REPLACE INTO doc VALUES (1)''"
  unfolding flt_def by code_simp+

text \<open>The condition of a write is pasted between parentheses; one that closes them turns the filter into
  one side of an OR.\<close>

lemma where_escapes:
  "applyRLS (\<lambda>t c. Some ''(0)'') ''DELETE FROM doc WHERE 1=1) OR (1=1'' = ''DELETE FROM doc WHERE (((0)) AND (1=1) OR (1=1))''"
  by code_simp

text \<open>An upsert is held against the UPDATE policies alone, also for the rows it inserts.\<close>

lemma upsert_ignores_insert_policies:
  assumes "filter (\<lambda>p. ToUpper (pol_command p) \<in> {''ALL'', ''UPDATE''}) ps = filter (\<lambda>p. ToUpper (pol_command p) \<in> {''ALL'', ''UPDATE''}) ps'"
  shows "rlsCheckUpsert H (x\<lparr>rx_rls := d\<lparr>policies := ps\<rparr>\<rparr>) tx sql vs bare s =
    rlsCheckUpsert H (x\<lparr>rx_rls := d\<lparr>policies := ps'\<rparr>\<rparr>) tx sql vs bare s"
proof -
  have up: "ToUpper ''UPDATE'' = ''UPDATE''" by code_simp
  have "filter (relevant db cur bare ''UPDATE'') qs =
      filter (relevant db cur bare ''UPDATE'') (filter (\<lambda>p. ToUpper (pol_command p) \<in> {''ALL'', ''UPDATE''}) qs)" for db cur qs
    by (auto simp: relevant_def up filter_filter intro: filter_cong)
  then have "filter (relevant db cur bare ''UPDATE'') ps = filter (relevant db cur bare ''UPDATE'') ps'" for db cur
    using assms by metis
  then show ?thesis by (simp add: rlsCheckUpsert_def gatherPolicies_def)
qed

end
