(* ===== verification/GoTime.thy ===== *)
theory GoTime
  imports GoStrings
begin

text \<open>
  The part of Go's package \<open>time\<close> that the date functions (\<open>engine/datefuncs.go\<close>) and the binary
  encodings of times (\<open>protocol/postgres/binarytime.go\<close>, \<open>timestamptz.go\<close>, \<open>paramdecode.go\<close>) use: the
  proleptic Gregorian calendar, \<open>time.Date\<close> with its normalisation, durations that saturate at 64
  bits, and \<open>time.Parse\<close> and \<open>Time.Format\<close> over layouts. A \<open>time.Time\<close> is the nanoseconds since the
  Unix epoch with the offset of its location in seconds; the process itself runs in UTC, so a parsed
  zero offset is UTC.
\<close>

record gtime =
  ns :: int
  zoff :: int

definition utc :: "int \<Rightarrow> gtime" where
  "utc n = \<lparr>ns = n, zoff = 0\<rparr>"

section \<open>The calendar\<close>

definition leap :: "int \<Rightarrow> bool" where
  "leap y \<longleftrightarrow> y mod 4 = 0 \<and> (y mod 100 \<noteq> 0 \<or> y mod 400 = 0)"

definition daysIn :: "int \<Rightarrow> int \<Rightarrow> int" where
  "daysIn m y = (if m = 2 then (if leap y then 29 else 28) else if m \<in> {4, 6, 9, 11} then 30 else 31)"

text \<open>Days from 0001-01-01 to the start of a year, and from there to the start of a month.\<close>

definition year_start :: "int \<Rightarrow> int" where
  "year_start y = 365 * (y - 1) + (y - 1) div 4 - (y - 1) div 100 + (y - 1) div 400"

definition month_start :: "int \<Rightarrow> int \<Rightarrow> int" where
  "month_start y m =
     [0, 31, 59, 90, 120, 151, 181, 212, 243, 273, 304, 334] ! nat (m - 1) + (if 2 < m \<and> leap y then 1 else 0)"

definition day_number :: "int \<Rightarrow> int \<Rightarrow> int \<Rightarrow> int" where
  "day_number y m d = year_start y + month_start y m + d - 1"

definition year_of :: "int \<Rightarrow> int" where
  "year_of n =
     (let y = n * 400 div 146097 + 1 in
      if n < year_start y then y - 1 else if year_start (y + 1) \<le> n then y + 1 else y)"

definition month_of :: "int \<Rightarrow> int \<Rightarrow> int" where
  "month_of y k = int (length (filter (\<lambda>m. month_start y m \<le> k) [1..12]))"

definition civil :: "int \<Rightarrow> int \<times> int \<times> int" where
  "civil n =
     (let y = year_of n; k = n - year_start y; m = month_of y k in (y, m, k - month_start y m + 1))"

definition valid_date :: "int \<Rightarrow> int \<Rightarrow> int \<Rightarrow> bool" where
  "valid_date y m d \<longleftrightarrow> 1 \<le> m \<and> m \<le> 12 \<and> 1 \<le> d \<and> d \<le> daysIn m y"

definition unix_day :: int where
  "unix_day = 719162"

abbreviation nanos_per_day :: int where
  "nanos_per_day \<equiv> 86400000000000"

text \<open>\<open>time.Date\<close>: the month is reduced into its year, every other field just adds up.\<close>

definition go_date :: "int \<Rightarrow> int \<Rightarrow> int \<Rightarrow> int \<Rightarrow> int \<Rightarrow> int \<Rightarrow> int \<Rightarrow> int \<Rightarrow> gtime" where
  "go_date y m d h mi s n off =
     (let y' = y + (m - 1) div 12; m' = (m - 1) mod 12 + 1 in
      \<lparr>ns = (((day_number y' m' d - unix_day) * 24 + h) * 60 + mi) * 60000000000
             + (s - off) * 1000000000 + n, zoff = off\<rparr>)"

text \<open>The fields of a time, in its own location.\<close>

definition wall :: "gtime \<Rightarrow> int" where
  "wall t = ns t + zoff t * 1000000000"

definition wall_day :: "gtime \<Rightarrow> int" where
  "wall_day t = wall t div nanos_per_day + unix_day"

definition t_year :: "gtime \<Rightarrow> int" where "t_year t = fst (civil (wall_day t))"
definition t_month :: "gtime \<Rightarrow> int" where "t_month t = fst (snd (civil (wall_day t)))"
definition t_day :: "gtime \<Rightarrow> int" where "t_day t = snd (snd (civil (wall_day t)))"
definition t_hour :: "gtime \<Rightarrow> int" where "t_hour t = wall t mod nanos_per_day div 3600000000000"
definition t_minute :: "gtime \<Rightarrow> int" where "t_minute t = wall t mod 3600000000000 div 60000000000"
definition t_second :: "gtime \<Rightarrow> int" where "t_second t = wall t mod 60000000000 div 1000000000"
definition t_nano :: "gtime \<Rightarrow> int" where "t_nano t = wall t mod 1000000000"

text \<open>Sunday is 0; 0001-01-01 was a Monday.\<close>

definition t_weekday :: "gtime \<Rightarrow> int" where
  "t_weekday t = (wall_day t + 1) mod 7"

definition t_yearday :: "gtime \<Rightarrow> int" where
  "t_yearday t = wall_day t - year_start (t_year t) + 1"

definition t_unix :: "gtime \<Rightarrow> int" where
  "t_unix t = ns t div 1000000000"

text \<open>\<open>ISOWeek\<close>: the year and number of the week, by the Thursday of that week.\<close>

definition ISOWeek :: "gtime \<Rightarrow> int \<times> int" where
  "ISOWeek t =
     (let thursday = wall_day t + 3 - (wall_day t) mod 7; y = year_of thursday in
      (y, (thursday - year_start y) div 7 + 1))"

definition to_utc :: "gtime \<Rightarrow> gtime" where
  "to_utc t = utc (ns t)"

definition addDate :: "gtime \<Rightarrow> int \<Rightarrow> int \<Rightarrow> int \<Rightarrow> gtime" where
  "addDate t y m d =
     go_date (t_year t + y) (t_month t + m) (t_day t + d) (t_hour t) (t_minute t) (t_second t) (t_nano t) (zoff t)"

text \<open>\<open>Truncate\<close> rounds down to a multiple of the duration since 0001-01-01 UTC.\<close>

definition truncate_to :: "gtime \<Rightarrow> int \<Rightarrow> gtime" where
  "truncate_to t dur = t\<lparr>ns := ns t - (ns t + unix_day * nanos_per_day) mod dur\<rparr>"

text \<open>A \<open>Duration\<close> is 64 bits: \<open>Sub\<close> saturates, multiplication wraps around.\<close>

definition max_duration :: int where
  "max_duration = 9223372036854775807"

definition go_sub :: "gtime \<Rightarrow> gtime \<Rightarrow> int" where
  "go_sub t u =
     (let d = ns t - ns u in
      if in_int64 d then d else if d < 0 then - max_duration - 1 else max_duration)"

definition wrap64 :: "int \<Rightarrow> int" where
  "wrap64 i = signed_take_bit 63 i"

definition go_add :: "gtime \<Rightarrow> int \<Rightarrow> gtime" where
  "go_add t dur = t\<lparr>ns := ns t + dur\<rparr>"

text \<open>Go's division of integers truncates towards zero.\<close>

definition quo :: "int \<Rightarrow> int \<Rightarrow> int" where
  "quo a d = (if a < 0 then - ((- a) div d) else a div d)"

section \<open>Layouts\<close>

text \<open>The elements the program's layouts are made of, read off the reference time.\<close>

datatype chunk =
    Year | Month | Day | Hour | Minute | Second
  | Frac nat
  | NumTZ
  | NumColonTZ
  | IsoColonTZ
  | ZoneName
  | Lit char

fun is_lit :: "chunk \<Rightarrow> bool" where
  "is_lit (Lit c) = True"
| "is_lit _ = False"

function chunks :: "string \<Rightarrow> chunk list" where
  "chunks l =
     (if l = [] then []
      else if HasPrefix l ''2006'' then Year # chunks (drop 4 l)
      else if HasPrefix l ''01'' then Month # chunks (drop 2 l)
      else if HasPrefix l ''02'' then Day # chunks (drop 2 l)
      else if HasPrefix l ''15'' then Hour # chunks (drop 2 l)
      else if HasPrefix l ''04'' then Minute # chunks (drop 2 l)
      else if HasPrefix l ''05'' then Second # chunks (drop 2 l)
      else if HasPrefix l ''.9'' then
        (let n = length (takeWhile (\<lambda>c. c = CHR ''9'') (tl l)) in Frac n # chunks (drop (Suc n) l))
      else if HasPrefix l ''-07:00'' then NumColonTZ # chunks (drop 6 l)
      else if HasPrefix l ''-07'' then NumTZ # chunks (drop 3 l)
      else if HasPrefix l ''Z07:00'' then IsoColonTZ # chunks (drop 6 l)
      else if HasPrefix l ''MST'' then ZoneName # chunks (drop 3 l)
      else Lit (hd l) # chunks (tl l))"
  by auto
termination
  by (relation "measure length") (simp_all add: diff_less)

declare chunks.simps [simp del]

section \<open>Format\<close>

definition pad :: "nat \<Rightarrow> nat \<Rightarrow> string" where
  "pad w n = (let s = nat_str n in replicate (w - length s) (CHR ''0'') @ s)"

definition appendInt :: "int \<Rightarrow> nat \<Rightarrow> string" where
  "appendInt x w = (if x < 0 then CHR ''-'' # pad w (nat (- x)) else pad w (nat x))"

definition frac9 :: "int \<Rightarrow> string" where
  "frac9 n = map (\<lambda>k. digit_char (nat (n div 10 ^ k mod 10))) [8, 7, 6, 5, 4, 3, 2, 1, 0]"

text \<open>\<open>appendNano\<close> for a layout of nines: at most that many digits, trailing zeros dropped, and the
  point too when nothing is left.\<close>

definition fmt_frac :: "nat \<Rightarrow> int \<Rightarrow> string" where
  "fmt_frac w n =
     (let ds = rev (dropWhile (\<lambda>c. c = CHR ''0'') (rev (take w (frac9 n)))) in
      if ds = [] then [] else CHR ''.'' # ds)"

definition fmt_zone :: "bool \<Rightarrow> bool \<Rightarrow> int \<Rightarrow> string" where
  "fmt_zone mins colon off =
     (let z = quo off 60; a = nat \<bar>z\<bar> in
      (if z < 0 then CHR ''-'' else CHR ''+'') # pad 2 (a div 60) @
      (if mins then (if colon then '':'' else []) @ pad 2 (a mod 60) else []))"

fun fmt_chunk :: "gtime \<Rightarrow> chunk \<Rightarrow> string" where
  "fmt_chunk t Year = appendInt (t_year t) 4"
| "fmt_chunk t Month = appendInt (t_month t) 2"
| "fmt_chunk t Day = appendInt (t_day t) 2"
| "fmt_chunk t Hour = appendInt (t_hour t) 2"
| "fmt_chunk t Minute = appendInt (t_minute t) 2"
| "fmt_chunk t Second = appendInt (t_second t) 2"
| "fmt_chunk t (Frac n) = fmt_frac n (t_nano t)"
| "fmt_chunk t NumTZ = fmt_zone False False (zoff t)"
| "fmt_chunk t NumColonTZ = fmt_zone True True (zoff t)"
| "fmt_chunk t IsoColonTZ = (if zoff t = 0 then ''Z'' else fmt_zone True True (zoff t))"
| "fmt_chunk t ZoneName = (if zoff t = 0 then ''UTC'' else fmt_zone True False (zoff t))"
| "fmt_chunk t (Lit c) = [c]"

definition format_chunks :: "chunk list \<Rightarrow> gtime \<Rightarrow> string" where
  "format_chunks cs t = concat (map (fmt_chunk t) cs)"

definition format_time :: "string \<Rightarrow> gtime \<Rightarrow> string" where
  "format_time layout t = format_chunks (chunks layout) t"

section \<open>Parse\<close>

record fields_read =
  yr :: int
  mon :: int
  dy :: int
  hr :: int
  mi :: int
  sc :: int
  nsec :: int
  zone :: "int option"

text \<open>\<open>getnum\<close>: two digits, or one when the element allows it.\<close>

definition getnum :: "string \<Rightarrow> bool \<Rightarrow> (int \<times> string) option" where
  "getnum v fixed =
     (case v of
        [] \<Rightarrow> None
      | c # v' \<Rightarrow>
          if \<not> is_digit c then None
          else (case v' of
                  d # v'' \<Rightarrow> if is_digit d then Some (int ((code c - 48) * 10 + (code d - 48)), v'')
                             else if fixed then None else Some (int (code c - 48), v')
                | [] \<Rightarrow> if fixed then None else Some (int (code c - 48), v')))"

definition parse_nanos :: "string \<Rightarrow> int" where
  "parse_nanos ds =
     (let ds = take 9 ds in
      case digits_val 0 ds of None \<Rightarrow> 0 | Some n \<Rightarrow> int n * 10 ^ (9 - length ds))"

definition frac_at :: "string \<Rightarrow> bool" where
  "frac_at v \<longleftrightarrow> 2 \<le> length v \<and> (v ! 0 = CHR ''.'' \<or> v ! 0 = CHR '','') \<and> is_digit (v ! 1)"

definition read_frac :: "string \<Rightarrow> fields_read \<Rightarrow> string \<times> fields_read" where
  "read_frac v f =
     (let ds = takeWhile is_digit (tl v) in (drop (Suc (length ds)) v, f\<lparr>nsec := parse_nanos ds\<rparr>))"

definition in_range :: "int \<Rightarrow> int \<Rightarrow> (int \<times> string) option \<Rightarrow> (int \<times> string) option" where
  "in_range lo hi r = (case r of Some (n, v) \<Rightarrow> if lo \<le> n \<and> n < hi then Some (n, v) else None | None \<Rightarrow> None)"

definition parse_zone :: "bool \<Rightarrow> string \<Rightarrow> (int \<times> string) option" where
  "parse_zone colon v =
     (let w = (if colon then 6 else 3) in
      if length v < w \<or> colon \<and> v ! 3 \<noteq> CHR '':'' then None
      else (case (getnum (take 2 (drop 1 v)) True,
                  if colon then getnum (take 2 (drop 4 v)) True else Some (0, [])) of
              (Some (h, _), Some (m, _)) \<Rightarrow>
                if 24 < h \<or> 60 < m then None
                else if v ! 0 = CHR ''+'' then Some ((h * 60 + m) * 60, drop w v)
                else if v ! 0 = CHR ''-'' then Some (- ((h * 60 + m) * 60), drop w v)
                else None
            | _ \<Rightarrow> None))"

fun parse_chunk :: "chunk \<Rightarrow> chunk list \<Rightarrow> string \<Rightarrow> fields_read \<Rightarrow> (string \<times> fields_read) option" where
  "parse_chunk Year _ v f =
     (if length v < 4 \<or> \<not> is_digit (v ! 0) then None
      else (case digits_val 0 (take 4 v) of None \<Rightarrow> None | Some n \<Rightarrow> Some (drop 4 v, f\<lparr>yr := int n\<rparr>)))"
| "parse_chunk Month _ v f =
     (case in_range 1 13 (getnum v True) of None \<Rightarrow> None | Some (n, v') \<Rightarrow> Some (v', f\<lparr>mon := n\<rparr>))"
| "parse_chunk Day _ v f =
     (case getnum v True of None \<Rightarrow> None | Some (n, v') \<Rightarrow> Some (v', f\<lparr>dy := n\<rparr>))"
| "parse_chunk Hour _ v f =
     (case in_range 0 24 (getnum v False) of None \<Rightarrow> None | Some (n, v') \<Rightarrow> Some (v', f\<lparr>hr := n\<rparr>))"
| "parse_chunk Minute _ v f =
     (case in_range 0 60 (getnum v True) of None \<Rightarrow> None | Some (n, v') \<Rightarrow> Some (v', f\<lparr>mi := n\<rparr>))"
| "parse_chunk Second rest v f =
     (case in_range 0 60 (getnum v True) of
        None \<Rightarrow> None
      | Some (n, v') \<Rightarrow>
          (let f' = f\<lparr>sc := n\<rparr> in
           if frac_at v' \<and> (case dropWhile is_lit rest of Frac _ # _ \<Rightarrow> False | _ \<Rightarrow> True) then Some (read_frac v' f')
           else Some (v', f')))"
| "parse_chunk (Frac _) _ v f = (if frac_at v then Some (read_frac v f) else Some (v, f))"
| "parse_chunk NumTZ _ v f =
     (case parse_zone False v of None \<Rightarrow> None | Some (z, v') \<Rightarrow> Some (v', f\<lparr>zone := Some z\<rparr>))"
| "parse_chunk NumColonTZ _ v f =
     (case parse_zone True v of None \<Rightarrow> None | Some (z, v') \<Rightarrow> Some (v', f\<lparr>zone := Some z\<rparr>))"
| "parse_chunk IsoColonTZ _ v f =
     (if v \<noteq> [] \<and> hd v = CHR ''Z'' then Some (tl v, f\<lparr>zone := Some 0\<rparr>)
      else (case parse_zone True v of None \<Rightarrow> None | Some (z, v') \<Rightarrow> Some (v', f\<lparr>zone := Some z\<rparr>)))"
| "parse_chunk ZoneName _ v f = None"
| "parse_chunk (Lit c) _ v f =
     (if c = CHR '' '' then
        (if v \<noteq> [] \<and> hd v \<noteq> CHR '' '' then None else Some (dropWhile (\<lambda>c. c = CHR '' '') v, f))
      else if v \<noteq> [] \<and> hd v = c then Some (tl v, f)
      else None)"

fun parse_chunks :: "chunk list \<Rightarrow> string \<Rightarrow> fields_read \<Rightarrow> fields_read option" where
  "parse_chunks [] v f = (if v = [] then Some f else None)"
| "parse_chunks (c # cs) v f =
     (case parse_chunk c cs v f of None \<Rightarrow> None | Some (v', f') \<Rightarrow> parse_chunks cs v' f')"

definition no_fields :: fields_read where
  "no_fields = \<lparr>yr = 0, mon = 1, dy = 1, hr = 0, mi = 0, sc = 0, nsec = 0, zone = None\<rparr>"

definition time_of_fields :: "fields_read \<Rightarrow> gtime option" where
  "time_of_fields f =
     (if 1 \<le> dy f \<and> dy f \<le> daysIn (mon f) (yr f) then
        Some (go_date (yr f) (mon f) (dy f) (hr f) (mi f) (sc f) (nsec f) (case zone f of None \<Rightarrow> 0 | Some z \<Rightarrow> z))
      else None)"

definition parse_time :: "string \<Rightarrow> string \<Rightarrow> gtime option" where
  "parse_time layout v =
     (case parse_chunks (chunks layout) v no_fields of None \<Rightarrow> None | Some f \<Rightarrow> time_of_fields f)"

text \<open>The first layout of a list that a value fits.\<close>

fun first_layout :: "string list \<Rightarrow> string \<Rightarrow> gtime option" where
  "first_layout [] v = None"
| "first_layout (l # ls) v = (case parse_time l v of Some t \<Rightarrow> Some t | None \<Rightarrow> first_layout ls v)"

section \<open>The calendar is a bijection\<close>


lemma div_pred: "0 < k \<Longrightarrow> (y - 1) div k = y div k - (if y mod k = 0 then 1 else (0 :: int))"
proof (cases "y mod k = 0")
  case True
  assume k: "0 < k"
  have "y - 1 = k * (y div k - 1) + (k - 1)" using True mult_div_mod_eq [of k y] by (simp add: algebra_simps)
  then have "(y - 1) div k = y div k - 1" by (rule int_div_pos_eq) (use k in auto)
  then show ?thesis using True by simp
next
  case False
  assume k: "0 < k"
  have r: "0 < y mod k" using False k pos_mod_sign [of k y] by linarith
  have "y - 1 = k * (y div k) + (y mod k - 1)" using mult_div_mod_eq [of k y] by simp
  then have "(y - 1) div k = y div k" by (rule int_div_pos_eq) (use r k pos_mod_bound [of k y] in linarith)+
  then show ?thesis using False by simp
qed

lemma year_start_Suc: "year_start (y + 1) = year_start y + (if leap y then 366 else 365)"
proof -
  have "y mod 100 = 0 \<Longrightarrow> y mod 4 = 0" "y mod 400 = 0 \<Longrightarrow> y mod 100 = 0" by presburger+
  then show ?thesis by (auto simp: year_start_def leap_def div_pred)
qed

lemma year_start_mono: "y \<le> z \<Longrightarrow> year_start y \<le> year_start z"
proof (induction "nat (z - y)" arbitrary: z)
  case (Suc n)
  then have "year_start y \<le> year_start (z - 1)" by simp
  also have "\<dots> \<le> year_start z" using year_start_Suc [of "z - 1"] by (simp split: if_splits)
  finally show ?case .
qed simp

lemma year_start_bounds:
  "146097 * (y - 1) - 797 \<le> 400 * year_start y" "400 * year_start y \<le> 146097 * (y - 1) + 396"
proof -
  define x where "x = y - 1"
  define a b c where "a = x div 4" and "b = x div 100" and "c = x div 400"
  have "4 * a \<le> x" "x \<le> 4 * a + 3" "100 * b \<le> x" "x \<le> 100 * b + 99" "400 * c \<le> x" "x \<le> 400 * c + 399"
    unfolding a_def b_def c_def by presburger+
  moreover have "year_start y = 365 * x + a - b + c" by (simp add: year_start_def x_def a_def b_def c_def)
  ultimately show "146097 * (y - 1) - 797 \<le> 400 * year_start y" "400 * year_start y \<le> 146097 * (y - 1) + 396"
    unfolding x_def [symmetric] by linarith+
qed

lemma year_of_bounds: "year_start (year_of n) \<le> n \<and> n < year_start (year_of n + 1)"
proof -
  define y where "y = n * 400 div 146097 + 1"
  have m: "146097 * (y - 1) \<le> n * 400" "n * 400 < 146097 * y"
    using pos_mod_bound [of 146097 "n * 400"] pos_mod_sign [of 146097 "n * 400"]
      div_mult_mod_eq [of "n * 400" 146097] by (auto simp: y_def)
  have lo: "year_start (y - 1) \<le> n"
    using m year_start_bounds(2) [of "y - 1"] by (simp add: algebra_simps)
  have hi: "n < year_start (y + 2)"
    using m year_start_bounds(1) [of "y + 2"] by (simp add: algebra_simps)
  show ?thesis
    using lo hi year_start_mono [of "y - 1" y] unfolding year_of_def Let_def y_def [symmetric]
    by (auto simp: add.assoc)
qed

lemma year_of_eq: "year_start y \<le> n \<Longrightarrow> n < year_start (y + 1) \<Longrightarrow> year_of n = y"
  using year_of_bounds [of n] year_start_mono [of "year_of n + 1" y] year_start_mono [of "y + 1" "year_of n"]
  by (cases "year_of n < y"; cases "y < year_of n") auto

lemma month_cases: "1 \<le> m \<Longrightarrow> m \<le> 12 \<Longrightarrow>
    m = 1 \<or> m = 2 \<or> m = 3 \<or> m = 4 \<or> m = 5 \<or> m = 6 \<or> m = 7 \<or> m = 8 \<or> m = 9 \<or> m = 10 \<or> m = 11 \<or> m = (12 :: int)"
  by presburger

lemma month_of_eq:
  assumes "1 \<le> m" "m \<le> 12" "month_start y m \<le> k" "k < month_start y m + daysIn m y"
  shows "month_of y k = m"
proof -
  have u: "[1..12] = [1, 2, 3, 4, 5, 6, 7, 8, 9, 10, 11, 12 :: int]" by (simp add: upto.simps)
  show ?thesis
    using month_cases [OF assms(1,2)] assms(3,4)
    unfolding month_of_def u
    by (elim disjE) (simp_all add: month_start_def daysIn_def numeral_eq_Suc split: if_splits)
qed


lemma month_start_next:
  "1 \<le> m \<Longrightarrow> m \<le> 12 \<Longrightarrow>
     month_start y m + daysIn m y = (if m = 12 then (if leap y then 366 else 365) else month_start y (m + 1))"
  by (drule (1) month_cases, elim disjE) (simp_all add: month_start_def daysIn_def numeral_eq_Suc)

lemma month_start_1 [simp]: "month_start y 1 = 0"
  by (simp add: month_start_def)

lemma month_start_nonneg: "1 \<le> m \<Longrightarrow> m \<le> 12 \<Longrightarrow> 0 \<le> month_start y m"
  by (drule (1) month_cases, elim disjE) (simp_all add: month_start_def numeral_eq_Suc)

lemma month_start_end:
  "1 \<le> m \<Longrightarrow> m \<le> 12 \<Longrightarrow> month_start y m + daysIn m y \<le> (if leap y then 366 else 365)"
  by (drule (1) month_cases, elim disjE) (simp_all add: month_start_def daysIn_def numeral_eq_Suc)

text \<open>Every day of a year lies in one of its months.\<close>

lemma month_of_bounds:
  assumes "0 \<le> k" "k < (if leap y then 366 else 365)"
  shows "1 \<le> month_of y k \<and> month_of y k \<le> 12 \<and> month_start y (month_of y k) \<le> k
           \<and> k < month_start y (month_of y k) + daysIn (month_of y k) y"
proof -
  have "\<exists>m. 1 \<le> m \<and> m \<le> 12 \<and> month_start y m \<le> k \<and> k < month_start y m + daysIn m y"
  proof (rule ccontr)
    assume "\<not> ?thesis"
    then have no: "month_start y m \<le> k \<Longrightarrow> 1 \<le> m \<Longrightarrow> m \<le> 12 \<Longrightarrow> month_start y m + daysIn m y \<le> k" for m
      by force
    have "int n < 12 \<Longrightarrow> month_start y (1 + int n) + daysIn (1 + int n) y \<le> k" for n
    proof (induction n)
      case 0 show ?case using no [of 1] assms(1) by simp
    next
      case (Suc n)
      then show ?case using no [of "1 + int (Suc n)"] month_start_next [of "1 + int n" y]
        by (simp add: add.commute add.left_commute)
    qed
    from this [of 11] show False using month_start_next [of 12 y] assms(2) by simp
  qed
  then obtain m where m: "1 \<le> m" "m \<le> 12" "month_start y m \<le> k" "k < month_start y m + daysIn m y" by blast
  show ?thesis using month_of_eq [OF m] m by simp
qed

lemma civil_day_number: "valid_date y m d \<Longrightarrow> civil (day_number y m d) = (y, m, d)"
proof -
  assume v: "valid_date y m d"
  define k where "k = month_start y m + d - 1"
  have k: "month_start y m \<le> k" "k < month_start y m + daysIn m y" "0 \<le> k" "k < (if leap y then 366 else 365)"
    using v month_start_nonneg [of m y] month_start_end [of m y] by (auto simp: valid_date_def k_def)
  have n: "day_number y m d = year_start y + k" by (simp add: day_number_def k_def)
  have "year_of (day_number y m d) = y"
    unfolding n by (rule year_of_eq) (use k(3,4) year_start_Suc [of y] in linarith)+
  moreover have "month_of y k = m"
    by (rule month_of_eq) (use v k in \<open>auto simp: valid_date_def\<close>)
  ultimately show ?thesis by (simp add: civil_def Let_def n) (simp add: k_def)
qed

lemma day_number_civil:
  "civil n = (y, m, d) \<Longrightarrow> valid_date y m d \<and> day_number y m d = n"
proof -
  assume c: "civil n = (y, m, d)"
  define k where "k = n - year_start y"
  have y: "y = year_of n" and m: "m = month_of y k" and d: "d = k - month_start y m + 1"
    using c by (auto simp: civil_def Let_def k_def)
  have "0 \<le> k" "k < (if leap y then 366 else 365)"
    using year_of_bounds [of n] year_start_Suc [of "year_of n"] by (auto simp: k_def y)
  note b = month_of_bounds [OF this, folded m]
  show ?thesis using b by (simp add: valid_date_def d day_number_def) (simp add: k_def)
qed

section \<open>The fields of a time\<close>


lemma wall_go_date:
  assumes "1 \<le> m" "m \<le> 12"
  shows "wall (go_date y m d h mn s n off) =
    (day_number y m d - unix_day) * nanos_per_day + (h * 3600000000000 + (mn * 60000000000 + (s * 1000000000 + n)))"
  using assms by (simp add: go_date_def wall_def Let_def algebra_simps)

lemma zoff_go_date [simp]: "zoff (go_date y m d h mn s n off) = off"
  by (simp add: go_date_def Let_def)

lemma split_nested: "(a * c + r) div c = (a :: int)" "(a * c + r) mod c = r" if "0 \<le> r" "r < c"
  using that by (simp_all)

definition valid_clock :: "int \<Rightarrow> int \<Rightarrow> int \<Rightarrow> int \<Rightarrow> bool" where
  "valid_clock h mn s n \<longleftrightarrow> 0 \<le> h \<and> h < 24 \<and> 0 \<le> mn \<and> mn < 60 \<and> 0 \<le> s \<and> s < 60 \<and> 0 \<le> n \<and> n < 1000000000"

lemma fields_go_date:
  fixes off :: int
  assumes v: "valid_date y m d" and c: "valid_clock h mn s n"
  defines "t \<equiv> go_date y m d h mn s n off"
  shows "t_year t = y" "t_month t = m" "t_day t = d" "t_hour t = h" "t_minute t = mn" "t_second t = s"
    "t_nano t = n"
proof -
  define D where "D = day_number y m d - unix_day"
  have m: "1 \<le> m" "m \<le> 12" using v by (auto simp: valid_date_def)
  have w: "wall t = D * nanos_per_day + (h * 3600000000000 + (mn * 60000000000 + (s * 1000000000 + n)))"
    unfolding t_def D_def by (rule wall_go_date [OF m])
  have b0: "0 \<le> s * 1000000000 + n" "s * 1000000000 + n < 60000000000" using c by (auto simp: valid_clock_def)
  have b1: "0 \<le> mn * 60000000000 + (s * 1000000000 + n)" "mn * 60000000000 + (s * 1000000000 + n) < 3600000000000"
    using c b0 by (auto simp: valid_clock_def)
  have b2: "0 \<le> h * 3600000000000 + (mn * 60000000000 + (s * 1000000000 + n))"
    "h * 3600000000000 + (mn * 60000000000 + (s * 1000000000 + n)) < nanos_per_day"
    using c b1 by (auto simp: valid_clock_def)
  have "wall_day t = day_number y m d"
    unfolding wall_day_def w split_nested(1) [OF b2] D_def by simp
  then have "civil (wall_day t) = (y, m, d)" using civil_day_number [OF v] by simp
  then show "t_year t = y" "t_month t = m" "t_day t = d" by (simp_all add: t_year_def t_month_def t_day_def)
  show "t_hour t = h" unfolding t_hour_def w split_nested(2) [OF b2] using split_nested(1) [OF b1] .
  have w1: "wall t = (D * 24 + h) * 3600000000000 + (mn * 60000000000 + (s * 1000000000 + n))" by (simp add: w)
  show "t_minute t = mn" unfolding t_minute_def w1 split_nested(2) [OF b1] using split_nested(1) [OF b0] .
  have w2: "wall t = ((D * 24 + h) * 60 + mn) * 60000000000 + (s * 1000000000 + n)" by (simp add: w)
  show "t_second t = s" unfolding t_second_def w2 split_nested(2) [OF b0]
    by (rule split_nested(1)) (use c in \<open>simp_all add: valid_clock_def\<close>)
  have w3: "wall t = (((D * 24 + h) * 60 + mn) * 60 + s) * 1000000000 + n" by (simp add: w)
  show "t_nano t = n" unfolding t_nano_def w3
    by (rule split_nested(2)) (use c in \<open>simp_all add: valid_clock_def\<close>)
qed

lemma valid_fields:
  "valid_date (t_year t) (t_month t) (t_day t)" "valid_clock (t_hour t) (t_minute t) (t_second t) (t_nano t)"
  "day_number (t_year t) (t_month t) (t_day t) = wall_day t"
proof -
  obtain y m d where c: "civil (wall_day t) = (y, m, d)" by (metis surj_pair)
  show "valid_date (t_year t) (t_month t) (t_day t)" "day_number (t_year t) (t_month t) (t_day t) = wall_day t"
    using day_number_civil [OF c] by (simp_all add: t_year_def t_month_def t_day_def c)
  have part: "0 \<le> w mod (c * k) div c \<and> w mod (c * k) div c < k" if "0 < c" "0 < k" for w c k :: int
    using that by (simp add: zmod_zmult2_eq)
  show "valid_clock (t_hour t) (t_minute t) (t_second t) (t_nano t)"
    using part [of 3600000000000 24 "wall t"] part [of 60000000000 60 "wall t"] part [of 1000000000 60 "wall t"]
    by (simp add: valid_clock_def t_hour_def t_minute_def t_second_def t_nano_def)
qed

lemma wall_fields:
  "wall t = (wall_day t - unix_day) * nanos_per_day
     + (t_hour t * 3600000000000 + (t_minute t * 60000000000 + (t_second t * 1000000000 + t_nano t)))"
proof -
  have nest: "w mod q div c * c + w mod c = w mod q" if "c dvd q" for w q c :: int
    using that by (metis div_mult_mod_eq mod_mod_cancel)
  have d: "wall t = wall t div nanos_per_day * nanos_per_day + wall t mod nanos_per_day" by simp
  have h: "wall t mod nanos_per_day = t_hour t * 3600000000000 + wall t mod 3600000000000"
    unfolding t_hour_def by (rule nest [symmetric]) simp
  have m: "wall t mod 3600000000000 = t_minute t * 60000000000 + wall t mod 60000000000"
    unfolding t_minute_def by (rule nest [symmetric]) simp
  have s: "wall t mod 60000000000 = t_second t * 1000000000 + t_nano t"
    unfolding t_second_def t_nano_def by (rule nest [symmetric]) simp
  show ?thesis by (subst d) (simp only: h m s wall_day_def, simp)
qed

lemma go_date_fields:
  "go_date (t_year t) (t_month t) (t_day t) (t_hour t) (t_minute t) (t_second t) (t_nano t) (zoff t) = t"
proof -
  let ?g = "go_date (t_year t) (t_month t) (t_day t) (t_hour t) (t_minute t) (t_second t) (t_nano t) (zoff t)"
  have "wall ?g = wall t"
    by (subst wall_go_date) (use valid_fields [of t] in \<open>auto simp: valid_date_def wall_fields\<close>)
  then show ?thesis by (intro gtime.equality) (simp_all add: wall_def)
qed

section \<open>Digits\<close>


lemma nat_str_small: "n < 10 \<Longrightarrow> nat_str n = [digit_char n]"
  by (subst nat_str.simps) simp

lemma nat_str_big: "10 \<le> n \<Longrightarrow> nat_str n = nat_str (n div 10) @ [digit_char (n mod 10)]"
  by (subst nat_str.simps) simp

lemma digit_char_0: "digit_char 0 = CHR ''0''"
  by code_simp

lemma pad_2: "n < 100 \<Longrightarrow> pad 2 n = [digit_char (n div 10), digit_char (n mod 10)]"
  by (cases "n < 10") (simp_all add: pad_def nat_str_small nat_str_big digit_char_0)

lemma pad_4:
  assumes "n < 10000"
  shows "pad 4 n =
     [digit_char (n div 1000), digit_char (n div 100 mod 10), digit_char (n div 10 mod 10), digit_char (n mod 10)]"
proof -
  consider "n < 10" | "10 \<le> n" "n < 100" | "100 \<le> n" "n < 1000" | "1000 \<le> n" by linarith
  then show ?thesis
  proof cases
    case 1 then show ?thesis by (simp add: pad_def nat_str_small digit_char_0 numeral_3_eq_3)
  next
    case 2
    then have "nat_str n = [digit_char (n div 10), digit_char (n mod 10)]"
      by (simp add: nat_str_small nat_str_big)
    then show ?thesis using 2 by (simp add: pad_def digit_char_0 numeral_2_eq_2)
  next
    case 3
    then have "nat_str n = [digit_char (n div 100), digit_char (n div 10 mod 10), digit_char (n mod 10)]"
      by (simp add: nat_str_small nat_str_big div_mult2_eq [symmetric])
    then show ?thesis using 3 by (simp add: pad_def digit_char_0)
  next
    case 4
    then have "nat_str n = [digit_char (n div 1000), digit_char (n div 100 mod 10), digit_char (n div 10 mod 10),
        digit_char (n mod 10)]"
      using assms by (simp add: nat_str_small nat_str_big div_mult2_eq [symmetric])
    then show ?thesis by (simp add: pad_def)
  qed
qed

definition digits_of :: "nat \<Rightarrow> int \<Rightarrow> string" where
  "digits_of w n = map (\<lambda>k. digit_char (nat (n div 10 ^ k mod 10))) (rev [0..<w])"

lemma frac9_eq: "frac9 n = digits_of 9 n"
  by (simp add: frac9_def digits_of_def upt_rec)

lemma digits_of_Suc: "digits_of (Suc w) n = digits_of w (n div 10) @ [digit_char (nat (n mod 10))]"
proof -
  have "rev [0..<Suc w] = map Suc (rev [0..<w]) @ [0]"
    by (metis map_Suc_upt rev_map rev.simps(2) upt_rec zero_less_Suc)
  then show ?thesis by (simp add: digits_of_def o_def zdiv_zmult2_eq mult.commute)
qed

lemma digits_val_digits_of: "0 \<le> n \<Longrightarrow> digits_val 0 (digits_of w n) = Some (nat (n mod 10 ^ w))"
proof (induction w arbitrary: n)
  case 0 show ?case by (simp add: digits_of_def)
next
  case (Suc w)
  have "n mod 10 ^ Suc w = 10 * (n div 10 mod 10 ^ w) + n mod 10"
    by (simp add: zmod_zmult2_eq)
  then show ?case using Suc.prems Suc.IH [of "n div 10"]
    by (simp add: digits_of_Suc digits_val_append code_digit_char is_digit_digit_char nat_add_distrib nat_mult_distrib)
qed

lemma length_digits_of [simp]: "length (digits_of w n) = w"
  by (simp add: digits_of_def)

lemma digits_of_digits: "list_all is_digit (digits_of w n)"
  by (auto simp: digits_of_def list_all_iff intro!: is_digit_digit_char)

lemma take_digits_of: "take 6 (digits_of 9 n) = digits_of 6 (n div 1000)"
proof -
  have "digits_of 9 n = digits_of 6 (n div 1000) @ digits_of 3 n"
    by (simp add: digits_of_def upt_rec flip: zdiv_zmult2_eq)
  then show ?thesis by simp
qed

lemma digits_val_zeros: "digits_val a (replicate k (CHR ''0'')) = Some (a * 10 ^ k)"
  by (induction k arbitrary: a) (simp_all add: is_digit_def)

text \<open>Dropping trailing zeros changes neither the number nor its scale.\<close>

lemma dropWhile_zeros: "ds = rev (dropWhile (\<lambda>c. c = CHR ''0'') (rev ds)) @
    replicate (length ds - length (dropWhile (\<lambda>c. c = CHR ''0'') (rev ds))) (CHR ''0'')"
proof -
  let ?z = "takeWhile (\<lambda>c. c = CHR ''0'') (rev ds)"
  have z: "?z = replicate (length ?z) (CHR ''0'')"
    by (rule replicate_length_same [symmetric]) (auto dest: set_takeWhileD)
  have l: "length ds - length (dropWhile (\<lambda>c. c = CHR ''0'') (rev ds)) = length ?z"
    by (metis length_rev length_append takeWhile_dropWhile_id add_diff_cancel_right')
  have "ds = rev (?z @ dropWhile (\<lambda>c. c = CHR ''0'') (rev ds))" by simp
  then have "ds = rev (dropWhile (\<lambda>c. c = CHR ''0'') (rev ds)) @ rev ?z" by (simp only: rev_append)
  then show ?thesis using z l by (metis rev_replicate)
qed

lemma parse_nanos_trim:
  assumes "0 \<le> n" "n < 1000000"
  defines "ds \<equiv> rev (dropWhile (\<lambda>c. c = CHR ''0'') (rev (digits_of 6 n)))"
  shows "parse_nanos ds = n * 1000" "list_all is_digit ds"
proof -
  define k where "k = 6 - length ds"
  have e: "digits_of 6 n = ds @ replicate k (CHR ''0'')"
    using dropWhile_zeros [of "digits_of 6 n"] by (simp add: ds_def k_def)
  have len: "length ds + k = 6" using arg_cong [OF e, of length] by simp
  show d: "list_all is_digit ds" using digits_of_digits [of 6 n] by (simp add: e)
  have v: "digits_val 0 (digits_of 6 n) = Some (nat n)"
    using assms by (simp add: digits_val_digits_of)
  then obtain a where a: "digits_val 0 ds = Some a" "nat n = a * 10 ^ k"
    by (auto simp: e digits_val_append digits_val_zeros split: option.splits)
  have "n = int a * 10 ^ k" using a(2) assms(1) by (metis int_nat_eq of_nat_mult of_nat_numeral of_nat_power)
  moreover have "(10 :: int) ^ (9 - length ds) = 10 ^ k * 1000"
  proof -
    have "9 - length ds = k + 3" using len by simp
    then show ?thesis by (simp add: power_add)
  qed
  ultimately show "parse_nanos ds = n * 1000" using len by (simp add: parse_nanos_def a(1))
qed

section \<open>Reading back what Format wrote\<close>


lemma getnum_pad: "n < 100 \<Longrightarrow> getnum (pad 2 n @ v) fixed = Some (int n, v)"
  by (simp add: pad_2 getnum_def is_digit_digit_char code_digit_char)

lemma getnum_2:
  "0 \<le> n \<Longrightarrow> n < 100 \<Longrightarrow> getnum (appendInt n 2 @ v) fixed = Some (n, v)"
  by (simp add: appendInt_def getnum_pad nat_less_iff)

lemma decimal_4: "((k div 1000 * 10 + k div 100 mod 10) * 10 + k div 10 mod 10) * 10 + k mod 10 = (k :: nat)"
proof -
  have "k div 100 = k div 10 div 10" "k div 1000 = k div 10 div 10 div 10" by (simp_all flip: div_mult2_eq)
  then show ?thesis using div_mult_mod_eq [of k 10] div_mult_mod_eq [of "k div 10" 10]
      div_mult_mod_eq [of "k div 10 div 10" 10] by simp
qed

lemma parse_Year:
  assumes "0 \<le> n" "n < 10000"
  shows "parse_chunk Year cs (appendInt n 4 @ v) f = Some (v, f\<lparr>yr := n\<rparr>)"
proof -
  define k where "k = nat n"
  have k: "k < 10000" "int k = n" "\<not> n < 0" using assms by (auto simp: k_def)
  have v: "digits_val 0 (pad 4 k) = Some k"
    using k(1) decimal_4 [of k] by (simp add: pad_4 is_digit_digit_char code_digit_char ac_simps)
  have h: "length (pad 4 k) = 4" "is_digit (pad 4 k ! 0)" using k(1) by (simp_all add: pad_4 is_digit_digit_char)
  have a: "appendInt n 4 = pad 4 k" using k(3) by (simp add: appendInt_def k_def)
  show ?thesis using h v by (simp add: a nth_append k(2))
qed

lemma parse_nums:
  "1 \<le> n \<Longrightarrow> n \<le> 12 \<Longrightarrow> parse_chunk Month cs (appendInt n 2 @ v) f = Some (v, f\<lparr>mon := n\<rparr>)"
  "0 \<le> n \<Longrightarrow> n < 100 \<Longrightarrow> parse_chunk Day cs (appendInt n 2 @ v) f = Some (v, f\<lparr>dy := n\<rparr>)"
  "0 \<le> n \<Longrightarrow> n < 24 \<Longrightarrow> parse_chunk Hour cs (appendInt n 2 @ v) f = Some (v, f\<lparr>hr := n\<rparr>)"
  "0 \<le> n \<Longrightarrow> n < 60 \<Longrightarrow> parse_chunk Minute cs (appendInt n 2 @ v) f = Some (v, f\<lparr>mi := n\<rparr>)"
  "0 \<le> n \<Longrightarrow> n < 60 \<Longrightarrow> parse_chunk Second (Frac k # cs) (appendInt n 2 @ v) f = Some (v, f\<lparr>sc := n\<rparr>)"
  by (simp_all add: getnum_2 in_range_def)

lemma parse_Lit: "c \<noteq> CHR '' '' \<Longrightarrow> parse_chunk (Lit c) cs (c # v) f = Some (v, f)"
  by simp

lemma parse_space:
  "v = [] \<or> hd v \<noteq> CHR '' '' \<Longrightarrow> parse_chunk (Lit (CHR '' '')) cs (CHR '' '' # v) f = Some (v, f)"
  by (cases v) auto

abbreviation date_chunks :: "chunk list" where
  "date_chunks \<equiv> [Year, Lit (CHR ''-''), Month, Lit (CHR ''-''), Day]"

abbreviation clock_chunks :: "chunk list" where
  "clock_chunks \<equiv> [Hour, Lit (CHR '':''), Minute, Lit (CHR '':''), Second]"

lemma appendInt_2_hd: "0 \<le> n \<Longrightarrow> n < 100 \<Longrightarrow> appendInt n 2 \<noteq> [] \<and> is_digit (hd (appendInt n 2))"
  by (simp add: appendInt_def pad_2 nat_less_iff is_digit_digit_char)

lemma parse_date_prefix:
  assumes "0 \<le> t_year t" "t_year t \<le> 9999"
  shows "parse_chunks (date_chunks @ cs) (format_chunks date_chunks t @ v) f =
    parse_chunks cs v (f\<lparr>yr := t_year t, mon := t_month t, dy := t_day t\<rparr>)"
proof -
  have d: "1 \<le> t_month t" "t_month t \<le> 12" "0 \<le> t_day t" "t_day t < 100"
    using valid_fields(1) [of t] by (auto simp: valid_date_def daysIn_def split: if_splits)
  show ?thesis using assms d
    by (simp add: format_chunks_def parse_Year parse_nums parse_Lit del: parse_chunk.simps)
qed

lemma read_frac_digits:
  assumes "list_all is_digit ds" "v = [] \<or> \<not> is_digit (hd v)"
  shows "read_frac (c # ds @ v) f = (v, f\<lparr>nsec := parse_nanos ds\<rparr>)"
proof -
  have "takeWhile is_digit (ds @ v) = ds"
    by (rule takeWhile_append_stop) (use assms in \<open>auto simp: list_all_iff\<close>)
  then show ?thesis by (simp add: read_frac_def)
qed

lemma parse_Frac:
  assumes "0 \<le> n" "n < 1000000000" "n mod 1000 = 0" "v = [] \<or> v ! 0 \<noteq> CHR ''.'' \<and> v ! 0 \<noteq> CHR '','' \<and> \<not> is_digit (hd v)"
  shows "parse_chunk (Frac 9) cs (fmt_frac 6 n @ v) (f\<lparr>nsec := 0\<rparr>) = Some (v, f\<lparr>nsec := n\<rparr>)"
proof -
  define ds where "ds = rev (dropWhile (\<lambda>c. c = CHR ''0'') (rev (digits_of 6 (n div 1000))))"
  have b: "0 \<le> n div 1000" "n div 1000 < 1000000" using assms(1,2) by auto
  have e: "n div 1000 * 1000 = n" using assms(3) by (metis add.right_neutral div_mult_mod_eq)
  note p = parse_nanos_trim [OF b, folded ds_def, unfolded e]
  have f: "fmt_frac 6 n = (if ds = [] then [] else CHR ''.'' # ds)"
    by (simp add: fmt_frac_def frac9_eq take_digits_of ds_def)
  show ?thesis
  proof (cases "ds = []")
    case True
    then have "n = 0" using p(1) by (simp add: parse_nanos_def)
    moreover have "fmt_frac 6 n = []" using True by (simp add: f)
    moreover have "\<not> frac_at v" using assms(4) by (auto simp: frac_at_def)
    ultimately show ?thesis by simp
  next
    case False
    then obtain c ds' where c: "ds = c # ds'" by (cases ds) auto
    have a: "frac_at ((CHR ''.'' # ds) @ v)" using p(2) by (simp add: frac_at_def c)
    have v: "v = [] \<or> \<not> is_digit (hd v)" using assms(4) by auto
    show ?thesis using a read_frac_digits [OF p(2) v, of "CHR ''.''" "f\<lparr>nsec := 0\<rparr>"] False
      by (simp add: f p(1))
  qed
qed

lemma parse_clock_prefix:
  assumes "t_nano t mod 1000 = 0"
    and "v = [] \<or> v ! 0 \<noteq> CHR ''.'' \<and> v ! 0 \<noteq> CHR '','' \<and> \<not> is_digit (hd v)" and "nsec f = 0"
  shows "parse_chunks (clock_chunks @ Frac 9 # cs) (format_chunks (clock_chunks @ [Frac 6]) t @ v) f =
    parse_chunks cs v (f\<lparr>hr := t_hour t, mi := t_minute t, sc := t_second t, nsec := t_nano t\<rparr>)"
proof -
  have c: "0 \<le> t_hour t" "t_hour t < 24" "0 \<le> t_minute t" "t_minute t < 60" "0 \<le> t_second t" "t_second t < 60"
    "0 \<le> t_nano t" "t_nano t < 1000000000"
    using valid_fields(2) [of t] by (auto simp: valid_clock_def)
  define g where "g = f\<lparr>hr := t_hour t, mi := t_minute t, sc := t_second t\<rparr>"
  have g: "g\<lparr>nsec := 0\<rparr> = g" using assms(3) by (simp add: g_def)
  note p = parse_Frac [OF c(7,8) assms(1,2), of cs g, unfolded g]
  show ?thesis using c p
    by (simp add: format_chunks_def parse_nums parse_Lit g_def del: parse_chunk.simps)
qed


lemma format_chunks_append: "format_chunks (xs @ ys) t = format_chunks xs t @ format_chunks ys t"
  by (simp add: format_chunks_def)

text \<open>The texts Postgres gives a timestamp and a date.\<close>

definition stamp_text :: "gtime \<Rightarrow> string" where
  "stamp_text t = format_time ''2006-01-02 15:04:05.999999'' t"

definition date_text :: "gtime \<Rightarrow> string" where
  "date_text t = format_time ''2006-01-02'' t"

definition canonical :: "gtime \<Rightarrow> bool" where
  "canonical t \<longleftrightarrow> zoff t = 0 \<and> 0 \<le> t_year t \<and> t_year t \<le> 9999 \<and> t_nano t mod 1000 = 0"

lemma chunks_stamp: "chunks ''2006-01-02 15:04:05.999999'' = date_chunks @ Lit (CHR '' '') # clock_chunks @ [Frac 6]"
  by code_simp

lemma chunks_date: "chunks ''2006-01-02'' = date_chunks"
  by code_simp

lemma parse_stamp_chunks:
  assumes "canonical t"
  shows "parse_chunks (date_chunks @ Lit (CHR '' '') # clock_chunks @ Frac 9 # cs) (stamp_text t) no_fields =
    parse_chunks cs [] \<lparr>yr = t_year t, mon = t_month t, dy = t_day t, hr = t_hour t, mi = t_minute t,
      sc = t_second t, nsec = t_nano t, zone = None\<rparr>"
proof -
  define v where "v = format_chunks (clock_chunks @ [Frac 6]) t"
  have s: "stamp_text t = format_chunks date_chunks t @ CHR '' '' # v"
    unfolding stamp_text_def format_time_def chunks_stamp v_def by (simp add: format_chunks_def)
  have h: "0 \<le> t_hour t" "t_hour t < 24" using valid_fields(2) [of t] by (auto simp: valid_clock_def)
  have "is_digit (hd v)"
    using appendInt_2_hd [of "t_hour t"] h by (simp add: v_def format_chunks_def)
  moreover have "\<not> is_digit (CHR '' '')" by (simp add: is_digit_def)
  ultimately have sp: "v = [] \<or> hd v \<noteq> CHR '' ''" by metis
  define f where "f = no_fields\<lparr>yr := t_year t, mon := t_month t, dy := t_day t\<rparr>"
  have "parse_chunks (date_chunks @ Lit (CHR '' '') # clock_chunks @ Frac 9 # cs) (stamp_text t) no_fields =
      parse_chunks (Lit (CHR '' '') # clock_chunks @ Frac 9 # cs) (CHR '' '' # v) f"
    unfolding s f_def by (rule parse_date_prefix) (use assms in \<open>auto simp: canonical_def\<close>)
  also have "\<dots> = parse_chunks (clock_chunks @ Frac 9 # cs) v f"
    using parse_space [OF sp, of "clock_chunks @ Frac 9 # cs" f] by simp
  also have "\<dots> = parse_chunks cs [] (f\<lparr>hr := t_hour t, mi := t_minute t, sc := t_second t, nsec := t_nano t\<rparr>)"
    using parse_clock_prefix [of t "[]" f cs] assms by (simp add: v_def canonical_def f_def no_fields_def)
  finally show ?thesis by (simp add: f_def no_fields_def)
qed

lemma time_of_canonical:
  assumes "canonical t"
  shows "time_of_fields \<lparr>yr = t_year t, mon = t_month t, dy = t_day t, hr = t_hour t, mi = t_minute t,
      sc = t_second t, nsec = t_nano t, zone = None\<rparr> = Some t"
  using valid_fields(1) [of t] go_date_fields [of t] assms
  by (simp add: time_of_fields_def valid_date_def canonical_def)

lemma parse_stamp:
  assumes "canonical t"
  shows "parse_time ''2006-01-02 15:04:05.999999999'' (stamp_text t) = Some t"
    "parse_time ''2006-01-02 15:04:05.999999999-07:00'' (stamp_text t) = None"
    "parse_time ''2006-01-02 15:04:05.999999999Z07:00'' (stamp_text t) = None"
    "parse_time ''2006-01-02T15:04:05.999999999Z07:00'' (stamp_text t) = None"
proof -
  have c: "chunks ''2006-01-02 15:04:05.999999999'' = date_chunks @ Lit (CHR '' '') # clock_chunks @ Frac 9 # []"
    "chunks ''2006-01-02 15:04:05.999999999-07:00'' = date_chunks @ Lit (CHR '' '') # clock_chunks @ Frac 9 # [NumColonTZ]"
    "chunks ''2006-01-02 15:04:05.999999999Z07:00'' = date_chunks @ Lit (CHR '' '') # clock_chunks @ Frac 9 # [IsoColonTZ]"
    "chunks ''2006-01-02T15:04:05.999999999Z07:00'' = date_chunks @ Lit (CHR ''T'') # clock_chunks @ [Frac 9, IsoColonTZ]"
    by code_simp+
  show "parse_time ''2006-01-02 15:04:05.999999999'' (stamp_text t) = Some t"
    using assms by (simp only: parse_time_def c parse_stamp_chunks) (simp add: time_of_canonical)
  show "parse_time ''2006-01-02 15:04:05.999999999-07:00'' (stamp_text t) = None"
    using assms by (simp only: parse_time_def c parse_stamp_chunks) (simp add: parse_zone_def)
  show "parse_time ''2006-01-02 15:04:05.999999999Z07:00'' (stamp_text t) = None"
    using assms by (simp only: parse_time_def c parse_stamp_chunks) (simp add: parse_zone_def)
  have s: "stamp_text t = format_chunks date_chunks t @ CHR '' '' # format_chunks (clock_chunks @ [Frac 6]) t"
    unfolding stamp_text_def format_time_def chunks_stamp by (simp add: format_chunks_def)
  have "parse_chunks (chunks ''2006-01-02T15:04:05.999999999Z07:00'') (stamp_text t) no_fields = None"
    unfolding c s by (subst parse_date_prefix) (use assms in \<open>auto simp: canonical_def\<close>)
  then show "parse_time ''2006-01-02T15:04:05.999999999Z07:00'' (stamp_text t) = None"
    by (simp add: parse_time_def)
qed

lemma parse_date:
  assumes "canonical t" "t_hour t = 0" "t_minute t = 0" "t_second t = 0" "t_nano t = 0"
  shows "parse_time ''2006-01-02'' (date_text t) = Some t"
    "l \<in> {''2006-01-02 15:04:05.999999999-07:00'', ''2006-01-02 15:04:05.999999999Z07:00'',
       ''2006-01-02T15:04:05.999999999Z07:00'', ''2006-01-02 15:04:05.999999999'',
       ''2006-01-02T15:04:05.999999999'', ''2006-01-02 15:04:05'', ''2006-01-02T15:04:05Z07:00'',
       ''2006-01-02T15:04:05''} \<Longrightarrow> parse_time l (date_text t) = None"
proof -
  have p: "parse_chunks (date_chunks @ cs) (date_text t) no_fields =
      parse_chunks cs [] (no_fields\<lparr>yr := t_year t, mon := t_month t, dy := t_day t\<rparr>)" for cs
    using parse_date_prefix [of t cs "[]"] assms(1)
    by (simp add: date_text_def format_time_def chunks_date canonical_def)
  show "parse_time ''2006-01-02'' (date_text t) = Some t"
    using p [of "[]"] time_of_canonical [OF assms(1)] assms(2-)
    by (simp add: parse_time_def chunks_date no_fields_def)
  have bad: "parse_chunks (date_chunks @ Lit c # Hour # cs) (date_text t) no_fields = None" for c cs
    unfolding p by (simp add: getnum_def in_range_def)
  assume "l \<in> {''2006-01-02 15:04:05.999999999-07:00'', ''2006-01-02 15:04:05.999999999Z07:00'',
       ''2006-01-02T15:04:05.999999999Z07:00'', ''2006-01-02 15:04:05.999999999'',
       ''2006-01-02T15:04:05.999999999'', ''2006-01-02 15:04:05'', ''2006-01-02T15:04:05Z07:00'',
       ''2006-01-02T15:04:05''}"
  then have "\<exists>c \<in> {CHR '' '', CHR ''T''}. take 7 (chunks l) = date_chunks @ [Lit c, Hour]"
    by (elim insertE emptyE) (simp_all only:, code_simp+)
  then obtain c where "take 7 (chunks l) = date_chunks @ [Lit c, Hour]" by blast
  then have "chunks l = date_chunks @ Lit c # Hour # drop 7 (chunks l)"
    by (metis append_take_drop_id append_Cons append_Nil append_assoc)
  then have "parse_chunks (chunks l) (date_text t) no_fields = None" using bad by metis
  then show "parse_time l (date_text t) = None" by (simp add: parse_time_def)
qed

section \<open>Timestamps followed by an offset\<close>

lemma stamp_text_parts:
  "stamp_text t = format_chunks date_chunks t @ CHR '' '' # format_chunks (clock_chunks @ [Frac 6]) t"
  unfolding stamp_text_def format_time_def chunks_stamp by (simp add: format_chunks_def)

lemma clock_text_hd: "is_digit (hd (format_chunks (clock_chunks @ cs) t)) \<and> format_chunks (clock_chunks @ cs) t \<noteq> []"
proof -
  have "0 \<le> t_hour t" "t_hour t < 24" using valid_fields(2) [of t] by (auto simp: valid_clock_def)
  then show ?thesis using appendInt_2_hd [of "t_hour t"] by (simp add: format_chunks_def)
qed

lemma parse_stamp_rest:
  assumes "canonical t" "\<not> is_digit c" "c \<noteq> CHR ''.''" "c \<noteq> CHR '',''"
  shows "parse_chunks (date_chunks @ Lit (CHR '' '') # clock_chunks @ Frac 9 # cs) (stamp_text t @ c # v) no_fields =
    parse_chunks cs (c # v) \<lparr>yr = t_year t, mon = t_month t, dy = t_day t, hr = t_hour t, mi = t_minute t,
      sc = t_second t, nsec = t_nano t, zone = None\<rparr>"
    and "fmt_frac 6 (t_nano t) = [] \<Longrightarrow>
      parse_chunks (date_chunks @ Lit (CHR '' '') # clock_chunks @ IsoColonTZ # cs) (stamp_text t @ c # v) no_fields =
      parse_chunks (IsoColonTZ # cs) (c # v) \<lparr>yr = t_year t, mon = t_month t, dy = t_day t, hr = t_hour t, mi = t_minute t,
        sc = t_second t, nsec = t_nano t, zone = None\<rparr>"
proof -
  define f where "f = no_fields\<lparr>yr := t_year t, mon := t_month t, dy := t_day t\<rparr>"
  define w where "w = format_chunks (clock_chunks @ [Frac 6]) t @ c # v"
  have "\<not> is_digit (CHR '' '')" by (simp add: is_digit_def)
  then have sp: "w = [] \<or> hd w \<noteq> CHR '' ''"
    using clock_text_hd [of "[Frac 6]" t] unfolding w_def by (metis hd_append2)
  have y: "0 \<le> t_year t" "t_year t \<le> 9999" "t_nano t mod 1000 = 0" using assms(1) by (auto simp: canonical_def)
  have p: "parse_chunks (date_chunks @ Lit (CHR '' '') # ds) (stamp_text t @ c # v) no_fields = parse_chunks ds w f" for ds
  proof -
    have "stamp_text t @ c # v = format_chunks date_chunks t @ CHR '' '' # w" by (simp add: stamp_text_parts w_def)
    then show ?thesis
      using parse_date_prefix [OF y(1,2), of "Lit (CHR '' '') # ds" "CHR '' '' # w" no_fields] parse_space [OF sp, of ds f]
      by (simp add: f_def)
  qed
  have c: "c # v = [] \<or> (c # v) ! 0 \<noteq> CHR ''.'' \<and> (c # v) ! 0 \<noteq> CHR '','' \<and> \<not> is_digit (hd (c # v))"
    using assms by simp
  have n: "nsec f = 0" by (simp add: f_def no_fields_def)
  have e: "f\<lparr>hr := t_hour t, mi := t_minute t, sc := t_second t, nsec := t_nano t\<rparr> =
    \<lparr>yr = t_year t, mon = t_month t, dy = t_day t, hr = t_hour t, mi = t_minute t, sc = t_second t,
      nsec = t_nano t, zone = None\<rparr>" by (simp add: f_def no_fields_def)
  show "parse_chunks (date_chunks @ Lit (CHR '' '') # clock_chunks @ Frac 9 # cs) (stamp_text t @ c # v) no_fields =
    parse_chunks cs (c # v) \<lparr>yr = t_year t, mon = t_month t, dy = t_day t, hr = t_hour t, mi = t_minute t,
      sc = t_second t, nsec = t_nano t, zone = None\<rparr>"
    unfolding p w_def using parse_clock_prefix [OF y(3) c n, of cs] e by simp
  assume fr: "fmt_frac 6 (t_nano t) = []"
  have k: "0 \<le> t_hour t" "t_hour t < 24" "0 \<le> t_minute t" "t_minute t < 60" "0 \<le> t_second t" "t_second t < 60"
    "0 \<le> t_nano t" "t_nano t < 1000000000"
    using valid_fields(2) [of t] by (auto simp: valid_clock_def)
  have "t_nano t = 0"
    using parse_Frac [OF k(7,8) y(3), of "[]" "[]" no_fields] by (auto simp: fr frac_at_def no_fields_def dest: arg_cong [of _ _ nsec])
  moreover have "\<not> frac_at (c # v)" using assms by (simp add: frac_at_def)
  ultimately show "parse_chunks (date_chunks @ Lit (CHR '' '') # clock_chunks @ IsoColonTZ # cs) (stamp_text t @ c # v) no_fields =
      parse_chunks (IsoColonTZ # cs) (c # v) \<lparr>yr = t_year t, mon = t_month t, dy = t_day t, hr = t_hour t, mi = t_minute t,
        sc = t_second t, nsec = t_nano t, zone = None\<rparr>"
    unfolding p w_def using k fr
    by (simp add: format_chunks_def getnum_2 in_range_def f_def no_fields_def)
qed

end
