(* ===== verification/Float64.thy ===== *)
theory Float64
  imports Values
begin

text \<open>
  Conversions between \<open>float64\<close> and integers, on IEEE 754 bit patterns: what Go's \<open>float64(i)\<close> and
  \<open>int64(f)\<close> compute. A float that does not fit, an infinity and a NaN convert to the smallest \<open>int64\<close>,
  as on amd64 (the language leaves that to the implementation). What \<open>fmt\<close> and \<open>strconv\<close> do with the
  decimal text of a float is an argument where it is used.
\<close>

definition f_neg :: "64 word \<Rightarrow> bool" where
  "f_neg w \<longleftrightarrow> bit w 63"

definition f_exp :: "64 word \<Rightarrow> int" where
  "f_exp w = uint w div 2 ^ 52 mod 2 ^ 11"

definition f_mant :: "64 word \<Rightarrow> int" where
  "f_mant w = uint w mod 2 ^ 52"

text \<open>The magnitude cut to an integer; infinities and NaNs have the largest exponent.\<close>

definition f_trunc :: "64 word \<Rightarrow> int" where
  "f_trunc w =
     (let m = (if f_exp w = 0 then f_mant w else 2 ^ 52 + f_mant w); e = (if f_exp w = 0 then 1 else f_exp w);
          a = (if 1075 \<le> e then m * 2 ^ nat (e - 1075) else m div 2 ^ nat (1075 - e)) in
      if f_neg w then - a else a)"

definition int64_of_float :: "64 word \<Rightarrow> int" where
  "int64_of_float w =
     (if f_exp w = 2047 \<or> \<not> in_int64 (f_trunc w) then - (2 ^ 63) else f_trunc w)"

function bit_length :: "int \<Rightarrow> nat" where
  "bit_length n = (if n \<le> 0 then 0 else Suc (bit_length (n div 2)))"
  by auto
termination
  by (relation "measure nat") auto

declare bit_length.simps [simp del]

text \<open>An integer of at most 64 bits to the nearest float, ties to even.\<close>

definition float_of_int :: "int \<Rightarrow> 64 word" where
  "float_of_int i =
     (let n = \<bar>i\<bar>; len = bit_length n; s = (if i < 0 then 2 ^ 63 else 0) in
      if n = 0 then 0
      else if len \<le> 53 then word_of_int (s + (int len + 1022) * 2 ^ 52 + (n * 2 ^ (53 - len) - 2 ^ 52))
      else (let k = len - 53; q = n div 2 ^ k; r = n mod 2 ^ k; half = 2 ^ (k - 1);
                q' = (if r > half \<or> r = half \<and> odd q then q + 1 else q) in
            word_of_int (s + (int len + 1022) * 2 ^ 52 + (q' - 2 ^ 52))))"

text \<open>A \<open>float32\<close> as the \<open>float64\<close> of the same value; a NaN becomes a quiet one.\<close>

definition float_of_float32 :: "32 word \<Rightarrow> 64 word" where
  "float_of_float32 w =
     (let s = (if bit w 31 then 2 ^ 63 else 0); e = uint w div 2 ^ 23 mod 2 ^ 8; m = uint w mod 2 ^ 23; l = bit_length m in
      if e = 255 then word_of_int (s + 2047 * 2 ^ 52 + (if m = 0 then 0 else (if m < 2 ^ 22 then 2 ^ 51 else 0) + m * 2 ^ 29))
      else if e = 0 then
        (if m = 0 then word_of_int s
         else word_of_int (s + (int l + 873) * 2 ^ 52 + (m * 2 ^ (53 - l) - 2 ^ 52)))
      else word_of_int (s + (e + 896) * 2 ^ 52 + m * 2 ^ 29))"

end
