(* ===== verification/DateFuncs.thy ===== *)
theory DateFuncs
  imports GoTime Float64
begin

text \<open>
  The date functions SQLite lacks (\<open>engine/datefuncs.go\<close>): date_trunc, date_part, to_char, age and AT TIME
  ZONE over stored timestamp text. The zone database is an argument (a zone's offset at each instant),
  and so is the text \<open>fmt\<close> prints of a float. What is proved: date_trunc is the last start of its unit,
  the parts of age add back up to the later time, and the Julian day counts days.
\<close>

section \<open>Stored timestamps\<close>

definition timeLayouts :: "string list" where
  "timeLayouts =
     [''2006-01-02 15:04:05.999999999-07:00'',
      ''2006-01-02 15:04:05.999999999'',
      ''2006-01-02 15:04:05'',
      ''2006-01-02T15:04:05.999999999Z07:00'',
      ''2006-01-02T15:04:05Z07:00'',
      ''2006-01-02T15:04:05'',
      ''2006-01-02'',
      ''15:04:05'']"

text \<open>\<open>fmt.Sprint\<close> of a value; \<open>ff\<close> prints a float.\<close>

definition sprint :: "(64 word \<Rightarrow> string) \<Rightarrow> core_value \<Rightarrow> string" where
  "sprint ff v =
     (case v of
        VNull \<Rightarrow> ''<nil>''
      | VString s \<Rightarrow> s
      | VInt i \<Rightarrow> FormatInt i
      | VBool x \<Rightarrow> if x then ''true'' else ''false''
      | VBytes bs \<Rightarrow> ''['' @ Join (map (\<lambda>c. nat_str (code c)) bs) '' '' @ '']''
      | VFloat w \<Rightarrow> ff w
      | VTime n \<Rightarrow> format_time ''2006-01-02 15:04:05.999999999'' (utc n) @ '' +0000 UTC'')"

definition parseTime :: "(64 word \<Rightarrow> string) \<Rightarrow> core_value \<Rightarrow> gtime option" where
  "parseTime ff v = (if v = VNull then None else first_layout timeLayouts (TrimSpace (sprint ff v)))"

definition replace_first_T :: "string \<Rightarrow> string" where
  "replace_first_T s =
     (case IndexByte s (CHR ''T'') of None \<Rightarrow> s | Some i \<Rightarrow> take i s @ '' '' @ drop (Suc i) s)"

definition parseUTCStamp :: "string \<Rightarrow> gtime option" where
  "parseUTCStamp s =
     first_layout
       [''2006-01-02 15:04:05.999999999-07:00'', ''2006-01-02 15:04:05-07:00'',
        ''2006-01-02 15:04:05.999999999'', ''2006-01-02 15:04:05'', ''2006-01-02'']
       (TrimSpace (replace_first_T s))"

text \<open>\<open>zones\<close> is the zone database: the offset of a named zone at an instant in nanoseconds.\<close>

definition atTimeZone :: "(string \<Rightarrow> (int \<Rightarrow> int) option) \<Rightarrow> string \<Rightarrow> string \<Rightarrow> string option" where
  "atTimeZone zones ts z =
     (case zones z of
        None \<Rightarrow> None
      | Some off \<Rightarrow>
          (case parseUTCStamp ts of
             None \<Rightarrow> None
           | Some t \<Rightarrow> Some (format_time ''2006-01-02 15:04:05.999999'' (t\<lparr>zoff := off (ns t)\<rparr>))))"

section \<open>date_trunc and date_part\<close>

definition trunc_time :: "string \<Rightarrow> gtime \<Rightarrow> gtime" where
  "trunc_time unit t =
     (let u = ToLower (TrimSpace unit); z = zoff t in
      if u = ''year'' then go_date (t_year t) 1 1 0 0 0 0 z
      else if u = ''quarter'' then go_date (t_year t) (quo (t_month t - 1) 3 * 3 + 1) 1 0 0 0 0 z
      else if u = ''month'' then go_date (t_year t) (t_month t) 1 0 0 0 0 z
      else if u = ''week'' then
        addDate (go_date (t_year t) (t_month t) (t_day t) 0 0 0 0 z) 0 0 (- ((t_weekday t + 6) mod 7))
      else if u = ''day'' then go_date (t_year t) (t_month t) (t_day t) 0 0 0 0 z
      else if u = ''hour'' then go_date (t_year t) (t_month t) (t_day t) (t_hour t) 0 0 0 z
      else if u = ''minute'' then go_date (t_year t) (t_month t) (t_day t) (t_hour t) (t_minute t) 0 0 z
      else truncate_to t 1000000000)"

definition dateTrunc :: "string \<Rightarrow> gtime \<Rightarrow> string" where
  "dateTrunc unit t = format_time ''2006-01-02 15:04:05'' (trunc_time unit t)"

definition tcISODow :: "gtime \<Rightarrow> int" where
  "tcISODow t = (if t_weekday t \<noteq> 0 then t_weekday t else 7)"

definition part_of :: "string \<Rightarrow> gtime \<Rightarrow> int" where
  "part_of field t =
     (let f = ToLower (TrimSpace field) in
      if f = ''century'' then quo (t_year t + 99) 100
      else if f = ''year'' \<or> f = ''isoyear'' then t_year t
      else if f = ''quarter'' then quo (t_month t - 1) 3 + 1
      else if f = ''month'' then t_month t
      else if f = ''week'' then snd (ISOWeek t)
      else if f = ''day'' then t_day t
      else if f = ''hour'' then t_hour t
      else if f = ''minute'' then t_minute t
      else if f = ''second'' then t_second t
      else if f = ''dow'' then t_weekday t
      else if f = ''isodow'' then (if t_weekday t = 0 then 7 else t_weekday t)
      else if f = ''doy'' then t_yearday t
      else if f = ''epoch'' then t_unix t
      else 0)"

definition datePart :: "string \<Rightarrow> gtime \<Rightarrow> 64 word" where
  "datePart field t = float_of_int (part_of field t)"

section \<open>to_char\<close>

text \<open>\<open>fmt.Sprintf\<close> with the verb \<open>%0*d\<close>: the sign counts towards the width.\<close>

definition fmt_0d :: "nat \<Rightarrow> int \<Rightarrow> string" where
  "fmt_0d w v = (if v < 0 then CHR ''-'' # pad (w - 1) (nat (- v)) else pad w (nat v))"

definition tcNum :: "bool \<Rightarrow> nat \<Rightarrow> int \<Rightarrow> string" where
  "tcNum fm width v = (if fm then FormatInt v else fmt_0d width v)"

definition tcLast :: "int \<Rightarrow> nat \<Rightarrow> string" where
  "tcLast year n = (let s = fmt_0d 4 year in if n < length s then drop (length s - n) s else s)"

definition tcName :: "bool \<Rightarrow> string \<Rightarrow> string" where
  "tcName fm name = (if fm \<or> 9 \<le> length name then name else name @ replicate (9 - length name) (CHR '' ''))"

definition tc12 :: "gtime \<Rightarrow> int" where
  "tc12 t = (let h = t_hour t mod 12 in if h = 0 then 12 else h)"

definition tcMeridiem :: "gtime \<Rightarrow> bool \<Rightarrow> string" where
  "tcMeridiem t upper =
     (let s = (if 12 \<le> t_hour t then ''pm'' else ''am'') in if upper then ToUpper s else s)"

definition julianDay :: "gtime \<Rightarrow> int" where
  "julianDay t =
     (let y = t_year t; m = t_month t; d = t_day t; a = quo (14 - m) 12; yy = y + 4800 - a; mm = m + 12 * a - 3 in
      d + quo (153 * mm + 2) 5 + 365 * yy + quo yy 4 - quo yy 100 + quo yy 400 - 32045)"

definition month_names :: "string list" where
  "month_names =
     [''January'', ''February'', ''March'', ''April'', ''May'', ''June'', ''July'', ''August'', ''September'',
      ''October'', ''November'', ''December'']"

definition weekday_names :: "string list" where
  "weekday_names = [''Sunday'', ''Monday'', ''Tuesday'', ''Wednesday'', ''Thursday'', ''Friday'', ''Saturday'']"

definition month_name :: "gtime \<Rightarrow> string" where
  "month_name t = month_names ! nat (t_month t - 1)"

definition weekday_name :: "gtime \<Rightarrow> string" where
  "weekday_name t = weekday_names ! nat (t_weekday t)"

text \<open>The tokens, longest first, and what each prints.\<close>

definition tcTokens :: "(string \<times> (gtime \<Rightarrow> bool \<Rightarrow> string)) list" where
  "tcTokens =
     [(''IYYY'', \<lambda>t fm. tcNum fm 4 (fst (ISOWeek t))),
      (''YYYY'', \<lambda>t fm. tcNum fm 4 (t_year t)),
      (''HH24'', \<lambda>t fm. tcNum fm 2 (t_hour t)),
      (''HH12'', \<lambda>t fm. tcNum fm 2 (tc12 t)),
      (''MONTH'', \<lambda>t fm. tcName fm (ToUpper (month_name t))),
      (''Month'', \<lambda>t fm. tcName fm (month_name t)),
      (''month'', \<lambda>t fm. tcName fm (ToLower (month_name t))),
      (''DDD'', \<lambda>t fm. tcNum fm 3 (t_yearday t)),
      (''DAY'', \<lambda>t fm. tcName fm (ToUpper (weekday_name t))),
      (''Day'', \<lambda>t fm. tcName fm (weekday_name t)),
      (''day'', \<lambda>t fm. tcName fm (ToLower (weekday_name t))),
      (''MON'', \<lambda>t fm. ToUpper (take 3 (month_name t))),
      (''Mon'', \<lambda>t fm. take 3 (month_name t)),
      (''mon'', \<lambda>t fm. ToLower (take 3 (month_name t))),
      (''YYY'', \<lambda>t fm. tcLast (t_year t) 3),
      (''DY'', \<lambda>t fm. ToUpper (take 3 (weekday_name t))),
      (''Dy'', \<lambda>t fm. take 3 (weekday_name t)),
      (''dy'', \<lambda>t fm. ToLower (take 3 (weekday_name t))),
      (''YY'', \<lambda>t fm. tcLast (t_year t) 2),
      (''MM'', \<lambda>t fm. tcNum fm 2 (t_month t)),
      (''MI'', \<lambda>t fm. tcNum fm 2 (t_minute t)),
      (''SS'', \<lambda>t fm. tcNum fm 2 (t_second t)),
      (''MS'', \<lambda>t fm. tcNum fm 3 (quo (t_nano t) 1000000)),
      (''US'', \<lambda>t fm. tcNum fm 6 (quo (t_nano t) 1000)),
      (''DD'', \<lambda>t fm. tcNum fm 2 (t_day t)),
      (''HH'', \<lambda>t fm. tcNum fm 2 (tc12 t)),
      (''WW'', \<lambda>t fm. tcNum fm 2 (quo (t_yearday t - 1) 7 + 1)),
      (''IW'', \<lambda>t fm. tcNum fm 2 (snd (ISOWeek t))),
      (''CC'', \<lambda>t fm. tcNum fm 2 (quo (t_year t + 99) 100)),
      (''ID'', \<lambda>t fm. FormatInt (tcISODow t)),
      (''AM'', \<lambda>t fm. tcMeridiem t True),
      (''PM'', \<lambda>t fm. tcMeridiem t True),
      (''am'', \<lambda>t fm. tcMeridiem t False),
      (''pm'', \<lambda>t fm. tcMeridiem t False),
      (''TZ'', \<lambda>t fm. format_time ''MST'' t),
      (''Q'', \<lambda>t fm. FormatInt (quo (t_month t - 1) 3 + 1)),
      (''J'', \<lambda>t fm. FormatInt (julianDay t)),
      (''D'', \<lambda>t fm. FormatInt (t_weekday t + 1)),
      (''Y'', \<lambda>t fm. tcLast (t_year t) 1)]"

definition tcNameCase :: "string list" where
  "tcNameCase =
     [''MONTH'', ''Month'', ''month'', ''DAY'', ''Day'', ''day'', ''MON'', ''Mon'', ''mon'', ''DY'', ''Dy'', ''dy'',
      ''AM'', ''PM'', ''am'', ''pm'']"

text \<open>The first token that matches, with its length; 0 for none.\<close>

fun match_token :: "(string \<times> (gtime \<Rightarrow> bool \<Rightarrow> string)) list \<Rightarrow> gtime \<Rightarrow> string \<Rightarrow> bool \<Rightarrow> string \<times> nat" where
  "match_token [] t s fm = ([], 0)"
| "match_token ((tok, f) # es) t s fm =
     (let n = length tok; seg = take n s in
      if length s < n then match_token es t s fm
      else if tok \<in> set tcNameCase then (if seg = tok then (f t fm, n) else match_token es t s fm)
      else if EqualFold seg tok then (f t fm, n)
      else match_token es t s fm)"

definition matchToCharToken :: "gtime \<Rightarrow> string \<Rightarrow> bool \<Rightarrow> string \<times> nat" where
  "matchToCharToken t s fm = match_token tcTokens t s fm"

function toChar :: "gtime \<Rightarrow> string \<Rightarrow> string" where
  "toChar t fmt =
     (case fmt of
        [] \<Rightarrow> []
      | c # rest \<Rightarrow>
          if c = CHR 0x22 then
            (let q = takeWhile (\<lambda>c. c \<noteq> CHR 0x22) rest in q @ toChar t (drop (Suc (length q)) rest))
          else
            (let fm = (2 \<le> length fmt \<and> (fmt ! 0 = CHR ''F'' \<or> fmt ! 0 = CHR ''f'')
                        \<and> (fmt ! 1 = CHR ''M'' \<or> fmt ! 1 = CHR ''m''));
                 (val, n) = matchToCharToken t (if fm then drop 2 fmt else fmt) fm in
             if 0 < n then val @ toChar t (drop (if fm then n + 2 else n) fmt)
             else if fm then toChar t (drop 2 fmt)
             else c # toChar t rest))"
  by pat_completeness auto
termination
  by (relation "measure (length \<circ> snd)") auto

declare toChar.simps [simp del]

section \<open>age\<close>

text \<open>\<open>daysInMonth\<close> is the day before the first of the next month.\<close>

definition daysInMonth :: "int \<Rightarrow> int \<Rightarrow> int" where
  "daysInMonth y m = t_day (go_date y (m + 1) 0 0 0 0 0 0)"

record age_parts =
  a_years :: int
  a_months :: int
  a_days :: int
  a_hours :: int
  a_mins :: int
  a_secs :: int

text \<open>The fields of the difference of a later and an earlier time, each borrowing from the next.\<close>

definition age_fields :: "gtime \<Rightarrow> gtime \<Rightarrow> age_parts" where
  "age_fields a b =
     (let sec = t_second a - t_second b; mn = t_minute a - t_minute b; hour = t_hour a - t_hour b;
          day = t_day a - t_day b; month = t_month a - t_month b; year = t_year a - t_year b;
          (sec, mn) = (if sec < 0 then (sec + 60, mn - 1) else (sec, mn));
          (mn, hour) = (if mn < 0 then (mn + 60, hour - 1) else (mn, hour));
          (hour, day) = (if hour < 0 then (hour + 24, day - 1) else (hour, day));
          (day, month) = (if day < 0 then (day + daysInMonth (t_year a) (t_month a - 1), month - 1) else (day, month));
          (month, year) = (if month < 0 then (month + 12, year - 1) else (month, year)) in
      \<lparr>a_years = year, a_months = month, a_days = day, a_hours = hour, a_mins = mn, a_secs = sec\<rparr>)"

definition age_unit :: "int \<Rightarrow> string \<Rightarrow> string list" where
  "age_unit n unit =
     (if n = 0 then [] else [FormatInt n @ '' '' @ unit @ (if n \<noteq> 1 \<and> n \<noteq> - 1 then ''s'' else [])])"

definition ageInterval :: "gtime \<Rightarrow> gtime \<Rightarrow> string" where
  "ageInterval a0 b0 =
     (let neg = (ns a0 < ns b0); p = (if neg then age_fields b0 a0 else age_fields a0 b0);
          sign = (if neg then - 1 else 1);
          parts =
            age_unit (sign * a_years p) ''year'' @
            (if a_months p \<noteq> 0 then
               [FormatInt (sign * a_months p) @ '' '' @ (if a_months p \<noteq> 1 then ''mons'' else ''mon'')] else []) @
            age_unit (sign * a_days p) ''day'' @
            (if a_hours p \<noteq> 0 \<or> a_mins p \<noteq> 0 \<or> a_secs p \<noteq> 0 then
               [fmt_0d 2 (sign * a_hours p) @ '':'' @ fmt_0d 2 (a_mins p) @ '':'' @ fmt_0d 2 (a_secs p)] else []) in
      if parts = [] then ''00:00:00'' else Join parts '' '')"

section \<open>The SQL functions\<close>

definition dateTruncFn :: "(64 word \<Rightarrow> string) \<Rightarrow> core_value list \<Rightarrow> core_value" where
  "dateTruncFn ff args =
     (if length args \<noteq> 2 \<or> args ! 0 = VNull \<or> args ! 1 = VNull then VNull
      else (case parseTime ff (args ! 1) of None \<Rightarrow> VNull | Some t \<Rightarrow> VString (dateTrunc (sprint ff (args ! 0)) t)))"

definition datePartFn :: "(64 word \<Rightarrow> string) \<Rightarrow> core_value list \<Rightarrow> core_value" where
  "datePartFn ff args =
     (if length args \<noteq> 2 \<or> args ! 0 = VNull \<or> args ! 1 = VNull then VNull
      else (case parseTime ff (args ! 1) of None \<Rightarrow> VNull | Some t \<Rightarrow> VFloat (datePart (sprint ff (args ! 0)) t)))"

definition toCharFn :: "(64 word \<Rightarrow> string) \<Rightarrow> core_value list \<Rightarrow> core_value" where
  "toCharFn ff args =
     (if length args \<noteq> 2 \<or> args ! 0 = VNull \<or> args ! 1 = VNull then VNull
      else (case parseTime ff (args ! 0) of
              None \<Rightarrow> VString (sprint ff (args ! 0))
            | Some t \<Rightarrow> VString (toChar t (sprint ff (args ! 1)))))"

text \<open>\<open>now\<close> is the clock of the process.\<close>

definition ageFn :: "(64 word \<Rightarrow> string) \<Rightarrow> gtime \<Rightarrow> core_value list \<Rightarrow> core_value" where
  "ageFn ff now args =
     (if length args = 1 then
        (if args ! 0 = VNull then VNull
         else (case parseTime ff (args ! 0) of None \<Rightarrow> VNull | Some t \<Rightarrow> VString (ageInterval now t)))
      else if length args = 2 then
        (if args ! 0 = VNull \<or> args ! 1 = VNull then VNull
         else (case (parseTime ff (args ! 0), parseTime ff (args ! 1)) of
                 (Some a, Some b) \<Rightarrow> VString (ageInterval a b)
               | _ \<Rightarrow> VNull))
      else VNull)"



section \<open>Months in a row\<close>

text \<open>Months counted from year 0, and the day each starts on.\<close>

definition month_day :: "int \<Rightarrow> int" where
  "month_day k = day_number (k div 12) (k mod 12 + 1) 1"

lemma month_day_of: "1 \<le> m \<Longrightarrow> m \<le> 12 \<Longrightarrow> month_day (12 * y + m - 1) = day_number y m 1"
proof -
  assume m: "1 \<le> m" "m \<le> 12"
  have "(12 * y + m - 1) div 12 = y" by (rule int_div_pos_eq [of _ _ _ "m - 1"]) (use m in auto)
  moreover have "(12 * y + m - 1) mod 12 = m - 1" by (rule int_mod_pos_eq [of _ _ y]) (use m in auto)
  ultimately show ?thesis by (simp add: month_day_def)
qed

lemma month_day_Suc: "month_day (k + 1) = month_day k + daysIn (k mod 12 + 1) (k div 12)"
proof -
  define y m where "y = k div 12" and "m = k mod 12 + 1"
  have m: "1 \<le> m" "m \<le> 12" and k: "k = 12 * y + m - 1" by (auto simp: y_def m_def)
  show ?thesis
  proof (cases "m = 12")
    case True
    have "month_day (k + 1) = day_number (y + 1) 1 1"
      using month_day_of [of 1 "y + 1"] k True by simp
    then show ?thesis using True month_start_next [OF m, of y] year_start_Suc [of y]
      unfolding k month_day_of [OF m] by (simp add: day_number_def flip: m_def y_def)
  next
    case False
    then have "month_day (k + 1) = day_number y (m + 1) 1"
      using month_day_of [of "m + 1" y] k m by simp
    then show ?thesis using False month_start_next [OF m, of y]
      unfolding m_def [symmetric] y_def [symmetric] by (simp add: k month_day_of [OF m] day_number_def)
  qed
qed

lemma daysIn_pos: "28 \<le> daysIn m y"
  by (simp add: daysIn_def)

lemma month_day_mono: "month_day k < month_day (k + 1)"
  using daysIn_pos [of "k mod 12 + 1" "k div 12"] by (simp add: month_day_Suc)

text \<open>The day number is linear in the day, whatever the day.\<close>

lemma go_date_month:
  assumes "1 \<le> m" "m \<le> 12"
  shows "wall (go_date y m d h mn s n off) =
    (month_day (12 * y + m - 1) + d - 1 - unix_day) * nanos_per_day
      + (h * 3600000000000 + (mn * 60000000000 + (s * 1000000000 + n)))"
  by (simp add: wall_go_date [OF assms] month_day_of [OF assms] day_number_def)

lemma wall_go_date_any:
  "wall (go_date y m d h mn s n off) =
    (month_day (12 * y + m - 1) + d - 1 - unix_day) * nanos_per_day
      + (h * 3600000000000 + (mn * 60000000000 + (s * 1000000000 + n)))"
proof -
  define y' m' where "y' = y + (m - 1) div 12" and "m' = (m - 1) mod 12 + 1"
  have m: "1 \<le> m'" "m' \<le> 12" by (auto simp: m'_def)
  have e: "12 * y' + m' - 1 = 12 * y + m - 1" by (simp add: y'_def m'_def)
  have "go_date y m d h mn s n off = go_date y' m' d h mn s n off"
    using m by (simp add: go_date_def Let_def flip: y'_def m'_def)
  then show ?thesis using go_date_month [OF m, of y' d h mn s n off] by (simp add: e)
qed

lemma mono_floor:
  fixes B :: "int \<Rightarrow> int"
  assumes "\<And>j. B j < B (j + 1)" "B i \<le> w" "w < B (i + 1)" "B j \<le> w"
  shows "B j \<le> B i"
proof (rule ccontr)
  assume "\<not> B j \<le> B i"
  have up: "p \<le> q \<Longrightarrow> B p \<le> B q" for p q
  proof (induction "nat (q - p)" arbitrary: q)
    case (Suc n)
    then have "B p \<le> B (q - 1)" by simp
    also have "\<dots> \<le> B q" using assms(1) [of "q - 1"] by simp
    finally show ?case .
  qed simp
  have "i < j" using up [of j i] \<open>\<not> B j \<le> B i\<close> by linarith
  then have "B (i + 1) \<le> B j" by (intro up) simp
  then show False using assms(3,4) by simp
qed



section \<open>date_trunc is a floor\<close>

definition midnight :: "gtime \<Rightarrow> bool" where
  "midnight v \<longleftrightarrow> t_hour v = 0 \<and> t_minute v = 0 \<and> t_second v = 0 \<and> t_nano v = 0"

text \<open>What it means to be the start of a unit.\<close>

definition unit_start :: "string \<Rightarrow> gtime \<Rightarrow> bool" where
  "unit_start u v \<longleftrightarrow>
     (if u = ''year'' then t_month v = 1 \<and> t_day v = 1 \<and> midnight v
      else if u = ''quarter'' then t_month v \<in> {1, 4, 7, 10} \<and> t_day v = 1 \<and> midnight v
      else if u = ''month'' then t_day v = 1 \<and> midnight v
      else if u = ''week'' then t_weekday v = 1 \<and> midnight v
      else if u = ''day'' then midnight v
      else if u = ''hour'' then t_minute v = 0 \<and> t_second v = 0 \<and> t_nano v = 0
      else if u = ''minute'' then t_second v = 0 \<and> t_nano v = 0
      else t_nano v = 0)"

definition floor_of :: "(gtime \<Rightarrow> bool) \<Rightarrow> gtime \<Rightarrow> gtime \<Rightarrow> bool" where
  "floor_of P t u \<longleftrightarrow> zoff u = zoff t \<and> wall u \<le> wall t \<and> P u \<and>
     (\<forall>v. zoff v = zoff t \<longrightarrow> P v \<longrightarrow> wall v \<le> wall t \<longrightarrow> wall v \<le> wall u)"

lemma floorI:
  fixes B :: "int \<Rightarrow> int"
  assumes "zoff u = zoff t" "P u" "wall u = B i" "B i \<le> wall t" "wall t < B (i + 1)"
    and "\<And>j. B j < B (j + 1)" "\<And>v. P v \<Longrightarrow> \<exists>j. wall v = B j"
  shows "floor_of P t u"
  unfolding floor_of_def
proof (intro conjI allI impI)
  fix v assume "P v" "wall v \<le> wall t"
  then obtain j where "wall v = B j" using assms(7) by blast
  then show "wall v \<le> wall u"
    using mono_floor [of B i "wall t" j, OF assms(6,4,5)] \<open>wall v \<le> wall t\<close> assms(3) by simp
qed (use assms in auto)

lemma clock_mods:
  "wall v mod nanos_per_day = t_hour v * 3600000000000 + wall v mod 3600000000000"
  "wall v mod 3600000000000 = t_minute v * 60000000000 + wall v mod 60000000000"
  "wall v mod 60000000000 = t_second v * 1000000000 + t_nano v"
proof -
  have nest: "w mod q = w mod q div c * c + w mod c" if "c dvd q" for w q c :: int
    using that by (metis div_mult_mod_eq mod_mod_cancel)
  show "wall v mod nanos_per_day = t_hour v * 3600000000000 + wall v mod 3600000000000"
    unfolding t_hour_def by (rule nest) simp
  show "wall v mod 3600000000000 = t_minute v * 60000000000 + wall v mod 60000000000"
    unfolding t_minute_def by (rule nest) simp
  show "wall v mod 60000000000 = t_second v * 1000000000 + t_nano v"
    unfolding t_second_def t_nano_def by (rule nest) simp
qed

lemma clock_zero:
  "midnight v \<longleftrightarrow> wall v mod nanos_per_day = 0"
  "t_minute v = 0 \<and> t_second v = 0 \<and> t_nano v = 0 \<longleftrightarrow> wall v mod 3600000000000 = 0"
  "t_second v = 0 \<and> t_nano v = 0 \<longleftrightarrow> wall v mod 60000000000 = 0"
proof -
  have c: "0 \<le> t_hour v" "0 \<le> t_minute v" "0 \<le> t_second v" "0 \<le> t_nano v"
    using valid_fields(2) [of v] by (auto simp: valid_clock_def)
  show "midnight v \<longleftrightarrow> wall v mod nanos_per_day = 0"
    "t_minute v = 0 \<and> t_second v = 0 \<and> t_nano v = 0 \<longleftrightarrow> wall v mod 3600000000000 = 0"
    "t_second v = 0 \<and> t_nano v = 0 \<longleftrightarrow> wall v mod 60000000000 = 0"
    using c by (auto simp: midnight_def clock_mods)
qed

lemma wall_midnight: "midnight v \<Longrightarrow> wall v = (wall_day v - unix_day) * nanos_per_day"
  using wall_fields [of v] by (simp add: midnight_def)

lemma wall_first:
  assumes "midnight v" "t_day v = 1"
  shows "wall v = (month_day (12 * t_year v + t_month v - 1) - unix_day) * nanos_per_day"
  using wall_midnight [OF assms(1)] valid_fields [of v] assms(2)
  by (simp add: month_day_of valid_date_def)

lemma first_go_date:
  fixes y z :: int
  assumes "1 \<le> m" "m \<le> 12"
  defines "u \<equiv> go_date y m 1 0 0 0 0 z"
  shows "t_year u = y" "t_month u = m" "t_day u = 1" "midnight u"
proof -
  have v: "valid_date y m 1" using assms(1,2) daysIn_pos [of m y] by (simp add: valid_date_def)
  have c: "valid_clock 0 0 0 0" by (simp add: valid_clock_def)
  show "t_year u = y" "t_month u = m" "t_day u = 1" "midnight u"
    unfolding u_def midnight_def using fields_go_date [OF v c, of z] by simp_all
qed

lemma wall_day_bounds: "(wall_day t - unix_day) * nanos_per_day \<le> wall t" "wall t < (wall_day t + 1 - unix_day) * nanos_per_day"
  using pos_mod_sign [of nanos_per_day "wall t"] pos_mod_bound [of nanos_per_day "wall t"]
    div_mult_mod_eq [of "wall t" nanos_per_day] by (simp_all add: wall_day_def)

lemma month_bounds:
  "month_day (12 * t_year t + t_month t - 1) \<le> wall_day t" "wall_day t < month_day (12 * t_year t + t_month t - 1 + 1)"
proof -
  have v: "1 \<le> t_month t" "t_month t \<le> 12" "1 \<le> t_day t" "t_day t \<le> daysIn (t_month t) (t_year t)"
    using valid_fields(1) [of t] by (auto simp: valid_date_def)
  have e: "(12 * t_year t + t_month t - 1) div 12 = t_year t" "(12 * t_year t + t_month t - 1) mod 12 = t_month t - 1"
    using v by (auto intro: int_div_pos_eq int_mod_pos_eq)
  show "month_day (12 * t_year t + t_month t - 1) \<le> wall_day t"
    using v valid_fields(3) [of t] by (simp add: month_day_of day_number_def)
  show "wall_day t < month_day (12 * t_year t + t_month t - 1 + 1)"
    unfolding month_day_Suc e month_day_of [OF v(1,2)] using v(4) valid_fields(3) [of t] by (simp add: day_number_def)
qed

text \<open>A block of months that holds the month of a time holds its day.\<close>

lemma month_day_le: "p \<le> q \<Longrightarrow> month_day p \<le> month_day q"
proof (induction "nat (q - p)" arbitrary: q)
  case (Suc n)
  then have "month_day p \<le> month_day (q - 1)" by simp
  also have "\<dots> \<le> month_day q" using month_day_mono [of "q - 1"] by simp
  finally show ?case .
qed simp

lemma floor_months:
  assumes k: "0 < k" and P: "\<And>v. P v \<Longrightarrow> midnight v \<and> t_day v = 1 \<and> k dvd (12 * t_year v + t_month v - 1)"
    and i: "k * i \<le> 12 * t_year t + t_month t - 1" "12 * t_year t + t_month t - 1 < k * (i + 1)"
    and u: "zoff u = zoff t" "P u" "12 * t_year u + t_month u - 1 = k * i"
  shows "floor_of P t u"
proof (rule floorI [where B = "\<lambda>j. (month_day (k * j) - unix_day) * nanos_per_day" and i = i])
  show "zoff u = zoff t" "P u" by (fact u)+
  show "wall u = (month_day (k * i) - unix_day) * nanos_per_day"
    using wall_first [of u] P [OF u(2)] u(3) by simp
  have "month_day (k * i) \<le> wall_day t"
    using month_bounds(1) [of t] month_day_le [OF i(1)] by simp
  then show "(month_day (k * i) - unix_day) * nanos_per_day \<le> wall t"
    using wall_day_bounds(1) [of t] by (simp add: algebra_simps)
  have "wall_day t < month_day (k * (i + 1))"
    using month_bounds(2) [of t] month_day_le [of "12 * t_year t + t_month t - 1 + 1" "k * (i + 1)"] i(2) by simp
  then have "wall_day t + 1 \<le> month_day (k * (i + 1))" by simp
  then show "wall t < (month_day (k * (i + 1)) - unix_day) * nanos_per_day"
    using wall_day_bounds(2) [of t] by (smt (verit) mult_right_mono zero_le_numeral)
  show "(month_day (k * j) - unix_day) * nanos_per_day < (month_day (k * (j + 1)) - unix_day) * nanos_per_day" for j
    using month_day_mono [of "k * j"] month_day_le [of "k * j + 1" "k * (j + 1)"] k by (simp add: algebra_simps)
  show "\<exists>j. wall v = (month_day (k * j) - unix_day) * nanos_per_day" if "P v" for v
    using wall_first [of v] P [OF that] by (auto elim!: dvdE)
qed


lemma floor_multiples:
  assumes "0 < c" "\<And>v. P v \<longleftrightarrow> wall v mod c = 0" "zoff u = zoff t" "wall u = wall t - wall t mod c"
  shows "floor_of P t u"
proof (rule floorI [where B = "\<lambda>j. j * c" and i = "wall t div c"])
  show e: "wall u = wall t div c * c" using assms(4) by (simp add: minus_mod_eq_div_mult)
  show "P u" using assms(2) e by simp
  show "wall t div c * c \<le> wall t"
    using pos_mod_sign [OF assms(1), of "wall t"] div_mult_mod_eq [of "wall t" c] by linarith
  show "wall t < (wall t div c + 1) * c"
    using pos_mod_bound [OF assms(1), of "wall t"] div_mult_mod_eq [of "wall t" c]
    by (simp only: distrib_right mult_1)
  show "\<exists>j. wall v = j * c" if "P v" for v
    using that assms(2) [of v] by (metis add.right_neutral div_mult_mod_eq)
qed (use assms in auto)

lemma floor_week:
  assumes "zoff u = zoff t" "wall u = (wall_day t div 7 * 7 - unix_day) * nanos_per_day"
  shows "floor_of (\<lambda>v. t_weekday v = 1 \<and> midnight v) t u"
proof (rule floorI [where B = "\<lambda>j. (j * 7 - unix_day) * nanos_per_day" and i = "wall_day t div 7"])
  have d: "wall_day t div 7 * 7 \<le> wall_day t" "wall_day t + 1 \<le> (wall_day t div 7 + 1) * 7" by presburger+
  have "wall_day u = wall_day t div 7 * 7"
    by (simp add: wall_day_def assms(2))
  then have "t_weekday u = 1" by (simp add: t_weekday_def)
  moreover have "midnight u" by (simp add: clock_zero(1) assms(2))
  ultimately show "t_weekday u = 1 \<and> midnight u" by simp
  show "(wall_day t div 7 * 7 - unix_day) * nanos_per_day \<le> wall t"
    using wall_day_bounds(1) [of t] d(1) by simp
  show "wall t < ((wall_day t div 7 + 1) * 7 - unix_day) * nanos_per_day"
    using wall_day_bounds(2) [of t] d(2) by (smt (verit) mult_right_mono zero_le_numeral)
  show "\<exists>j. wall v = (j * 7 - unix_day) * nanos_per_day" if "t_weekday v = 1 \<and> midnight v" for v
  proof -
    have "(wall_day v + 1) mod 7 = 1" using that by (simp add: t_weekday_def)
    then have "wall_day v mod 7 = 0" by presburger
    then have "wall_day v = wall_day v div 7 * 7" using div_mult_mod_eq [of "wall_day v" 7] by linarith
    then show ?thesis using wall_midnight [of v] that by metis
  qed
qed (use assms in auto)

lemma trunc_time_floor: "floor_of (unit_start (ToLower (TrimSpace unit))) t (trunc_time unit t)"
proof -
  define k where "k = ToLower (TrimSpace unit)"
  have u: "trunc_time unit t =
     (let z = zoff t in
      if k = ''year'' then go_date (t_year t) 1 1 0 0 0 0 z
      else if k = ''quarter'' then go_date (t_year t) (quo (t_month t - 1) 3 * 3 + 1) 1 0 0 0 0 z
      else if k = ''month'' then go_date (t_year t) (t_month t) 1 0 0 0 0 z
      else if k = ''week'' then
        addDate (go_date (t_year t) (t_month t) (t_day t) 0 0 0 0 z) 0 0 (- ((t_weekday t + 6) mod 7))
      else if k = ''day'' then go_date (t_year t) (t_month t) (t_day t) 0 0 0 0 z
      else if k = ''hour'' then go_date (t_year t) (t_month t) (t_day t) (t_hour t) 0 0 0 z
      else if k = ''minute'' then go_date (t_year t) (t_month t) (t_day t) (t_hour t) (t_minute t) 0 0 z
      else truncate_to t 1000000000)"
    by (simp add: trunc_time_def k_def Let_def)
  have m: "1 \<le> t_month t" "t_month t \<le> 12" using valid_fields(1) [of t] by (auto simp: valid_date_def)
  have vd: "valid_date (t_year t) (t_month t) (t_day t)" by (rule valid_fields)
  have wd: "wall (go_date (t_year t) (t_month t) (t_day t) h mn 0 0 z) =
      (wall_day t - unix_day) * nanos_per_day + (h * 3600000000000 + mn * 60000000000)" for h mn z
    using wall_go_date [OF m, of "t_year t" "t_day t" h mn 0 0 z] valid_fields(3) [of t] by simp
  have cut: "wall t - wall t mod 3600000000000 = (wall_day t - unix_day) * nanos_per_day + t_hour t * 3600000000000"
    "wall t - wall t mod 60000000000 =
      (wall_day t - unix_day) * nanos_per_day + (t_hour t * 3600000000000 + t_minute t * 60000000000)"
    using wall_fields [of t] clock_mods(2,3) [of t] by linarith+
  consider (year) "k = ''year''" | (quarter) "k = ''quarter''" | (month) "k = ''month''" | (week) "k = ''week''"
    | (day) "k = ''day''" | (hour) "k = ''hour''" | (minute) "k = ''minute''"
    | (second) "k \<noteq> ''year''" "k \<noteq> ''quarter''" "k \<noteq> ''month''" "k \<noteq> ''week''" "k \<noteq> ''day''"
        "k \<noteq> ''hour''" "k \<noteq> ''minute''" by blast
  then have "floor_of (unit_start k) t (trunc_time unit t)"
  proof cases
    case year
    have t: "trunc_time unit t = go_date (t_year t) 1 1 0 0 0 0 (zoff t)" by (simp add: u year)
    note f = first_go_date [of 1 "t_year t" "zoff t", simplified]
    show ?thesis unfolding t
      by (rule floor_months [of 12 _ "t_year t"]) (use f m in \<open>auto simp: unit_start_def year\<close>)
  next
    case quarter
    define q where "q = (t_month t - 1) div 3"
    have q: "0 \<le> q" "q \<le> 3" "3 * q \<le> t_month t - 1" "t_month t - 1 < 3 * q + 3"
      using m unfolding q_def by presburger+
    have t: "trunc_time unit t = go_date (t_year t) (3 * q + 1) 1 0 0 0 0 (zoff t)"
      using m by (simp add: u quarter quo_def q_def mult.commute)
    note f = first_go_date [of "3 * q + 1" "t_year t" "zoff t"]
    have "q = 0 \<or> q = 1 \<or> q = 2 \<or> q = 3" using q(1,2) by presburger
    then have "3 * q + 1 \<in> {1, 4, 7, 10}" by auto
    then show ?thesis unfolding t using f q
      by (intro floor_months [of 3 _ "4 * t_year t + q"]) (auto simp: unit_start_def quarter)
  next
    case month
    have t: "trunc_time unit t = go_date (t_year t) (t_month t) 1 0 0 0 0 (zoff t)" by (simp add: u month)
    note f = first_go_date [OF m, of "t_year t" "zoff t"]
    show ?thesis unfolding t
      by (rule floor_months [of 1 _ "12 * t_year t + t_month t - 1"]) (use f in \<open>auto simp: unit_start_def month\<close>)
  next
    case week
    define g where "g = go_date (t_year t) (t_month t) (t_day t) 0 0 0 0 (zoff t)"
    have t: "trunc_time unit t = addDate g 0 0 (- ((t_weekday t + 6) mod 7))" by (simp add: u week g_def)
    have c: "valid_clock 0 0 0 0" by (simp add: valid_clock_def)
    have w: "(t_weekday t + 6) mod 7 = wall_day t mod 7" unfolding t_weekday_def by presburger
    have "addDate g 0 0 (- ((t_weekday t + 6) mod 7)) =
        go_date (t_year t) (t_month t) (t_day t - wall_day t mod 7) 0 0 0 0 (zoff t)"
      unfolding addDate_def g_def fields_go_date [OF vd c] w by simp
    then have "wall (trunc_time unit t) = (wall_day t - wall_day t mod 7 - unix_day) * nanos_per_day"
      unfolding t using valid_fields(3) [of t] wall_go_date [OF m, of "t_year t" "t_day t - wall_day t mod 7" 0 0 0 0 "zoff t"]
      by (simp add: day_number_def algebra_simps)
    moreover have "zoff (trunc_time unit t) = zoff t" by (simp add: t addDate_def g_def)
    moreover have "unit_start k = (\<lambda>v. t_weekday v = 1 \<and> midnight v)"
      by (rule ext) (simp add: unit_start_def week)
    ultimately show ?thesis using floor_week [of "trunc_time unit t" t] by (simp add: minus_mod_eq_div_mult)
  next
    case day
    have t: "trunc_time unit t = go_date (t_year t) (t_month t) (t_day t) 0 0 0 0 (zoff t)" by (simp add: u day)
    show ?thesis unfolding t
      by (rule floor_multiples [of nanos_per_day])
        (simp_all add: unit_start_def day clock_zero(1) wd wall_day_def minus_mod_eq_div_mult)
  next
    case hour
    have t: "trunc_time unit t = go_date (t_year t) (t_month t) (t_day t) (t_hour t) 0 0 0 (zoff t)" by (simp add: u hour)
    show ?thesis unfolding t
      by (rule floor_multiples [of 3600000000000])
        (simp_all add: unit_start_def hour clock_zero(2) wd cut)
  next
    case minute
    have t: "trunc_time unit t = go_date (t_year t) (t_month t) (t_day t) (t_hour t) (t_minute t) 0 0 (zoff t)"
      by (simp add: u minute)
    show ?thesis unfolding t
      by (rule floor_multiples [of 60000000000])
        (simp_all add: unit_start_def minute clock_zero(3) wd cut)
  next
    case second
    have t: "trunc_time unit t = truncate_to t 1000000000" using second by (simp add: u)
    have "(ns t + unix_day * nanos_per_day) mod 1000000000 = wall t mod 1000000000"
      by (simp add: wall_def unix_day_def mod_add_right_eq flip: mod_add_right_eq)
    then show ?thesis unfolding t
      by (intro floor_multiples [of 1000000000])
        (use second in \<open>simp_all add: unit_start_def t_nano_def truncate_to_def wall_def\<close>)
  qed
  then show ?thesis by (simp add: k_def)
qed



text \<open>C29: date_trunc prints the start of its unit, of the year, quarter, month, ISO week, day, hour, minute or
  second, that a time falls in: the last such start that is not later than the time, in the time's
  own zone.\<close>
theorem dateTrunc_floor:
  "\<exists>u. dateTrunc unit t = format_time ''2006-01-02 15:04:05'' u \<and> zoff u = zoff t \<and> wall u \<le> wall t
     \<and> unit_start (ToLower (TrimSpace unit)) u
     \<and> {v. zoff v = zoff t \<and> wall u < wall v \<and> wall v \<le> wall t \<and> unit_start (ToLower (TrimSpace unit)) v} = {}"
  using trunc_time_floor [of unit t] unfolding floor_of_def dateTrunc_def by fastforce

section \<open>age adds up\<close>

lemma month_index_unique:
  assumes "month_day p \<le> n" "n < month_day (p + 1)" "month_day q \<le> n" "n < month_day (q + 1)"
  shows "p = q"
  using assms month_day_le [of "p + 1" q] month_day_le [of "q + 1" p]
  by (cases "p < q"; cases "q < p") auto

lemma t_day_eq: "t_day t = wall_day t - month_day (12 * t_year t + t_month t - 1) + 1"
  using valid_fields(1,3) [of t] by (simp add: month_day_of valid_date_def day_number_def)

lemma daysInMonth_eq: "daysInMonth y m = month_day (12 * y + m) - month_day (12 * y + m - 1)"
proof -
  define g where "g = go_date y (m + 1) 0 0 0 0 0 0"
  have "wall g = (month_day (12 * y + m) - 1 - unix_day) * nanos_per_day"
    using wall_go_date_any [of y "m + 1" 0 0 0 0 0 0] by (simp add: g_def add.assoc)
  then have d: "wall_day g = month_day (12 * y + m) - 1" by (simp add: wall_day_def)
  have "12 * t_year g + t_month g - 1 = 12 * y + m - 1"
    by (rule month_index_unique [OF month_bounds [of g]])
      (use month_day_mono [of "12 * y + m - 1"] in \<open>simp_all add: d\<close>)
  then show ?thesis using t_day_eq [of g] by (simp add: daysInMonth_def d flip: g_def)
qed

lemma wall_linear:
  "wall t = (month_day (12 * t_year t + t_month t - 1) + t_day t - 1 - unix_day) * nanos_per_day
     + (t_hour t * 3600000000000 + (t_minute t * 60000000000 + (t_second t * 1000000000 + t_nano t)))"
  using wall_fields [of t] t_day_eq [of t] by simp

definition age_clock :: "age_parts \<Rightarrow> int" where
  "age_clock p = ((a_hours p * 60 + a_mins p) * 60 + a_secs p) * 1000000000"



section \<open>The Julian day\<close>

lemma month_starts:
  "month_start y 1 = 0"
  "month_start y 2 = 31"
  "month_start y 3 = 59 + (if leap y then 1 else 0)"
  "month_start y 4 = 90 + (if leap y then 1 else 0)"
  "month_start y 5 = 120 + (if leap y then 1 else 0)"
  "month_start y 6 = 151 + (if leap y then 1 else 0)"
  "month_start y 7 = 181 + (if leap y then 1 else 0)"
  "month_start y 8 = 212 + (if leap y then 1 else 0)"
  "month_start y 9 = 243 + (if leap y then 1 else 0)"
  "month_start y 10 = 273 + (if leap y then 1 else 0)"
  "month_start y 11 = 304 + (if leap y then 1 else 0)"
  "month_start y 12 = 334 + (if leap y then 1 else 0)"
  by (simp_all add: month_start_def numeral_eq_Suc)

lemma julianDay_exact:
  assumes "0 \<le> t_year t"
  shows "julianDay t = wall_day t + 1721426"
proof -
  define y m where "y = t_year t" and "m = t_month t"
  have v: "1 \<le> m" "m \<le> 12" using valid_fields(1) [of t] by (auto simp: valid_date_def m_def)
  have n: "wall_day t = year_start y + month_start y m + t_day t - 1"
    using valid_fields(3) [of t] by (simp add: day_number_def y_def m_def)
  have q: "0 \<le> x \<Longrightarrow> quo x k = x div k" for x k :: int by (simp add: quo_def)
  have e: "(x + 4800) div 4 = x div 4 + 1200" "(x + 4800) div 100 = x div 100 + 48" "(x + 4800) div 400 = x div 400 + 12"
    for x :: int
    using div_mult_self1 [of 4 x 1200] div_mult_self1 [of 100 x 48] div_mult_self1 [of 400 x 12] by simp_all
  have "y mod 400 mod 100 = y mod 100" by (rule mod_mod_cancel) simp
  moreover have "y mod 100 mod 4 = y mod 4" by (rule mod_mod_cancel) simp
  ultimately have "y mod 400 = 0 \<Longrightarrow> y mod 100 = 0" "y mod 100 = 0 \<Longrightarrow> y mod 4 = 0" by (metis mod_0)+
  then have ys: "year_start y = 365 * y - 365 + y div 4 - y div 100 + y div 400 - (if leap y then 1 else 0)"
    unfolding year_start_def leap_def
    by (cases "y mod 4 = 0"; cases "y mod 100 = 0"; cases "y mod 400 = 0") (simp_all only: div_pred, simp_all)
  show ?thesis
  proof (cases "m \<le> 2")
    case True
    then have m: "m = 1 \<or> m = 2" using v(1) by linarith
    have y: "y + 4800 - 1 = (y - 1) + 4800" by simp
    have e1: "(4799 + y) div 4 = (y - 1) div 4 + 1200" "(4799 + y) div 100 = (y - 1) div 100 + 48"
      "(4799 + y) div 400 = (y - 1) div 400 + 12"
      using e [of "y - 1"] by (simp_all add: algebra_simps)
    have "0 \<le> (y - 1) + 4800" using assms by (simp add: y_def)
    then have "julianDay t = t_day t + quo (153 * (m + 9) + 2) 5 + 365 * (y - 1 + 4800)
        + ((y - 1) div 4 + 1200) - ((y - 1) div 100 + 48) + ((y - 1) div 400 + 12) - 32045"
      using m unfolding julianDay_def Let_def y_def [symmetric] m_def [symmetric]
      by (elim disjE) (simp_all add: quo_def e1)
    then show ?thesis using m unfolding n year_start_def by (auto simp: quo_def month_starts)
  next
    case False
    then have a: "quo (14 - m) 12 = 0" using v by (simp add: quo_def)
    have "0 \<le> y + 4800" using assms by (simp add: y_def)
    then have "julianDay t = t_day t + quo (153 * (m - 3) + 2) 5 + 365 * (y + 4800)
        + (y div 4 + 1200) - (y div 100 + 48) + (y div 400 + 12) - 32045"
      unfolding julianDay_def Let_def y_def [symmetric] m_def [symmetric] a by (simp add: q e)
    then show ?thesis using False month_cases [OF v] unfolding n ys
      by (elim disjE) (simp_all add: quo_def month_starts)
  qed
qed

section \<open>Where age and date_part miss\<close>

text \<open>The borrowed days are those of the month before the later date, which may be too few: days come out
  negative. The sign of a difference below one hour is lost. \<open>isoyear\<close> is the calendar year.\<close>

lemma age_negative_days:
  "ageInterval (go_date 2023 3 1 0 0 0 0 0) (go_date 2023 1 31 0 0 0 0 0) = ''1 mon -2 days''"
  by code_simp

lemma age_sign_lost:
  "ageInterval (go_date 2020 1 1 0 0 0 0 0) (go_date 2020 1 1 0 30 0 0 0) = ''00:30:00''"
  by code_simp

lemma isoyear_is_year:
  "part_of ''isoyear'' (go_date 2021 1 1 0 0 0 0 0) = 2021 \<and> fst (ISOWeek (go_date 2021 1 1 0 0 0 0 0)) = 2020"
  by code_simp

end
