(* ===== verification/Json.thy ===== *)
theory Json
  imports GoStrings "HOL-Library.List_Lexorder" "HOL-Library.Char_ord"
begin

text \<open>
  The part of Go's \<open>encoding/json\<close> that the array, hstore and jsonb functions use: \<open>Unmarshal\<close> into
  \<open>any\<close>, into a list of raw elements and into a map, \<open>Decoder.Decode\<close> of the first value, and
  \<open>Marshal\<close>. How a number is read and printed is an argument, since \<open>any\<close> holds a \<open>float64\<close> and
  \<open>UseNumber\<close> the literal. The parser runs on fuel; \<open>jval_fuel\<close> shows that the fuel \<open>Unmarshal\<close> gives it,
  twice the length of its input, is always enough. Texts are taken to be valid UTF-8 without the line
  separators U+2028 and U+2029 (Go replaces an invalid byte and escapes those two).
\<close>

datatype 'n json =
    JNull
  | JBool bool
  | JNum 'n
  | JStr string
  | JArr "'n json list"
  | JObj "(string \<times> 'n json) list"

definition is_jws :: "char \<Rightarrow> bool" where
  "is_jws c \<longleftrightarrow> code c \<in> {32, 9, 10, 13}"

definition skip_ws :: "string \<Rightarrow> string" where
  "skip_ws s = dropWhile is_jws s"

section \<open>Strings\<close>

definition hex_val :: "char \<Rightarrow> nat option" where
  "hex_val c =
     (if is_digit c then Some (code c - 48)
      else if 97 \<le> code c \<and> code c \<le> 102 then Some (code c - 87)
      else if 65 \<le> code c \<and> code c \<le> 70 then Some (code c - 55)
      else None)"

text \<open>Four hex digits at the front of a text.\<close>

definition hex4 :: "string \<Rightarrow> nat option" where
  "hex4 s =
     (case s of
        a # b # c # d # _ \<Rightarrow>
          (case (hex_val a, hex_val b, hex_val c, hex_val d) of
             (Some w, Some x, Some y, Some z) \<Rightarrow> Some (((w * 16 + x) * 16 + y) * 16 + z)
           | _ \<Rightarrow> None)
      | _ \<Rightarrow> None)"

definition utf8 :: "nat \<Rightarrow> string" where
  "utf8 n =
     (if n < 128 then [char_of n]
      else if n < 2048 then [char_of (192 + n div 64), char_of (128 + n mod 64)]
      else if n < 65536 then
        [char_of (224 + n div 4096), char_of (128 + n div 64 mod 64), char_of (128 + n mod 64)]
      else [char_of (240 + n div 262144), char_of (128 + n div 4096 mod 64), char_of (128 + n div 64 mod 64),
            char_of (128 + n mod 64)])"

text \<open>What a \<open>\u\<close> escape and the text after it stand for: the bytes, and how many characters of that
  text a second half of a surrogate pair takes.\<close>

definition unicode_escape :: "nat \<Rightarrow> string \<Rightarrow> string \<times> nat" where
  "unicode_escape n rest =
     (if 55296 \<le> n \<and> n < 57344 then
        (case (if take 2 rest = [CHR 0x5C, CHR ''u''] then hex4 (drop 2 rest) else None) of
           Some m \<Rightarrow>
             if n < 56320 \<and> 56320 \<le> m \<and> m < 57344
             then (utf8 ((n - 55296) * 1024 + (m - 56320) + 65536), 6)
             else (utf8 65533, 0)
         | None \<Rightarrow> (utf8 65533, 0))
      else (utf8 n, 0))"

definition short_escape :: "char \<Rightarrow> char option" where
  "short_escape e =
     map_of [(CHR 0x22, CHR 0x22), (CHR 0x5C, CHR 0x5C), (CHR ''/'', CHR ''/''), (CHR ''b'', CHR 0x08),
             (CHR ''f'', CHR 0x0C), (CHR ''n'', CHR 0x0A), (CHR ''r'', CHR 0x0D), (CHR ''t'', CHR 0x09)] e"

function jstr_body :: "string \<Rightarrow> (string \<times> string) option" where
  "jstr_body s =
     (case s of
        [] \<Rightarrow> None
      | c # r \<Rightarrow>
          if c = CHR 0x22 then Some ([], r)
          else if code c < 32 then None
          else if c = CHR 0x5C then
            (case r of
               [] \<Rightarrow> None
             | e # r' \<Rightarrow>
                 if e = CHR ''u'' then
                   (case hex4 r' of
                      None \<Rightarrow> None
                    | Some n \<Rightarrow>
                        (let (bs, k) = unicode_escape n (drop 4 r') in
                         map_option (\<lambda>(t, q). (bs @ t, q)) (jstr_body (drop (4 + k) r'))))
                 else (case short_escape e of
                         None \<Rightarrow> None
                       | Some d \<Rightarrow> map_option (\<lambda>(t, q). (d # t, q)) (jstr_body r')))
          else map_option (\<lambda>(t, q). (c # t, q)) (jstr_body r))"
  by pat_completeness auto
termination
  by (relation "measure length") auto

declare jstr_body.simps [simp del]

section \<open>Numbers\<close>

text \<open>The parts of a number at the front of a text: whole digits, fraction, exponent; then its literal and
  what follows.\<close>

definition num_whole :: "string \<Rightarrow> string" where
  "num_whole r = (if r \<noteq> [] \<and> hd r = CHR ''0'' then [CHR ''0''] else takeWhile is_digit r)"

definition num_frac :: "string \<Rightarrow> string" where
  "num_frac r = (if r \<noteq> [] \<and> hd r = CHR ''.'' then CHR ''.'' # takeWhile is_digit (tl r) else [])"

definition num_exp :: "string \<Rightarrow> string option" where
  "num_exp r =
     (if r \<noteq> [] \<and> (hd r = CHR ''e'' \<or> hd r = CHR ''E'') then
        (let sg = (if tl r \<noteq> [] \<and> (hd (tl r) = CHR ''+'' \<or> hd (tl r) = CHR ''-'') then [hd (tl r)] else []);
             ds = takeWhile is_digit (drop (Suc (length sg)) r) in
         if ds = [] then None else Some (hd r # sg @ ds))
      else Some [])"

definition jnum_lex :: "string \<Rightarrow> (string \<times> string) option" where
  "jnum_lex s =
     (let sg = (if s \<noteq> [] \<and> hd s = CHR ''-'' then [CHR ''-''] else []);
          r = drop (length sg) s; w = num_whole r; r1 = drop (length w) r; f = num_frac r1; r2 = drop (length f) r1 in
      if w = [] \<or> f = ''.'' then None
      else (case num_exp r2 of None \<Rightarrow> None | Some e \<Rightarrow> Some (sg @ w @ f @ e, drop (length e) r2)))"

section \<open>Values\<close>

fun jval :: "(string \<Rightarrow> 'n option) \<Rightarrow> nat \<Rightarrow> string \<Rightarrow> ('n json \<times> string) option"
and jelems :: "(string \<Rightarrow> 'n option) \<Rightarrow> nat \<Rightarrow> string \<Rightarrow> ('n json list \<times> string) option"
and jmembers :: "(string \<Rightarrow> 'n option) \<Rightarrow> nat \<Rightarrow> string \<Rightarrow> ((string \<times> 'n json) list \<times> string) option" where
  "jval num 0 s = None"
| "jval num (Suc k) s =
     (let s = skip_ws s in
      case s of
        [] \<Rightarrow> None
      | c # r \<Rightarrow>
          if c = CHR ''['' then
            (if skip_ws r \<noteq> [] \<and> hd (skip_ws r) = CHR '']'' then Some (JArr [], tl (skip_ws r))
             else map_option (\<lambda>(vs, q). (JArr vs, q)) (jelems num k r))
          else if c = CHR 0x7B then
            (if skip_ws r \<noteq> [] \<and> hd (skip_ws r) = CHR 0x7D then Some (JObj [], tl (skip_ws r))
             else map_option (\<lambda>(ms, q). (JObj ms, q)) (jmembers num k r))
          else if c = CHR 0x22 then map_option (\<lambda>(t, q). (JStr t, q)) (jstr_body r)
          else if HasPrefix s ''null'' then Some (JNull, drop 4 s)
          else if HasPrefix s ''true'' then Some (JBool True, drop 4 s)
          else if HasPrefix s ''false'' then Some (JBool False, drop 5 s)
          else (case jnum_lex s of
                  None \<Rightarrow> None
                | Some (lit, q) \<Rightarrow> map_option (\<lambda>n. (JNum n, q)) (num lit)))"
| "jelems num 0 s = None"
| "jelems num (Suc k) s =
     (case jval num k s of
        None \<Rightarrow> None
      | Some (v, r) \<Rightarrow>
          (case skip_ws r of
             [] \<Rightarrow> None
           | c # q \<Rightarrow>
               if c = CHR '','' then map_option (\<lambda>(vs, p). (v # vs, p)) (jelems num k q)
               else if c = CHR '']'' then Some ([v], q)
               else None))"
| "jmembers num 0 s = None"
| "jmembers num (Suc k) s =
     (case skip_ws s of
        [] \<Rightarrow> None
      | c # r \<Rightarrow>
          if c \<noteq> CHR 0x22 then None
          else (case jstr_body r of
                  None \<Rightarrow> None
                | Some (key, r1) \<Rightarrow>
                    (case skip_ws r1 of
                       [] \<Rightarrow> None
                     | c1 # r2 \<Rightarrow>
                         if c1 \<noteq> CHR '':'' then None
                         else (case jval num k r2 of
                                 None \<Rightarrow> None
                               | Some (v, r3) \<Rightarrow>
                                   (case skip_ws r3 of
                                      [] \<Rightarrow> None
                                    | c3 # q \<Rightarrow>
                                        if c3 = CHR '','' then
                                          map_option (\<lambda>(ms, p). ((key, v) # ms, p)) (jmembers num k q)
                                        else if c3 = CHR 0x7D then Some ([(key, v)], q)
                                        else None)))))"

text \<open>\<open>Decoder.Decode\<close> reads the first value, \<open>Unmarshal\<close> wants nothing after it.\<close>

definition json_first :: "(string \<Rightarrow> 'n option) \<Rightarrow> string \<Rightarrow> ('n json \<times> string) option" where
  "json_first num s = jval num (2 * length s + 2) s"

definition Unmarshal :: "(string \<Rightarrow> 'n option) \<Rightarrow> string \<Rightarrow> 'n json option" where
  "Unmarshal num s =
     (case json_first num s of
        Some (v, r) \<Rightarrow> if skip_ws r = [] then Some v else None
      | None \<Rightarrow> None)"

text \<open>The map an object is decoded into: the last value of a key counts. A Go map is a list with
  distinct keys.\<close>

definition obj_map :: "(string \<times> 'v) list \<Rightarrow> (string \<times> 'v) list" where
  "obj_map ms = foldl (\<lambda>m (k, v). AList.update k v m) [] ms"

section \<open>Marshal\<close>

definition hex_digit :: "nat \<Rightarrow> char" where
  "hex_digit d = (if d < 10 then char_of (48 + d) else char_of (87 + d))"

definition escape_char :: "char \<Rightarrow> string" where
  "escape_char c =
     (if c = CHR 0x22 \<or> c = CHR 0x5C then [CHR 0x5C, c]
      else if c = CHR 0x08 then [CHR 0x5C, CHR ''b'']
      else if c = CHR 0x0C then [CHR 0x5C, CHR ''f'']
      else if c = CHR 0x0A then [CHR 0x5C, CHR ''n'']
      else if c = CHR 0x0D then [CHR 0x5C, CHR ''r'']
      else if c = CHR 0x09 then [CHR 0x5C, CHR ''t'']
      else if code c < 32 \<or> c = CHR 0x3C \<or> c = CHR 0x3E \<or> c = CHR 0x26 then
        [CHR 0x5C, CHR ''u'', CHR ''0'', CHR ''0'', hex_digit (code c div 16), hex_digit (code c mod 16)]
      else [c])"

definition marshal_str :: "string \<Rightarrow> string" where
  "marshal_str s = CHR 0x22 # concat (map escape_char s) @ [CHR 0x22]"

text \<open>A map is printed with its keys in order.\<close>

definition sort_keys :: "(string \<times> 'v) list \<Rightarrow> (string \<times> 'v) list" where
  "sort_keys m = sort_key fst m"

fun Marshal :: "('n \<Rightarrow> string) \<Rightarrow> 'n json \<Rightarrow> string" where
  "Marshal pn JNull = ''null''"
| "Marshal pn (JBool x) = (if x then ''true'' else ''false'')"
| "Marshal pn (JNum n) = pn n"
| "Marshal pn (JStr s) = marshal_str s"
| "Marshal pn (JArr vs) = ''['' @ Join (map (Marshal pn) vs) '','' @ '']''"
| "Marshal pn (JObj ms) =
     CHR 0x7B # Join (map (\<lambda>(k, s). marshal_str k @ '':'' @ s) (sort_keys (map (\<lambda>(k, v). (k, Marshal pn v)) ms))) '',''
       @ [CHR 0x7D]"



section \<open>The parser goes forward\<close>

lemma length_skip_ws: "length (skip_ws s) \<le> length s"
  by (simp add: skip_ws_def length_dropWhile_le)

lemma skip_ws_Cons_length: "skip_ws s = c # r \<Longrightarrow> length r < length s"
  using length_skip_ws [of s] by simp

lemma jstr_body_simps:
  "jstr_body [] = None"
  "jstr_body (CHR 0x22 # r) = Some ([], r)"
  "code c < 32 \<Longrightarrow> jstr_body (c # r) = None"
  "jstr_body [CHR 0x5C] = None"
  "32 \<le> code c \<Longrightarrow> c \<noteq> CHR 0x22 \<Longrightarrow> c \<noteq> CHR 0x5C \<Longrightarrow>
     jstr_body (c # r) = map_option (\<lambda>(t, q). (c # t, q)) (jstr_body r)"
  "e \<noteq> CHR ''u'' \<Longrightarrow> jstr_body (CHR 0x5C # e # r) =
     (case short_escape e of None \<Rightarrow> None | Some d \<Rightarrow> map_option (\<lambda>(t, q). (d # t, q)) (jstr_body r))"
  "jstr_body (CHR 0x5C # CHR ''u'' # r) =
     (case hex4 r of None \<Rightarrow> None
      | Some n \<Rightarrow> map_option (\<lambda>(t, q). (fst (unicode_escape n (drop 4 r)) @ t, q))
                    (jstr_body (drop (4 + snd (unicode_escape n (drop 4 r))) r)))"
  by (subst jstr_body.simps, auto split: prod.split option.split)+

lemma jstr_body_length: "jstr_body s = Some (t, q) \<Longrightarrow> length q < length s"
proof (induction s arbitrary: t rule: length_induct)
  case (1 s)
  note ih = 1(1) [rule_format]
  show ?case
  proof (cases s)
    case Nil then show ?thesis using 1(2) by (simp add: jstr_body_simps)
  next
    case (Cons c r)
    consider "c = CHR 0x22" | "code c < 32" | "c = CHR 0x5C" | "32 \<le> code c" "c \<noteq> CHR 0x22" "c \<noteq> CHR 0x5C" by linarith
    then show ?thesis
    proof cases
      case 1 then show ?thesis using \<open>jstr_body s = Some (t, q)\<close> by (simp add: Cons jstr_body_simps)
    next
      case 2 then show ?thesis using \<open>jstr_body s = Some (t, q)\<close> by (simp add: Cons jstr_body_simps)
    next
      case 4
      then obtain t' where "jstr_body r = Some (t', q)"
        using \<open>jstr_body s = Some (t, q)\<close> by (auto simp: Cons jstr_body_simps)
      then show ?thesis using ih [of r t'] by (simp add: Cons)
    next
      case 3
      obtain e r' where r: "r = e # r'" using \<open>jstr_body s = Some (t, q)\<close> by (cases r) (auto simp: Cons 3 jstr_body_simps)
      obtain k t' where "jstr_body (drop k r') = Some (t', q)"
        using \<open>jstr_body s = Some (t, q)\<close>
        by (cases "e = CHR ''u''") (auto simp: Cons 3 r jstr_body_simps intro: that that [of 0] split: option.splits)
      moreover have "length (drop k r') < length s" by (simp add: Cons r)
      ultimately have "length q < length r' - k" using ih by fastforce
      then show ?thesis by (simp add: Cons r)
    qed
  qed
qed

lemma jnum_lex_length: "jnum_lex s = Some (l, q) \<Longrightarrow> length q < length s"
proof -
  assume a: "jnum_lex s = Some (l, q)"
  define r where "r = drop (length (if s \<noteq> [] \<and> hd s = CHR ''-'' then [CHR ''-''] else [])) s"
  have w: "num_whole r \<noteq> []" and q: "length q \<le> length (drop (length (num_whole r)) r)"
    using a unfolding jnum_lex_def Let_def r_def [symmetric] by (auto split: if_split_asm option.splits)
  have "r \<noteq> []" using w by (auto simp: num_whole_def)
  then have "length (drop (length (num_whole r)) r) < length r" using w by (cases r; cases "num_whole r") auto
  then show ?thesis using q by (auto simp: r_def split: if_split_asm)
qed

lemma jparse_length:
  fixes num :: "string \<Rightarrow> 'n option"
  shows "jval num k s = Some (v, q) \<Longrightarrow> length q < length s"
    and "jelems num k s = Some (vs, q) \<Longrightarrow> length q < length s"
    and "jmembers num k s = Some (ms, q) \<Longrightarrow> length q < length s"
proof (induction num k s and num k s and num k s arbitrary: v q and vs q and ms q rule: jval_jelems_jmembers.induct)
  case (2 num k s)
  have l: "length (skip_ws s) \<le> length s" by (rule length_skip_ws)
  show ?case
  proof (cases "skip_ws s")
    case Nil then show ?thesis using 2(3) by simp
  next
    case (Cons c r)
    have n: "length r < length s" using l by (simp add: Cons)
    have "length q < length (skip_ws s)"
    proof (cases "c = CHR ''['' \<or> c = CHR 0x7B")
      case True
      show ?thesis
      proof (cases "c = CHR ''[''")
        case True
        show ?thesis
        proof (cases "skip_ws r \<noteq> [] \<and> hd (skip_ws r) = CHR '']''")
          case e: True
          then have "q = tl (skip_ws r)" using 2(3) True by (simp add: Cons Let_def)
          then show ?thesis using length_skip_ws [of r] by (simp add: Cons)
        next
          case False
          then obtain vs where "jelems num k r = Some (vs, q)" using 2(3) True by (auto simp: Cons Let_def)
          then show ?thesis using 2(1) [OF refl Cons True False] by (simp add: Cons)
        qed
      next
        case False
        then have b: "c = CHR 0x7B" using \<open>c = CHR ''['' \<or> c = CHR 0x7B\<close> by simp
        show ?thesis
        proof (cases "skip_ws r \<noteq> [] \<and> hd (skip_ws r) = CHR 0x7D")
          case e: True
          then have "q = tl (skip_ws r)" using 2(3) b by (simp add: Cons Let_def)
          then show ?thesis using length_skip_ws [of r] by (simp add: Cons)
        next
          case e: False
          then obtain ms where "jmembers num k r = Some (ms, q)" using 2(3) b by (auto simp: Cons Let_def)
          then show ?thesis using 2(2) [OF refl Cons False b e] by (simp add: Cons)
        qed
      qed
    next
      case False
      then show ?thesis
        using 2(3)
        by (auto simp: Cons Let_def dest!: jstr_body_length jnum_lex_length split: if_splits option.splits)
    qed
    then show ?thesis using l by simp
  qed
next
  case (4 num k s)
  obtain v r where v: "jval num k s = Some (v, r)" using 4(3) by (auto split: option.splits)
  obtain c p where c: "skip_ws r = c # p" using 4(3) v by (auto split: option.splits list.splits)
  have l: "length p < length s" using 4(1) [OF v] skip_ws_Cons_length [OF c] by simp
  show ?case
  proof (cases "c = CHR '',''")
    case True
    then obtain vs' where "jelems num k p = Some (vs', q)" using 4(3) v c by auto
    then show ?thesis using 4(2) v c True l by fastforce
  next
    case False
    then show ?thesis using 4(3) v c l by (auto split: if_splits)
  qed
next
  case (6 num k s)
  obtain c r where c: "skip_ws s = c # r" using 6(3) by (auto split: list.splits)
  obtain key r1 where key: "jstr_body r = Some (key, r1)" using 6(3) c by (auto split: option.splits if_splits)
  obtain c1 r2 where c1: "skip_ws r1 = c1 # r2" using 6(3) c key by (auto split: list.splits if_splits)
  obtain v r3 where v: "jval num k r2 = Some (v, r3)" using 6(3) c key c1 by (auto split: option.splits if_splits)
  obtain c3 p where c3: "skip_ws r3 = c3 # p" using 6(3) c key c1 v by (auto split: list.splits if_splits)
  have cc: "c = CHR 0x22" "c1 = CHR '':''" using 6(3) c key c1 by (auto split: if_splits)
  have "length r3 < length r2" using 6(1) [OF c _ key _ c1 _ v] cc by simp
  then have l: "length p < length s"
    using skip_ws_Cons_length [OF c] skip_ws_Cons_length [OF c1] skip_ws_Cons_length [OF c3] jstr_body_length [OF key]
    by simp
  show ?case
  proof (cases "c3 = CHR '',''")
    case True
    then obtain ms' where "jmembers num k p = Some (ms', q)" using 6(3) c key c1 v c3 cc by auto
    then show ?thesis using 6(2) [OF c _ key _ c1 _ v _ c3 True] cc l by fastforce
  next
    case False
    then show ?thesis using 6(3) c key c1 v c3 cc l by (auto split: if_splits)
  qed
qed (auto)



text \<open>Enough fuel is as good as any: twice the length and two.\<close>

lemma jparse_fuel:
  fixes num :: "string \<Rightarrow> 'n option"
  shows "(\<forall>s k k'. length s \<le> n \<and> 2 * n + 2 \<le> k \<and> 2 * n + 2 \<le> k' \<longrightarrow> jval num k s = jval num k' s)
    \<and> (\<forall>s k k'. length s \<le> n \<and> 2 * n + 3 \<le> k \<and> 2 * n + 3 \<le> k' \<longrightarrow>
          jelems num k s = jelems num k' s \<and> jmembers num k s = jmembers num k' s)"
proof (induction n)
  case 0
  have "jval num k [] = None" "jelems num k [] = None" "jmembers num k [] = None" for k
  proof -
    show v: "jval num k [] = None" for k by (cases k) (simp_all add: skip_ws_def)
    show "jelems num k [] = None" by (cases k) (simp_all add: v)
    show "jmembers num k [] = None" by (cases k) (simp_all add: skip_ws_def)
  qed
  then show ?case by simp
next
  case (Suc n)
  have ih1: "length s \<le> n \<Longrightarrow> 2 * n + 2 \<le> k \<Longrightarrow> 2 * n + 2 \<le> k' \<Longrightarrow> jval num k s = jval num k' s" for s k k'
    using Suc by blast
  have ih2: "length s \<le> n \<Longrightarrow> 2 * n + 3 \<le> k \<Longrightarrow> 2 * n + 3 \<le> k' \<Longrightarrow> jelems num k s = jelems num k' s"
    and ih3: "length s \<le> n \<Longrightarrow> 2 * n + 3 \<le> k \<Longrightarrow> 2 * n + 3 \<le> k' \<Longrightarrow> jmembers num k s = jmembers num k' s" for s k k'
    using Suc by blast+
  have v: "jval num k s = jval num k' s" if l: "length s \<le> Suc n" "2 * Suc n + 2 \<le> k" "2 * Suc n + 2 \<le> k'" for s k k'
  proof -
    obtain j j' where k: "k = Suc j" "k' = Suc j'" using l(2,3) by (cases k; cases k') auto
    show ?thesis
    proof (cases "skip_ws s")
      case Nil then show ?thesis by (simp add: k)
    next
      case (Cons c r)
      then have "length r \<le> n" using skip_ws_Cons_length [OF Cons] l(1) by simp
      then have e: "jelems num j r = jelems num j' r" "jmembers num j r = jmembers num j' r"
        using ih2 [of r j j'] ih3 [of r j j'] l(2,3) by (simp_all add: k)
      show ?thesis unfolding k jval.simps Let_def Cons list.case e ..
    qed
  qed
  have e: "jelems num k s = jelems num k' s" if l: "length s \<le> Suc n" "2 * Suc n + 3 \<le> k" "2 * Suc n + 3 \<le> k'" for s k k'
  proof -
    obtain j j' where k: "k = Suc j" "k' = Suc j'" using l(2,3) by (cases k; cases k') auto
    have jv: "jval num j s = jval num j' s" using v [of s j j'] l by (simp add: k)
    have "jelems num j q = jelems num j' q" if "jval num j' s = Some (x, r)" "skip_ws r = c # q" for x r c q
      using ih2 [of q j j'] jparse_length(1) [OF that(1)] skip_ws_Cons_length [OF that(2)] l by (simp add: k)
    then show ?thesis by (auto simp: k jv split: option.split list.split)
  qed
  have m: "jmembers num k s = jmembers num k' s" if l: "length s \<le> Suc n" "2 * Suc n + 3 \<le> k" "2 * Suc n + 3 \<le> k'" for s k k'
  proof -
    obtain j j' where k: "k = Suc j" "k' = Suc j'" using l(2,3) by (cases k; cases k') auto
    have jv: "jval num j r2 = jval num j' r2" and jm: "\<And>x r3 c3 q. jval num j' r2 = Some (x, r3) \<Longrightarrow>
        skip_ws r3 = c3 # q \<Longrightarrow> jmembers num j q = jmembers num j' q"
      if "skip_ws s = c # r" "jstr_body r = Some (key, r1)" "skip_ws r1 = c1 # r2" for c r key r1 c1 r2
    proof -
      have n: "length r2 \<le> n"
        using skip_ws_Cons_length [OF that(1)] jstr_body_length [OF that(2)] skip_ws_Cons_length [OF that(3)] l(1) by simp
      show "jval num j r2 = jval num j' r2" using ih1 [OF n] l by (simp add: k)
      fix x r3 c3 q assume "jval num j' r2 = Some (x, r3)" "skip_ws r3 = c3 # q"
      then show "jmembers num j q = jmembers num j' q"
        using ih3 [of q j j'] n jparse_length(1) [of num j' r2 x r3] skip_ws_Cons_length [of r3 c3 q] l by (simp add: k)
    qed
    show ?thesis by (auto simp: k jv jm split: option.split list.split)
  qed
  show ?case using v e m by blast
qed

lemma jval_fuel: "2 * length s + 2 \<le> k \<Longrightarrow> jval num k s = json_first num s"
  using jparse_fuel [where n = "length s"] unfolding json_first_def by blast

section \<open>Strings come back\<close>

definition ascii :: "string \<Rightarrow> bool" where
  "ascii s \<longleftrightarrow> (\<forall>c \<in> set s. code c < 128)"

lemma jstr_body_escape_char:
  assumes "code c < 128"
  shows "jstr_body (escape_char c @ t) = map_option (\<lambda>(x, q). (c # x, q)) (jstr_body t)"
proof -
  define S where "S = {CHR 0x22, CHR 0x5C, CHR 0x08, CHR 0x0C, CHR 0x0A, CHR 0x0D, CHR 0x09}"
  define P where "P \<longleftrightarrow> code c < 32 \<or> c = CHR 0x3C \<or> c = CHR 0x3E \<or> c = CHR 0x26"
  consider "c \<in> S" | "c \<notin> S" "P" | "c \<notin> S" "\<not> P" by blast
  then show ?thesis
  proof cases
    case 1
    then show ?thesis unfolding S_def by (elim insertE emptyE) (simp_all add: escape_char_def jstr_body_simps short_escape_def)
  next
    case 2
    define a b where "a = code c div 16" and "b = code c mod 16"
    have e: "escape_char c = [CHR 0x5C, CHR ''u'', CHR ''0'', CHR ''0'', hex_digit a, hex_digit b]"
      using 2 by (auto simp: S_def P_def escape_char_def a_def b_def)
    have h: "d < 16 \<Longrightarrow> hex_val (hex_digit d) = Some d" for d :: nat
      by (auto simp: hex_val_def hex_digit_def is_digit_def)
    have z: "hex_val (CHR ''0'') = Some 0" by code_simp
    have ab: "a < 16" "b < 16" "a * 16 + b = code c" using assms by (auto simp: a_def b_def)
    have x: "hex4 (CHR ''0'' # CHR ''0'' # hex_digit a # hex_digit b # t) = Some (code c)"
      using ab by (simp add: hex4_def h z)
    have u: "unicode_escape (code c) t = ([c], 0)" using assms by (simp add: unicode_escape_def utf8_def)
    show ?thesis using x u by (simp add: e jstr_body_simps)
  next
    case 3
    then have "escape_char c = [c]" "32 \<le> code c" "c \<noteq> CHR 0x22" "c \<noteq> CHR 0x5C"
      by (auto simp: S_def P_def escape_char_def)
    then show ?thesis using jstr_body_simps(5) [of c t] by simp
  qed
qed

lemma jstr_body_marshal:
  assumes "ascii s"
  shows "jstr_body (concat (map escape_char s) @ CHR 0x22 # rest) = Some (s, rest)"
  using assms by (induction s) (auto simp: ascii_def jstr_body_simps jstr_body_escape_char)

end
