(* ===== verification/JsonFuncs.thy ===== *)
theory JsonFuncs
  imports Json Float64
begin

text \<open>
  Arrays, jsonb and hstore over JSON text: \<open>engine/arrayfuncs.go\<close>, \<open>engine/jsonfuncs.go\<close>, \<open>engine/hstore.go\<close>
  and their text forms on the wire, \<open>protocol/postgres/hstore.go\<close> and \<open>array.go\<close>. A value read into \<open>any\<close>
  holds its numbers as \<open>float64\<close>: \<open>pf\<close> reads the literal of one, \<open>pn\<close> prints one as JSON, \<open>ff\<close> as \<open>fmt\<close>
  does. What is proved: jsonb containment is a preorder, and an hstore written as text reads back as
  the same map.
\<close>

type_synonym any = "64 word json"

section \<open>Arrays of raw elements\<close>

text \<open>\<open>Unmarshal\<close> into \<open>[]json.RawMessage\<close>: the elements as they are written; \<open>null\<close> is the empty list.\<close>

fun jraws :: "nat \<Rightarrow> string \<Rightarrow> (string list \<times> string) option" where
  "jraws 0 s = None"
| "jraws (Suc k) s =
     (let s1 = skip_ws s in
      case json_first Some s1 of
        None \<Rightarrow> None
      | Some (v, r) \<Rightarrow>
          (let raw = take (length s1 - length r) s1 in
           case skip_ws r of
             [] \<Rightarrow> None
           | c # q \<Rightarrow>
               if c = CHR '','' then map_option (\<lambda>(vs, p). (raw # vs, p)) (jraws k q)
               else if c = CHR '']'' then Some ([raw], q)
               else None))"

definition raw_array :: "string \<Rightarrow> string list option" where
  "raw_array s =
     (case Unmarshal Some s of
        None \<Rightarrow> None
      | Some JNull \<Rightarrow> Some []
      | Some (JArr []) \<Rightarrow> Some []
      | Some (JArr _) \<Rightarrow> map_option fst (jraws (length s) (tl (skip_ws s)))
      | Some _ \<Rightarrow> None)"

definition isJSONArrayText :: "string \<Rightarrow> bool" where
  "isJSONArrayText s \<longleftrightarrow> raw_array s \<noteq> None"

definition jsonArraysOverlap :: "string \<Rightarrow> string \<Rightarrow> bool \<times> bool" where
  "jsonArraysOverlap a b =
     (case (raw_array a, raw_array b) of
        (Some ax, Some bx) \<Rightarrow> (\<exists>e \<in> set bx. e \<in> set ax, True)
      | _ \<Rightarrow> (False, False))"

definition jsonArrayLen :: "core_value \<Rightarrow> (int \<times> bool)" where
  "jsonArrayLen v =
     (case (case v of VString s \<Rightarrow> Some s | VBytes s \<Rightarrow> Some s | _ \<Rightarrow> None) of
        None \<Rightarrow> (0, False)
      | Some s \<Rightarrow> (case raw_array s of None \<Rightarrow> (0, False) | Some xs \<Rightarrow> (int (length xs), True)))"

text \<open>\<open>reIntVector\<close>: integers with single spaces between them.\<close>

definition is_int_text :: "string \<Rightarrow> bool" where
  "is_int_text s = (let d = TrimPrefix s ''-'' in d \<noteq> [] \<and> list_all is_digit d)"

definition reIntVector :: "string \<Rightarrow> bool" where
  "reIntVector s = list_all is_int_text (SplitByte s (CHR '' ''))"

text \<open>\<open>strings.Trim (strings.TrimSpace p, `"`)\<close>.\<close>

definition bare_elem :: "string \<Rightarrow> string" where
  "bare_elem p = Trim (TrimSpace p) [CHR 0x22]"

definition arrayAsJSON :: "string \<Rightarrow> core_value" where
  "arrayAsJSON arg =
     (let s = TrimSpace arg in
      if s = [] then VNull
      else if isJSONArrayText s then VString s
      else if reIntVector s then VString (''['' @ Join (Fields s) '','' @ '']'')
      else if HasPrefix s [CHR 0x7B] \<and> HasSuffix s [CHR 0x7D] then
        (let inner = TrimSpace (take (length s - 2) (tl s)) in
         if inner = [] then VString ''[]''
         else VString (''['' @ Join (map (\<lambda>p. let p = bare_elem p in
                if EqualFold p ''null'' then ''null'' else if reIntVector p then p else marshal_str p)
              (SplitByte inner (CHR '',''))) '','' @ '']''))
      else VNull)"

definition arrayLower :: "string \<Rightarrow> core_value" where
  "arrayLower arg = (if reIntVector (TrimSpace arg) \<and> \<not> isJSONArrayText arg then VInt 0 else VInt 1)"

section \<open>jsonb\<close>

text \<open>A value in \<open>any\<close>: the objects are maps, the last value of a key counts.\<close>

fun as_any :: "'n json \<Rightarrow> 'n json" where
  "as_any (JArr vs) = JArr (map as_any vs)"
| "as_any (JObj ms) = JObj (obj_map (map (\<lambda>(k, v). (k, as_any v)) ms))"
| "as_any v = v"

definition unmarshal_any :: "(string \<Rightarrow> 64 word option) \<Rightarrow> string \<Rightarrow> any option" where
  "unmarshal_any pf s = map_option as_any (Unmarshal pf s)"

definition jsonbExists :: "(string \<Rightarrow> 64 word option) \<Rightarrow> string \<Rightarrow> string \<Rightarrow> bool" where
  "jsonbExists pf j key =
     (case unmarshal_any pf j of
        Some (JObj ms) \<Rightarrow> map_of ms key \<noteq> None
      | Some (JArr vs) \<Rightarrow> JStr key \<in> set vs
      | _ \<Rightarrow> False)"

fun sprint_any :: "(64 word \<Rightarrow> string) \<Rightarrow> any \<Rightarrow> string" where
  "sprint_any ff JNull = ''<nil>''"
| "sprint_any ff (JBool x) = (if x then ''true'' else ''false'')"
| "sprint_any ff (JNum n) = ff n"
| "sprint_any ff (JStr s) = s"
| "sprint_any ff (JArr vs) = ''['' @ Join (map (sprint_any ff) vs) '' '' @ '']''"
| "sprint_any ff (JObj ms) =
     ''map['' @ Join (map (\<lambda>(k, s). k @ '':'' @ s) (sort_keys (map (\<lambda>(k, v). (k, sprint_any ff v)) ms))) '' '' @ '']''"

definition jsonStrArray :: "(string \<Rightarrow> 64 word option) \<Rightarrow> (64 word \<Rightarrow> string) \<Rightarrow> string \<Rightarrow> string list" where
  "jsonStrArray pf ff s =
     (case unmarshal_any pf s of Some (JArr vs) \<Rightarrow> map (sprint_any ff) vs | _ \<Rightarrow> [])"

definition jsonbExistsAny :: "(string \<Rightarrow> 64 word option) \<Rightarrow> (64 word \<Rightarrow> string) \<Rightarrow> string \<Rightarrow> string \<Rightarrow> bool" where
  "jsonbExistsAny pf ff j keys = list_ex (jsonbExists pf j) (jsonStrArray pf ff keys)"

definition jsonbExistsAll :: "(string \<Rightarrow> 64 word option) \<Rightarrow> (64 word \<Rightarrow> string) \<Rightarrow> string \<Rightarrow> string \<Rightarrow> bool" where
  "jsonbExistsAll pf ff j keys = list_all (jsonbExists pf j) (jsonStrArray pf ff keys)"

text \<open>\<open>reflect.DeepEqual\<close> on scalars: floats by IEEE comparison (JSON has no NaN).\<close>

definition float_eq :: "64 word \<Rightarrow> 64 word \<Rightarrow> bool" where
  "float_eq x y \<longleftrightarrow> x = y \<or> float_is_zero x \<and> float_is_zero y"

fun scalar_eq :: "any \<Rightarrow> any \<Rightarrow> bool" where
  "scalar_eq JNull JNull = True"
| "scalar_eq (JBool x) (JBool y) = (x = y)"
| "scalar_eq (JNum x) (JNum y) = float_eq x y"
| "scalar_eq (JStr x) (JStr y) = (x = y)"
| "scalar_eq _ _ = False"

lemma size_map_of: "map_of ms k = Some v \<Longrightarrow> size v \<le> size_list (size_prod (\<lambda>x. 0) size) ms"
  by (induction ms) (auto split: if_splits)

lemma size_pair: "(k, v) \<in> set ms \<Longrightarrow> size v \<le> size_list (size_prod (\<lambda>x. 0) size) ms"
  by (induction ms) auto

lemma size_elem: "(x :: 'n json) \<in> set xs \<Longrightarrow> size x \<le> size_list size xs"
  by (induction xs) auto

function jsonContains :: "any \<Rightarrow> any \<Rightarrow> bool" where
  "jsonContains a (JObj bm) =
     (case a of
        JObj am \<Rightarrow> (\<forall>kv \<in> set bm. case map_of am (fst kv) of None \<Rightarrow> False | Some av \<Rightarrow> jsonContains av (snd kv))
      | _ \<Rightarrow> False)"
| "jsonContains a (JArr bs) =
     (case a of JArr aa \<Rightarrow> (\<forall>be \<in> set bs. \<exists>e \<in> set aa. jsonContains e be) | _ \<Rightarrow> False)"
| "jsonContains a JNull = (case a of JArr aa \<Rightarrow> (\<exists>e \<in> set aa. jsonContains e JNull) | _ \<Rightarrow> scalar_eq a JNull)"
| "jsonContains a (JBool x) = (case a of JArr aa \<Rightarrow> (\<exists>e \<in> set aa. jsonContains e (JBool x)) | _ \<Rightarrow> scalar_eq a (JBool x))"
| "jsonContains a (JNum x) = (case a of JArr aa \<Rightarrow> (\<exists>e \<in> set aa. jsonContains e (JNum x)) | _ \<Rightarrow> scalar_eq a (JNum x))"
| "jsonContains a (JStr x) = (case a of JArr aa \<Rightarrow> (\<exists>e \<in> set aa. jsonContains e (JStr x)) | _ \<Rightarrow> scalar_eq a (JStr x))"
  by pat_completeness auto
termination
  by (relation "measure (\<lambda>(a, b). size a + size b)") (auto dest!: size_map_of size_pair size_elem)

definition anyContains :: "any list \<Rightarrow> any \<Rightarrow> bool" where
  "anyContains arr b \<longleftrightarrow> (\<exists>e \<in> set arr. jsonContains e b)"

definition jsonbContains :: "(string \<Rightarrow> 64 word option) \<Rightarrow> string \<Rightarrow> string \<Rightarrow> bool" where
  "jsonbContains pf a b =
     (case (unmarshal_any pf a, unmarshal_any pf b) of (Some av, Some bv) \<Rightarrow> jsonContains av bv | _ \<Rightarrow> False)"

section \<open>hstore: reading\<close>

definition skipWS :: "string \<Rightarrow> nat \<Rightarrow> nat" where
  "skipWS s i = scan_while (\<lambda>c. c = CHR '' '' \<or> c = CHR 0x09 \<or> c = CHR 0x0A) s i"

function hstoreQuoted_from :: "string \<Rightarrow> nat \<Rightarrow> string \<times> nat" where
  "hstoreQuoted_from s i =
     (if i < length s then
        (if s ! i = CHR 0x5C \<and> i + 1 < length s then
           (let (t, j) = hstoreQuoted_from s (i + 2) in (s ! (i + 1) # t, j))
         else if s ! i = CHR 0x22 then ([], i + 1)
         else (let (t, j) = hstoreQuoted_from s (i + 1) in (s ! i # t, j)))
      else ([], i))"
  by auto
termination
  by (relation "measure (\<lambda>(s, i). length s - i)") auto

declare hstoreQuoted_from.simps [simp del]

definition hstoreQuoted :: "string \<Rightarrow> nat \<Rightarrow> string \<times> nat" where
  "hstoreQuoted s i = hstoreQuoted_from s (i + 1)"

definition hstoreToken :: "string \<Rightarrow> nat \<Rightarrow> (string \<times> nat) option" where
  "hstoreToken s i =
     (if length s \<le> i then None
      else if s ! i = CHR 0x22 then Some (hstoreQuoted s i)
      else (let j = scan_while (\<lambda>c. c \<noteq> CHR '' '' \<and> c \<noteq> CHR 0x09 \<and> c \<noteq> CHR ''='' \<and> c \<noteq> CHR '','') s i in
            if j = i then None else Some (Scanner.slice s i j, j)))"

text \<open>A value: \<open>None\<close> for the unquoted word NULL.\<close>

definition hstoreValue :: "string \<Rightarrow> nat \<Rightarrow> string option \<times> nat" where
  "hstoreValue s i =
     (if i < length s \<and> s ! i = CHR 0x22 then (let (v, j) = hstoreQuoted s i in (Some v, j))
      else (let j = scan_while (\<lambda>c. c \<noteq> CHR '','' \<and> c \<noteq> CHR '' '' \<and> c \<noteq> CHR 0x09) s i; tok = Scanner.slice s i j in
            if EqualFold tok ''null'' then (None, j) else (Some tok, j)))"

lemma hstoreQuoted_from_ge: "i \<le> snd (hstoreQuoted_from s i)"
proof (induction s i rule: hstoreQuoted_from.induct)
  case (1 s i)
  show ?case
    using 1 by (subst hstoreQuoted_from.simps) (auto simp: Let_def split: prod.split)
qed

lemma hstoreToken_gt: "hstoreToken s i = Some (k, j) \<Longrightarrow> i < j"
  using scan_while_ge [of i "\<lambda>c. c \<noteq> CHR '' '' \<and> c \<noteq> CHR 0x09 \<and> c \<noteq> CHR ''='' \<and> c \<noteq> CHR '',''" s]
    hstoreQuoted_from_ge [of "i + 1" s]
  by (auto simp: hstoreToken_def hstoreQuoted_def Let_def split: if_splits)

lemma hstoreValue_ge: "i \<le> snd (hstoreValue s i)"
  using scan_while_ge [of i _ s] hstoreQuoted_from_ge [of "i + 1" s]
  by (auto simp: hstoreValue_def hstoreQuoted_def Let_def split: prod.splits)

function hstoreIn_from :: "string \<Rightarrow> nat \<Rightarrow> (string \<times> string option) list \<Rightarrow> (string \<times> string option) list" where
  "hstoreIn_from s i m =
     (let i = skipWS s i in
      if length s \<le> i then m
      else (case hstoreToken s i of
              None \<Rightarrow> m
            | Some (key, ni) \<Rightarrow>
                (let j = skipWS s ni in
                 if length s \<le> j + 1 \<or> s ! j \<noteq> CHR ''='' \<or> s ! (j + 1) \<noteq> CHR ''>'' then m
                 else (let (v, ni2) = hstoreValue s (skipWS s (j + 2)); e = skipWS s ni2 in
                       hstoreIn_from s (if e < length s \<and> s ! e = CHR '','' then e + 1 else e)
                         (AList.update key v m)))))"
  by pat_completeness auto
termination
proof (relation "measure (\<lambda>(s, i, m). length s - i)", simp, goal_cases)
  case (1 s i m x xa key ni y xb v ni2 e)
  have "x < ni" using hstoreToken_gt 1 by auto
  moreover have "i \<le> x" "ni \<le> y" "y \<le> skipWS s (y + 2)" "ni2 \<le> e"
    using 1 scan_while_ge [of _ _ s] by (auto simp: skipWS_def intro: le_trans [OF _ scan_while_ge])
  moreover have "skipWS s (y + 2) \<le> ni2" using hstoreValue_ge [of "skipWS s (y + 2)" s] 1 by (metis snd_conv)
  ultimately have "i < e" by linarith
  moreover have "i < length s" using 1 \<open>i \<le> x\<close> by linarith
  ultimately show ?case by auto
qed

declare hstoreIn_from.simps [simp del]

text \<open>The stored form: a JSON object of strings and nulls.\<close>

definition hstore_json :: "(string \<times> string option) list \<Rightarrow> any" where
  "hstore_json m = JObj (map (\<lambda>(k, v). (k, case v of None \<Rightarrow> JNull | Some x \<Rightarrow> JStr x)) m)"

definition hstoreIn :: "(64 word \<Rightarrow> string) \<Rightarrow> string \<Rightarrow> string" where
  "hstoreIn pn s = Marshal pn (hstore_json (hstoreIn_from s 0 []))"

section \<open>hstore: writing\<close>

text \<open>\<open>Unmarshal\<close> into \<open>map[string]any\<close>; \<open>None\<close> for its error.\<close>

definition unmarshal_map :: "(string \<Rightarrow> 64 word option) \<Rightarrow> string \<Rightarrow> (string \<times> any) list option" where
  "unmarshal_map pf s =
     (case unmarshal_any pf s of Some (JObj ms) \<Rightarrow> Some ms | Some JNull \<Rightarrow> Some [] | _ \<Rightarrow> None)"

definition hstoreMap :: "(string \<Rightarrow> 64 word option) \<Rightarrow> string \<Rightarrow> (string \<times> any) list" where
  "hstoreMap pf s = (case unmarshal_map pf s of Some m \<Rightarrow> m | None \<Rightarrow> [])"

definition hstoreQuote :: "string \<Rightarrow> string" where
  "hstoreQuote s =
     CHR 0x22 # ReplaceByte (ReplaceByte s (CHR 0x5C) [CHR 0x5C, CHR 0x5C]) (CHR 0x22) [CHR 0x5C, CHR 0x22] @ [CHR 0x22]"

definition valToString :: "(64 word \<Rightarrow> string) \<Rightarrow> any \<Rightarrow> string" where
  "valToString pn v =
     (case v of JStr s \<Rightarrow> s | JBool x \<Rightarrow> (if x then ''true'' else ''false'') | JNum n \<Rightarrow> pn n | _ \<Rightarrow> Marshal pn v)"

definition hstoreQuoteVal :: "(64 word \<Rightarrow> string) \<Rightarrow> any \<Rightarrow> string" where
  "hstoreQuoteVal pn v = (if v = JNull then ''NULL'' else hstoreQuote (valToString pn v))"

definition hstoreOut :: "(string \<Rightarrow> 64 word option) \<Rightarrow> (64 word \<Rightarrow> string) \<Rightarrow> string \<Rightarrow> string" where
  "hstoreOut pf pn s =
     Join (map (\<lambda>(k, v). hstoreQuote k @ ''=>'' @ hstoreQuoteVal pn v) (sort_keys (hstoreMap pf s))) '', ''"

definition hstoreKeys :: "(string \<Rightarrow> 64 word option) \<Rightarrow> string \<Rightarrow> string" where
  "hstoreKeys pf s = Marshal (\<lambda>_. []) (JArr (map JStr (map fst (sort_keys (hstoreMap pf s)))) :: any)"

definition hstoreVals :: "(string \<Rightarrow> 64 word option) \<Rightarrow> (64 word \<Rightarrow> string) \<Rightarrow> string \<Rightarrow> string" where
  "hstoreVals pf pn s =
     Marshal pn (JArr (map (\<lambda>(k, v). JStr (valToString pn v)) (sort_keys (hstoreMap pf s))))"

text \<open>The same on the wire (\<open>protocol/postgres/hstore.go\<close>).\<close>

definition hstoreQuoteStr :: "string \<Rightarrow> string" where
  "hstoreQuoteStr s =
     CHR 0x22 # ReplaceByte (ReplaceByte s (CHR 0x5C) [CHR 0x5C, CHR 0x5C]) (CHR 0x22) [CHR 0x5C, CHR 0x22] @ [CHR 0x22]"

definition hstoreScalar :: "(64 word \<Rightarrow> string) \<Rightarrow> any \<Rightarrow> string" where
  "hstoreScalar pn v = (case v of JStr s \<Rightarrow> s | _ \<Rightarrow> Marshal pn v)"

definition hstoreText :: "(string \<Rightarrow> 64 word option) \<Rightarrow> (64 word \<Rightarrow> string) \<Rightarrow> string \<Rightarrow> string" where
  "hstoreText pf pn s =
     (case unmarshal_map pf s of
        None \<Rightarrow> s
      | Some m \<Rightarrow>
          Join (map (\<lambda>(k, v). hstoreQuoteStr k @ ''=>'' @
                       (if v = JNull then ''NULL'' else hstoreQuoteStr (hstoreScalar pn v)))
                 (sort_keys m)) '', '')"

section \<open>Array text\<close>

definition quotePGArrayElem :: "string \<Rightarrow> string" where
  "quotePGArrayElem s =
     (if s = [] \<or> EqualFold s ''null'' \<or> IndexAny s [CHR 0x7B, CHR 0x7D, CHR '','', CHR 0x22, CHR 0x5C, CHR '' ''] \<noteq> None
      then CHR 0x22 # ReplaceByte (ReplaceByte s (CHR 0x5C) [CHR 0x5C, CHR 0x5C]) (CHR 0x22) [CHR 0x5C, CHR 0x22]
             @ [CHR 0x22]
      else s)"

text \<open>With \<open>UseNumber\<close> a number keeps its literal.\<close>

fun pgArrayElem :: "string json \<Rightarrow> string" where
  "pgArrayElem JNull = ''NULL''"
| "pgArrayElem (JBool x) = (if x then ''t'' else ''f'')"
| "pgArrayElem (JNum lit) = lit"
| "pgArrayElem (JStr s) = quotePGArrayElem s"
| "pgArrayElem (JArr vs) = CHR 0x7B # Join (map pgArrayElem vs) '','' @ [CHR 0x7D]"
| "pgArrayElem (JObj ms) = quotePGArrayElem []"

definition pgArrayText :: "string json list \<Rightarrow> string" where
  "pgArrayText arr = CHR 0x7B # Join (map pgArrayElem arr) '','' @ [CHR 0x7D]"

definition jsonArrayToPGText :: "core_value \<Rightarrow> string" where
  "jsonArrayToPGText v =
     (let s = asString v in
      case json_first Some s of
        Some (JArr arr, _) \<Rightarrow> pgArrayText arr
      | Some (JNull, _) \<Rightarrow> pgArrayText []
      | _ \<Rightarrow> s)"

definition isNumericElem :: "string \<Rightarrow> bool" where
  "isNumericElem elem =
     list_ex (Contains (ToUpper elem)) [''INT'', ''REAL'', ''FLOA'', ''DOUB'', ''NUMERIC'', ''DEC'', ''SERIAL'']"

definition pgArrayLitToJSON :: "string \<Rightarrow> string \<Rightarrow> string" where
  "pgArrayLitToJSON inner elem =
     (let s = TrimSuffix (TrimPrefix (TrimSpace inner) [CHR 0x7B]) [CHR 0x7D] in
      if TrimSpace s = [] then ''[]''
      else ''['' @ Join (map (\<lambda>e. let e = bare_elem e in
               if EqualFold e ''null'' then ''null''
               else if isNumericElem elem then e
               else CHR 0x22 # ReplaceByte e (CHR 0x22) [CHR 0x5C, CHR 0x22] @ [CHR 0x22])
             (SplitByte s (CHR '',''))) '','' @ '']'')"



section \<open>An hstore survives its text form\<close>

lemma scan_while_run:
  "list_all P xs \<Longrightarrow> rest = [] \<or> \<not> P (hd rest) \<Longrightarrow>
     scan_while P (pre @ xs @ rest) (length pre) = length pre + length xs"
proof (induction xs arbitrary: pre)
  case Nil
  then show ?case by (subst scan_while.simps) (cases rest; auto)
next
  case (Cons x xs)
  have "scan_while P (pre @ (x # xs) @ rest) (length pre) = scan_while P ((pre @ [x]) @ xs @ rest) (length (pre @ [x]))"
    using Cons.prems(1) by (subst scan_while.simps) simp
  also have "\<dots> = length (pre @ [x]) + length xs" by (rule Cons.IH) (use Cons.prems in auto)
  finally show ?case by simp
qed

definition esc_char :: "char \<Rightarrow> string" where
  "esc_char c = (if c = CHR 0x5C \<or> c = CHR 0x22 then [CHR 0x5C, c] else [c])"

lemma hstoreQuoteStr_eq: "hstoreQuoteStr s = CHR 0x22 # concat (map esc_char s) @ [CHR 0x22]"
proof -
  have "ReplaceByte (ReplaceByte s (CHR 0x5C) [CHR 0x5C, CHR 0x5C]) (CHR 0x22) [CHR 0x5C, CHR 0x22]
      = concat (map esc_char s)"
    by (induction s) (auto simp: ReplaceByte_def esc_char_def)
  then show ?thesis by (simp add: hstoreQuoteStr_def)
qed

lemma hstoreQuoted_from_read:
  "hstoreQuoted_from (pre @ concat (map esc_char v) @ CHR 0x22 # rest) (length pre) =
     (v, length pre + length (concat (map esc_char v)) + 1)"
proof (induction v arbitrary: pre)
  case Nil
  show ?case by (subst hstoreQuoted_from.simps) simp
next
  case (Cons c v)
  show ?case
  proof (cases "c = CHR 0x5C \<or> c = CHR 0x22")
    case True
    then have "esc_char c = [CHR 0x5C, c]" by (simp add: esc_char_def)
    then show ?thesis using Cons [of "pre @ [CHR 0x5C, c]"]
      by (subst hstoreQuoted_from.simps) (simp add: nth_append)
  next
    case False
    then have "esc_char c = [c]" by (simp add: esc_char_def)
    then show ?thesis using Cons [of "pre @ [c]"] False
      by (subst hstoreQuoted_from.simps) (simp add: nth_append)
  qed
qed

lemma hstoreQuoted_read:
  "hstoreQuoted (pre @ hstoreQuoteStr v @ rest) (length pre) = (v, length pre + length (hstoreQuoteStr v))"
  using hstoreQuoted_from_read [of "pre @ [CHR 0x22]" v rest] by (simp add: hstoreQuoted_def hstoreQuoteStr_eq)

definition pair_text :: "string \<times> string option \<Rightarrow> string" where
  "pair_text kv =
     hstoreQuoteStr (fst kv) @ ''=>'' @ (case snd kv of None \<Rightarrow> ''NULL'' | Some x \<Rightarrow> hstoreQuoteStr x)"

lemma skipWS_stay: "rest = [] \<or> hd rest \<notin> {CHR '' '', CHR 0x09, CHR 0x0A} \<Longrightarrow> skipWS (pre @ rest) (length pre) = length pre"
  using scan_while_run [of _ "[]" rest pre] by (simp add: skipWS_def)

lemma hstoreIn_pair:
  assumes "rest = [] \<or> hd rest = CHR '',''" "ws = [] \<or> ws = '' ''"
  shows "hstoreIn_from (pre @ ws @ pair_text kv @ rest) (length pre) m =
    hstoreIn_from (pre @ ws @ pair_text kv @ rest) (length pre + length ws + length (pair_text kv) + (if rest = [] then 0 else 1))
      (AList.update (fst kv) (snd kv) m)"
proof -
  obtain k v where kv: "kv = (k, v)" by (cases kv)
  define K V where "K = hstoreQuoteStr k" and "V = (case v of None \<Rightarrow> ''NULL'' | Some x \<Rightarrow> hstoreQuoteStr x)"
  have q: "K \<noteq> []" "hd K = CHR 0x22" by (simp_all add: K_def hstoreQuoteStr_eq)
  define s p1 p2 p3 where "s = pre @ ws @ K @ ''=>'' @ V @ rest" and "p1 = pre @ ws" and "p2 = pre @ ws @ K"
    and "p3 = pre @ ws @ K @ ''=>''"
  have s1: "s = p1 @ K @ ''=>'' @ V @ rest" and s2: "s = p2 @ ''=>'' @ V @ rest" and s3: "s = p3 @ V @ rest"
    and s4: "s = (p3 @ V) @ rest" by (simp_all add: s_def p1_def p2_def p3_def)
  have "scan_while (\<lambda>c. c = CHR '' '' \<or> c = CHR 0x09 \<or> c = CHR 0x0A) (pre @ ws @ K @ ''=>'' @ V @ rest) (length pre)
      = length pre + length ws"
    by (rule scan_while_run) (use assms(2) q in auto)
  then have i: "skipWS s (length pre) = length p1" by (simp add: skipWS_def s_def p1_def)
  have "s ! length p1 = CHR 0x22" using q by (simp add: s1 nth_append hd_conv_nth)
  then have t: "hstoreToken s (length p1) = Some (k, length p2)"
    using hstoreQuoted_read [of p1 k "''=>'' @ V @ rest"] q
    by (simp add: hstoreToken_def s1 K_def p1_def p2_def)
  have j: "skipWS s (length p2) = length p2" unfolding s2 by (rule skipWS_stay) simp
  have eq: "s ! length p2 = CHR ''=''" "s ! (length p2 + 1) = CHR ''>''" "length p2 + 1 < length s"
    by (simp_all add: s2 nth_append)
  have V: "V \<noteq> []" "hd V \<notin> {CHR '' '', CHR 0x09, CHR 0x0A}"
    by (auto simp: V_def hstoreQuoteStr_eq split: option.splits)
  have l: "Suc (Suc (length p2)) = length p3" by (simp add: p2_def p3_def)
  have w: "skipWS s (length p3) = length p3" unfolding s3 by (rule skipWS_stay) (use V in simp)
  have v: "hstoreValue s (length p3) = (v, length (p3 @ V))"
  proof (cases v)
    case None
    have V0: "V = ''NULL''" by (simp add: V_def None)
    have r: "scan_while (\<lambda>c. c \<noteq> CHR '','' \<and> c \<noteq> CHR '' '' \<and> c \<noteq> CHR 0x09) s (length p3) = length p3 + length V"
      unfolding s3 by (rule scan_while_run) (use assms(1) V0 in auto)
    have "s ! length p3 \<noteq> CHR 0x22" by (simp add: s3 V0 nth_append)
    moreover have "Scanner.slice s (length p3) (length p3 + length V) = V" by (simp add: s3 Scanner.slice_def)
    moreover have "EqualFold V ''null''" unfolding V0 by code_simp
    ultimately show ?thesis by (simp add: hstoreValue_def Let_def r None)
  next
    case (Some x)
    have V0: "V = hstoreQuoteStr x" by (simp add: V_def Some)
    have "s ! length p3 = CHR 0x22" "length p3 < length s" by (simp_all add: s3 V0 nth_append hstoreQuoteStr_eq)
    then show ?thesis using hstoreQuoted_read [of p3 x rest] by (simp add: hstoreValue_def s3 V0 Some)
  qed
  have e: "skipWS s (length (p3 @ V)) = length (p3 @ V)" unfolding s4 by (rule skipWS_stay) (use assms(1) in auto)
  have n: "\<not> length s \<le> length p1" using q by (simp add: s1)
  have c: "(length (p3 @ V) < length s \<and> s ! length (p3 @ V) = CHR '','') = (rest \<noteq> [])"
    using assms(1) by (cases rest) (auto simp: s4 nth_append)
  have "hstoreIn_from s (length pre) m =
      hstoreIn_from s (if rest \<noteq> [] then length (p3 @ V) + 1 else length (p3 @ V)) (AList.update k v m)"
    using n eq c l v e by (subst hstoreIn_from.simps) (simp add: Let_def i t j w)
  moreover have "pre @ ws @ pair_text kv @ rest = s" by (simp add: pair_text_def kv s_def K_def V_def)
  moreover have "length pre + length ws + length (pair_text kv) = length (p3 @ V)"
    by (simp add: pair_text_def kv p3_def K_def V_def)
  ultimately show ?thesis by (simp add: kv)
qed

lemma hstoreIn_pairs:
  "ws = [] \<or> ws = '' '' \<Longrightarrow>
     hstoreIn_from (pre @ ws @ Join (map pair_text kvs) '', '') (length pre) m =
       foldl (\<lambda>m kv. AList.update (fst kv) (snd kv) m) m kvs"
proof (induction kvs arbitrary: pre ws m)
  case Nil
  have "length (pre @ ws) \<le> skipWS (pre @ ws) (length pre)"
    using scan_while_run [of "\<lambda>c. c = CHR '' '' \<or> c = CHR 0x09 \<or> c = CHR 0x0A" ws "[]" pre] Nil by (auto simp: skipWS_def)
  then show ?case by (subst hstoreIn_from.simps) (simp add: Let_def)
next
  case (Cons kv kvs)
  show ?case
  proof (cases kvs)
    case Nil
    have "hstoreIn_from (pre @ ws @ pair_text kv) (length (pre @ ws @ pair_text kv)) m' = m'" for m'
      using scan_while_ge [of "length (pre @ ws @ pair_text kv)" "\<lambda>c. c = CHR '' '' \<or> c = CHR 0x09 \<or> c = CHR 0x0A"
          "pre @ ws @ pair_text kv"]
      by (subst hstoreIn_from.simps) (simp add: Let_def skipWS_def)
    then show ?thesis using hstoreIn_pair [of "[]" ws pre kv m] Cons.prems Nil by (simp add: add.assoc)
  next
    case (Cons kv' kvs')
    define T where "T = Join (map pair_text kvs) '', ''"
    have J: "Join (map pair_text (kv # kvs)) '', '' = pair_text kv @ '','' @ '' '' @ T"
      by (simp add: T_def Cons)
    have "hstoreIn_from (pre @ ws @ pair_text kv @ '','' @ '' '' @ T) (length pre) m =
      hstoreIn_from ((pre @ ws @ pair_text kv @ '','') @ '' '' @ T) (length (pre @ ws @ pair_text kv @ '',''))
        (AList.update (fst kv) (snd kv) m)"
      using hstoreIn_pair [of "'','' @ '' '' @ T" ws pre kv m] \<open>ws = [] \<or> ws = '' ''\<close> by (simp add: add.assoc)
    then show ?thesis
      using Cons.IH [of "'' ''" "pre @ ws @ pair_text kv @ '',''"] unfolding J T_def by simp
  qed
qed


definition member_text :: "string \<times> string option \<Rightarrow> string" where
  "member_text kv =
     marshal_str (fst kv) @ '':'' @ (case snd kv of None \<Rightarrow> ''null'' | Some x \<Rightarrow> marshal_str x)"

definition as_json :: "string \<times> string option \<Rightarrow> string \<times> any" where
  "as_json kv = (fst kv, case snd kv of None \<Rightarrow> JNull | Some x \<Rightarrow> JStr x)"

lemma hstore_json_eq: "hstore_json m = JObj (map as_json m)"
  by (simp add: hstore_json_def as_json_def case_prod_beta')

lemma insort_key_map: "insort_key f (g x) (map g ys) = map g (insort_key (\<lambda>y. f (g y)) x ys)"
  by (induction ys) auto

lemma sort_key_map: "sort_key f (map g xs) = map g (sort_key (\<lambda>y. f (g y)) xs)"
  by (induction xs) (simp_all add: insort_key_map)

lemma Marshal_hstore: "Marshal pn (hstore_json m) = CHR 0x7B # Join (map member_text (sort_keys m)) '','' @ [CHR 0x7D]"
proof -
  have "map (\<lambda>(k, s). marshal_str k @ '':'' @ s) (sort_keys (map (\<lambda>(k, v). (k, Marshal pn v)) (map as_json m)))
      = map member_text (sort_keys m)"
    unfolding sort_keys_def map_map sort_key_map
    by (auto simp: as_json_def member_text_def case_prod_beta' o_def split: option.split)
  then show ?thesis by (simp add: hstore_json_eq)
qed

definition ascii_pair :: "string \<times> string option \<Rightarrow> bool" where
  "ascii_pair kv \<longleftrightarrow> ascii (fst kv) \<and> (case snd kv of None \<Rightarrow> True | Some x \<Rightarrow> ascii x)"

lemma skip_ws_stay: "\<not> is_jws c \<Longrightarrow> skip_ws (c # s) = c # s"
  by (simp add: skip_ws_def)

lemma jval_atom:
  assumes "case v of None \<Rightarrow> True | Some x \<Rightarrow> ascii x"
  shows "jval num (Suc k) ((case v of None \<Rightarrow> ''null'' | Some x \<Rightarrow> marshal_str x) @ rest) =
    Some (case v of None \<Rightarrow> JNull | Some x \<Rightarrow> JStr x, rest)"
proof (cases v)
  case None
  have "skip_ws (''null'' @ rest) = ''null'' @ rest" by (simp add: skip_ws_def is_jws_def)
  then show ?thesis by (simp add: None Let_def)
next
  case (Some x)
  have "skip_ws (marshal_str x @ rest) = marshal_str x @ rest" by (simp add: skip_ws_def is_jws_def marshal_str_def)
  then show ?thesis using assms jstr_body_marshal [of x rest]
    by (simp add: Some Let_def marshal_str_def)
qed

lemma jmembers_read:
  "kvs \<noteq> [] \<Longrightarrow> list_all ascii_pair kvs \<Longrightarrow> length kvs < k \<Longrightarrow>
     jmembers num k (Join (map member_text kvs) '','' @ CHR 0x7D # rest) = Some (map as_json kvs, rest)"
proof (induction kvs arbitrary: k)
  case (Cons kv kvs)
  obtain key v where kv: "kv = (key, v)" by (cases kv)
  obtain j where k: "k = Suc (Suc j)" using Cons.prems(3) by (cases k; cases "k - 1") auto
  have a: "ascii key" "case v of None \<Rightarrow> True | Some x \<Rightarrow> ascii x" using Cons.prems(2) by (simp_all add: ascii_pair_def kv)
  define V :: string where "V = (case v of None \<Rightarrow> ''null'' | Some x \<Rightarrow> marshal_str x)"
  define W :: any where "W = (case v of None \<Rightarrow> JNull | Some x \<Rightarrow> JStr x)"
  have jv: "jval num (Suc j) (V @ t) = Some (W, t)" for t
    unfolding V_def W_def by (rule jval_atom [OF a(2)])
  have step: "jmembers num k (member_text kv @ c # t) =
      (if c = CHR '','' then map_option (\<lambda>(ms, p). ((key, W) # ms, p)) (jmembers num (Suc j) t)
       else if c = CHR 0x7D then Some ([(key, W)], t) else None)" if "\<not> is_jws c" for c t
  proof -
    have "member_text kv @ c # t = CHR 0x22 # (concat (map escape_char key) @ CHR 0x22 # '':'' @ V @ c # t)"
      by (simp add: member_text_def kv marshal_str_def V_def)
    moreover have "skip_ws (CHR 0x22 # x) = CHR 0x22 # x" "skip_ws (CHR '':'' # x) = CHR '':'' # x" for x
      by (simp_all add: skip_ws_def is_jws_def)
    ultimately show ?thesis
      using jstr_body_marshal [OF a(1), of "'':'' @ V @ c # t"] that
      by (simp add: k jv skip_ws_stay del: jval.simps)
  qed
  show ?case
  proof (cases kvs)
    case Nil
    then show ?thesis using step [of "CHR 0x7D" rest] by (simp add: is_jws_def as_json_def kv W_def)
  next
    case (Cons kv' kvs')
    define T where "T = Join (map member_text kvs) '','' @ CHR 0x7D # rest"
    have "Join (map member_text (kv # kvs)) '','' @ CHR 0x7D # rest = member_text kv @ CHR '','' # T"
      by (simp add: T_def Cons)
    moreover have "jmembers num (Suc j) T = Some (map as_json kvs, rest)"
      unfolding T_def using Cons.IH [of "Suc j"] Cons.prems Cons k by simp
    ultimately show ?thesis using step [of "CHR '',''" T] by (simp add: is_jws_def as_json_def kv W_def)
  qed
qed simp



lemma update_new: "k \<notin> fst ` set m \<Longrightarrow> AList.update k v m = m @ [(k, v)]"
  by (induction m) auto

lemma foldl_update_distinct:
  "distinct (map fst (m @ kvs)) \<Longrightarrow> foldl (\<lambda>m kv. AList.update (fst kv) (snd kv) m) m kvs = m @ kvs"
proof (induction kvs arbitrary: m)
  case (Cons kv kvs)
  then show ?case using update_new [of "fst kv" m "snd kv"] by (cases kv) auto
qed simp

lemma obj_map_distinct: "distinct (map fst ms) \<Longrightarrow> obj_map ms = ms"
  using foldl_update_distinct [of "[]" ms] by (simp add: obj_map_def case_prod_beta')

lemma sort_keys_idem [simp]: "sort_keys (sort_keys m) = sort_keys m"
  by (simp add: sort_keys_def sort_key_id_if_sorted)

lemma unmarshal_hstore:
  assumes "distinct (map fst m)" "list_all ascii_pair m"
  shows "unmarshal_map pf (Marshal pn (hstore_json m)) = Some (map as_json (sort_keys m))"
proof -
  define kvs where "kvs = sort_keys m"
  have d: "distinct (map fst kvs)" and a: "list_all ascii_pair kvs"
    using assms by (auto simp: kvs_def sort_keys_def list_all_iff distinct_map distinct_sort) 
  define S where "S = CHR 0x7B # Join (map member_text kvs) '','' @ [CHR 0x7D]"
  have len: "length kvs \<le> length (Join (map member_text kvs) '','')"
  proof (induction kvs)
    case (Cons kv kvs)
    have "1 \<le> length (member_text kv)" by (simp add: member_text_def marshal_str_def)
    then show ?case using Cons by (cases kvs) auto
  qed simp
  have p: "json_first pf S = Some (JObj (map as_json kvs), [])"
  proof (cases "kvs = []")
    case True
    then show ?thesis by (simp add: S_def json_first_def eval_nat_numeral skip_ws_def is_jws_def Let_def)
  next
    case False
    define r where "r = Join (map member_text kvs) '','' @ [CHR 0x7D]"
    obtain t where t: "r = CHR 0x22 # t"
      using False by (cases kvs; cases "tl kvs") (auto simp: r_def member_text_def marshal_str_def)
    have m: "jmembers pf (2 * length S + 1) r = Some (map as_json kvs, [])"
      unfolding r_def by (rule jmembers_read [OF False a]) (use len in \<open>simp add: S_def\<close>)
    have "jval pf (Suc k) (CHR 0x7B # r) = map_option (\<lambda>(ms, q). (JObj ms, q)) (jmembers pf k r)" for k
      by (simp add: t skip_ws_stay is_jws_def Let_def)
    from this [of "2 * length S + 1"] show ?thesis using m
      by (simp add: json_first_def S_def flip: r_def)
  qed
  have j: "as_any (JObj (map as_json kvs)) = JObj (map as_json kvs)"
  proof -
    have e: "map (\<lambda>(k, v). (k, as_any v)) (map as_json kvs) = map as_json kvs"
      by (auto simp: as_json_def split: option.split)
    have f: "map fst (map as_json kvs) = map fst kvs" by (simp add: as_json_def)
    have "distinct (map fst (map as_json kvs))" unfolding f by (rule d)
    from obj_map_distinct [OF this] show ?thesis unfolding as_any.simps e by simp
  qed
  have "unmarshal_any pf S = Some (JObj (map as_json kvs))"
    using j by (simp add: unmarshal_any_def Unmarshal_def p skip_ws_def)
  then show ?thesis by (simp add: unmarshal_map_def Marshal_hstore kvs_def S_def)
qed



section \<open>Containment is a preorder\<close>

fun wf_any :: "any \<Rightarrow> bool" where
  "wf_any (JObj ms) = (distinct (map fst ms) \<and> (\<forall>kv \<in> set ms. wf_any (snd kv)))"
| "wf_any (JArr vs) = (\<forall>v \<in> set vs. wf_any v)"
| "wf_any _ = True"

lemma obj_map_wf:
  assumes "\<forall>kv \<in> set ms. P (snd kv)"
  shows "distinct (map fst (obj_map ms)) \<and> (\<forall>kv \<in> set (obj_map ms). P (snd kv))"
proof -
  have "distinct (map fst m) \<and> (\<forall>kv \<in> set m. P (snd kv)) \<Longrightarrow> \<forall>kv \<in> set ms. P (snd kv) \<Longrightarrow>
      distinct (map fst (foldl (\<lambda>m (k, v). AList.update k v m) m ms)) \<and>
      (\<forall>kv \<in> set (foldl (\<lambda>m (k, v). AList.update k v m) m ms). P (snd kv))" for m
  proof (induction ms arbitrary: m)
    case (Cons kv ms)
    obtain k v where kv: "kv = (k, v)" by (cases kv)
    have "distinct (map fst (AList.update k v m)) \<and> (\<forall>kv \<in> set (AList.update k v m). P (snd kv))"
      using Cons.prems by (auto simp: distinct_update set_AList_update kv)
    then show ?case using Cons.IH [of "AList.update k v m"] Cons.prems(2) by (simp add: kv)
  qed simp
  from this [of "[]"] assms show ?thesis by (simp add: obj_map_def)
qed

lemma wf_as_any: "wf_any (as_any v)"
proof (induction v rule: as_any.induct)
  case (2 ms)
  then have "\<forall>kv \<in> set (map (\<lambda>(k, v). (k, as_any v)) ms). wf_any (snd kv)" by fastforce
  from obj_map_wf [of _ wf_any, OF this] show ?case by simp
qed auto

lemma scalar_eq_refl: "scalar_eq v v \<or> (\<exists>x. v = JArr x) \<or> (\<exists>x. v = JObj x)"
  by (cases v) (auto simp: float_eq_def)

lemma contains_refl: "wf_any v \<Longrightarrow> jsonContains v v"
proof (induction v rule: wf_any.induct)
  case (1 ms)
  then show ?case by (force simp: map_of_is_SomeI)
qed (auto simp: float_eq_def)

text \<open>Containment of a scalar, in one equation.\<close>

definition is_scalar :: "any \<Rightarrow> bool" where
  "is_scalar v = (case v of JArr _ \<Rightarrow> False | JObj _ \<Rightarrow> False | _ \<Rightarrow> True)"

lemma contains_scalar:
  "is_scalar c \<Longrightarrow> jsonContains a c =
     (case a of JArr aa \<Rightarrow> (\<exists>e \<in> set aa. jsonContains e c) | _ \<Rightarrow> scalar_eq a c)"
  by (cases c) (auto simp: is_scalar_def split: json.split)

lemma scalar_eq_trans: "scalar_eq a b \<Longrightarrow> scalar_eq b c \<Longrightarrow> scalar_eq a c"
  by (cases a; cases b; cases c) (auto simp: float_eq_def)

lemma contains_trans: "jsonContains a b \<Longrightarrow> jsonContains b c \<Longrightarrow> jsonContains a c"
proof (induction "size a + size b + size c" arbitrary: a b c rule: less_induct)
  case less
  have ih: "size a' + size b' + size c' < size a + size b + size c \<Longrightarrow> jsonContains a' b' \<Longrightarrow> jsonContains b' c' \<Longrightarrow>
      jsonContains a' c'" for a' b' c' using less.hyps by blast
  consider (scalar) "is_scalar c" | (arr) cs where "c = JArr cs" | (obj) cm where "c = JObj cm"
    by (cases c) (auto simp: is_scalar_def)
  then show ?case
  proof cases
    case scalar
    show ?thesis
    proof (cases "\<exists>bs. b = JArr bs")
      case True
      then obtain bs where b: "b = JArr bs" by blast
      then obtain e where e: "e \<in> set bs" "jsonContains e c" using less.prems(2) scalar by (auto simp: contains_scalar)
      obtain aa where a: "a = JArr aa" using less.prems(1) by (auto simp: b split: json.splits)
      obtain e' where e': "e' \<in> set aa" "jsonContains e' e" using less.prems(1) e(1) by (auto simp: a b)
      have "jsonContains e' c" using ih [of e' e c] e e' size_elem [OF e(1)] size_elem [OF e'(1)] by (simp add: a b)
      then show ?thesis using e'(1) scalar by (auto simp: a contains_scalar)
    next
      case False
      then have s: "scalar_eq b c" using less.prems(2) scalar by (auto simp: contains_scalar split: json.splits)
      then have sb: "is_scalar b" by (cases b; cases c) (auto simp: is_scalar_def)
      show ?thesis
      proof (cases "\<exists>aa. a = JArr aa")
        case True
        then obtain aa where a: "a = JArr aa" by blast
        then obtain e where e: "e \<in> set aa" "jsonContains e b" using less.prems(1) sb by (auto simp: contains_scalar)
        have "jsonContains e c" using ih [of e b c] e less.prems(2) size_elem [OF e(1)] by (simp add: a)
        then show ?thesis using e(1) scalar by (auto simp: a contains_scalar)
      next
        case False
        then have "scalar_eq a b" using less.prems(1) sb by (auto simp: contains_scalar split: json.splits)
        then show ?thesis using False scalar scalar_eq_trans [OF _ s] by (auto simp: contains_scalar split: json.split)
      qed
    qed
  next
    case arr
    obtain bs where b: "b = JArr bs" using less.prems(2) by (auto simp: arr split: json.splits)
    obtain aa where a: "a = JArr aa" using less.prems(1) by (auto simp: b split: json.splits)
    have "\<exists>e \<in> set aa. jsonContains e ce" if ce: "ce \<in> set cs" for ce
    proof -
      obtain be where be: "be \<in> set bs" "jsonContains be ce" using less.prems(2) ce by (auto simp: arr b)
      obtain e where e: "e \<in> set aa" "jsonContains e be" using less.prems(1) be(1) by (auto simp: a b)
      have "jsonContains e ce"
        using ih [of e be ce] be e size_elem [OF ce] size_elem [OF be(1)] size_elem [OF e(1)] by (simp add: a b arr)
      then show ?thesis using e(1) by blast
    qed
    then show ?thesis by (simp add: a arr)
  next
    case obj
    obtain bm where b: "b = JObj bm" using less.prems(2) by (auto simp: obj split: json.splits)
    obtain am where a: "a = JObj am" using less.prems(1) by (auto simp: b split: json.splits)
    have "\<exists>av. map_of am k = Some av \<and> jsonContains av v" if kv: "(k, v) \<in> set cm" for k v
    proof -
      obtain bv where bv: "map_of bm k = Some bv" "jsonContains bv v"
        using less.prems(2) kv by (fastforce simp: obj b split: option.splits)
      obtain av where av: "map_of am k = Some av" "jsonContains av bv"
        using less.prems(1) map_of_SomeD [OF bv(1)] by (fastforce simp: a b split: option.splits)
      have "jsonContains av v"
        using ih [of av bv v] bv av size_pair [OF kv] size_map_of [OF bv(1)] size_map_of [OF av(1)] by (simp add: a b obj)
      then show ?thesis using av(1) by blast
    qed
    then show ?thesis by (force simp: a obj split: option.split)
  qed
qed

text \<open>C38: the jsonb containment operator is a preorder on JSON texts: a valid text contains itself, and what
  a contained value contains is contained.\<close>
theorem jsonb_containment_preorder:
  "(unmarshal_any pf a \<noteq> None \<longrightarrow> jsonbContains pf a a)
   \<and> (jsonbContains pf a b \<longrightarrow> jsonbContains pf b c \<longrightarrow> jsonbContains pf a c)"
  using contains_trans
  by (auto simp: jsonbContains_def unmarshal_any_def contains_refl wf_as_any split: option.splits)

theorem jsonb_containment_preorder_witness:
  "jsonbContains (\<lambda>_. Some 0) ''[[1],2]'' ''[[1],2]'' \<and> jsonbContains (\<lambda>_. Some 0) ''[[1],2]'' ''2''"
proof -
  let ?pf = "\<lambda>_ :: string. Some (0 :: 64 word)"
  have "unmarshal_any ?pf ''[[1],2]'' \<noteq> None" "jsonbContains ?pf ''[[1],2]'' ''[2]''" "jsonbContains ?pf ''[2]'' ''2''"
    by code_simp+
  then show ?thesis
    using jsonb_containment_preorder [of ?pf "''[[1],2]''" "''[2]''" "''2''"] by simp
qed

text \<open>Postgres looks for a bare scalar only among the elements of a top-level array; here one is found
  at any depth.\<close>

lemma nested_array_contains: "jsonContains (JArr [JArr [JNum 1]]) (JArr [JNum 1])"
  by (simp add: float_eq_def)

text \<open>An array literal is cut at every comma, those inside quotes too.\<close>

lemma array_literal_comma:
  "pgArrayLitToJSON (CHR 0x7B # CHR 0x22 # ''a,b'' @ CHR 0x22 # [CHR 0x7D]) ''text'' =
     ''['' @ marshal_str ''a'' @ '','' @ marshal_str ''b'' @ '']''"
  by code_simp

end
