(* ===== verification/WireTypes.thy ===== *)
theory WireTypes
  imports DateFuncs JsonFuncs Session Sha256
begin

text \<open>
  The types of values on the wire: which OID a column is announced with, how a value is written in text
  and in binary, and how a bound parameter is read back (\<open>protocol/postgres/types.go\<close>, \<open>binarytime.go\<close>,
  \<open>timestamptz.go\<close>, \<open>paramdecode.go\<close>, the type part of \<open>array.go\<close>, \<open>booltext.go\<close>). The text \<open>fmt\<close> prints
  and \<open>json\<close> print of a float and \<open>strconv.ParseFloat\<close> are arguments (\<open>float_ops\<close>). What is proved: a parameter of a type that both directions know is read back as the value
  that was sent, binary values have the width of their type, and exactly which dates survive.
\<close>

section \<open>The text of a float\<close>

text \<open>\<open>fmt.Sprint\<close> and \<open>json.Marshal\<close> of a float, and \<open>strconv.ParseFloat\<close>: its value and whether there is
  no error.\<close>

record float_ops =
  fl_sprint :: "64 word \<Rightarrow> string"
  fl_json :: "64 word \<Rightarrow> string"
  fl_parse :: "string \<Rightarrow> 64 word \<times> bool"

text \<open>One such, for examples.\<close>

definition no_floats :: float_ops where
  "no_floats = \<lparr>fl_sprint = \<lambda>_. [], fl_json = \<lambda>_. [], fl_parse = \<lambda>_. (0, False)\<rparr>"

definition json_num :: "float_ops \<Rightarrow> string \<Rightarrow> 64 word option" where
  "json_num F s = (if snd (fl_parse F s) then Some (fst (fl_parse F s)) else None)"

section \<open>Object identifiers of types\<close>

type_synonym oid = "32 word"

definition oidBool :: oid where "oidBool = 16"
definition oidBytea :: oid where "oidBytea = 17"
definition oidName :: oid where "oidName = 19"
definition oidInt8 :: oid where "oidInt8 = 20"
definition oidInt2 :: oid where "oidInt2 = 21"
definition oidInt4 :: oid where "oidInt4 = 23"
definition oidText :: oid where "oidText = 25"
definition oidOID :: oid where "oidOID = 26"
definition oidJSON :: oid where "oidJSON = 114"
definition oidFloat4 :: oid where "oidFloat4 = 700"
definition oidFloat8 :: oid where "oidFloat8 = 701"
definition oidUnknown :: oid where "oidUnknown = 705"
definition oidBpchar :: oid where "oidBpchar = 1042"
definition oidVarchar :: oid where "oidVarchar = 1043"
definition oidDate :: oid where "oidDate = 1082"
definition oidTime :: oid where "oidTime = 1083"
definition oidNumeric :: oid where "oidNumeric = 1700"
definition oidTimestamp :: oid where "oidTimestamp = 1114"
definition oidTimestamptz :: oid where "oidTimestamptz = 1184"
definition oidUUID :: oid where "oidUUID = 2950"
definition oidJSONB :: oid where "oidJSONB = 3802"
definition oidHstore :: oid where "oidHstore = 16400"
definition oidNameArr :: oid where "oidNameArr = 1003"
definition oidOIDArr :: oid where "oidOIDArr = 1028"

lemmas oid_defs = oidBool_def oidBytea_def oidName_def oidInt8_def oidInt2_def oidInt4_def oidText_def oidOID_def
  oidJSON_def oidFloat4_def oidFloat8_def oidUnknown_def oidBpchar_def oidVarchar_def oidDate_def oidTime_def
  oidNumeric_def oidTimestamp_def oidTimestamptz_def oidUUID_def oidJSONB_def oidHstore_def oidNameArr_def
  oidOIDArr_def

text \<open>The array types: bool, bytea, int2, int4, text, varchar, int8, float8, date, timestamp, numeric, uuid,
  json, jsonb.\<close>

definition arrayOIDs :: "oid list" where
  "arrayOIDs = [1000, 1001, 1005, 1007, 1009, 1015, 1016, 1022, 1182, 1115, 1231, 2951, 199, 3807]"

definition isArrayOID :: "oid \<Rightarrow> bool" where
  "isArrayOID t = (t \<in> set arrayOIDs)"

definition isTimeOID :: "oid \<Rightarrow> bool" where
  "isTimeOID t = (t = oidDate \<or> t = oidTime \<or> t = oidTimestamp \<or> t = oidTimestamptz)"

section \<open>The type of a column\<close>

definition strictDeclOID :: "string \<Rightarrow> oid option" where
  "strictDeclOID decl =
     (let d = ToUpper decl in
      if TrimSpace d = ''BYTEA'' then Some oidBytea
      else if d = [] then None
      else if Contains d ''BOOL'' then Some oidBool
      else if Contains d ''JSONB'' then Some oidJSONB
      else if Contains d ''JSON'' then Some oidJSON
      else if Contains d ''UUID'' then Some oidUUID
      else if Contains d ''VARCHAR'' \<or> Contains d ''CHARACTER VARYING'' then Some oidVarchar
      else if Contains d ''CHAR'' \<or> Contains d ''BPCHAR'' then Some oidBpchar
      else None)"

definition isTimestamptzDecl :: "string \<Rightarrow> bool" where
  "isTimestamptzDecl decl =
     (let d = ToUpper decl in
      Contains d ''TIMESTAMPTZ'' \<or> (Contains d ''TIMESTAMP'' \<and> Contains d ''WITH TIME ZONE''))"

definition timeOID :: "string \<Rightarrow> oid" where
  "timeOID decl =
     (let d = ToUpper decl in
      if Contains d ''TIMESTAMPTZ'' \<or> (Contains d ''TIMESTAMP'' \<and> Contains d ''WITH TIME ZONE'') then oidTimestamptz
      else if Contains d ''TIMESTAMP'' \<or> Contains d ''DATETIME'' then oidTimestamp
      else if Contains d ''DATE'' then oidDate
      else if Contains d ''TIME'' then oidTime
      else oidTimestamp)"

definition oidFromDeclType :: "string \<Rightarrow> oid" where
  "oidFromDeclType decl =
     (let d = ToUpper decl in
      if d = [] then oidText
      else if Contains d ''INT'' then oidInt8
      else if Contains d ''CHAR'' \<or> Contains d ''CLOB'' \<or> Contains d ''TEXT'' \<or> Contains d ''STRING'' then oidText
      else if Contains d ''BLOB'' \<or> TrimSpace d = ''BYTEA'' then oidBytea
      else if Contains d ''REAL'' \<or> Contains d ''FLOA'' \<or> Contains d ''DOUB'' then oidFloat8
      else if Contains d ''BOOL'' then oidBool
      else if Contains d ''NUMERIC'' \<or> Contains d ''DEC'' then oidNumeric
      else if Contains d ''DATE'' \<or> Contains d ''TIME'' then timeOID d
      else oidText)"

definition isTextAffinity :: "string \<Rightarrow> bool" where
  "isTextAffinity decl = (let d = ToUpper decl in Contains d ''CHAR'' \<or> Contains d ''CLOB'' \<or> Contains d ''TEXT'')"

definition isArrayDecl :: "string \<Rightarrow> bool" where
  "isArrayDecl decl = HasSuffix (TrimSpace decl) ''[]''"

definition arrayOIDForDecl :: "string \<Rightarrow> oid" where
  "arrayOIDForDecl decl =
     (let t = oidFromDeclType (TrimSpace (TrimSuffix (TrimSpace decl) ''[]'')) in
      if t = oidInt8 then 1016
      else if t = oidBool then 1000
      else if t = oidFloat8 then 1022
      else if t = oidNumeric then 1231
      else if t = oidUUID then 2951
      else if t = oidDate then 1182
      else if t = oidTimestamp then 1115
      else if t = oidJSONB then 3807
      else if t = oidBytea then 1001
      else 1009)"

definition boolCatalogColumns :: "string list" where
  "boolCatalogColumns =
     [''attnotnull'', ''atthasdef'', ''atthasmissing'', ''attbyval'', ''attisdropped'', ''attislocal'',
      ''relhasindex'', ''relisshared'', ''relhasrules'', ''relhastriggers'', ''relhassubclass'', ''relrowsecurity'',
      ''relforcerowsecurity'', ''relispopulated'', ''relispartition'', ''typnotnull'', ''typbyval'',
      ''indisprimary'', ''indisunique'', ''indisclustered'', ''indisvalid'', ''indisexclusion'', ''indimmediate'',
      ''indisready'', ''indislive'', ''indisreplident'', ''conislocal'', ''convalidated'', ''connoinherit'',
      ''condeferrable'', ''condeferred'', ''rolsuper'', ''rolinherit'', ''rolcreaterole'', ''rolcreatedb'',
      ''rolcanlogin'', ''rolreplication'', ''rolbypassrls'', ''datistemplate'', ''datallowconn'',
      ''indnullsnotdistinct'', ''indcheckxmin'', ''conperiod'', ''typisdefined'', ''typispreferred'', ''opcdefault'',
      ''extrelocatable'', ''tgisinternal'', ''tgdeferrable'', ''tginitdeferred'', ''lanispl'', ''lanpltrusted'',
      ''proisstrict'', ''proretset'', ''prosecdef'', ''proleakproof'', ''is_partition'', ''has_subclass'',
      ''has_row_level_security'', ''is_unique'', ''is_primary_key'', ''nulls_first'', ''is_deferrable'',
      ''is_deferred'', ''extension_relocatable'', ''notnull_islocal'', ''notnull_noinherit'', ''notnull_invalidoid'',
      ''is_called'', ''pg_try_advisory_lock'', ''pg_try_advisory_lock_shared'', ''pg_try_advisory_xact_lock'',
      ''pg_try_advisory_xact_lock_shared'', ''pg_advisory_unlock'', ''pg_advisory_unlock_shared'', ''hasindexes'',
      ''hasrules'', ''hastriggers'', ''rowsecurity'']"

definition intCatalogColumns :: "string list" where
  "intCatalogColumns =
     [''oid'', ''attnum'', ''attrelid'', ''atttypid'', ''atttypmod'', ''relnamespace'', ''reltype'', ''relam'',
      ''relnatts'', ''conrelid'', ''confrelid'', ''conindid'', ''contypid'', ''indrelid'', ''indexrelid'',
      ''indnatts'', ''indnkeyatts'', ''typnamespace'', ''typlen'', ''typelem'', ''typrelid'', ''typbasetype'',
      ''typtypmod'', ''enumtypid'', ''adrelid'', ''adnum'', ''ordinal_position'', ''numeric_precision'',
      ''numeric_scale'', ''numeric_precision_radix'', ''datetime_precision'', ''character_maximum_length'',
      ''con_id'', ''child'', ''parent'', ''colidx'', ''column_index'', ''indkeyid'', ''indkeyidx'']"

text \<open>\<open>reCatalogRef\<close>: a whole word that is \<open>pg_\<close> and letters or underscores, or \<open>information_schema\<close>.\<close>

definition word_at :: "string \<Rightarrow> nat \<Rightarrow> string" where
  "word_at s i = (if 0 < i \<and> isWordByte (s ! (i - 1)) then [] else takeWhile isWordByte (drop i s))"

definition catalog_word :: "string \<Rightarrow> bool" where
  "catalog_word w =
     (let l = ToLower w in
      l = ''information_schema''
      \<or> HasPrefix l ''pg_'' \<and> 3 < length l \<and> list_all (\<lambda>c. is_lower c \<or> c = CHR ''_'') (drop 3 l))"

definition isCatalogQuery :: "string \<Rightarrow> bool" where
  "isCatalogQuery sql = list_ex (\<lambda>i. catalog_word (word_at sql i)) [0..<length sql]"

record core_column =
  col_name :: string
  decl_type :: string

text \<open>The first value of the column that is not NULL.\<close>

definition sample :: "core_value list list \<Rightarrow> nat \<Rightarrow> core_value option" where
  "sample rows idx =
     List.find (\<lambda>v. v \<noteq> VNull) (map (\<lambda>row. if idx < length row then row ! idx else VNull) rows)"

definition oidForColumn :: "core_column \<Rightarrow> core_value list list \<Rightarrow> nat \<Rightarrow> oid" where
  "oidForColumn col rows idx =
     (let decl = decl_type col in
      if col_name col \<in> set boolCatalogColumns then oidBool
      else if isArrayDecl decl then arrayOIDForDecl decl
      else if isTimestamptzDecl decl then oidTimestamptz
      else if Contains (ToUpper decl) ''DECIMALTEXT'' then oidNumeric
      else if EqualFold (TrimSpace decl) ''hstore'' then oidHstore
      else
        (case strictDeclOID decl of
           Some t \<Rightarrow> t
         | None \<Rightarrow>
             (case sample rows idx of
                None \<Rightarrow> oidFromDeclType decl
              | Some (VBool _) \<Rightarrow> oidBool
              | Some (VInt _) \<Rightarrow> oidInt8
              | Some (VFloat _) \<Rightarrow> oidFloat8
              | Some (VTime _) \<Rightarrow> timeOID decl
              | Some (VBytes _) \<Rightarrow> if isTextAffinity decl then oidText else oidBytea
              | Some _ \<Rightarrow> oidText)))"

text \<open>What Describe announces: no row is seen, and an untyped column of a catalog query is an integer by
  its name.\<close>

definition described_oid :: "bool \<Rightarrow> core_column \<Rightarrow> oid" where
  "described_oid catalog col =
     (let t = oidForColumn col [] 0 in
      if catalog \<and> t = oidText \<and> decl_type col = [] \<and> col_name col \<in> set intCatalogColumns then oidInt8 else t)"

section \<open>Stored times\<close>

definition pgEpoch :: gtime where
  "pgEpoch = go_date 2000 1 1 0 0 0 0 0"

definition timestampLayouts :: "string list" where
  "timestampLayouts =
     [''2006-01-02 15:04:05.999999999-07:00'',
      ''2006-01-02 15:04:05.999999999Z07:00'',
      ''2006-01-02T15:04:05.999999999Z07:00'',
      ''2006-01-02 15:04:05.999999999'',
      ''2006-01-02T15:04:05.999999999'',
      ''2006-01-02 15:04:05'',
      ''2006-01-02'',
      ''15:04:05.999999999'',
      ''15:04:05'']"

definition parseStoredTime :: "core_value \<Rightarrow> gtime option" where
  "parseStoredTime v =
     (case v of
        VTime n \<Rightarrow> Some (utc n)
      | VString s \<Rightarrow> first_layout timestampLayouts (TrimSpace s)
      | _ \<Rightarrow> None)"

definition encodeBinaryTimestamp :: "gtime \<Rightarrow> string" where
  "encodeBinaryTimestamp t =
     (let micros = quo (go_sub (to_utc t) pgEpoch) 1000 in appendUint64 [] (word_of_int micros))"

definition encodeBinaryDate :: "gtime \<Rightarrow> string" where
  "encodeBinaryDate t =
     (let days = quo (go_sub (truncate_to (to_utc t) nanos_per_day) pgEpoch) nanos_per_day in
      appendUint32 [] (word_of_int days))"

definition encodeBinaryTime :: "gtime \<Rightarrow> string" where
  "encodeBinaryTime t =
     (let midnight = go_date (t_year t) (t_month t) (t_day t) 0 0 0 0 (zoff t) in
      appendUint64 [] (word_of_int (quo (go_sub t midnight) 1000)))"

definition withUTCOffset :: "string \<Rightarrow> string" where
  "withUTCOffset s0 =
     (let s = TrimRight s0 '' '' in
      case IndexByte s (CHR '':'') of
        None \<Rightarrow> s
      | Some i \<Rightarrow>
          if HasSuffix s ''Z'' \<or> IndexAny (drop i s) ''+-'' \<noteq> None then s else s @ ''+00'')"

definition canonicalTimeText :: "oid \<Rightarrow> string \<Rightarrow> string" where
  "canonicalTimeText t s =
     (case parseStoredTime (VString s) of
        None \<Rightarrow> if t = oidTimestamptz then withUTCOffset s else s
      | Some tm \<Rightarrow>
          if t = oidDate then format_time ''2006-01-02'' tm
          else if t = oidTime then format_time ''15:04:05.999999'' tm
          else if t = oidTimestamptz then format_time ''2006-01-02 15:04:05.999999-07'' (to_utc tm)
          else format_time ''2006-01-02 15:04:05.999999'' tm)"

section \<open>Writing a value\<close>

text \<open>\<open>strconv.ParseInt\<close> with its error dropped: the nearest \<open>int64\<close> when it is out of range, else zero.\<close>

definition ParseInt_value :: "string \<Rightarrow> int" where
  "ParseInt_value s =
     (case ParseInt s of
        Some i \<Rightarrow> i
      | None \<Rightarrow>
          (let signed = (s \<noteq> [] \<and> (hd s = CHR ''-'' \<or> hd s = CHR ''+'')); ds = (if signed then tl s else s) in
           if ds = [] \<or> \<not> list_all is_digit ds then 0
           else if hd s = CHR ''-'' then - (2 ^ 63) else 2 ^ 63 - 1))"

definition toInt64 :: "core_value \<Rightarrow> int" where
  "toInt64 v =
     (case v of
        VInt i \<Rightarrow> i
      | VFloat w \<Rightarrow> int64_of_float w
      | VBool x \<Rightarrow> if x then 1 else 0
      | VString s \<Rightarrow> ParseInt_value (TrimSpace s)
      | VBytes s \<Rightarrow> ParseInt_value (TrimSpace s)
      | _ \<Rightarrow> 0)"

definition toFloat64 :: "float_ops \<Rightarrow> core_value \<Rightarrow> 64 word" where
  "toFloat64 F v =
     (case v of
        VFloat w \<Rightarrow> w
      | VInt i \<Rightarrow> float_of_int i
      | VString s \<Rightarrow> fst (fl_parse F (TrimSpace s))
      | VBytes s \<Rightarrow> fst (fl_parse F (TrimSpace s))
      | _ \<Rightarrow> 0)"

definition boolish :: "core_value \<Rightarrow> bool" where
  "boolish v =
     (case v of
        VBool x \<Rightarrow> x
      | VString s \<Rightarrow> ToLower (TrimSpace s) \<in> {''t'', ''true'', ''1'', ''y'', ''yes'', ''on''}
      | _ \<Rightarrow> toInt64 v \<noteq> 0)"

definition hex_of :: "string \<Rightarrow> string" where
  "hex_of bs = concat (map (\<lambda>c. [hex_digit (code c div 16), hex_digit (code c mod 16)]) bs)"

fun hex_bytes :: "string \<Rightarrow> string option" where
  "hex_bytes [] = Some []"
| "hex_bytes [a] = None"
| "hex_bytes (a # c # s) =
     (case (hex_val a, hex_val c, hex_bytes s) of
        (Some x, Some y, Some bs) \<Rightarrow> Some (char_of (16 * x + y) # bs)
      | _ \<Rightarrow> None)"

definition byteaHex :: "string \<Rightarrow> string option" where
  "byteaHex s = (if HasPrefix s [CHR 0x5C, CHR ''x''] then hex_bytes (drop 2 s) else None)"

text \<open>The text of a value that is not NULL.\<close>

definition text_bytes ::
  "float_ops \<Rightarrow> oid \<Rightarrow> core_value \<Rightarrow> string" where
  "text_bytes F t v =
     (if isArrayOID t then jsonArrayToPGText v
      else if isTimeOID t \<and> (\<exists>s. v = VString s) then canonicalTimeText t (asString v)
      else if t = oidHstore then hstoreText (json_num F) (fl_json F) (asString v)
      else if t = oidBool then (if boolish v then ''t'' else ''f'')
      else
        (case v of
           VBool x \<Rightarrow> if x then ''t'' else ''f''
         | VBytes bs \<Rightarrow> if t = oidBytea then [CHR 0x5C, CHR ''x''] @ hex_of bs else bs
         | VString s \<Rightarrow> s
         | VTime n \<Rightarrow>
             if t = oidDate then format_time ''2006-01-02'' (utc n)
             else if t = oidTime then format_time ''15:04:05.999999'' (utc n)
             else if t = oidTimestamptz then format_time ''2006-01-02 15:04:05.999999-07'' (utc n)
             else format_time ''2006-01-02 15:04:05.999999'' (utc n)
         | _ \<Rightarrow> sprint (fl_sprint F) v))"

text \<open>\<open>None\<close> is \<open>nil\<close>, SQL's NULL.\<close>

definition encodeText ::
  "float_ops \<Rightarrow> oid \<Rightarrow> core_value \<Rightarrow> string option" where
  "encodeText F t v = (if v = VNull then None else Some (text_bytes F t v))"

definition uuidBytes :: "core_value \<Rightarrow> string option" where
  "uuidBytes v =
     (case v of
        VString s \<Rightarrow>
          (let h = ReplaceByte s (CHR ''-'') [] in if length h \<noteq> 32 then None else hex_bytes h)
      | _ \<Rightarrow> None)"

definition encodeBinary ::
  "float_ops \<Rightarrow> oid \<Rightarrow> core_value \<Rightarrow> string" where
  "encodeBinary F t v =
     (if t = oidBool then [if boolish v then CHR 0x01 else CHR 0x00]
      else if t = oidInt2 then appendUint16 [] (word_of_int (toInt64 v))
      else if t = oidInt4 then appendUint32 [] (word_of_int (toInt64 v))
      else if t = oidInt8 then appendUint64 [] (word_of_int (toInt64 v))
      else if t = oidFloat8 then appendUint64 [] (toFloat64 F v)
      else if t = oidBytea then
        (case v of
           VBytes bs \<Rightarrow> bs
         | VString s \<Rightarrow> (case byteaHex s of Some bs \<Rightarrow> bs | None \<Rightarrow> sprint (fl_sprint F) v)
         | _ \<Rightarrow> sprint (fl_sprint F) v)
      else if t = oidJSONB then CHR 0x01 # text_bytes F oidText v
      else if t = oidUUID then (case uuidBytes v of Some raw \<Rightarrow> raw | None \<Rightarrow> text_bytes F oidText v)
      else if t = oidTimestamp \<or> t = oidTimestamptz then
        (case parseStoredTime v of Some tm \<Rightarrow> encodeBinaryTimestamp tm | None \<Rightarrow> text_bytes F oidText v)
      else if t = oidDate then
        (case parseStoredTime v of Some tm \<Rightarrow> encodeBinaryDate tm | None \<Rightarrow> text_bytes F oidText v)
      else if t = oidTime then
        (case parseStoredTime v of Some tm \<Rightarrow> encodeBinaryTime tm | None \<Rightarrow> text_bytes F oidText v)
      else text_bytes F t v)"

definition encodeValue ::
  "float_ops \<Rightarrow> int \<Rightarrow> oid \<Rightarrow> core_value \<Rightarrow> string option" where
  "encodeValue F format t v =
     (if v = VNull then None
      else if format = 0 then encodeText F t v
      else Some (encodeBinary F t v))"

section \<open>Timestamps that carry a zone\<close>

definition normOffset :: "string \<Rightarrow> string" where
  "normOffset off =
     (if length off < 3 \<or> (hd off \<noteq> CHR ''+'' \<and> hd off \<noteq> CHR ''-'') then []
      else (let r = ReplaceByte (tl off) (CHR '':'') []; rest = r @ replicate (4 - length r) (CHR ''0'') in
            hd off # take 2 rest @ '':'' @ take 2 (drop 2 rest)))"

definition toUTCLiteral :: "string \<Rightarrow> string option" where
  "toUTCLiteral s0 =
     (let s = replace_first_T (TrimSpace s0) in
      case IndexByte s (CHR '':'') of
        None \<Rightarrow> None
      | Some ci \<Rightarrow>
          (case (if HasSuffix s ''Z'' then Some (TrimSuffix s ''Z'', ''+00:00'')
                 else (case IndexAny (drop ci s) ''+-'' of
                         None \<Rightarrow> None
                       | Some k \<Rightarrow> Some (take (ci + k) s, drop (ci + k) s))) of
             None \<Rightarrow> None
           | Some (body, off0) \<Rightarrow>
               (let off = normOffset off0;
                    (layout, out) = (if Contains body ''.'' then (''2006-01-02 15:04:05.999999999Z07:00'', ''2006-01-02 15:04:05.999999'')
                                     else (''2006-01-02 15:04:05Z07:00'', ''2006-01-02 15:04:05'')) in
                if off = [] then None
                else (case parse_time layout (body @ off) of
                        None \<Rightarrow> None
                      | Some t \<Rightarrow> Some (format_time out (to_utc t))))))"

text \<open>The shape of \<open>reTimestamptzLit\<close> and \<open>reWholeTimestamptz\<close> at the front of a text: \<open>d\<close> stands for a
  digit, \<open>t\<close> for a blank or \<open>T\<close>. The result is what may be left after it, the longest offset first.\<close>

fun eat_shape :: "string \<Rightarrow> string \<Rightarrow> string option" where
  "eat_shape [] s = Some s"
| "eat_shape (p # ps) [] = None"
| "eat_shape (p # ps) (c # s) =
     (if (if p = CHR ''d'' then is_digit c else if p = CHR ''t'' then c = CHR '' '' \<or> c = CHR ''T'' else c = p)
      then eat_shape ps s else None)"

definition eat_fraction :: "string \<Rightarrow> string" where
  "eat_fraction s =
     (if s \<noteq> [] \<and> hd s = CHR ''.'' \<and> tl s \<noteq> [] \<and> is_digit (hd (tl s)) then dropWhile is_digit (tl s) else s)"

definition eat_offset :: "string \<Rightarrow> string list" where
  "eat_offset s =
     (if s = [] then []
      else if hd s = CHR ''Z'' then [tl s]
      else if hd s = CHR ''+'' \<or> hd s = CHR ''-'' then
        List.map_filter (\<lambda>shape. eat_shape shape (tl s)) [''dd:dd'', ''dddd'', ''dd'']
      else [])"

definition stamptz_rests :: "string \<Rightarrow> string list" where
  "stamptz_rests s =
     (case eat_shape ''dddd-dd-ddtdd:dd:dd'' s of None \<Rightarrow> [] | Some r \<Rightarrow> eat_offset (eat_fraction r))"

definition reWholeTimestamptz :: "string \<Rightarrow> bool" where
  "reWholeTimestamptz s = ([] \<in> set (stamptz_rests s))"

definition normalizeTimestampParam :: "string \<Rightarrow> string" where
  "normalizeTimestampParam s =
     (if reWholeTimestamptz s then (case toUTCLiteral s of Some u \<Rightarrow> u | None \<Rightarrow> s) else s)"

text \<open>A quoted literal at the front of a text: its contents and what follows the closing quote.\<close>

definition reTimestamptzLit :: "string \<Rightarrow> (string \<times> string) option" where
  "reTimestamptzLit s =
     (if s = [] \<or> hd s \<noteq> CHR 0x27 then None
      else (case List.find (\<lambda>r. r \<noteq> [] \<and> hd r = CHR 0x27) (stamptz_rests (tl s)) of
              None \<Rightarrow> None
            | Some r \<Rightarrow> Some (take (length s - 1 - length r) (tl s), tl r)))"

lemma eat_shape_length: "eat_shape p s = Some r \<Longrightarrow> length r \<le> length s"
  by (induction p s rule: eat_shape.induct) (auto split: if_splits)

lemma stamptz_rests_length: "r \<in> set (stamptz_rests s) \<Longrightarrow> length r \<le> length s"
proof -
  assume "r \<in> set (stamptz_rests s)"
  then obtain q where q: "eat_shape ''dddd-dd-ddtdd:dd:dd'' s = Some q" "r \<in> set (eat_offset (eat_fraction q))"
    unfolding stamptz_rests_def by (cases "eat_shape ''dddd-dd-ddtdd:dd:dd'' s") (simp_all only: option.case list.set empty_iff)
  have "length (eat_fraction q) \<le> length q"
    using length_dropWhile_le [of is_digit "tl q"] by (auto simp: eat_fraction_def)
  moreover have "length r \<le> length (eat_fraction q)"
    using q(2) by (auto simp: eat_offset_def List.map_filter_def dest!: eat_shape_length split: if_splits)
  ultimately show ?thesis using eat_shape_length [OF q(1)] by linarith
qed

lemma reTimestamptzLit_length: "reTimestamptzLit s = Some (m, r) \<Longrightarrow> length r < length s"
proof -
  assume a: "reTimestamptzLit s = Some (m, r)"
  then obtain q where q: "List.find (\<lambda>r. r \<noteq> [] \<and> hd r = CHR 0x27) (stamptz_rests (tl s)) = Some q" "r = tl q"
    unfolding reTimestamptzLit_def by (auto split: if_splits option.splits)
  then have "q \<in> set (stamptz_rests (tl s))" by (auto simp: find_Some_iff)
  then have "length q \<le> length (tl s)" by (rule stamptz_rests_length)
  moreover have "s \<noteq> []" using a by (auto simp: reTimestamptzLit_def)
  ultimately show ?thesis using q(2) by (cases s) auto
qed

function rewrite_stamps :: "string \<Rightarrow> string" where
  "rewrite_stamps s =
     (case s of
        [] \<Rightarrow> []
      | c # s' \<Rightarrow>
          (case reTimestamptzLit s of
             None \<Rightarrow> c # rewrite_stamps s'
           | Some (m, r) \<Rightarrow>
               (CHR 0x27 # (case toUTCLiteral m of Some u \<Rightarrow> u | None \<Rightarrow> m) @ [CHR 0x27]) @ rewrite_stamps r))"
  by auto
termination
  by (relation "measure length") (auto dest: reTimestamptzLit_length)

declare rewrite_stamps.simps [simp del]

definition rewriteTimestamptzLiteral :: "string \<Rightarrow> string" where
  "rewriteTimestamptzLiteral sql = (if CHR 0x27 \<in> set sql then rewrite_stamps sql else sql)"

section \<open>Reading a parameter\<close>

text \<open>\<open>json.Marshal\<close> of an element: bytes as base64, no text for an infinity or a NaN; no parameter is read
  as a time.\<close>

definition marshal_value :: "float_ops \<Rightarrow> core_value \<Rightarrow> string option" where
  "marshal_value F v =
     (case v of
        VNull \<Rightarrow> Some ''null''
      | VBool x \<Rightarrow> Some (if x then ''true'' else ''false'')
      | VInt i \<Rightarrow> Some (FormatInt i)
      | VFloat w \<Rightarrow> if f_exp w = 2047 then None else Some (fl_json F w)
      | VString s \<Rightarrow> Some (marshal_str s)
      | VBytes bs \<Rightarrow> Some (CHR 0x22 # EncodeToString bs @ [CHR 0x22])
      | VTime _ \<Rightarrow> None)"

text \<open>The element type and the elements of a binary array, \<open>None\<close> for what is not read. The count
  comes from the client and nothing bounds it.\<close>

definition array_cells :: "string \<Rightarrow> (oid \<times> string option list) option" where
  "array_cells raw =
     (let (ndim, r) = r_int32 (newReader raw); (_, r) = r_int32 r; (elem, r) = r_uint32 r in
      if err r \<or> 1 < ndim then None
      else (let (n, r) = (if ndim = 1 then (let (n, r) = r_int32 r; (_, r) = r_int32 r in (n, r)) else (0, r));
                (cells, r) = read_n (nat n) r_param r in
            if err r then None else Some (elem, cells)))"

definition reader_ok :: "bodyReader \<Rightarrow> bool" where
  "reader_ok r = (pos r \<le> length (b r))"

lemma r_int32_pos: "r_int32 r = (v, r') \<Longrightarrow> b r' = b r \<and> pos r \<le> pos r' \<and> (\<not> err r' \<longrightarrow> \<not> err r \<and> pos r' = pos r + 4)
    \<and> (reader_ok r \<longrightarrow> reader_ok r')"
  by (auto simp: r_int32_def r_fail_def reader_ok_def split: if_splits)

lemma r_bytes_pos: "r_bytes n r = (x, r') \<Longrightarrow> b r' = b r \<and> pos r \<le> pos r' \<and> (err r \<longrightarrow> err r') \<and> length x \<le> length (b r) - pos r
    \<and> (reader_ok r \<longrightarrow> reader_ok r')"
  by (auto simp: r_bytes_def r_fail_def reader_ok_def split: if_splits)

lemma r_param_pos:
  assumes "r_param r = (x, r')"
  shows "b r' = b r \<and> pos r \<le> pos r' \<and> (err r \<longrightarrow> err r') \<and> (\<forall>c. x = Some c \<longrightarrow> length c \<le> length (b r) - pos r)"
proof -
  obtain n r1 where n: "r_int32 r = (n, r1)" by force
  obtain raw r2 where raw: "r_bytes n r1 = (raw, r2)" by force
  show ?thesis
    using assms r_int32_pos [OF n] r_bytes_pos [OF raw] by (auto simp: r_param_def n raw split: if_splits)
qed

lemma read_n_param_pos:
  "read_n k r_param r = (xs, r') \<Longrightarrow>
     (err r \<longrightarrow> err r') \<and> (\<forall>c. Some c \<in> set xs \<longrightarrow> length c \<le> length (b r) - pos r)"
proof (induction k arbitrary: r xs r')
  case (Suc k)
  obtain x r1 where x: "r_param r = (x, r1)" by force
  obtain ys r2 where ys: "read_n k r_param r1 = (ys, r2)" by force
  show ?case using Suc.prems Suc.IH [OF ys] r_param_pos [OF x] by (fastforce simp: x ys)
qed simp

lemma array_cells_shorter:
  assumes "array_cells raw = Some (elem, cells)" "Some c \<in> set cells"
  shows "length c < length raw"
proof -
  obtain d r1 where r1: "r_int32 (newReader raw) = (d, r1)" by force
  obtain x r2 where r2: "r_int32 r1 = (x, r2)" by force
  obtain y r3 where r3: "r_int32 r2 = (y, r3)" by force
  obtain n r4 where r4: "(if d = 1 then (let (n, r) = r_int32 r3; (_, r) = r_int32 r in (n, r)) else (0, r3)) = (n, r4)"
    by force
  obtain cs r5 where r5: "read_n (nat n) r_param r4 = (cs, r5)" by force
  have ok: "\<not> err r3" "cells = cs"
    using assms(1) by (auto simp: array_cells_def r_uint32_def r1 r2 r3 r4 r5 split: if_splits)
  have "b r4 = b r3 \<and> pos r3 \<le> pos r4"
    using r4 r_int32_pos by (auto split: if_splits prod.splits intro: order_trans)
  moreover have "b r3 = raw \<and> 12 \<le> pos r3 \<and> reader_ok r3"
    using r_int32_pos [OF r1] r_int32_pos [OF r2] r_int32_pos [OF r3] ok(1)
    by (auto simp: newReader_def reader_ok_def)
  moreover have "length c \<le> length (b r4) - pos r4"
    using read_n_param_pos [OF r5] assms(2) ok(2) by blast
  ultimately show ?thesis by (auto simp: reader_ok_def)
qed

definition uuid_text :: "string \<Rightarrow> string" where
  "uuid_text raw =
     hex_of (take 4 raw) @ ''-'' @ hex_of (take 2 (drop 4 raw)) @ ''-'' @ hex_of (take 2 (drop 6 raw)) @ ''-'' @
     hex_of (take 2 (drop 8 raw)) @ ''-'' @ hex_of (drop 10 raw)"

definition stamp_of_micros :: "int \<Rightarrow> string" where
  "stamp_of_micros us =
     (if us = 2 ^ 63 - 1 then ''infinity''
      else if us = - (2 ^ 63) then ''-infinity''
      else format_time ''2006-01-02 15:04:05.999999'' (go_add pgEpoch (wrap64 (us * 1000))))"

function decodeTypedParam :: "float_ops \<Rightarrow> oid \<Rightarrow> string \<Rightarrow> core_value option" where
  "decodeTypedParam F t raw =
     (if t = oidBytea then Some (VBytes raw)
      else if t = oidText \<or> t = oidVarchar \<or> t = oidBpchar \<or> t = oidName \<or> t = oidUnknown \<or> t = oidJSON then
        Some (VString raw)
      else if t = oidJSONB then (if raw \<noteq> [] \<and> hd raw = CHR 0x01 then Some (VString (tl raw)) else None)
      else if t = oidBool then (if length raw = 1 then Some (VBool (hd raw \<noteq> CHR 0x00)) else None)
      else if t = oidInt2 then (if length raw = 2 then Some (VInt (int16_of raw)) else None)
      else if t = oidInt4 then (if length raw = 4 then Some (VInt (int32_of raw)) else None)
      else if t = oidOID then (if length raw = 4 then Some (VInt (be_uint raw)) else None)
      else if t = oidInt8 then (if length raw = 8 then Some (VInt (int64_of raw)) else None)
      else if t = oidFloat4 then
        (if length raw = 4 then Some (VFloat (float_of_float32 (word_of_int (be_uint raw)))) else None)
      else if t = oidFloat8 then (if length raw = 8 then Some (VFloat (word_of_int (be_uint raw))) else None)
      else if t = oidTimestamp \<or> t = oidTimestamptz then
        (if length raw = 8 then Some (VString (stamp_of_micros (int64_of raw))) else None)
      else if t = oidDate then
        (if length raw = 4 then Some (VString (format_time ''2006-01-02'' (addDate pgEpoch 0 0 (int32_of raw)))) else None)
      else if t = oidUUID then (if length raw = 16 then Some (VString (uuid_text raw)) else None)
      else if isArrayOID t \<or> t = oidNameArr \<or> t = oidOIDArr then
        (case array_cells raw of
           None \<Rightarrow> None
         | Some (elem, cells) \<Rightarrow>
             (case those (map (\<lambda>c. case c of None \<Rightarrow> Some VNull | Some x \<Rightarrow> decodeTypedParam F elem x) cells) of
                None \<Rightarrow> None
              | Some vs \<Rightarrow>
                  (case those (map (marshal_value F) vs) of
                     None \<Rightarrow> None
                   | Some ts \<Rightarrow> Some (VString (''['' @ Join ts '','' @ '']'')))))
      else None)"
  by auto
termination
  by (relation "measure (\<lambda>(F, t, raw). length raw)") (auto dest: array_cells_shorter)

declare decodeTypedParam.simps [simp del]

definition decodeParam :: "float_ops \<Rightarrow> int \<Rightarrow> oid \<Rightarrow> string \<Rightarrow> core_value" where
  "decodeParam F format t raw =
     (if format = 0 then
        (case (if t = oidBytea then byteaHex raw else None) of
           Some bs \<Rightarrow> VBytes bs
         | None \<Rightarrow> VString (normalizeTimestampParam raw))
      else
        (case decodeTypedParam F t raw of
           Some v \<Rightarrow> v
         | None \<Rightarrow>
             if length raw = 8 then VInt (int64_of raw)
             else if length raw = 4 then VInt (int32_of raw)
             else if length raw = 2 then VInt (int16_of raw)
             else if length raw = 1 then VBool (hd raw \<noteq> CHR 0x00)
             else VBytes raw))"

text \<open>\<open>coerceTextBools\<close>; \<open>oids\<close> are the types of the parameters, as \<open>paramTypes\<close> finds them.\<close>

definition anyTextBool :: "int list \<Rightarrow> core_value list \<Rightarrow> bool" where
  "anyTextBool fmts params =
     list_ex (\<lambda>(i, p). case p of VString s \<Rightarrow> formatFor fmts i = 0 \<and> snd (ParseBool s) | _ \<Rightarrow> False)
       (List.enumerate 0 params)"

definition boolValue :: "bool \<Rightarrow> int" where
  "boolValue x = (if x then 1 else 0)"

definition coerceTextBools :: "string \<Rightarrow> oid list \<Rightarrow> int list \<Rightarrow> core_value list \<Rightarrow> core_value list" where
  "coerceTextBools raw oids fmts params =
     (if raw = [] \<or> \<not> anyTextBool fmts params then params
      else map (\<lambda>(i, p).
             case p of
               VString s \<Rightarrow>
                 if formatFor fmts i \<noteq> 0 \<or> length oids \<le> i \<or> oids ! i \<noteq> oidBool then p
                 else (case ParseBool s of (x, ok) \<Rightarrow> if ok then VInt (boolValue x) else p)
             | _ \<Rightarrow> p) (List.enumerate 0 params))"



section \<open>Bounds of binary dates and timestamps\<close>

lemma epoch_ns: "ns pgEpoch = 946684800000000000" "zoff pgEpoch = 0"
  by code_simp+

lemma ns_truncate: "ns (truncate_to t nanos_per_day) = ns t div nanos_per_day * nanos_per_day"
proof -
  have "(ns t + unix_day * nanos_per_day) mod nanos_per_day = ns t mod nanos_per_day" by simp
  then show ?thesis by (simp add: truncate_to_def minus_mod_eq_div_mult)
qed

lemma days_clamped: "quo (go_sub \<lparr>ns = dd * nanos_per_day, zoff = 0\<rparr> pgEpoch) nanos_per_day = max (-106751) (min 106751 (dd - 10957))"
proof -
  define x where "x = dd - 10957"
  have e: "dd * nanos_per_day - 946684800000000000 = x * nanos_per_day" by (simp add: x_def algebra_simps)
  consider (lo) "x \<le> -106752" | (mid) "-106751 \<le> x" "x \<le> 106751" | (hi) "106752 \<le> x" by linarith
  then show ?thesis
  proof cases
    case lo
    then have "\<not> in_int64 (x * nanos_per_day)" "x * nanos_per_day < 0" by (auto simp: in_int64_def)
    then show ?thesis using lo by (simp add: go_sub_def epoch_ns e Let_def max_duration_def quo_def flip: x_def)
  next
    case mid
    then have "in_int64 (x * nanos_per_day)" by (simp add: in_int64_def)
    moreover have "- (x * nanos_per_day) div nanos_per_day = - x"
      using nonzero_mult_div_cancel_right [of nanos_per_day "- x"] by simp
    ultimately show ?thesis using mid by (simp add: go_sub_def epoch_ns e Let_def quo_def flip: x_def)
  next
    case hi
    then have "\<not> in_int64 (x * nanos_per_day)" "\<not> x * nanos_per_day < 0" by (auto simp: in_int64_def)
    then show ?thesis using hi by (simp add: go_sub_def epoch_ns e Let_def max_duration_def quo_def flip: x_def)
  qed
qed

lemma micros_clamped:
  "quo (go_sub t pgEpoch) 1000 = max (-9223372036854775) (min 9223372036854775 (quo (ns t - ns pgEpoch) 1000))"
proof -
  define x where "x = ns t - ns pgEpoch"
  consider (lo) "x < - (2 ^ 63)" | (mid) "in_int64 x" | (hi) "2 ^ 63 \<le> x" by (force simp: in_int64_def)
  then show ?thesis
  proof cases
    case lo
    then have "9223372036854775808 \<le> - x" by simp
    then have "9223372036854775808 div 1000 \<le> (- x) div 1000" by (rule zdiv_mono1) simp
    then show ?thesis using lo by (simp add: go_sub_def in_int64_def Let_def max_duration_def quo_def flip: x_def)
  next
    case mid
    have "- x \<le> 9223372036854775808" "x \<le> 9223372036854775807" using mid by (auto simp: in_int64_def)
    then have "(- x) div 1000 \<le> 9223372036854775808 div 1000" "x div 1000 \<le> 9223372036854775807 div 1000"
      by (intro zdiv_mono1; simp)+
    then show ?thesis using mid by (auto simp: go_sub_def Let_def quo_def pos_imp_zdiv_nonneg_iff simp flip: x_def)
  next
    case hi
    then have "9223372036854775807 div 1000 \<le> x div 1000" by (intro zdiv_mono1) auto
    then show ?thesis using hi by (simp add: go_sub_def in_int64_def Let_def max_duration_def quo_def flip: x_def)
  qed
qed

lemma int64_of_word: "int64_of (appendUint64 [] (word_of_int i)) = signed_take_bit 63 i"
  using signed_mod [of 63 i] by (simp add: append_bytes_be uint_word_of_int int64_of_bytes)

lemma int32_of_word: "int32_of (appendUint32 [] (word_of_int i)) = signed_take_bit 31 i"
  using signed_mod [of 31 i] by (simp add: append_bytes_be uint_word_of_int int32_of_bytes)

lemma int16_of_word: "int16_of (appendUint16 [] (word_of_int i)) = signed_take_bit 15 i"
  using signed_mod [of 15 i] by (simp add: append_bytes_be uint_word_of_int int16_of_bytes)

lemma int64_id: "in_int64 v \<Longrightarrow> signed_take_bit 63 v = v"
  by (rule signed_take_bit_int_eq_self) (simp_all add: in_int64_def)

lemma length_appends [simp]:
  "length (appendUint64 [] x) = 8" "length (appendUint32 [] y) = 4" "length (appendUint16 [] z) = 2"
  by (simp_all add: append_bytes_be)

lemma binary_date_days:
  "int32_of (encodeBinaryDate t) = max (-106751) (min 106751 (ns t div nanos_per_day - 10957))"
proof -
  let ?d = "max (-106751) (min 106751 (ns t div nanos_per_day - 10957))"
  have s: "truncate_to (to_utc t) nanos_per_day = \<lparr>ns = ns t div nanos_per_day * nanos_per_day, zoff = 0\<rparr>"
    using ns_truncate [of "to_utc t"] by (simp add: to_utc_def utc_def truncate_to_def)
  have "in_int32 ?d" unfolding in_int32_def by (auto simp: max_def min_def)
  then show ?thesis
    unfolding encodeBinaryDate_def Let_def s days_clamped int32_of_word by (rule int32_id)
qed

lemma binary_stamp_micros:
  "int64_of (encodeBinaryTimestamp t) = max (-9223372036854775) (min 9223372036854775 (quo (ns t - ns pgEpoch) 1000))"
proof -
  let ?m = "max (-9223372036854775) (min 9223372036854775 (quo (ns t - ns pgEpoch) 1000))"
  have "in_int64 ?m" unfolding in_int64_def by (auto simp: max_def min_def)
  then show ?thesis
    using int64_id [of ?m] micros_clamped [of "to_utc t"]
    unfolding encodeBinaryTimestamp_def Let_def int64_of_word by (simp add: to_utc_def utc_def)
qed

text \<open>C33: in binary a date is its day relative to 2000-01-01 and a timestamp its microseconds, cut off at the
  292 years a duration can hold: a date is sent exactly if and only if it lies within 106751 days of
  2000-01-01, from 1707-09-22 to 2292-04-10; a later one is sent as 2292-04-10.\<close>
theorem binary_time_bounds:
  "int32_of (encodeBinaryDate t) = max (-106751) (min 106751 (ns t div nanos_per_day - 10957))
   \<and> int64_of (encodeBinaryTimestamp t) = max (-9223372036854775) (min 9223372036854775 (quo (ns t - ns pgEpoch) 1000))"
  by (intro conjI binary_date_days binary_stamp_micros)

text \<open>PostgreSQL's customary last date is sent as a day of the year 2292.\<close>

lemma far_date_clamped:
  "encodeBinaryDate (go_date 9999 12 31 0 0 0 0 0) = appendUint32 [] 106751"
  "date_text (addDate pgEpoch 0 0 106751) = ''2292-04-10''"
  by code_simp+



section \<open>Binary values are read back\<close>

lemma pad_digits: "list_all is_digit (pad w n)"
  using nat_str_digits [of n] is_digit_digit_char [of 0] by (auto simp: pad_def Let_def list_all_iff digit_char_0)

lemma pad_ne [simp]: "pad w n \<noteq> []"
  by (simp add: pad_def Let_def)

lemma digit_ends: "list_all is_digit s \<Longrightarrow> s \<noteq> [] \<Longrightarrow> is_digit (hd s) \<and> is_digit (last s)"
  by (simp add: list_all_iff)

lemma digit_not_space: "is_digit c \<Longrightarrow> \<not> is_space c"
  by (auto simp: is_digit_def is_space_def)

lemma trim_digits: "is_digit (hd s) \<Longrightarrow> is_digit (last s) \<Longrightarrow> TrimSpace s = s"
  by (intro TrimSpace_id) (auto dest: digit_not_space)

lemma date_text_ends:
  assumes "canonical t"
  shows "date_text t \<noteq> [] \<and> is_digit (hd (date_text t)) \<and> is_digit (last (date_text t))"
proof -
  have d: "1 \<le> t_day t" using valid_fields(1) [of t] by (auto simp: valid_date_def)
  have s: "date_text t = pad 4 (nat (t_year t)) @ ''-'' @ appendInt (t_month t) 2 @ ''-'' @ pad 2 (nat (t_day t))"
    using assms d by (simp add: date_text_def format_time_def chunks_date format_chunks_def appendInt_def canonical_def)
  show ?thesis
    unfolding s using digit_ends [OF pad_digits pad_ne] by simp
qed

lemma fmt_frac_end: "fmt_frac w n = [] \<or> is_digit (last (fmt_frac w n))"
proof -
  define ds where "ds = rev (dropWhile (\<lambda>c. c = CHR ''0'') (rev (take w (frac9 n))))"
  have "set ds \<subseteq> set (frac9 n)"
    unfolding ds_def using set_dropWhileD set_take_subset [of w "frac9 n"] by fastforce
  moreover have "list_all is_digit (frac9 n)" using digits_of_digits by (simp add: frac9_eq)
  ultimately have "ds \<noteq> [] \<Longrightarrow> is_digit (last ds)" by (metis last_in_set list_all_iff subsetD)
  then show ?thesis unfolding fmt_frac_def ds_def [symmetric] Let_def by simp
qed

lemma stamp_text_ends:
  assumes "canonical t"
  shows "is_digit (hd (stamp_text t)) \<and> is_digit (last (stamp_text t))"
proof -
  have c: "0 \<le> t_second t" using valid_fields(2) [of t] by (auto simp: valid_clock_def)
  have s: "stamp_text t = date_text t @ '' '' @ appendInt (t_hour t) 2 @ '':'' @ appendInt (t_minute t) 2 @ '':'' @
      pad 2 (nat (t_second t)) @ fmt_frac 6 (t_nano t)"
    using c by (simp add: stamp_text_def date_text_def format_time_def chunks_stamp chunks_date format_chunks_def appendInt_def)
  show ?thesis
    unfolding s using date_text_ends [OF assms] fmt_frac_end [of 6 "t_nano t"] digit_ends [OF pad_digits pad_ne]
    by (cases "fmt_frac 6 (t_nano t) = []") auto
qed

lemma parseStoredTime_stamp: "canonical t \<Longrightarrow> parseStoredTime (VString (stamp_text t)) = Some t"
  using trim_digits [of "stamp_text t"] stamp_text_ends [of t]
  by (simp add: parseStoredTime_def timestampLayouts_def parse_stamp del: One_nat_def)

lemma parseStoredTime_date:
  assumes "canonical t" "t_hour t = 0" "t_minute t = 0" "t_second t = 0" "t_nano t = 0"
  shows "parseStoredTime (VString (date_text t)) = Some t"
  using trim_digits [of "date_text t"] date_text_ends [of t] parse_date [OF assms] assms(1)
  by (simp add: parseStoredTime_def timestampLayouts_def)



lemma hex_val_digit: "d < 16 \<Longrightarrow> hex_val (hex_digit d) = Some d"
  by (auto simp: hex_val_def hex_digit_def is_digit_def)

lemma nibbles: "code c div 16 < 16" "code c mod 16 < 16"
  using less_mult_imp_div_less [of "code c" 16 16] by simp_all

lemma hex_bytes_hex_of: "hex_bytes (hex_of bs) = Some bs"
proof (induction bs)
  case (Cons c bs)
  show ?case using Cons nibbles [of c] by (simp add: hex_of_def hex_val_digit)
qed (simp add: hex_of_def)

lemma length_hex_of [simp]: "length (hex_of bs) = 2 * length bs"
  by (induction bs) (simp_all add: hex_of_def)

lemma hex_digit_dash: "d < 16 \<Longrightarrow> hex_digit d \<noteq> CHR ''-''"
proof -
  assume "d < 16"
  then have "hex_val (hex_digit d) = Some d" by (rule hex_val_digit)
  moreover have "hex_val (CHR ''-'') = None" by (simp add: hex_val_def is_digit_def)
  ultimately show ?thesis by force
qed

lemma ReplaceByte_append: "ReplaceByte (s @ t) c r = ReplaceByte s c r @ ReplaceByte t c r"
  by (simp add: ReplaceByte_def)

lemma ReplaceByte_hex: "ReplaceByte (hex_of bs) (CHR ''-'') [] = hex_of bs"
proof (induction bs)
  case (Cons c bs)
  show ?case using Cons nibbles [of c] by (simp add: hex_of_def ReplaceByte_def hex_digit_dash)
qed (simp add: hex_of_def ReplaceByte_def)

lemma hex_of_append: "hex_of (s @ t) = hex_of s @ hex_of t"
  by (simp add: hex_of_def)

lemma uuid_undashed: "ReplaceByte (uuid_text raw) (CHR ''-'') [] = hex_of raw"
proof -
  have d: "ReplaceByte ''-'' (CHR ''-'') [] = []" by (simp add: ReplaceByte_def)
  have "raw = take 4 raw @ take 2 (drop 4 raw) @ take 2 (drop 6 raw) @ take 2 (drop 8 raw) @ drop 10 raw"
  proof -
    have c: "drop i raw = take k (drop i raw) @ drop (i + k) raw" for i k
      by (metis append_take_drop_id drop_drop add.commute)
    show ?thesis using c [of 0 4] c [of 4 2] c [of 6 2] c [of 8 2] by simp
  qed
  then have "hex_of raw = hex_of (take 4 raw) @ hex_of (take 2 (drop 4 raw)) @ hex_of (take 2 (drop 6 raw)) @
      hex_of (take 2 (drop 8 raw)) @ hex_of (drop 10 raw)"
    by (metis hex_of_append)
  then show ?thesis unfolding uuid_text_def ReplaceByte_append ReplaceByte_hex d by simp
qed

lemma uuidBytes_text: "length raw = 16 \<Longrightarrow> uuidBytes (VString (uuid_text raw)) = Some raw"
  by (simp add: uuidBytes_def uuid_undashed hex_bytes_hex_of Let_def)

lemma stamp_back:
  assumes "canonical u" "in_int64 (ns u - ns pgEpoch)"
  shows "stamp_of_micros (int64_of (encodeBinaryTimestamp u)) = stamp_text u"
proof -
  define x where "x = ns u - ns pgEpoch"
  have z: "zoff u = 0" using assms(1) by (simp add: canonical_def)
  have "ns u mod 1000 = 0"
    using assms(1) by (simp add: canonical_def t_nano_def wall_def mod_mod_cancel)
  then have "x mod 1000 = 0" by (simp add: x_def epoch_ns mod_diff_eq flip: mod_diff_left_eq)
  then obtain m where m: "x = m * 1000" by (metis mod_0_imp_dvd dvd_div_mult_self)
  have "- (m * 1000) div 1000 = - m" "m * 1000 div 1000 = m"
    using nonzero_mult_div_cancel_right [of 1000 "- m"] by simp_all
  then have q: "quo x 1000 = m" by (simp add: quo_def m)
  have r: "in_int64 (m * 1000)" using assms(2) by (simp add: m flip: x_def)
  then have b: "- 9223372036854775 \<le> m" "m \<le> 9223372036854775" by (auto simp: in_int64_def)
  have "int64_of (encodeBinaryTimestamp u) = m"
    using binary_stamp_micros [of u] q b by (simp flip: x_def)
  moreover have "go_add pgEpoch (wrap64 (m * 1000)) = u"
    using int64_id [OF r] z m by (simp add: wrap64_def go_add_def x_def epoch_ns)
  ultimately show ?thesis using b by (simp add: stamp_of_micros_def stamp_text_def)
qed

lemma date_back:
  assumes "canonical u" "t_hour u = 0" "t_minute u = 0" "t_second u = 0" "t_nano u = 0"
    and "\<bar>ns u div nanos_per_day - 10957\<bar> \<le> 106751"
  shows "format_time ''2006-01-02'' (addDate pgEpoch 0 0 (int32_of (encodeBinaryDate u))) = date_text u"
proof -
  define d where "d = ns u div nanos_per_day - 10957"
  have z: "zoff u = 0" using assms(1) by (simp add: canonical_def)
  have "int32_of (encodeBinaryDate u) = d"
    using binary_date_days [of u] assms(6) by (simp add: d_def)
  moreover have "ns u = ns u div nanos_per_day * nanos_per_day"
    using wall_fields [of u] assms(2-5) by (simp add: wall_def z wall_day_def)
  moreover have f: "t_year pgEpoch = 2000" "t_month pgEpoch = 1" "t_day pgEpoch = 1" "t_hour pgEpoch = 0"
    "t_minute pgEpoch = 0" "t_second pgEpoch = 0" "t_nano pgEpoch = 0" by code_simp+
  moreover have "day_number 2000 1 (1 + d) - unix_day = 10957 + d"
    by (simp add: day_number_def year_start_def unix_day_def)
  ultimately have "addDate pgEpoch 0 0 (int32_of (encodeBinaryDate u)) = u"
    by (simp add: addDate_def go_date_def f epoch_ns Let_def d_def z)
  then show ?thesis by (simp add: date_text_def)
qed



text \<open>The values of a type that both directions know, in their stored form.\<close>

definition midnight_date :: "gtime \<Rightarrow> bool" where
  "midnight_date u = (canonical u \<and> t_hour u = 0 \<and> t_minute u = 0 \<and> t_second u = 0 \<and> t_nano u = 0)"

definition wire_value :: "oid \<Rightarrow> core_value \<Rightarrow> bool" where
  "wire_value t v =
     (case v of
        VBool _ \<Rightarrow> t = oidBool
      | VInt i \<Rightarrow> t = oidInt2 \<and> in_int16 i \<or> t = oidInt4 \<and> in_int32 i \<or> t = oidInt8 \<and> in_int64 i
      | VFloat _ \<Rightarrow> t = oidFloat8
      | VBytes _ \<Rightarrow> t = oidBytea
      | VString s \<Rightarrow>
          t \<in> {oidText, oidVarchar, oidBpchar, oidJSON, oidJSONB}
          \<or> t = oidUUID \<and> (\<exists>raw. length raw = 16 \<and> s = uuid_text raw)
          \<or> t \<in> {oidTimestamp, oidTimestamptz} \<and>
              (\<exists>u. canonical u \<and> in_int64 (ns u - ns pgEpoch) \<and> s = stamp_text u)
          \<or> t = oidDate \<and>
              (\<exists>u. midnight_date u \<and> \<bar>ns u div nanos_per_day - 10957\<bar> \<le> 106751 \<and> s = date_text u)
      | _ \<Rightarrow> False)"

lemma text_of_string: "text_bytes F oidText (VString s) = s" "t \<in> {oidVarchar, oidBpchar, oidJSON} \<Longrightarrow> text_bytes F t (VString s) = s"
  by (auto simp: text_bytes_def isArrayOID_def arrayOIDs_def isTimeOID_def oid_defs)

lemma be_uint_appends: "be_uint (appendUint64 [] w) = uint w"
  using uint_lt2p [of w] by (simp add: append_bytes_be be_uint_bytes_be)

lemma oid_distinct:
  "oidUUID \<notin> {oidBytea, oidText, oidVarchar, oidBpchar, oidName, oidUnknown, oidJSON, oidJSONB, oidBool, oidInt2,
    oidInt4, oidOID, oidInt8, oidFloat4, oidFloat8, oidTimestamp, oidTimestamptz, oidDate}"
  "oidDate \<notin> {oidBytea, oidText, oidVarchar, oidBpchar, oidName, oidUnknown, oidJSON, oidJSONB, oidBool, oidInt2,
    oidInt4, oidOID, oidInt8, oidFloat4, oidFloat8, oidTimestamp, oidTimestamptz, oidUUID}"
  "t = oidTimestamp \<or> t = oidTimestamptz \<Longrightarrow> t \<notin> {oidBytea, oidText, oidVarchar, oidBpchar, oidName,
    oidUnknown, oidJSON, oidJSONB, oidBool, oidInt2, oidInt4, oidOID, oidInt8, oidFloat4, oidFloat8, oidUUID}"
  by (auto simp: oid_defs)

lemma decode_special:
  "decodeTypedParam F oidUUID raw = (if length raw = 16 then Some (VString (uuid_text raw)) else None)"
  "decodeTypedParam F oidDate raw =
     (if length raw = 4 then Some (VString (format_time ''2006-01-02'' (addDate pgEpoch 0 0 (int32_of raw)))) else None)"
  "t = oidTimestamp \<or> t = oidTimestamptz \<Longrightarrow> decodeTypedParam F t raw =
     (if length raw = 8 then Some (VString (stamp_of_micros (int64_of raw))) else None)"
  using oid_distinct by (subst decodeTypedParam.simps; simp)+

lemma encode_special:
  "encodeBinary F oidUUID v = (case uuidBytes v of Some raw \<Rightarrow> raw | None \<Rightarrow> text_bytes F oidText v)"
  "encodeBinary F oidDate v =
     (case parseStoredTime v of Some tm \<Rightarrow> encodeBinaryDate tm | None \<Rightarrow> text_bytes F oidText v)"
  "t = oidTimestamp \<or> t = oidTimestamptz \<Longrightarrow> encodeBinary F t v =
     (case parseStoredTime v of Some tm \<Rightarrow> encodeBinaryTimestamp tm | None \<Rightarrow> text_bytes F oidText v)"
  using oid_distinct unfolding encodeBinary_def by simp_all

lemma typed_roundtrip:
  assumes "wire_value t v"
  shows "decodeTypedParam F t (encodeBinary F t v) = Some v"
proof (cases v)
  case (VBool x)
  then have t: "t = oidBool" using assms by (simp add: wire_value_def)
  show ?thesis by (subst decodeTypedParam.simps) (simp add: t VBool encodeBinary_def boolish_def oid_defs)
next
  case (VInt i)
  then have "t = oidInt2 \<and> in_int16 i \<or> t = oidInt4 \<and> in_int32 i \<or> t = oidInt8 \<and> in_int64 i"
    using assms by (simp add: wire_value_def)
  then show ?thesis
    by (subst decodeTypedParam.simps)
      (auto simp: VInt encodeBinary_def toInt64_def oid_defs int16_of_word int32_of_word int64_of_word int16_id int32_id int64_id)
next
  case (VFloat w)
  then have t: "t = oidFloat8" using assms by (simp add: wire_value_def)
  show ?thesis
    by (subst decodeTypedParam.simps) (simp add: t VFloat encodeBinary_def toFloat64_def oid_defs be_uint_appends)
next
  case (VBytes bs)
  then have t: "t = oidBytea" using assms by (simp add: wire_value_def)
  show ?thesis by (subst decodeTypedParam.simps) (simp add: t VBytes encodeBinary_def oid_defs)
next
  case (VString s)
  consider (plain) "t = oidText \<or> t \<in> {oidVarchar, oidBpchar, oidJSON}" | (jsonb) "t = oidJSONB"
    | (uuid) raw where "t = oidUUID" "length raw = 16" "s = uuid_text raw"
    | (stamp) u where "t = oidTimestamp \<or> t = oidTimestamptz" "canonical u" "in_int64 (ns u - ns pgEpoch)" "s = stamp_text u"
    | (date) u where "t = oidDate" "midnight_date u" "\<bar>ns u div nanos_per_day - 10957\<bar> \<le> 106751" "s = date_text u"
    using assms unfolding wire_value_def VString core_value.case by blast
  then show ?thesis
  proof cases
    case plain
    have "encodeBinary F t v = text_bytes F t v" using plain by (auto simp: encodeBinary_def oid_defs)
    then have "encodeBinary F t v = s" using plain text_of_string by (auto simp: VString)
    moreover have "t \<noteq> oidBytea" "t = oidText \<or> t = oidVarchar \<or> t = oidBpchar \<or> t = oidName \<or> t = oidUnknown \<or> t = oidJSON"
      using plain by (auto simp: oid_defs)
    ultimately show ?thesis unfolding VString by (subst decodeTypedParam.simps) (simp only: if_True if_False)
  next
    case jsonb
    have "encodeBinary F t v = CHR 0x01 # s" by (simp add: encodeBinary_def jsonb VString text_of_string) (simp add: oid_defs)
    then show ?thesis by (subst decodeTypedParam.simps) (simp add: jsonb VString, simp add: oid_defs)
  next
    case uuid
    then show ?thesis by (simp add: VString encode_special decode_special uuidBytes_text)
  next
    case stamp
    have "length (encodeBinaryTimestamp u) = 8" by (simp add: encodeBinaryTimestamp_def)
    then show ?thesis
      using stamp_back [OF stamp(2,3)]
      by (simp add: VString stamp(4) encode_special(3) [OF stamp(1)] decode_special(3) [OF stamp(1)]
          parseStoredTime_stamp [OF stamp(2)])
  next
    case date
    note d = date(2) [unfolded midnight_date_def]
    have "length (encodeBinaryDate u) = 4" by (simp add: encodeBinaryDate_def)
    moreover have "format_time ''2006-01-02'' (addDate pgEpoch 0 0 (int32_of (encodeBinaryDate u))) = date_text u"
      using d date(3) by (intro date_back) auto
    moreover have "parseStoredTime (VString (date_text u)) = Some u" using d by (intro parseStoredTime_date) auto
    ultimately show ?thesis by (simp add: VString date(1,4) encode_special decode_special)
  qed
qed (use assms in \<open>simp_all add: wire_value_def\<close>)





section \<open>A timestamp with time zone survives its text\<close>

lemma eat_shape_append: "eat_shape p s = Some r \<Longrightarrow> eat_shape (p @ q) (s @ t) = eat_shape q (r @ t)"
  by (induction p s rule: eat_shape.induct) (auto split: if_splits)

lemma eat_digits: "list_all is_digit s \<Longrightarrow> length s = n \<Longrightarrow> eat_shape (replicate n (CHR ''d'') @ p) (s @ t) = eat_shape p t"
  by (induction s arbitrary: n) (auto simp: )

lemma appendInt_digits: "0 \<le> n \<Longrightarrow> list_all is_digit (appendInt n w)"
  using pad_digits by (simp add: appendInt_def)

lemma length_appendInt: "0 \<le> n \<Longrightarrow> n < 100 \<Longrightarrow> length (appendInt n 2) = 2" "0 \<le> n \<Longrightarrow> n < 10000 \<Longrightarrow> length (appendInt n 4) = 4"
  by (simp_all add: appendInt_def pad_2 pad_4 nat_less_iff)

lemma fmt_frac_shape:
  "fmt_frac w n = [] \<or> (\<exists>d ds. fmt_frac w n = CHR ''.'' # d # ds \<and> is_digit d \<and> list_all is_digit ds)"
proof -
  define ds where "ds = rev (dropWhile (\<lambda>c. c = CHR ''0'') (rev (take w (frac9 n))))"
  have "set ds \<subseteq> set (frac9 n)"
    unfolding ds_def using set_dropWhileD set_take_subset [of w "frac9 n"] by fastforce
  moreover have "list_all is_digit (frac9 n)" using digits_of_digits by (simp add: frac9_eq)
  ultimately have "list_all is_digit ds" by (auto simp: list_all_iff)
  then show ?thesis unfolding fmt_frac_def ds_def [symmetric] Let_def by (cases ds) auto
qed

lemma eat_stamp:
  assumes "canonical t"
  shows "eat_shape ''dddd-dd-ddtdd:dd:dd'' (stamp_text t @ r) = Some (fmt_frac 6 (t_nano t) @ r)"
proof -
  have d: "0 \<le> t_month t" "t_month t < 100" "0 \<le> t_day t" "t_day t < 100"
    using valid_fields(1) [of t] by (auto simp: valid_date_def daysIn_def split: if_splits)
  have c: "0 \<le> t_hour t" "t_hour t < 100" "0 \<le> t_minute t" "t_minute t < 100" "0 \<le> t_second t" "t_second t < 100"
    using valid_fields(2) [of t] by (auto simp: valid_clock_def)
  have y: "0 \<le> t_year t" "t_year t < 10000" using assms by (auto simp: canonical_def)
  have p: "''dddd-dd-ddtdd:dd:dd'' = replicate 4 (CHR ''d'') @ ''-'' @ replicate 2 (CHR ''d'') @ ''-'' @ replicate 2 (CHR ''d'') @
      ''t'' @ replicate 2 (CHR ''d'') @ '':'' @ replicate 2 (CHR ''d'') @ '':'' @ replicate 2 (CHR ''d'') @ []"
    by (simp add: eval_nat_numeral)
  have s: "stamp_text t @ r = appendInt (t_year t) 4 @ ''-'' @ appendInt (t_month t) 2 @ ''-'' @ appendInt (t_day t) 2 @ '' '' @
      appendInt (t_hour t) 2 @ '':'' @ appendInt (t_minute t) 2 @ '':'' @ appendInt (t_second t) 2 @ fmt_frac 6 (t_nano t) @ r"
    by (simp add: stamp_text_parts format_chunks_def)
  show ?thesis
    unfolding p s using d c y
    by (simp add: eat_digits appendInt_digits length_appendInt del: replicate.simps append_Nil2)
qed

lemma stamp_text_chars:
  assumes "canonical t"
  shows "CHR ''T'' \<notin> set (stamp_text t)" "CHR ''Z'' \<notin> set (stamp_text t)"
    "\<exists>a z. stamp_text t = a @ CHR '':'' # z \<and> CHR '':'' \<notin> set a \<and> CHR ''+'' \<notin> set z \<and> CHR ''-'' \<notin> set z"
    "CHR ''.'' \<in> set (stamp_text t) \<longleftrightarrow> fmt_frac 6 (t_nano t) \<noteq> []"
proof -
  have d: "0 \<le> t_month t" "0 \<le> t_day t"
    using valid_fields(1) [of t] by (auto simp: valid_date_def)
  have c: "0 \<le> t_hour t" "0 \<le> t_minute t" "0 \<le> t_second t"
    using valid_fields(2) [of t] by (auto simp: valid_clock_def)
  have y: "0 \<le> t_year t" using assms by (auto simp: canonical_def)
  define a where "a = appendInt (t_year t) 4 @ ''-'' @ appendInt (t_month t) 2 @ ''-'' @ appendInt (t_day t) 2 @ '' '' @ appendInt (t_hour t) 2"
  define z where "z = appendInt (t_minute t) 2 @ '':'' @ appendInt (t_second t) 2 @ fmt_frac 6 (t_nano t)"
  have s: "stamp_text t = a @ CHR '':'' # z" by (simp add: stamp_text_parts format_chunks_def a_def z_def)
  have nd: "\<not> is_digit (CHR ''T'')" "\<not> is_digit (CHR ''Z'')" "\<not> is_digit (CHR '':'')" "\<not> is_digit (CHR ''+'')"
    "\<not> is_digit (CHR ''-'')" "\<not> is_digit (CHR ''.'')" by (simp_all add: is_digit_def)
  have i: "0 \<le> n \<Longrightarrow> \<not> is_digit x \<Longrightarrow> x \<notin> set (appendInt n w)" for n x w
    using appendInt_digits [of n w] by (auto simp: list_all_iff)
  have f: "\<not> is_digit x \<Longrightarrow> x \<noteq> CHR ''.'' \<Longrightarrow> x \<notin> set (fmt_frac 6 (t_nano t))" for x
    using fmt_frac_shape [of 6 "t_nano t"] by (auto simp: list_all_iff)
  show "CHR ''T'' \<notin> set (stamp_text t)" "CHR ''Z'' \<notin> set (stamp_text t)"
    unfolding s a_def z_def using d c y nd by (simp_all add: i f)
  have "CHR '':'' \<notin> set a" "CHR ''+'' \<notin> set z" "CHR ''-'' \<notin> set z"
    unfolding a_def z_def using d c y nd by (simp_all add: i f)
  then show "\<exists>a z. stamp_text t = a @ CHR '':'' # z \<and> CHR '':'' \<notin> set a \<and> CHR ''+'' \<notin> set z \<and> CHR ''-'' \<notin> set z"
    using s by blast
  have "CHR ''.'' \<in> set (stamp_text t) \<longleftrightarrow> CHR ''.'' \<in> set (fmt_frac 6 (t_nano t))"
    unfolding s a_def z_def using d c y nd by (simp add: i)
  then show "CHR ''.'' \<in> set (stamp_text t) \<longleftrightarrow> fmt_frac 6 (t_nano t) \<noteq> []"
    using fmt_frac_shape [of 6 "t_nano t"] by auto
qed

lemma chunks_zoned:
  "GoTime.chunks ''2006-01-02 15:04:05.999999999Z07:00'' = date_chunks @ Lit (CHR '' '') # clock_chunks @ Frac 9 # [IsoColonTZ]"
  "GoTime.chunks ''2006-01-02 15:04:05Z07:00'' = date_chunks @ Lit (CHR '' '') # clock_chunks @ IsoColonTZ # []"
  "GoTime.chunks ''2006-01-02 15:04:05.999999-07'' = date_chunks @ Lit (CHR '' '') # clock_chunks @ [Frac 6, NumTZ]"
  "GoTime.chunks ''2006-01-02 15:04:05'' = date_chunks @ Lit (CHR '' '') # clock_chunks"
  by code_simp+

lemma toUTCLiteral_stamp:
  assumes "canonical t"
  shows "toUTCLiteral (stamp_text t @ ''+00'') = Some (stamp_text t)"
proof -
  obtain a z where az: "stamp_text t = a @ CHR '':'' # z" "CHR '':'' \<notin> set a" "CHR ''+'' \<notin> set z" "CHR ''-'' \<notin> set z"
    using stamp_text_chars(3) [OF assms] by blast
  let ?s = "stamp_text t @ ''+00''"
  have ne: "stamp_text t \<noteq> []" by (simp add: az(1))
  have trim: "TrimSpace ?s = ?s"
    using stamp_text_ends [OF assms] ne by (intro TrimSpace_id) (auto dest: digit_not_space simp: is_space_def)
  have noT: "CHR ''T'' \<notin> set ?s" using stamp_text_chars(1) [OF assms] by simp
  have rep: "replace_first_T ?s = ?s"
  proof -
    have "IndexByte ?s (CHR ''T'') = None" unfolding IndexByte_def index_where_None using noT by auto
    then show ?thesis unfolding replace_first_T_def by (simp only: option.case)
  qed
  have ci: "IndexByte ?s (CHR '':'') = Some (length a)"
    using IndexByte_mid [OF az(2), of "z @ ''+00''"] by (simp add: az(1))
  have suf: "\<not> HasSuffix ?s ''Z''" by (simp add: HasSuffix_def)
  have k: "IndexAny (drop (length a) ?s) ''+-'' = Some (Suc (length z))"
    using az(3,4) index_where_append [of "CHR '':'' # z" "\<lambda>x. x \<in> set ''+-''" "''+00''"]
    by (auto simp: az(1) IndexAny_def)
  have cut: "take (length a + Suc (length z)) ?s = stamp_text t" "drop (length a + Suc (length z)) ?s = ''+00''"
    by (simp_all add: az(1))
  have norm: "normOffset ''+00'' = ''+00:00''" by code_simp
  have zone: "parse_chunks [IsoColonTZ] ''+00:00'' f = Some (f\<lparr>zone := Some 0\<rparr>)" for f
    by (simp add: parse_zone_def getnum_def is_digit_def)
  have tf: "time_of_fields \<lparr>yr = t_year t, mon = t_month t, dy = t_day t, hr = t_hour t, mi = t_minute t,
      sc = t_second t, nsec = t_nano t, zone = Some 0\<rparr> = Some t"
    using valid_fields(1) [of t] go_date_fields [of t] assms
    by (simp add: time_of_fields_def valid_date_def canonical_def)
  have nd: "\<not> is_digit (CHR ''+'')" by (simp add: is_digit_def)
  note pr = parse_stamp_rest [OF assms nd]
  have u: "to_utc t = t" using assms by (simp add: to_utc_def utc_def canonical_def)
  show ?thesis
  proof (cases "CHR ''.'' \<in> set (stamp_text t)")
    case True
    then have "Contains (stamp_text t) ''.''" by (auto simp: Contains_iff in_set_conv_decomp)
    moreover have "parse_time ''2006-01-02 15:04:05.999999999Z07:00'' (stamp_text t @ ''+00:00'') = Some t"
      unfolding parse_time_def chunks_zoned by (subst pr(1)) (simp_all add: zone tf del: parse_chunks.simps)
    ultimately show ?thesis
      unfolding toUTCLiteral_def trim rep Let_def ci option.case if_not_P [OF suf] k cut norm prod.case
      by (simp add: u stamp_text_def)
  next
    case False
    then have nc: "\<not> Contains (stamp_text t) ''.''" by (auto simp: Contains_iff)
    have fr: "fmt_frac 6 (t_nano t) = []" using False stamp_text_chars(4) [OF assms] by simp
    have "parse_time ''2006-01-02 15:04:05Z07:00'' (stamp_text t @ ''+00:00'') = Some t"
      unfolding parse_time_def chunks_zoned by (subst pr(2)) (simp_all add: fr zone tf del: parse_chunks.simps)
    moreover have "format_time ''2006-01-02 15:04:05'' t = stamp_text t"
      unfolding stamp_text_def format_time_def chunks_zoned chunks_stamp by (simp add: format_chunks_def fr)
    ultimately show ?thesis
      unfolding toUTCLiteral_def trim rep Let_def ci option.case if_not_P [OF suf] k cut norm prod.case
      using nc by (simp add: u)
  qed
qed

lemma whole_stamp:
  assumes "canonical t"
  shows "reWholeTimestamptz (stamp_text t @ ''+00'')"
proof -
  have nd: "\<not> is_digit (CHR ''+'')" by (simp add: is_digit_def)
  have "eat_fraction (fmt_frac 6 (t_nano t) @ ''+00'') = ''+00''"
    using fmt_frac_shape [of 6 "t_nano t"]
  proof
    assume "\<exists>d ds. fmt_frac 6 (t_nano t) = CHR ''.'' # d # ds \<and> is_digit d \<and> list_all is_digit ds"
    then obtain d ds where f: "fmt_frac 6 (t_nano t) = CHR ''.'' # d # ds" "is_digit d" "list_all is_digit ds" by blast
    have "dropWhile is_digit (ds @ ''+00'') = ''+00''"
      using f(3) nd by (induction ds) auto
    then show ?thesis using f(1,2) by (simp add: eat_fraction_def)
  qed (simp add: eat_fraction_def)
  moreover have "[] \<in> set (eat_offset ''+00'')" by code_simp
  ultimately show ?thesis
    unfolding reWholeTimestamptz_def stamptz_rests_def eat_stamp [OF assms] by simp
qed

text \<open>C32: a timestamp with time zone that a client receives as text and binds again as text is stored as the
  same timestamp in UTC, and so is one it writes back as a quoted literal.\<close>
theorem timestamptz_text_roundtrip:
  assumes "canonical t"
  shows "encodeText F oidTimestamptz (VString (stamp_text t)) = Some (stamp_text t @ ''+00'')
    \<and> decodeParam F 0 oidTimestamptz (stamp_text t @ ''+00'') = VString (stamp_text t)
    \<and> rewriteTimestamptzLiteral (CHR 0x27 # (stamp_text t @ ''+00'') @ [CHR 0x27]) = CHR 0x27 # stamp_text t @ [CHR 0x27]"
proof (intro conjI)
  have "format_time ''2006-01-02 15:04:05.999999-07'' t = stamp_text t @ ''+00''"
    using assms
    by (simp add: stamp_text_def format_time_def chunks_zoned chunks_stamp format_chunks_def canonical_def fmt_zone_def quo_def
        pad_2 digit_char_0)
  moreover have "to_utc t = t" using assms by (simp add: to_utc_def utc_def canonical_def)
  ultimately have "canonicalTimeText oidTimestamptz (stamp_text t) = stamp_text t @ ''+00''"
    unfolding canonicalTimeText_def parseStoredTime_stamp [OF assms] by (simp add: oid_defs)
  moreover have "\<not> isArrayOID oidTimestamptz" "isTimeOID oidTimestamptz"
    by (simp_all add: isArrayOID_def arrayOIDs_def isTimeOID_def oid_defs)
  ultimately show "encodeText F oidTimestamptz (VString (stamp_text t)) = Some (stamp_text t @ ''+00'')"
    by (simp add: encodeText_def text_bytes_def asString_def)
  have "oidTimestamptz \<noteq> oidBytea" by (simp add: oid_defs)
  then show "decodeParam F 0 oidTimestamptz (stamp_text t @ ''+00'') = VString (stamp_text t)"
    using whole_stamp [OF assms] toUTCLiteral_stamp [OF assms]
    by (simp add: decodeParam_def normalizeTimestampParam_def)
  let ?s = "stamp_text t @ ''+00''"
  have nd: "\<not> is_digit (CHR ''+'')" by (simp add: is_digit_def)
  have fr: "eat_fraction (fmt_frac 6 (t_nano t) @ ''+00'' @ [CHR 0x27]) = ''+00'' @ [CHR 0x27]"
    using fmt_frac_shape [of 6 "t_nano t"]
  proof
    assume "\<exists>d ds. fmt_frac 6 (t_nano t) = CHR ''.'' # d # ds \<and> is_digit d \<and> list_all is_digit ds"
    then obtain d ds where f: "fmt_frac 6 (t_nano t) = CHR ''.'' # d # ds" "is_digit d" "list_all is_digit ds" by blast
    have "dropWhile is_digit (ds @ ''+00'' @ [CHR 0x27]) = ''+00'' @ [CHR 0x27]"
      using f(3) nd by (induction ds) auto
    then show ?thesis using f(1,2) by (simp add: eat_fraction_def)
  qed (simp add: eat_fraction_def)
  have "stamptz_rests (?s @ [CHR 0x27]) = eat_offset (''+00'' @ [CHR 0x27])"
    unfolding stamptz_rests_def append_assoc eat_stamp [OF assms] option.case fr ..
  also have "\<dots> = [[CHR 0x27]]" by code_simp
  finally have "reTimestamptzLit (CHR 0x27 # ?s @ [CHR 0x27]) = Some (?s, [])"
    by (simp add: reTimestamptzLit_def)
  then show "rewriteTimestamptzLiteral (CHR 0x27 # ?s @ [CHR 0x27]) = CHR 0x27 # stamp_text t @ [CHR 0x27]"
    unfolding rewriteTimestamptzLiteral_def
    by (subst rewrite_stamps.simps) (simp add: toUTCLiteral_stamp [OF assms] rewrite_stamps.simps [of "[]"])
qed

theorem timestamptz_text_roundtrip_witness:
  "decodeParam no_floats 0 oidTimestamptz ''2024-02-29 12:34:56.789+00'' = VString ''2024-02-29 12:34:56.789''"
proof -
  let ?u = "utc 1709210096789000000"
  have s: "stamp_text ?u = ''2024-02-29 12:34:56.789''" by code_simp
  have "canonical ?u" by code_simp
  from timestamptz_text_roundtrip [OF this, of no_floats, unfolded s] show ?thesis by simp
qed

section \<open>What the encodings get wrong\<close>

text \<open>The affinity rules see INT in an interval and in a point; the array types of uuid and jsonb are never
  announced; an exact number in binary is its text; a time of day bound in binary is stored as its number of
  microseconds; an array of bytes becomes base64, not the hex text an array literal has.\<close>

lemma interval_is_int8: "oidFromDeclType ''interval'' = oidInt8" "oidFromDeclType ''point'' = oidInt8"
  by code_simp+

lemma uuid_array_is_text: "arrayOIDForDecl ''uuid[]'' = 1009" "arrayOIDForDecl ''jsonb[]'' = 1009"
  by code_simp+

lemma numeric_binary_is_text: "encodeBinary F oidNumeric (VString s) = s"
  by (simp add: encodeBinary_def text_bytes_def isArrayOID_def arrayOIDs_def isTimeOID_def oid_defs)

lemma time_param_is_int: "length raw = 8 \<Longrightarrow> decodeParam F 1 oidTime raw = VInt (int64_of raw)"
  by (simp add: decodeParam_def, subst decodeTypedParam.simps,
      simp add: oid_defs isArrayOID_def arrayOIDs_def)

lemma bytes_element_is_base64: "marshal_value no_floats (VBytes ''abc'') = Some (CHR 0x22 # ''YWJj'' @ [CHR 0x22])"
  by (simp add: marshal_value_def b64_char_def)

text \<open>The count of a binary array is believed: an exhausted body still yields that many elements.\<close>

lemma element_count_believed: "length (fst (read_n k r_param r)) = k"
  by (induction k arbitrary: r) (simp_all add: Let_def split_beta)

end
