(* ===== verification/Spec2Isabelle.thy ===== *)
theory Spec2Isabelle
  imports AdvisoryLocks Sequences Notify Cluster SessionProps Login SessionUser Ranges CopyText RowRewrite WireTypes
begin

text \<open>
  A verification library for overlite, a server that speaks the PostgreSQL wire protocol on top of
  SQLite files. A client's connection is one session (\<open>protocol/postgres\<close>): it authenticates, then reads
  messages, cuts the SQL they carry into statements, answers some itself (SHOW, LISTEN, advisory
  locks, sequences, roles, COPY, row security), rewrites the rest into SQLite's dialect and runs it in
  the engine (\<open>engine\<close>). Sessions share four registries of the process: the open databases, the advisory
  locks, the listeners, and the keys of running backends.

  \<^bold>\<open>Conventions.\<close> Strings are ASCII bytes; upper and lower case are those of ASCII. A Go map is a list
  with distinct keys or a function, a slice a list, an \<open>int64\<close> that can overflow is wrapped explicitly
  or kept as a word. Index loops over a string keep the index of the source; a slice outside its
  string, which panics in Go, is \<open>None\<close> or an error value where the program can reach it. Concurrent
  sessions are interleavings of steps, one step per critical section of the source's mutex.
  Third-party code (SQLite, the CIDR-free parts of YAML, MD5, the zone data) is a parameter. Go's
  standard library is modelled as far as it is used: \<open>strings\<close> and \<open>strconv\<close> (GoStrings), SHA-256,
  HMAC and base64 (Sha256), rationals of \<open>math/big\<close> (Decimal), \<open>encoding/csv\<close> (CopyText), \<open>net.ParseCIDR\<close>
  (Hba).

  \<^bold>\<open>Text.\<close> Scanner holds the byte scanners past strings, quoted names and comments; Statements the
  helpers every handler cuts statements with; Splitter \<open>splitStatements\<close>, the dollar tags and the
  predicates that route a statement. That \<open>sqlStr\<close> of any text stays inside one statement is what keeps
  a bound parameter data. Values is \<open>core.Value\<close> and its readings.

  \<^bold>\<open>Wire.\<close> WireFormat is \<open>wire.go\<close>, the body reader and the message builders, with round trips for frames,
  Parse and Bind. Sha256, Scram and Hba are authentication; Login composes them into \<open>handshake\<close> and the
  cancel registry of \<open>cancel.go\<close>: who gets a session, that a nonce is not accepted twice, whom a cancel
  request reaches.

  \<^bold>\<open>Session.\<close> Session is the message loop of \<open>extended.go\<close>, \<open>postgres.go\<close> and \<open>multistatement.go\<close> with its
  state (transaction status, savepoints, prepared statements, portals); the engine and the statement
  handlers are the fields of the record \<open>handlers\<close>, called in the order of the source. SessionFacts and
  SessionProps hold its contracts: one ReadyForQuery per request, one error per cycle, an aborted
  transaction, all-or-nothing batches, pages of a portal. Utility is SHOW, SET and search_path.

  \<^bold>\<open>Shared state.\<close> LockService is the contract of a lock manager; AdvisoryLocks is \<open>advisory.go\<close> and
  interprets it: mutual exclusion over every interleaving, no lost wake-up, refinement of plain
  counts. Notify is \<open>notify.go\<close>: each listener gets each notification once and in order. Cluster is
  \<open>engine/cluster.go\<close>: a connected database stays open, oid bands are disjoint. Sequences is
  \<open>sequences.go\<close> over NoCaseTable.

  \<^bold>\<open>Roles.\<close> RoleTables is the four internal tables and the queries on them; Privileges the check of a
  statement; Grants, RoleDDL and SessionUser the statements that change them. RowSecurity is the
  policies of \<open>rls.go\<close> and the filter they give a role; RowRewrite how reads, writes and upserts are
  rewritten and checked with it.

  \<^bold>\<open>Values.\<close> Decimal is \<open>engine/decimal.go\<close> (exact text, order, aggregates), Ranges \<open>engine/ranges.go\<close> against
  sets of points, CopyText \<open>copy.go\<close> with both formats in both directions.

  \<^bold>\<open>Interfaces.\<close> Prelude declares \<open>invariant_system\<close> and \<open>codec\<close>, LockService and Decimal their own; each is
  interpreted on the definitions of the components that provide it.

  \<^bold>\<open>Loops.\<close> Every loop of the source is a structural recursion or a \<open>function\<close> with a measure, so it is
  total; the unbounded division loops of \<open>decimalDigits\<close> are \<open>partial_function (option)\<close> and proved to
  return. Where the program waits, a step relation says what the other sessions may do.

  \<^bold>\<open>Defects.\<close> Where the code does not do what it means to, the model keeps what it does and a lemma shows
  it on an input: the manifest lists these.

  \<^bold>\<open>Not modelled.\<close> The engine's catalog views, schema rewriting and \<open>sqlite.go\<close> are SQL text handed to
  SQLite, which is third-party code; ALTER TABLE, enums and comments read and rebuild SQLite's own
  schema. Sockets, TLS, flags and logging are I/O.
\<close>

end
